(* ===== verification/Vakya_Prelude.thy ===== *)
theory Vakya_Prelude
  imports Main "HOL-Library.Word" "HOL-Library.Code_Target_Nat"
begin

text \<open>
  Shared vocabulary of the development.

  The types name what the Rust sources use: \<open>byte\<close> is \<open>u8\<close>, \<open>u64\<close> is a 64-bit word,
  \<open>usize\<close> values (lengths and positions in slices) are natural numbers with the bound of
  a 64-bit target written out by \<open>USIZE_MAX\<close>, and \<open>result\<close> is \<open>Result\<close> with
  \<open>and_then\<close> for the \<open>?\<close> operator. The checked and saturating operations of the Rust
  standard library are defined here once, each with the fact that reads it on natural
  numbers, so that the component proofs never reason about wrap-around themselves.
\<close>

section \<open>Types\<close>

type_synonym byte = "8 word"
type_synonym bytes = "byte list"
type_synonym u64 = "64 word"
type_synonym usize = nat

datatype ('a, 'e) result = Ok 'a | Err 'e

abbreviation USIZE_MAX :: nat where
  "USIZE_MAX \<equiv> 18446744073709551615"

named_theorems vakya_u64 \<open>facts that read 64-bit operations on natural numbers\<close>
named_theorems vakya_defs \<open>operations of the model that proofs unfold\<close>

section \<open>Results\<close>

primrec and_then :: "('a, 'e) result \<Rightarrow> ('a \<Rightarrow> ('b, 'e) result) \<Rightarrow> ('b, 'e) result" where
  "and_then (Ok x) f = f x"
| "and_then (Err e) f = Err e"

primrec map_err :: "('e \<Rightarrow> 'd) \<Rightarrow> ('a, 'e) result \<Rightarrow> ('a, 'd) result" where
  "map_err f (Ok x) = Ok x"
| "map_err f (Err e) = Err (f e)"

primrec is_ok :: "('a, 'e) result \<Rightarrow> bool" where
  "is_ok (Ok x) = True"
| "is_ok (Err e) = False"

definition ok_or :: "'e \<Rightarrow> 'a option \<Rightarrow> ('a, 'e) result" where
  "ok_or e v = (case v of None \<Rightarrow> Err e | Some x \<Rightarrow> Ok x)"

lemma ok_or_simps [simp]: "ok_or e None = Err e" "ok_or e (Some x) = Ok x"
  by (simp_all add: ok_or_def)

lemma and_then_Ok_iff [simp]:
  "and_then r f = Ok y \<longleftrightarrow> (\<exists>x. r = Ok x \<and> f x = Ok y)"
  by (cases r) auto

lemma and_then_Err_iff:
  "and_then r f = Err e \<longleftrightarrow> r = Err e \<or> (\<exists>x. r = Ok x \<and> f x = Err e)"
  by (cases r) auto

lemma ok_or_Ok_iff [simp]: "ok_or e v = Ok x \<longleftrightarrow> v = Some x"
  by (cases v) auto

lemma ok_or_Err_iff [simp]: "ok_or e v = Err d \<longleftrightarrow> v = None \<and> d = e"
  by (cases v) auto

lemma map_err_Ok_iff [simp]: "map_err f r = Ok x \<longleftrightarrow> r = Ok x"
  by (cases r) auto

lemma map_err_Err_iff: "map_err f r = Err d \<longleftrightarrow> (\<exists>e. r = Err e \<and> d = f e)"
  by (cases r) auto

lemma and_then_cong [fundef_cong]:
  "r = r' \<Longrightarrow> (\<And>x. r' = Ok x \<Longrightarrow> f x = f' x) \<Longrightarrow> and_then r f = and_then r' f'"
  by (cases r') auto

lemma is_ok_iff: "is_ok r \<longleftrightarrow> (\<exists>x. r = Ok x)"
  by (cases r) auto

section \<open>64-bit operations of the standard library\<close>

definition u64_try_from :: "usize \<Rightarrow> u64 option" where
  "u64_try_from n = (if n < 2 ^ 64 then Some (word_of_nat n) else None)"

definition usize_try_from :: "u64 \<Rightarrow> usize option" where
  "usize_try_from w = (if unat w \<le> USIZE_MAX then Some (unat w) else None)"

definition checked_add :: "u64 \<Rightarrow> u64 \<Rightarrow> u64 option" where
  "checked_add a b = (if unat a + unat b < 2 ^ 64 then Some (a + b) else None)"

definition checked_mul :: "u64 \<Rightarrow> u64 \<Rightarrow> u64 option" where
  "checked_mul a b = (if unat a * unat b < 2 ^ 64 then Some (a * b) else None)"

text \<open>\<open>a.checked_mul(b).and_then(|a| a.checked_add(d))\<close>, one step of a radix parser.\<close>

definition checked_mul_add :: "u64 \<Rightarrow> u64 \<Rightarrow> u64 \<Rightarrow> u64 option" where
  "checked_mul_add a b d =
     (case checked_mul a b of None \<Rightarrow> None | Some x \<Rightarrow> checked_add x d)"

definition checked_sub :: "u64 \<Rightarrow> u64 \<Rightarrow> u64 option" where
  "checked_sub a b = (if b \<le> a then Some (a - b) else None)"

definition saturating_sub :: "u64 \<Rightarrow> u64 \<Rightarrow> u64" where
  "saturating_sub a b = (if b \<le> a then a - b else 0)"

definition saturating_add :: "u64 \<Rightarrow> u64 \<Rightarrow> u64" where
  "saturating_add a b = (if unat a + unat b < 2 ^ 64 then a + b else - 1)"

definition checked_add_usize :: "usize \<Rightarrow> usize \<Rightarrow> usize option" where
  "checked_add_usize a b = (if a + b \<le> USIZE_MAX then Some (a + b) else None)"

lemma unat_u64_bound: "unat (w :: u64) < 18446744073709551616"
  using unsigned_less [of w, where ?'a = nat] by simp

lemma unat_of_usize [vakya_u64]: "n < 18446744073709551616 \<Longrightarrow> unat (word_of_nat n :: u64) = n"
  by (simp add: unat_of_nat take_bit_nat_eq_self)

lemma u64_try_from_Some [vakya_u64]: "u64_try_from n = Some w \<longleftrightarrow> unat w = n"
  using unat_of_usize [of n] unat_u64_bound [of w]
  by (auto simp: u64_try_from_def)

lemma usize_try_from_Some [simp]: "usize_try_from w = Some (unat w)"
  using unat_u64_bound [of w] by (simp add: usize_try_from_def)

lemma checked_add_Some [vakya_u64]:
  "checked_add a b = Some c \<longleftrightarrow> unat c = unat a + unat b"
proof -
  have "unat (a + b) = unat a + unat b" if "unat a + unat b < 2 ^ 64"
    using that by (simp add: unat_word_ariths)
  then show ?thesis
    using unat_u64_bound [of c] by (auto simp: checked_add_def word_unat_eq_iff)
qed

lemma checked_mul_Some [vakya_u64]:
  "checked_mul a b = Some c \<longleftrightarrow> unat c = unat a * unat b"
proof -
  have "unat (a * b) = unat a * unat b" if "unat a * unat b < 2 ^ 64"
    using that by (simp add: unat_word_ariths)
  then show ?thesis
    using unat_u64_bound [of c] by (auto simp: checked_mul_def word_unat_eq_iff)
qed

lemma checked_mul_add_eq:
  "checked_mul_add a b d =
     (let v = unat a * unat b + unat d in if v < 2 ^ 64 then Some (word_of_nat v) else None)"
proof (cases "unat a * unat b < 2 ^ 64")
  case True
  then have "unat (a * b) = unat a * unat b" by (simp add: unat_word_ariths)
  with True show ?thesis
    by (simp add: checked_mul_add_def checked_mul_def checked_add_def Let_def)
next
  case False
  then show ?thesis by (simp add: checked_mul_add_def checked_mul_def Let_def)
qed

text \<open>A radix parser that stops at the first overflow reads the value of its digits.\<close>

fun radix_fold :: "u64 \<Rightarrow> ('d \<Rightarrow> u64) \<Rightarrow> u64 \<Rightarrow> 'd list \<Rightarrow> u64 option" where
  "radix_fold base digit n [] = Some n"
| "radix_fold base digit n (d # ds) =
     (case checked_mul_add n base (digit d) of
        None \<Rightarrow> None | Some n' \<Rightarrow> radix_fold base digit n' ds)"

definition radix_value :: "nat \<Rightarrow> ('d \<Rightarrow> nat) \<Rightarrow> nat \<Rightarrow> 'd list \<Rightarrow> nat" where
  "radix_value base digit n ds = foldl (\<lambda>n d. n * base + digit d) n ds"

lemma radix_value_simps [simp]:
  "radix_value base digit n [] = n"
  "radix_value base digit n (d # ds) = radix_value base digit (n * base + digit d) ds"
  by (simp_all add: radix_value_def)

lemma radix_value_append:
  "radix_value base digit n (xs @ ys) = radix_value base digit (radix_value base digit n xs) ys"
  by (simp add: radix_value_def)

lemma radix_value_mono: "0 < base \<Longrightarrow> n \<le> radix_value base digit n ds"
proof (induction ds arbitrary: n)
  case (Cons d ds)
  have "n \<le> n * base + digit d" using Cons.prems by (cases base) auto
  also have "\<dots> \<le> radix_value base digit (n * base + digit d) ds" using Cons by blast
  finally show ?case by simp
qed simp

lemma radix_fold_eq:
  assumes "0 < unat base"
  shows "radix_fold base digit n ds =
     (let v = radix_value (unat base) (\<lambda>d. unat (digit d)) (unat n) ds in
      if v < 2 ^ 64 then Some (word_of_nat v) else None)"
proof (induction ds arbitrary: n)
  case Nil
  then show ?case using unat_u64_bound [of n] by simp
next
  case (Cons d ds)
  let ?v = "unat n * unat base + unat (digit d)"
  show ?case
  proof (cases "?v < 2 ^ 64")
    case True
    then have "unat (word_of_nat ?v :: u64) = ?v" by (intro unat_of_usize) simp
    with True show ?thesis
      using Cons [of "word_of_nat ?v"] by (simp add: checked_mul_add_eq Let_def)
  next
    case False
    then have "2 ^ 64 \<le> ?v" by simp
    also have "\<dots> \<le> radix_value (unat base) (\<lambda>d. unat (digit d)) ?v ds"
      by (rule radix_value_mono [OF assms])
    finally show ?thesis using False by (simp add: checked_mul_add_eq Let_def)
  qed
qed

lemma unat_u64_sub [vakya_u64]: "(b :: u64) \<le> a \<Longrightarrow> unat (a - b) = unat a - unat b"
  by (rule unat_sub)

lemma checked_sub_Some [vakya_u64]:
  "checked_sub a b = Some c \<longleftrightarrow> unat a = unat b + unat c"
proof (cases "b \<le> a")
  case True
  then show ?thesis
    using unat_u64_sub [OF True] word_le_nat_alt [of b a]
    by (auto simp: checked_sub_def word_unat_eq_iff)
next
  case False
  then show ?thesis
    by (auto simp: checked_sub_def word_le_nat_alt)
qed

lemma unat_saturating_sub [vakya_u64]: "unat (saturating_sub a b) = unat a - unat b"
  using unat_u64_sub [of b a] by (auto simp: saturating_sub_def word_le_nat_alt)

lemma unat_saturating_add [vakya_u64]:
  "unat (saturating_add a b) = min (unat a + unat b) USIZE_MAX"
proof (cases "unat a + unat b < 2 ^ 64")
  case True
  then show ?thesis by (simp add: saturating_add_def unat_word_ariths)
next
  case False
  then show ?thesis by (simp add: saturating_add_def unsigned_minus_1_eq_mask mask_eq_exp_minus_1)
qed

lemma unat_min_u64 [vakya_u64]: "unat (min a b :: u64) = min (unat a) (unat b)"
  by (simp add: min_def word_le_nat_alt)

section \<open>Bytes\<close>

abbreviation HTAB :: byte where "HTAB \<equiv> 9"
abbreviation LF :: byte where "LF \<equiv> 10"
abbreviation CR :: byte where "CR \<equiv> 13"
abbreviation SP :: byte where "SP \<equiv> 32"
abbreviation DQUOTE :: byte where "DQUOTE \<equiv> 34"
abbreviation COMMA :: byte where "COMMA \<equiv> 44"
abbreviation DASH :: byte where "DASH \<equiv> 45"
abbreviation SLASH :: byte where "SLASH \<equiv> 47"
abbreviation SEMICOLON :: byte where "SEMICOLON \<equiv> 59"
abbreviation EQUALS :: byte where "EQUALS \<equiv> 61"
abbreviation AT_SIGN :: byte where "AT_SIGN \<equiv> 64"
abbreviation BACKSLASH :: byte where "BACKSLASH \<equiv> 92"

text \<open>A byte-string literal of the sources, \<open>b"..."\<close>.\<close>

definition bstr :: "string \<Rightarrow> bytes" where
  "bstr s = map of_char s"

definition is_ascii_digit :: "byte \<Rightarrow> bool" where
  "is_ascii_digit b \<longleftrightarrow> 48 \<le> b \<and> b \<le> 57"

definition is_ascii_hexdigit :: "byte \<Rightarrow> bool" where
  "is_ascii_hexdigit b \<longleftrightarrow> 48 \<le> b \<and> b \<le> 57 \<or> 97 \<le> b \<and> b \<le> 102 \<or> 65 \<le> b \<and> b \<le> 70"

definition is_ascii_alphanumeric :: "byte \<Rightarrow> bool" where
  "is_ascii_alphanumeric b \<longleftrightarrow> 48 \<le> b \<and> b \<le> 57 \<or> 97 \<le> b \<and> b \<le> 122 \<or> 65 \<le> b \<and> b \<le> 90"

definition to_ascii_lowercase :: "byte \<Rightarrow> byte" where
  "to_ascii_lowercase b = (if 65 \<le> b \<and> b \<le> 90 then b + 32 else b)"

definition to_ascii_uppercase :: "byte \<Rightarrow> byte" where
  "to_ascii_uppercase b = (if 97 \<le> b \<and> b \<le> 122 then b - 32 else b)"

definition eq_ignore_ascii_case :: "bytes \<Rightarrow> bytes \<Rightarrow> bool" where
  "eq_ignore_ascii_case xs ys \<longleftrightarrow> map to_ascii_lowercase xs = map to_ascii_lowercase ys"

text \<open>\<open>slice::first\<close>.\<close>

definition first :: "'a list \<Rightarrow> 'a option" where
  "first xs = (case xs of [] \<Rightarrow> None | x # _ \<Rightarrow> Some x)"

lemma first_simps [simp]: "first [] = None" "first (x # xs) = Some x"
  by (simp_all add: first_def)

lemma first_Some_iff: "first xs = Some x \<longleftrightarrow> (\<exists>ys. xs = x # ys)"
  by (cases xs) auto

text \<open>\<open>slice::position\<close>: the index of the first byte that satisfies the predicate.\<close>

fun position :: "('a \<Rightarrow> bool) \<Rightarrow> 'a list \<Rightarrow> usize option" where
  "position p [] = None"
| "position p (x # xs) = (if p x then Some 0 else map_option Suc (position p xs))"

lemma position_None: "position p xs = None \<longleftrightarrow> (\<forall>x \<in> set xs. \<not> p x)"
  by (induction xs) auto

lemma position_Some:
  "position p xs = Some i \<longleftrightarrow> i < length xs \<and> p (xs ! i) \<and> (\<forall>x \<in> set (take i xs). \<not> p x)"
  by (induction xs arbitrary: i) (auto simp: nth_Cons' take_Cons' gr0_conv_Suc)

lemma position_append_first:
  "\<forall>x \<in> set xs. \<not> p x \<Longrightarrow> p y \<Longrightarrow> position p (xs @ y # ys) = Some (length xs)"
  by (induction xs) auto

text \<open>\<open>slice::split\<close> on a separator: \<open>n\<close> separators give \<open>n + 1\<close> pieces.\<close>

fun split_on :: "('a \<Rightarrow> bool) \<Rightarrow> 'a list \<Rightarrow> 'a list list" where
  "split_on p [] = [[]]"
| "split_on p (x # xs) =
     (if p x then [] # split_on p xs
      else (case split_on p xs of [] \<Rightarrow> [[x]] | y # ys \<Rightarrow> (x # y) # ys))"

lemma split_on_not_Nil [simp]: "split_on p xs \<noteq> []"
  by (induction xs) (auto split: list.splits)

lemma split_on_pieces: "ys \<in> set (split_on p xs) \<Longrightarrow> y \<in> set ys \<Longrightarrow> \<not> p y \<and> y \<in> set xs"
proof (induction xs arbitrary: ys y)
  case Nil
  then show ?case by simp
next
  case (Cons x xs)
  then show ?case
    by (cases "split_on p xs") (fastforce split: if_splits)+
qed

section \<open>Lists\<close>

lemma take_Suc_nth_append: "i < length xs \<Longrightarrow> take (Suc i) xs = take i xs @ [xs ! i]"
  by (rule take_Suc_conv_app_nth)

lemma drop_length_diff: "drop (length xs - k) xs = [] \<longleftrightarrow> k = 0 \<or> xs = []"
  by (cases xs) auto

section \<open>Scanners that are called again when more input arrives\<close>

text \<open>
  Several routines search a buffer for a terminator, remember how far they came and are
  called again when bytes were appended. \<open>rescan\<close> is such a sequence of calls. The locale
  states what makes the remembered position sound and shows that the last call then
  answers what one call on the whole buffer answers.
\<close>

fun rescan :: "('s \<Rightarrow> bytes \<Rightarrow> 'r \<times> 's) \<Rightarrow> 's \<Rightarrow> bytes \<Rightarrow> bytes list \<Rightarrow> 'r \<times> 's" where
  "rescan scan s buf [] = scan s buf"
| "rescan scan s buf (f # fs) = rescan scan (snd (scan s buf)) (buf @ f) fs"

locale incremental_scan =
  fixes scan :: "'s \<Rightarrow> bytes \<Rightarrow> 'r \<times> 's" and start :: 's and ok :: "'s \<Rightarrow> bytes \<Rightarrow> bool"
  assumes start_ok: "ok start buf"
    and agrees: "ok s buf \<Longrightarrow> fst (scan s buf) = fst (scan start buf)"
    and keeps: "ok s buf \<Longrightarrow> ok (snd (scan s buf)) (buf @ extra)"
begin

lemma rescan_from: "ok s buf \<Longrightarrow> fst (rescan scan s buf fs) = fst (scan start (buf @ concat fs))"
proof (induction fs arbitrary: s buf)
  case Nil
  then show ?case by (simp add: agrees)
next
  case (Cons f fs)
  from Cons.IH [OF keeps [OF Cons.prems, of f]] show ?case by simp
qed

lemma rescan_start: "fst (rescan scan start [] fs) = fst (scan start (concat fs))"
  using rescan_from [OF start_ok, of "[]" fs] by simp

end

section \<open>Invariants of step relations\<close>

text \<open>A property that every step keeps holds in every state reached from one where it holds.\<close>

locale step_invariant =
  fixes step :: "'s \<Rightarrow> 's \<Rightarrow> bool" and inv :: "'s \<Rightarrow> bool"
  assumes keeps: "step x y \<Longrightarrow> inv x \<Longrightarrow> inv y"
begin

lemma keeps_star: "step\<^sup>*\<^sup>* x y \<Longrightarrow> inv x \<Longrightarrow> inv y"
  by (induction rule: rtranclp_induct) (auto intro: keeps)

end

end
