(* ===== verification/H1_Syntax.thy ===== *)
theory H1_Syntax
  imports Vakya_Prelude
begin

text \<open>
  The lexical helpers of HTTP/1, from \<open>src/src/proto/h1/syntax.rs\<close>: optional
  whitespace, token characters and quoted strings. The two loops of \<open>trim_ows\<close> shrink a
  slice from its two ends; \<open>trim_ows_spec\<close> gives their result as the longest core that
  neither starts nor ends with whitespace.
\<close>

section \<open>Optional whitespace\<close>

definition is_ows :: "byte \<Rightarrow> bool" where
  "is_ows b \<longleftrightarrow> b = SP \<or> b = HTAB"

fun trim_ows_start :: "bytes \<Rightarrow> bytes" where
  "trim_ows_start [] = []"
| "trim_ows_start (b # v) = (if is_ows b then trim_ows_start v else b # v)"

function trim_end :: "bytes \<Rightarrow> bytes" where
  "trim_end v = (if v \<noteq> [] \<and> is_ows (last v) then trim_end (take (length v - 1) v) else v)"
  by pat_completeness auto
termination
  by (relation "measure length") auto

declare trim_end.simps [simp del]

definition trim_ows :: "bytes \<Rightarrow> bytes" where
  "trim_ows v = trim_end (trim_ows_start v)"

section \<open>Token characters\<close>

definition is_tchar :: "byte \<Rightarrow> bool" where
  "is_tchar b \<longleftrightarrow> is_ascii_alphanumeric b
     \<or> b \<in> {33, 35, 36, 37, 38, 39, 42, 43, 45, 46, 94, 95, 96, 124, 126}"

section \<open>Quoted strings\<close>

text \<open>
  The loop over \<open>input.iter().enumerate().skip(1)\<close>: \<open>index\<close> is the position of the
  first byte of the list in the whole input.
\<close>

fun quoted_string_loop :: "usize \<Rightarrow> bool \<Rightarrow> bytes \<Rightarrow> usize option" where
  "quoted_string_loop index escaped [] = None"
| "quoted_string_loop index escaped (b # rest) =
     (if escaped then
        (if b = CR \<or> b = LF then None else quoted_string_loop (Suc index) False rest)
      else if b = BACKSLASH then quoted_string_loop (Suc index) True rest
      else if b = DQUOTE then Some (index + 1)
      else if b = CR \<or> b = LF \<or> b = 127 \<or> (b < 32 \<and> b \<noteq> HTAB) then None
      else quoted_string_loop (Suc index) False rest)"

definition quoted_string_len :: "bytes \<Rightarrow> usize option" where
  "quoted_string_len input = quoted_string_loop 1 False (drop 1 input)"

section \<open>Lemmas\<close>

lemma trim_ows_start_dropWhile: "trim_ows_start v = dropWhile is_ows v"
  by (induction v) auto

lemma trim_end_dropWhile: "trim_end v = rev (dropWhile is_ows (rev v))"
proof (induction v rule: rev_induct)
  case Nil
  then show ?case by (simp add: trim_end.simps)
next
  case (snoc b v)
  then show ?case by (simp add: trim_end.simps [of "v @ [b]"])
qed

lemma trim_ows_dropWhile: "trim_ows v = rev (dropWhile is_ows (rev (dropWhile is_ows v)))"
  by (simp add: trim_ows_def trim_ows_start_dropWhile trim_end_dropWhile)

lemma length_trim_end [simp]: "length (trim_end v) \<le> length v"
  by (simp add: trim_end_dropWhile) (metis length_dropWhile_le length_rev)

lemma length_trim_ows [simp]: "length (trim_ows v) \<le> length v"
  using length_trim_end [of "trim_ows_start v"] length_dropWhile_le [of is_ows v]
  by (simp add: trim_ows_def trim_ows_start_dropWhile del: length_trim_end)

lemma length_trim_drop: "length (trim_ows (drop n v)) \<le> length v - n"
  using length_trim_ows [of "drop n v"] by simp

lemma trim_ows_Nil [simp]: "trim_ows [] = []"
  by (simp add: trim_ows_dropWhile)

lemma trim_end_no_ows: "\<forall>b \<in> set v. \<not> is_ows b \<Longrightarrow> trim_end v = v"
proof -
  assume "\<forall>b \<in> set v. \<not> is_ows b"
  then have "dropWhile is_ows (rev v) = rev v"
    by (cases "rev v") (auto simp: dropWhile_eq_self_iff dest: hd_in_set)
  then show ?thesis by (simp add: trim_end_dropWhile)
qed

lemma trim_ows_no_ows: "\<forall>b \<in> set v. \<not> is_ows b \<Longrightarrow> trim_ows v = v"
  by (cases v) (simp_all add: trim_ows_def trim_end_no_ows)

lemma is_tchar_not_ows: "is_tchar b \<Longrightarrow> \<not> is_ows b"
  by (auto simp: is_tchar_def is_ows_def is_ascii_alphanumeric_def)

lemma quoted_string_loop_bounds:
  "quoted_string_loop i e v = Some n \<Longrightarrow> i < n \<and> n \<le> i + length v"
  by (induction i e v rule: quoted_string_loop.induct) (fastforce split: if_splits)+

lemma quoted_string_len_bounds:
  "quoted_string_len v = Some n \<Longrightarrow> 2 \<le> n \<and> n \<le> length v"
  using quoted_string_loop_bounds [of 1 False "drop 1 v" n]
  by (cases v) (auto simp: quoted_string_len_def)

text \<open>What \<open>trim_ows\<close> promises: the input is the result between two runs of whitespace.\<close>

lemma trim_ows_spec:
  "\<exists>l r. v = l @ trim_ows v @ r \<and> (\<forall>b \<in> set l \<union> set r. is_ows b)
     \<and> (trim_ows v \<noteq> [] \<longrightarrow> \<not> is_ows (hd (trim_ows v)) \<and> \<not> is_ows (last (trim_ows v)))"
proof -
  let ?m = "dropWhile is_ows v"
  have v: "v = takeWhile is_ows v @ ?m" by simp
  have m: "?m = trim_ows v @ rev (takeWhile is_ows (rev ?m))"
    by (metis rev_append rev_rev_ident takeWhile_dropWhile_id trim_ows_dropWhile)
  have "\<not> is_ows (hd (trim_ows v))" if "trim_ows v \<noteq> []"
    using that m by (metis append_is_Nil_conv hd_append hd_dropWhile)
  moreover have "\<not> is_ows (last (trim_ows v))" if "trim_ows v \<noteq> []"
    using that hd_dropWhile [of is_ows "rev ?m"] by (simp add: trim_ows_dropWhile last_rev)
  moreover have "\<forall>b \<in> set (takeWhile is_ows v) \<union> set (rev (takeWhile is_ows (rev ?m))). is_ows b"
    by (auto dest: set_takeWhileD)
  ultimately show ?thesis using v m by metis
qed

end
