(* ===== verification/Vakya_Errors.thy ===== *)
theory Vakya_Errors
  imports Vakya_Prelude
begin

text \<open>
  The public error type of \<open>src/src/error.rs\<close> and the private error enums of the HTTP/1
  modules that convert into it: \<open>DecodeError\<close> (\<open>decode.rs\<close>), \<open>HeadError\<close>
  (\<open>head.rs\<close>) and \<open>EncodeError\<close> (\<open>encode.rs\<close>). The conversions are the sources'
  \<open>From\<close> implementations: each chooses an \<open>ErrorKind\<close>, a static context and an
  optional \<open>ErrorDetail\<close>, and keeps the private error as the source.

  An \<open>io::Error\<close> is represented by what the code observes of it: its kind, the phase of
  a \<open>DeadlineElapsed\<close> payload, whether the payload is a Rustls error, and whether the
  runtime classifies it as a cancellation.
\<close>

section \<open>Public classification\<close>

datatype error_kind =
    KIo | KTls | KInvalidMessage | KLocalMessage | KBody | KService | KBusy | KLimit
  | KTimeout | KUnsupported | KClosed | KCanceled | KUpgrade | KInternal

datatype busy_reason = RequestAdmission | ReservationWaiter | InformationalWrite

datatype limit_kind =
    HeadBytes | HeaderCount | HeadMapCapacity | ChunkLineBytes | ChunkExtensionBytes
  | TrailerBytes | TrailerCount | TrailerMapCapacity | RetainedInput
  | InformationalResponses | DrainPayload | DrainWire

datatype timeout_phase = PTransport | PHead | PBodyProgress | PWriteProgress | PDrain | PShutdown

datatype error_detail =
    DBusy busy_reason | IncomingLimit limit_kind | OutgoingLimit limit_kind
  | DTimeout timeout_phase | DAllocation | DriverLost

section \<open>Private error enums\<close>

datatype decode_limit =
    DL_ChunkLineBytes | DL_ChunkExtensionBytes | DL_TrailerBytes | DL_Trailers | DL_TrailerMap

datatype decode_error =
    UnexpectedEof | InvalidChunkSize | InvalidChunkExtension | InvalidChunkTerminator
  | InvalidTrailer | ForbiddenTrailer | DLimit decode_limit

datatype head_limit = HL_Bytes | HL_Headers | HL_HeaderMap

datatype head_error =
    InvalidStartLine | InvalidHeader | UnsupportedVersion | InvalidMethod | InvalidTarget
  | InvalidStatus | MissingHost | InvalidHost | InvalidTargetForm | InvalidContentLength
  | AmbiguousMessageLength | InvalidTransferEncoding | UnsupportedTransferCoding
  | InvalidConnection | InvalidExpectation | InvalidUpgrade | HLimit head_limit

datatype encode_error =
    InvalidHead | InvalidFraming | LengthMismatch | BodyForbidden | TrailersForbidden
  | FrameAfterEnd | Unsupported | ELimit limit_kind | EAllocation

section \<open>Errors and their sources\<close>

datatype io_error_kind = TimedOut | OutOfMemory | WriteZero | InvalidData | InvalidInput | Interrupted | OtherIo

record io_error =
  io_kind :: io_error_kind
  io_deadline :: "timeout_phase option"
  io_rustls :: bool
  io_canceled :: bool

datatype source_error =
    FromDecode decode_error | FromHead head_error | FromEncode encode_error | FromIo io_error
  | FromApplication string

datatype source = Owned source_error | Shared source_error

record error =
  err_kind :: error_kind
  err_context :: string
  err_detail :: "error_detail option"
  err_source :: "source option"

definition error_new :: "error_kind \<Rightarrow> string \<Rightarrow> error" where
  "error_new k c = \<lparr>err_kind = k, err_context = c, err_detail = None, err_source = None\<rparr>"

definition with_source :: "error_kind \<Rightarrow> string \<Rightarrow> source_error \<Rightarrow> error" where
  "with_source k c s = (error_new k c)\<lparr>err_source := Some (Owned s)\<rparr>"

definition classified :: "error \<Rightarrow> error_detail option \<Rightarrow> error" where
  "classified e d = e\<lparr>err_detail := d\<rparr>"

definition with_detail :: "error \<Rightarrow> error_detail \<Rightarrow> error" where
  "with_detail e d = classified e (Some d)"

fun source_payload :: "source \<Rightarrow> source_error" where
  "source_payload (Owned s) = s"
| "source_payload (Shared s) = s"

text \<open>\<open>Error::split\<close>: both halves share the original source.\<close>

definition error_split :: "error \<Rightarrow> error \<times> error" where
  "error_split e =
     (let s = map_option source_payload (err_source e) in
      (\<lparr>err_kind = err_kind e, err_context = err_context e, err_detail = err_detail e, err_source = map_option Shared s\<rparr>,
       \<lparr>err_kind = err_kind e, err_context = err_context e, err_detail = err_detail e, err_source = map_option Shared s\<rparr>))"

text \<open>\<open>Error::from_io\<close> with the \<open>tls\<close> and \<open>http1\<close> features enabled.\<close>

definition error_from_io :: "io_error \<Rightarrow> error" where
  "error_from_io s =
     (if io_rustls s then with_source KTls ''TLS protocol operation failed'' (FromIo s)
      else
        (let k = (if io_canceled s then KCanceled
                  else if io_kind s = TimedOut then KTimeout
                  else KIo);
             d = (if k = KTimeout then
                    Some (DTimeout (case io_deadline s of Some p \<Rightarrow> p | None \<Rightarrow> PTransport))
                  else if io_kind s = OutOfMemory then Some DAllocation
                  else None)
         in classified (with_source k ''HTTP I/O operation failed'' (FromIo s)) d))"

definition is_canceled :: "error \<Rightarrow> bool" where
  "is_canceled e \<longleftrightarrow> err_kind e = KCanceled"

section \<open>Conversions of the private enums\<close>

definition decode_limit_kind :: "decode_limit \<Rightarrow> limit_kind" where
  "decode_limit_kind l =
     (case l of
        DL_ChunkLineBytes \<Rightarrow> ChunkLineBytes
      | DL_ChunkExtensionBytes \<Rightarrow> ChunkExtensionBytes
      | DL_TrailerBytes \<Rightarrow> TrailerBytes
      | DL_Trailers \<Rightarrow> TrailerCount
      | DL_TrailerMap \<Rightarrow> TrailerMapCapacity)"

definition error_from_decode :: "decode_error \<Rightarrow> error" where
  "error_from_decode e =
     classified
       (with_source (case e of DLimit _ \<Rightarrow> KLimit | _ \<Rightarrow> KInvalidMessage)
          ''received body framing failed'' (FromDecode e))
       (case e of DLimit l \<Rightarrow> Some (IncomingLimit (decode_limit_kind l)) | _ \<Rightarrow> None)"

definition head_limit_kind :: "head_limit \<Rightarrow> limit_kind" where
  "head_limit_kind l =
     (case l of HL_Bytes \<Rightarrow> HeadBytes | HL_Headers \<Rightarrow> HeaderCount | HL_HeaderMap \<Rightarrow> HeadMapCapacity)"

definition error_from_head :: "head_error \<Rightarrow> error" where
  "error_from_head e =
     classified
       (with_source
          (case e of
             HLimit _ \<Rightarrow> KLimit
           | UnsupportedVersion \<Rightarrow> KUnsupported
           | UnsupportedTransferCoding \<Rightarrow> KUnsupported
           | _ \<Rightarrow> KInvalidMessage)
          ''received HTTP head failed validation'' (FromHead e))
       (case e of HLimit l \<Rightarrow> Some (IncomingLimit (head_limit_kind l)) | _ \<Rightarrow> None)"

definition error_from_encode :: "encode_error \<Rightarrow> error" where
  "error_from_encode e =
     classified
       (with_source
          (case e of
             ELimit _ \<Rightarrow> KLimit
           | EAllocation \<Rightarrow> KLimit
           | Unsupported \<Rightarrow> KUnsupported
           | _ \<Rightarrow> KLocalMessage)
          ''outgoing HTTP message cannot be encoded safely'' (FromEncode e))
       (case e of
          ELimit l \<Rightarrow> Some (OutgoingLimit l)
        | EAllocation \<Rightarrow> Some DAllocation
        | _ \<Rightarrow> None)"

lemmas error_defs [vakya_defs] =
  error_new_def with_source_def classified_def with_detail_def

section \<open>Lemmas\<close>

lemma kind_with_source [simp]: "err_kind (with_source k c s) = k"
  by (simp add: error_defs)

lemma kind_error_new [simp]: "err_kind (error_new k c) = k"
  by (simp add: error_defs)

lemma kind_classified [simp]: "err_kind (classified e d) = err_kind e"
  by (simp add: error_defs)

lemma detail_classified [simp]: "err_detail (classified e d) = d"
  by (simp add: error_defs)

lemma source_classified [simp]: "err_source (classified e d) = err_source e"
  by (simp add: error_defs)

lemma source_with_source [simp]: "err_source (with_source k c s) = Some (Owned s)"
  by (simp add: error_defs)

lemma detail_error_new [simp]: "err_detail (error_new k c) = None"
  by (simp add: error_defs)

lemma kind_with_detail [simp]: "err_kind (with_detail e d) = err_kind e"
  by (simp add: error_defs)

lemma detail_with_detail [simp]: "err_detail (with_detail e d) = Some d"
  by (simp add: error_defs)

lemma inj_decode_limit_kind: "decode_limit_kind a = decode_limit_kind b \<Longrightarrow> a = b"
  by (cases a; cases b) (simp_all add: decode_limit_kind_def)

text \<open>A limit is the only received-framing error with a detail, and it is told apart exactly.\<close>

lemma error_from_decode_detail:
  "err_detail (error_from_decode e) = Some d \<longleftrightarrow>
     (\<exists>l. e = DLimit l \<and> d = IncomingLimit (decode_limit_kind l))"
  by (cases e) (auto simp: error_from_decode_def)

lemma error_from_decode_kind:
  "err_kind (error_from_decode e) = KLimit \<longleftrightarrow> err_detail (error_from_decode e) \<noteq> None"
  by (cases e) (auto simp: error_from_decode_def)

lemma error_split_same:
  "fst (error_split e) = snd (error_split e)
   \<and> err_kind (fst (error_split e)) = err_kind e \<and> err_detail (fst (error_split e)) = err_detail e
   \<and> map_option source_payload (err_source (fst (error_split e))) = map_option source_payload (err_source e)"
  by (cases "err_source e") (auto simp: error_split_def Let_def)

end
