(* ===== verification/Http_Api.thy ===== *)
theory Http_Api
  imports H1_Syntax Vakya_Errors
begin

text \<open>
  The third-party packages the HTTP/1 code calls, as parameters of the model. The
  \<open>http\<close> crate (header maps, methods, status codes, targets) is the record \<open>http_api\<close>;
  the \<open>httparse\<close> crate is the record \<open>httparse_api\<close>. Every definition that calls them
  takes the record as an argument, so nothing is assumed of their code; what their
  documentation promises and a theorem relies on is a named predicate
  (\<open>header_map_laws\<close>, \<open>parse_headers_law\<close>), which that theorem
  states as a hypothesis. \<open>alist_http\<close> is one concrete instance, an association list of
  fields in insertion order, on which the hypotheses are shown to hold.

  Displaying a target is the sequence of strings its formatter writes.
  Names of header fields are their normalised (lower-case) spelling; values are byte
  strings; versions, methods and status codes are the values the crate documents.
\<close>

type_synonym header_name = string
type_synonym http_method = string
type_synonym status_code = nat

datatype version = HTTP_09 | HTTP_10 | HTTP_11 | HTTP_2 | HTTP_3

record ('h, 'u) http_api =
  hm_default :: 'h
  hm_try_with_capacity :: "usize \<Rightarrow> 'h option"
  hm_append :: "'h \<Rightarrow> header_name \<Rightarrow> bytes \<Rightarrow> 'h"
  hm_insert :: "'h \<Rightarrow> header_name \<Rightarrow> bytes \<Rightarrow> 'h"
  hm_contains_key :: "'h \<Rightarrow> header_name \<Rightarrow> bool"
  hm_get_all :: "'h \<Rightarrow> header_name \<Rightarrow> bytes list"
  hm_keys :: "'h \<Rightarrow> header_name list"
  hm_iter :: "'h \<Rightarrow> (header_name \<times> bytes) list"
  header_name_from_bytes :: "bytes \<Rightarrow> header_name option"
  header_value_from_bytes :: "bytes \<Rightarrow> bytes option"
  header_value_from_str :: "bytes \<Rightarrow> bytes option"
  header_value_from_u64 :: "u64 \<Rightarrow> bytes"
  method_from_bytes :: "bytes \<Rightarrow> http_method option"
  status_from_u16 :: "nat \<Rightarrow> status_code option"
  status_is_informational :: "status_code \<Rightarrow> bool"
  status_is_success :: "status_code \<Rightarrow> bool"
  status_as_str :: "status_code \<Rightarrow> bytes"
  status_canonical_reason :: "status_code \<Rightarrow> bytes option"
  uri_from_bytes :: "bytes \<Rightarrow> 'u option"
  uri_display :: "'u \<Rightarrow> bytes list"
  uri_path :: "'u \<Rightarrow> bytes"
  uri_has_scheme :: "'u \<Rightarrow> bool"
  uri_authority :: "'u \<Rightarrow> bytes option"
  uri_has_path_and_query :: "'u \<Rightarrow> bool"
  authority_has_port :: "bytes \<Rightarrow> bool"
  authority_parse :: "bytes \<Rightarrow> bool"
  str_from_utf8 :: "bytes \<Rightarrow> bool"

section \<open>Constants of the http crate\<close>

abbreviation METHOD_CONNECT :: http_method where "METHOD_CONNECT \<equiv> ''CONNECT''"
abbreviation METHOD_HEAD :: http_method where "METHOD_HEAD \<equiv> ''HEAD''"
abbreviation METHOD_OPTIONS :: http_method where "METHOD_OPTIONS \<equiv> ''OPTIONS''"

abbreviation SWITCHING_PROTOCOLS :: status_code where "SWITCHING_PROTOCOLS \<equiv> 101"
abbreviation NO_CONTENT :: status_code where "NO_CONTENT \<equiv> 204"
abbreviation RESET_CONTENT :: status_code where "RESET_CONTENT \<equiv> 205"
abbreviation NOT_MODIFIED :: status_code where "NOT_MODIFIED \<equiv> 304"

abbreviation CONTENT_LENGTH :: header_name where "CONTENT_LENGTH \<equiv> ''content-length''"
abbreviation TRANSFER_ENCODING :: header_name where "TRANSFER_ENCODING \<equiv> ''transfer-encoding''"
abbreviation HOST :: header_name where "HOST \<equiv> ''host''"
abbreviation CONNECTION :: header_name where "CONNECTION \<equiv> ''connection''"
abbreviation TRAILER :: header_name where "TRAILER \<equiv> ''trailer''"
abbreviation TE :: header_name where "TE \<equiv> ''te''"
abbreviation UPGRADE :: header_name where "UPGRADE \<equiv> ''upgrade''"
abbreviation EXPECT :: header_name where "EXPECT \<equiv> ''expect''"
abbreviation AUTHORIZATION :: header_name where "AUTHORIZATION \<equiv> ''authorization''"
abbreviation PROXY_AUTHORIZATION :: header_name where "PROXY_AUTHORIZATION \<equiv> ''proxy-authorization''"
abbreviation PROXY_AUTHENTICATE :: header_name where "PROXY_AUTHENTICATE \<equiv> ''proxy-authenticate''"
abbreviation WWW_AUTHENTICATE :: header_name where "WWW_AUTHENTICATE \<equiv> ''www-authenticate''"
abbreviation CONTENT_ENCODING :: header_name where "CONTENT_ENCODING \<equiv> ''content-encoding''"
abbreviation CONTENT_TYPE :: header_name where "CONTENT_TYPE \<equiv> ''content-type''"
abbreviation CONTENT_RANGE :: header_name where "CONTENT_RANGE \<equiv> ''content-range''"

section \<open>What the documentation of a header map promises\<close>

definition header_map_laws :: "('h, 'u) http_api \<Rightarrow> bool" where
  "header_map_laws A \<longleftrightarrow>
     (\<forall>h k v j. hm_get_all A (hm_insert A h k v) j = (if j = k then [v] else hm_get_all A h j))
   \<and> (\<forall>h k v j. hm_get_all A (hm_append A h k v) j
        = (if j = k then hm_get_all A h j @ [v] else hm_get_all A h j))
   \<and> (\<forall>n h j. hm_try_with_capacity A n = Some h \<longrightarrow> hm_get_all A h j = [])
   \<and> (\<forall>j. hm_get_all A (hm_default A) j = [])
   \<and> (\<forall>h k. hm_contains_key A h k \<longleftrightarrow> hm_get_all A h k \<noteq> [])
   \<and> (\<forall>h k. k \<in> set (hm_keys A h) \<longleftrightarrow> hm_contains_key A h k)"

lemma header_map_lawsD:
  assumes "header_map_laws A"
  shows "hm_get_all A (hm_insert A h k v) j = (if j = k then [v] else hm_get_all A h j)"
    and "hm_get_all A (hm_append A h k v) j
          = (if j = k then hm_get_all A h j @ [v] else hm_get_all A h j)"
    and "hm_try_with_capacity A n = Some h \<Longrightarrow> hm_get_all A h j = []"
    and "hm_get_all A (hm_default A) j = []"
    and "hm_contains_key A h k \<longleftrightarrow> hm_get_all A h k \<noteq> []"
    and "k \<in> set (hm_keys A h) \<longleftrightarrow> hm_contains_key A h k"
  using assms unfolding header_map_laws_def by metis+

text \<open>The status classes of the crate.\<close>

definition status_class_laws :: "('h, 'u) http_api \<Rightarrow> bool" where
  "status_class_laws A \<longleftrightarrow>
     (\<forall>s. status_is_informational A s \<longleftrightarrow> 100 \<le> s \<and> s < 200)
   \<and> (\<forall>s. status_is_success A s \<longleftrightarrow> 200 \<le> s \<and> s < 300)"

section \<open>The httparse crate\<close>

datatype httparse_error =
    HeaderNameError | HeaderValueError | NewLineError | StatusError | TokenError
  | TooManyHeaders | VersionError

datatype 'a parse_status = Complete 'a | Partial

record raw_header =
  rh_name :: bytes
  rh_value :: bytes

record raw_request =
  rq_method :: "bytes option"
  rq_path :: "bytes option"
  rq_version :: "nat option"
  rq_headers :: "raw_header list"

record raw_response =
  rs_version :: "nat option"
  rs_code :: "nat option"
  rs_headers :: "raw_header list"

text \<open>Each parser gets the number of header slots of the workspace it may fill.\<close>

record httparse_api =
  parse_headers :: "bytes \<Rightarrow> usize \<Rightarrow> ((usize \<times> raw_header list) parse_status, httparse_error) result"
  parse_request :: "bytes \<Rightarrow> usize \<Rightarrow> ((usize \<times> raw_request) parse_status, httparse_error) result"
  parse_response :: "bytes \<Rightarrow> usize \<Rightarrow> ((usize \<times> raw_response) parse_status, httparse_error) result"

text \<open>
  Documented behaviour of \<open>parse_headers\<close>: a complete parse reports how many bytes of the
  buffer it read, and a block that is just the final empty line has no headers.
\<close>

definition parse_headers_law :: "httparse_api \<Rightarrow> bool" where
  "parse_headers_law P \<longleftrightarrow>
     (\<forall>v n k hs. parse_headers P v n = Ok (Complete (k, hs)) \<longrightarrow> k \<le> length v \<and> length hs \<le> n)
   \<and> (\<forall>n. parse_headers P [CR, LF] n = Ok (Complete (2, [])))"

section \<open>The reusable header workspace\<close>

text \<open>\<open>HeaderWorkspace\<close> of \<open>src/src/proto/h1/head/scan.rs\<close>; \<open>None\<close> is an uninitialised slot.\<close>

record header_workspace =
  slots :: "raw_header option list"

definition EMPTY_HEADER :: raw_header where
  "EMPTY_HEADER = \<lparr>rh_name = [], rh_value = []\<rparr>"

definition workspace_new :: "usize \<Rightarrow> header_workspace" where
  "workspace_new capacity = \<lparr>slots = replicate capacity None\<rparr>"

definition workspace_for_headers :: "header_workspace \<Rightarrow> header_workspace" where
  "workspace_for_headers w = w\<lparr>slots := map (\<lambda>_. Some EMPTY_HEADER) (slots w)\<rparr>"

definition workspace_clear :: "header_workspace \<Rightarrow> header_workspace" where
  "workspace_clear w = w\<lparr>slots := map (\<lambda>_. None) (slots w)\<rparr>"

definition workspace_capacity :: "header_workspace \<Rightarrow> usize" where
  "workspace_capacity w = length (slots w)"

lemma workspace_capacity_simps [simp]:
  "workspace_capacity (workspace_new n) = n"
  "workspace_capacity (workspace_clear w) = workspace_capacity w"
  "workspace_capacity (workspace_for_headers w) = workspace_capacity w"
  by (simp_all add: workspace_capacity_def workspace_new_def workspace_clear_def
      workspace_for_headers_def)

lemma workspace_clear_for_headers:
  "workspace_clear (workspace_for_headers (workspace_new n)) = workspace_new n"
  by (simp add: workspace_clear_def workspace_for_headers_def workspace_new_def
      map_replicate_const)

section \<open>A concrete header map\<close>

text \<open>
  Fields in insertion order. Replacing a field keeps the others; \<open>alist_keys\<close> lists each
  name once.
\<close>

type_synonym alist = "(header_name \<times> bytes) list"

definition alist_get_all :: "alist \<Rightarrow> header_name \<Rightarrow> bytes list" where
  "alist_get_all h k = map snd (filter (\<lambda>f. fst f = k) h)"

definition alist_insert :: "alist \<Rightarrow> header_name \<Rightarrow> bytes \<Rightarrow> alist" where
  "alist_insert h k v = filter (\<lambda>f. fst f \<noteq> k) h @ [(k, v)]"

definition alist_append :: "alist \<Rightarrow> header_name \<Rightarrow> bytes \<Rightarrow> alist" where
  "alist_append h k v = h @ [(k, v)]"

definition nat_digits_byte :: "nat \<Rightarrow> byte" where
  "nat_digits_byte d = 48 + word_of_nat d"

fun decimal_digits :: "nat \<Rightarrow> bytes" where
  "decimal_digits n =
     (if n < 10 then [nat_digits_byte n] else decimal_digits (n div 10) @ [nat_digits_byte (n mod 10)])"

declare decimal_digits.simps [simp del]

definition alist_http :: "(alist, bytes) http_api" where
  "alist_http = \<lparr>
     hm_default = [],
     hm_try_with_capacity = (\<lambda>n. if n \<le> 32768 then Some [] else None),
     hm_append = alist_append,
     hm_insert = alist_insert,
     hm_contains_key = (\<lambda>h k. k \<in> set (map fst h)),
     hm_get_all = alist_get_all,
     hm_keys = (\<lambda>h. remdups (map fst h)),
     hm_iter = (\<lambda>h. h),
     header_name_from_bytes =
       (\<lambda>v. if v \<noteq> [] \<and> list_all is_tchar v
            then Some (map (\<lambda>b. char_of (unat (to_ascii_lowercase b))) v) else None),
     header_value_from_bytes = (\<lambda>v. if list_all (\<lambda>b. 32 \<le> b \<and> b \<noteq> 127 \<or> b = HTAB) v then Some v else None),
     header_value_from_str = (\<lambda>v. if list_all (\<lambda>b. 32 \<le> b \<and> b < 127 \<or> b = HTAB) v then Some v else None),
     header_value_from_u64 = (\<lambda>w. decimal_digits (unat w)),
     method_from_bytes = (\<lambda>v. if v \<noteq> [] \<and> list_all is_tchar v then Some (map (\<lambda>b. char_of (unat b)) v) else None),
     status_from_u16 = (\<lambda>c. if 100 \<le> c \<and> c < 1000 then Some c else None),
     status_is_informational = (\<lambda>s. 100 \<le> s \<and> s < 200),
     status_is_success = (\<lambda>s. 200 \<le> s \<and> s < 300),
     status_as_str = decimal_digits,
     status_canonical_reason = (\<lambda>s. if s = 200 then Some (bstr ''OK'') else None),
     uri_from_bytes = (\<lambda>v. if v \<noteq> [] then Some v else None),
     uri_display = (\<lambda>u. [u]),
     uri_path = (\<lambda>u. u),
     uri_has_scheme = (\<lambda>u. False),
     uri_authority = (\<lambda>u. if u \<noteq> [] \<and> hd u \<noteq> SLASH \<and> u \<noteq> [42] then Some u else None),
     uri_has_path_and_query = (\<lambda>u. u \<noteq> [] \<and> hd u = SLASH),
     authority_has_port = (\<lambda>a. 58 \<in> set a),
     authority_parse = (\<lambda>a. a \<noteq> []),
     str_from_utf8 = (\<lambda>v. list_all (\<lambda>b. b < 128) v)\<rparr>"

text \<open>A parser that accepts only the empty header block.\<close>

definition empty_httparse :: httparse_api where
  "empty_httparse = \<lparr>
     parse_headers = (\<lambda>v n. if take 2 v = [CR, LF] then Ok (Complete (2, [])) else Err TokenError),
     parse_request = (\<lambda>v n. Err TokenError),
     parse_response = (\<lambda>v n. Err TokenError)\<rparr>"

lemma alist_get_all_insert:
  "alist_get_all (alist_insert h k v) j = (if j = k then [v] else alist_get_all h j)"
proof -
  have "filter (\<lambda>f. fst f = j) (filter (\<lambda>f. fst f \<noteq> k) h) =
        (if j = k then [] else filter (\<lambda>f. fst f = j) h)"
    by (induction h) auto
  then show ?thesis
    by (simp add: alist_get_all_def alist_insert_def)
qed

lemma alist_http_laws: "header_map_laws alist_http"
  unfolding header_map_laws_def
  by (auto simp: alist_http_def alist_get_all_insert)
    (auto simp: alist_get_all_def alist_append_def filter_empty_conv split: if_splits)

lemma alist_status_laws: "status_class_laws alist_http"
  by (simp add: status_class_laws_def alist_http_def)

lemma empty_httparse_law: "parse_headers_law empty_httparse"
  by (auto simp: parse_headers_law_def empty_httparse_def split: if_splits)
    (metis length_Cons length_take list.size(3) min.cobounded1 numeral_2_eq_2)

end
