(* ===== verification/H1_Types.thy ===== *)
theory H1_Types
  imports Http_Api
begin

text \<open>
  The protocol enums shared by the HTTP/1 modules and the comparison of upgrade
  protocols, from \<open>src/src/proto/h1.rs\<close>; \<open>UpgradeKind\<close> is from \<open>src/src/upgrade.rs\<close>.
\<close>

datatype body_mode = BM_None | BM_Fixed u64 | BM_Chunked | BM_UntilEof

datatype persistence = Reusable | Close

datatype upgrade_kind = Protocol | Tunnel

datatype target_form = Origin | Absolute | Authority | Asterisk

datatype expectation = Expect_None | Expect_Continue

text \<open>The members of a comma-separated field value, without surrounding whitespace.\<close>

definition comma_members :: "bytes \<Rightarrow> bytes list" where
  "comma_members v = map trim_ows (split_on (\<lambda>b. b = COMMA) v)"

definition was_offered :: "bytes list \<Rightarrow> bytes \<Rightarrow> bool" where
  "was_offered offered selected \<longleftrightarrow>
     list_ex (\<lambda>v. list_ex (\<lambda>o'. eq_ignore_ascii_case o' selected) (comma_members v)) offered"

text \<open>
  The two nested loops over the selected values and their members; the flag is
  \<open>selected_any\<close>, and \<open>None\<close> is the early \<open>return false\<close>.
\<close>

fun selected_members_loop :: "bytes list \<Rightarrow> bool \<Rightarrow> bytes list \<Rightarrow> bool option" where
  "selected_members_loop offered any [] = Some any"
| "selected_members_loop offered any (s # ss) =
     (if s = [] then None
      else if \<not> was_offered offered s then None
      else selected_members_loop offered True ss)"

fun selected_values_loop :: "bytes list \<Rightarrow> bool \<Rightarrow> bytes list \<Rightarrow> bool option" where
  "selected_values_loop offered any [] = Some any"
| "selected_values_loop offered any (v # vs) =
     (case selected_members_loop offered any (comma_members v) of
        None \<Rightarrow> None
      | Some any' \<Rightarrow> selected_values_loop offered any' vs)"

definition upgrade_protocols_match :: "('h, 'u) http_api \<Rightarrow> bytes list \<Rightarrow> 'h \<Rightarrow> bool" where
  "upgrade_protocols_match A offered selected =
     (case selected_values_loop offered False (hm_get_all A selected UPGRADE) of
        None \<Rightarrow> False | Some any \<Rightarrow> any)"

lemma selected_members_loop_eq:
  "selected_members_loop offered any ss =
     (if \<forall>s \<in> set ss. s \<noteq> [] \<and> was_offered offered s then Some (any \<or> ss \<noteq> []) else None)"
  by (induction ss arbitrary: any) auto

lemma comma_members_not_Nil [simp]: "comma_members v \<noteq> []"
  by (simp add: comma_members_def)

lemma selected_values_loop_eq:
  "selected_values_loop offered any vs =
     (if \<forall>v \<in> set vs. \<forall>s \<in> set (comma_members v). s \<noteq> [] \<and> was_offered offered s
      then Some (any \<or> vs \<noteq> []) else None)"
  by (induction vs arbitrary: any) (auto simp: selected_members_loop_eq)

text \<open>The selected protocols match when there is one and each was offered.\<close>

lemma upgrade_protocols_match_iff:
  "upgrade_protocols_match A offered selected \<longleftrightarrow>
     hm_get_all A selected UPGRADE \<noteq> []
     \<and> (\<forall>v \<in> set (hm_get_all A selected UPGRADE).
          \<forall>s \<in> set (comma_members v). s \<noteq> [] \<and> was_offered offered s)"
  by (auto simp: upgrade_protocols_match_def selected_values_loop_eq)

end
