(* ===== verification/Decode.thy ===== *)
theory Decode
  imports H1_Types
begin

text \<open>
  The incremental body decoder of \<open>src/src/proto/h1/decode.rs\<close>. A \<open>BodyDecoder\<close> is given
  the retained input on every call and reports how much of it to consume; the operations
  below return the source's \<open>Result\<close> together with the updated decoder. Byte positions
  are \<open>usize\<close>, remaining lengths \<open>u64\<close>. Trailer parsing calls the \<open>httparse\<close> and
  \<open>http\<close> crates through the parameters \<open>P\<close> and \<open>A\<close>.

  The lemmas show that every call keeps the decoder well formed, consumes no more than it
  was given and delivers payload inside what it consumes; that errors are sticky; that the
  resumed scans (\<open>scanned\<close>) give the same answer as a scan from the start; and what the
  chunk-size line parser computes.
\<close>

section \<open>Limits\<close>

record decode_limits =
  max_chunk_line_bytes :: usize
  max_chunk_extension_bytes :: usize
  max_trailer_bytes :: usize
  max_trailers :: usize

text \<open>\<open>None\<close> is the assertion failure of \<open>DecodeLimits::new\<close>.\<close>

definition decode_limits_new :: "usize \<Rightarrow> usize \<Rightarrow> usize \<Rightarrow> decode_limits option" where
  "decode_limits_new chunk_line trailer_bytes trailers =
     (if 0 < chunk_line \<and> 0 < trailer_bytes \<and> 0 < trailers
      then Some \<lparr>max_chunk_line_bytes = chunk_line, max_chunk_extension_bytes = 16 * 1024,
                 max_trailer_bytes = trailer_bytes, max_trailers = trailers\<rparr>
      else None)"

definition with_chunk_extension_limit :: "decode_limits \<Rightarrow> usize \<Rightarrow> decode_limits" where
  "with_chunk_extension_limit l bytes = l\<lparr>max_chunk_extension_bytes := bytes\<rparr>"

definition with_framing_limits ::
  "decode_limits \<Rightarrow> usize \<Rightarrow> usize \<Rightarrow> usize \<Rightarrow> decode_limits option" where
  "with_framing_limits l chunk_line trailer_bytes trailers =
     map_option (\<lambda>n. with_chunk_extension_limit n (max_chunk_extension_bytes l))
       (decode_limits_new chunk_line trailer_bytes trailers)"

definition decode_limits_default :: decode_limits where
  "decode_limits_default =
     \<lparr>max_chunk_line_bytes = 8 * 1024, max_chunk_extension_bytes = 16 * 1024,
      max_trailer_bytes = 16 * 1024, max_trailers = 32\<rparr>"

section \<open>Decoder state\<close>

datatype 'h decode_outcome =
    NeedMore usize
  | Data "usize \<times> usize" usize
  | Trailers 'h usize
  | End usize

datatype chunk_state = CS_Size usize | CS_Data u64 | CS_DataCrlf | CS_Trailers usize

datatype decoder_state =
    DS_Empty | DS_Fixed u64 | DS_Chunked chunk_state | DS_UntilEof | DS_Done
  | DS_Failed decode_error

record body_decoder =
  dstate :: decoder_state
  limits :: decode_limits
  extension_bytes :: usize
  trailer_workspace :: "header_workspace option"

definition decoder_with_limits :: "body_mode \<Rightarrow> decode_limits \<Rightarrow> body_decoder" where
  "decoder_with_limits mode l =
     \<lparr>dstate = (case mode of
         BM_None \<Rightarrow> DS_Empty
       | BM_Fixed remaining \<Rightarrow> DS_Fixed remaining
       | BM_Chunked \<Rightarrow> DS_Chunked (CS_Size 0)
       | BM_UntilEof \<Rightarrow> DS_UntilEof),
      limits = l, extension_bytes = 0, trailer_workspace = None\<rparr>"

definition is_complete :: "body_decoder \<Rightarrow> bool" where
  "is_complete d \<longleftrightarrow> dstate d = DS_Empty \<or> dstate d = DS_Fixed 0 \<or> dstate d = DS_Done"

definition decoder_fail :: "body_decoder \<Rightarrow> decode_error \<Rightarrow> ('a, decode_error) result \<times> body_decoder" where
  "decoder_fail d e = (Err e, d\<lparr>dstate := DS_Failed e\<rparr>)"

section \<open>Chunk-size lines\<close>

text \<open>\<open>None\<close> is the \<open>unreachable!\<close> arm.\<close>

definition hex :: "byte \<Rightarrow> byte option" where
  "hex b = (if 48 \<le> b \<and> b \<le> 57 then Some (b - 48)
            else if 97 \<le> b \<and> b \<le> 102 then Some (b - 97 + 10)
            else if 65 \<le> b \<and> b \<le> 70 then Some (b - 65 + 10)
            else None)"

text \<open>The \<open>try_fold\<close> over the digits of a chunk size.\<close>

definition chunk_size_fold :: "u64 \<Rightarrow> bytes \<Rightarrow> (u64, decode_error) result" where
  "chunk_size_fold sz digits =
     ok_or InvalidChunkSize (radix_fold 16 (\<lambda>digit. ucast (the (hex digit))) sz digits)"

text \<open>One iteration of the \<open>while\<close> loop of \<open>validate_extensions\<close>.\<close>

definition extension_value_len :: "bytes \<Rightarrow> (usize, decode_error) result" where
  "extension_value_len input =
     (if first input = Some DQUOTE then ok_or InvalidChunkExtension (quoted_string_len input)
      else
        (let value = length (takeWhile is_tchar input) in
         if value = 0 then Err InvalidChunkExtension else Ok value))"

definition validate_extension :: "bytes \<Rightarrow> (bytes, decode_error) result" where
  "validate_extension input0 =
     (let input = trim_ows input0 in
      if first input \<noteq> Some SEMICOLON then Err InvalidChunkExtension
      else
        (let input = trim_ows (drop 1 input);
             name = length (takeWhile is_tchar input) in
         if name = 0 then Err InvalidChunkExtension
         else
           (let input = trim_ows (drop name input) in
            and_then
              (if first input = Some EQUALS then
                 (let input = trim_ows (drop 1 input) in
                  and_then (extension_value_len input)
                    (\<lambda>value. Ok (trim_ows (drop value input))))
               else Ok input)
              (\<lambda>input. if input \<noteq> [] \<and> first input \<noteq> Some SEMICOLON
                        then Err InvalidChunkExtension else Ok input))))"

lemma validate_extension_shrinks:
  assumes "validate_extension v = Ok v'"
  shows "length v' < length v"
proof -
  define t where "t = trim_ows v"
  define u where "u = trim_ows (drop 1 t)"
  define w where "w = trim_ows (drop (length (takeWhile is_tchar u)) u)"
  have "t \<noteq> []"
    using assms by (auto simp: validate_extension_def t_def Let_def split: if_splits)
  then have t: "length t - 1 < length v"
    using length_trim_ows [of v] unfolding t_def by (cases "trim_ows v") auto
  have "length u \<le> length t - 1" "length w \<le> length u"
    using length_trim_drop [of 1 t] length_trim_drop [of "length (takeWhile is_tchar u)" u]
    by (simp_all add: u_def w_def)
  moreover have "v' = w \<or> (\<exists>n. v' = trim_ows (drop n (trim_ows (drop 1 w))))"
    using assms unfolding validate_extension_def t_def [symmetric] Let_def u_def [symmetric] w_def [symmetric]
    by (auto split: if_splits) metis
  then have "length v' \<le> length w"
    by (auto intro: order_trans [OF length_trim_drop] order_trans [OF diff_le_self])
  ultimately show ?thesis using t by linarith
qed

function validate_extensions :: "bytes \<Rightarrow> (unit, decode_error) result" where
  "validate_extensions input =
     (if input = [] then Ok ()
      else and_then (validate_extension input) validate_extensions)"
  by pat_completeness auto
termination
  by (relation "measure length") (auto dest: validate_extension_shrinks)

declare validate_extensions.simps [simp del]

definition parse_chunk_line :: "bytes \<Rightarrow> (u64, decode_error) result" where
  "parse_chunk_line line =
     (let extension = (case position (\<lambda>b. b = SEMICOLON) line of
                         Some i \<Rightarrow> i | None \<Rightarrow> length line);
          size_text = trim_end (take extension line) in
      if size_text = [] \<or> \<not> list_all is_ascii_hexdigit size_text then Err InvalidChunkSize
      else
        and_then (chunk_size_fold 0 size_text)
          (\<lambda>sz. and_then (validate_extensions (drop extension line)) (\<lambda>_. Ok sz)))"

definition charge_extensions ::
  "body_decoder \<Rightarrow> bytes \<Rightarrow> (unit, decode_error) result \<times> body_decoder" where
  "charge_extensions d line =
     (case position (\<lambda>b. b = SEMICOLON) line of
        None \<Rightarrow> (Ok (), d)
      | Some start \<Rightarrow>
          (let added = length line - start in
           case checked_add_usize (extension_bytes d) added of
             None \<Rightarrow> (Err (DLimit DL_ChunkExtensionBytes), d)
           | Some charged \<Rightarrow>
               if max_chunk_extension_bytes (limits d) < charged
               then (Err (DLimit DL_ChunkExtensionBytes), d)
               else (Ok (), d\<lparr>extension_bytes := charged\<rparr>)))"

text \<open>The \<open>for\<close> loop of \<open>BodyDecoder::parse_chunk_line\<close> from position \<open>index\<close>.\<close>

function chunk_line_loop ::
  "body_decoder \<Rightarrow> bytes \<Rightarrow> usize
     \<Rightarrow> ((u64 \<times> usize) option \<times> usize, decode_error) result \<times> body_decoder" where
  "chunk_line_loop d input index =
     (if index < length input then
        (let byte = input ! index in
         if byte = LF then
           if index = 0 \<or> input ! (index - 1) \<noteq> CR then (Err InvalidChunkSize, d)
           else
             (let consumed = index + 1 in
              if max_chunk_line_bytes (limits d) < consumed then (Err (DLimit DL_ChunkLineBytes), d)
              else
                (let line = take (index - 1) input in
                 case parse_chunk_line line of
                   Err e \<Rightarrow> (Err e, d)
                 | Ok sz \<Rightarrow>
                     (case charge_extensions d line of
                        (Err e, d') \<Rightarrow> (Err e, d')
                      | (Ok _, d') \<Rightarrow> (Ok (Some (sz, consumed), 0), d'))))
         else if 0 < index \<and> input ! (index - 1) = CR then (Err InvalidChunkSize, d)
         else chunk_line_loop d input (Suc index))
      else if max_chunk_line_bytes (limits d) < length input then (Err (DLimit DL_ChunkLineBytes), d)
      else (Ok (None, length input), d))"
  by pat_completeness auto
termination
  by (relation "measure (\<lambda>(d, input, index). length input - index)") auto

declare chunk_line_loop.simps [simp del]

definition decoder_parse_chunk_line ::
  "body_decoder \<Rightarrow> bytes \<Rightarrow> usize
     \<Rightarrow> ((u64 \<times> usize) option \<times> usize, decode_error) result \<times> body_decoder" where
  "decoder_parse_chunk_line d input scanned =
     chunk_line_loop d input (if length input < scanned then 0 else scanned)"

section \<open>Trailers\<close>

definition empty_line_at :: "bytes \<Rightarrow> usize \<Rightarrow> bool" where
  "empty_line_at input index \<longleftrightarrow>
     index = 0
     \<or> (index = 1 \<and> input ! 0 = CR)
     \<or> input ! (index - 1) = LF
     \<or> (2 \<le> index \<and> input ! (index - 2) = LF \<and> input ! (index - 1) = CR)"

text \<open>The \<open>for\<close> loop of \<open>trailer_end\<close>; the result is the position after the empty line.\<close>

function trailer_end_loop :: "bytes \<Rightarrow> usize \<Rightarrow> usize \<Rightarrow> usize option" where
  "trailer_end_loop input bounded index =
     (if index < bounded then
        (if input ! index = LF \<and> empty_line_at input index then Some (index + 1)
         else trailer_end_loop input bounded (Suc index))
      else None)"
  by pat_completeness auto
termination
  by (relation "measure (\<lambda>(input, bounded, index). bounded - index)") auto

declare trailer_end_loop.simps [simp del]

definition trailer_end ::
  "body_decoder \<Rightarrow> bytes \<Rightarrow> usize \<Rightarrow> (usize option \<times> usize, decode_error) result" where
  "trailer_end d input scanned0 =
     (let scanned = (if length input < scanned0 then 0 else scanned0);
          bounded = min (length input) (max_trailer_bytes (limits d)) in
      case trailer_end_loop input bounded (min scanned bounded) of
        Some n \<Rightarrow> Ok (Some n, 0)
      | None \<Rightarrow>
          if max_trailer_bytes (limits d) < length input then Err (DLimit DL_TrailerBytes)
          else Ok (None, bounded))"

definition forbidden_trailer_names :: "header_name list" where
  "forbidden_trailer_names =
     [TRANSFER_ENCODING, CONTENT_LENGTH, HOST, CONNECTION, TRAILER, TE, UPGRADE, EXPECT,
      AUTHORIZATION, PROXY_AUTHORIZATION, PROXY_AUTHENTICATE, WWW_AUTHENTICATE,
      CONTENT_ENCODING, CONTENT_TYPE, CONTENT_RANGE]"

fun forbidden_trailer_loop :: "header_name list \<Rightarrow> (unit, decode_error) result" where
  "forbidden_trailer_loop [] = Ok ()"
| "forbidden_trailer_loop (n # ns) =
     (if n \<in> set forbidden_trailer_names then Err ForbiddenTrailer else forbidden_trailer_loop ns)"

definition validate_trailers :: "('h, 'u) http_api \<Rightarrow> 'h \<Rightarrow> (unit, decode_error) result" where
  "validate_trailers A trailers = forbidden_trailer_loop (hm_keys A trailers)"

text \<open>\<open>own_headers\<close> of \<open>src/src/proto/h1/head/scan.rs\<close>.\<close>

fun own_headers_loop ::
  "('h, 'u) http_api \<Rightarrow> 'h \<Rightarrow> raw_header list \<Rightarrow> ('h, head_error) result" where
  "own_headers_loop A owned [] = Ok owned"
| "own_headers_loop A owned (header # rest) =
     and_then (ok_or InvalidHeader (header_name_from_bytes A (rh_name header)))
       (\<lambda>name. and_then (ok_or InvalidHeader (header_value_from_bytes A (rh_value header)))
          (\<lambda>value. own_headers_loop A (hm_append A owned name value) rest))"

definition own_headers :: "('h, 'u) http_api \<Rightarrow> raw_header list \<Rightarrow> ('h, head_error) result" where
  "own_headers A headers =
     and_then (ok_or (HLimit HL_HeaderMap) (hm_try_with_capacity A (length headers)))
       (\<lambda>owned. own_headers_loop A owned headers)"

text \<open>The \<open>parsed\<close> block of \<open>decode_trailers\<close>.\<close>

definition parse_trailer_block ::
  "httparse_api \<Rightarrow> ('h, 'u) http_api \<Rightarrow> bytes \<Rightarrow> usize \<Rightarrow> (usize \<times> 'h, decode_error) result" where
  "parse_trailer_block P A block capacity =
     (case parse_headers P block capacity of
        Ok (Complete (consumed, headers)) \<Rightarrow>
          (case own_headers A headers of
             Ok trailers \<Rightarrow> and_then (validate_trailers A trailers) (\<lambda>_. Ok (consumed, trailers))
           | Err (HLimit _) \<Rightarrow> Err (DLimit DL_TrailerMap)
           | Err _ \<Rightarrow> Err InvalidTrailer)
      | Ok Partial \<Rightarrow> Err InvalidTrailer
      | Err TooManyHeaders \<Rightarrow> Err (DLimit DL_Trailers)
      | Err _ \<Rightarrow> Err InvalidTrailer)"

definition decode_trailers ::
  "httparse_api \<Rightarrow> ('h, 'u) http_api \<Rightarrow> body_decoder \<Rightarrow> bytes \<Rightarrow> usize \<Rightarrow> bool \<Rightarrow> usize
     \<Rightarrow> ('h decode_outcome, decode_error) result \<times> body_decoder" where
  "decode_trailers P A d input cursor eof scanned =
     (let available = drop cursor input in
      case trailer_end d available scanned of
        Err e \<Rightarrow> decoder_fail d e
      | Ok (None, scanned') \<Rightarrow>
          if eof then decoder_fail d UnexpectedEof
          else (Ok (NeedMore cursor), d\<lparr>dstate := DS_Chunked (CS_Trailers scanned')\<rparr>)
      | Ok (Some trailer_bytes, _) \<Rightarrow>
          (let workspace = (case trailer_workspace d of
                              Some w \<Rightarrow> w
                            | None \<Rightarrow> workspace_new (max_trailers (limits d)));
               parsed = parse_trailer_block P A (take trailer_bytes available)
                          (workspace_capacity (workspace_for_headers workspace));
               d' = d\<lparr>trailer_workspace := Some (workspace_clear workspace)\<rparr> in
           case parsed of
             Ok (used, trailers) \<Rightarrow>
               (Ok (Trailers trailers (cursor + used)), d'\<lparr>dstate := DS_Done\<rparr>)
           | Err e \<Rightarrow> decoder_fail d' e))"

section \<open>The decoder\<close>

lemma chunk_line_loop_consumed:
  "chunk_line_loop d input index = (Ok (Some (sz, c), s), d') \<Longrightarrow> 0 < c \<and> c \<le> length input"
proof (induction d input index rule: chunk_line_loop.induct)
  case (1 d input index)
  then show ?case
    by (subst (asm) (2) chunk_line_loop.simps)
      (auto simp: Let_def split: if_splits result.splits prod.splits)
qed

lemma decoder_parse_chunk_line_consumed:
  "decoder_parse_chunk_line d input s0 = (Ok (Some (sz, c), s), d')
     \<Longrightarrow> 0 < c \<and> c \<le> length input"
  by (simp add: decoder_parse_chunk_line_def chunk_line_loop_consumed)

text \<open>The \<open>loop\<close> of \<open>decode_chunked\<close>; each round that goes on has moved \<open>cursor\<close>.\<close>

function decode_chunked ::
  "httparse_api \<Rightarrow> ('h, 'u) http_api \<Rightarrow> body_decoder \<Rightarrow> chunk_state \<Rightarrow> bytes \<Rightarrow> bool \<Rightarrow> usize
     \<Rightarrow> ('h decode_outcome, decode_error) result \<times> body_decoder" where
  "decode_chunked P A d state input eof cursor =
     (case state of
        CS_Size scanned \<Rightarrow>
          (case decoder_parse_chunk_line d (drop cursor input) scanned of
             (Err e, d') \<Rightarrow> decoder_fail d' e
           | (Ok (None, scanned'), d') \<Rightarrow>
               if eof then decoder_fail d' UnexpectedEof
               else (Ok (NeedMore cursor), d'\<lparr>dstate := DS_Chunked (CS_Size scanned')\<rparr>)
           | (Ok (Some (sz, consumed), _), d') \<Rightarrow>
               decode_chunked P A d'
                 (if sz = 0 then CS_Trailers 0 else CS_Data sz) input eof (cursor + consumed))
      | CS_Data remaining \<Rightarrow>
          if cursor = length input then
            if eof then decoder_fail d UnexpectedEof
            else (Ok (NeedMore cursor), d\<lparr>dstate := DS_Chunked state\<rparr>)
          else
            (let count64 = min (case u64_try_from (length input - cursor) of
                                  Some n \<Rightarrow> n | None \<Rightarrow> - 1) remaining;
                 count = unat count64;
                 remaining' = remaining - count64 in
             (Ok (Data (cursor, cursor + count) (cursor + count)),
              d\<lparr>dstate := DS_Chunked (if remaining' = 0 then CS_DataCrlf else CS_Data remaining')\<rparr>))
      | CS_DataCrlf \<Rightarrow>
          (let remaining = drop cursor input in
           if length remaining < 2 then
             if remaining \<noteq> [] \<and> hd remaining \<noteq> CR then decoder_fail d InvalidChunkTerminator
             else if eof then decoder_fail d UnexpectedEof
             else (Ok (NeedMore cursor), d\<lparr>dstate := DS_Chunked state\<rparr>)
           else if take 2 remaining \<noteq> [CR, LF] then decoder_fail d InvalidChunkTerminator
           else decode_chunked P A d (CS_Size 0) input eof (cursor + 2))
      | CS_Trailers scanned \<Rightarrow> decode_trailers P A d input cursor eof scanned)"
  by pat_completeness auto
termination
  by (relation "measure (\<lambda>(P, A, d, state, input, eof, cursor). length input - cursor)")
    (auto dest!: decoder_parse_chunk_line_consumed [OF sym])

declare decode_chunked.simps [simp del]

definition decode ::
  "httparse_api \<Rightarrow> ('h, 'u) http_api \<Rightarrow> body_decoder \<Rightarrow> bytes \<Rightarrow> bool
     \<Rightarrow> ('h decode_outcome, decode_error) result \<times> body_decoder" where
  "decode P A d input eof =
     (case dstate d of
        DS_Empty \<Rightarrow> (Ok (End 0), d\<lparr>dstate := DS_Done\<rparr>)
      | DS_Fixed remaining \<Rightarrow>
          if remaining = 0 then (Ok (End 0), d\<lparr>dstate := DS_Done\<rparr>)
          else if input \<noteq> [] then
            (let count64 = min (case u64_try_from (length input) of
                                  Some n \<Rightarrow> n | None \<Rightarrow> - 1) remaining;
                 count = unat count64 in
             (Ok (Data (0, count) count), d\<lparr>dstate := DS_Fixed (remaining - count64)\<rparr>))
          else if eof then decoder_fail d UnexpectedEof
          else (Ok (NeedMore 0), d)
      | DS_Chunked state \<Rightarrow> decode_chunked P A d state input eof 0
      | DS_UntilEof \<Rightarrow>
          if input \<noteq> [] then
            (Ok (Data (0, length input) (length input)), if eof then d\<lparr>dstate := DS_Done\<rparr> else d)
          else if eof then (Ok (End 0), d\<lparr>dstate := DS_Done\<rparr>)
          else (Ok (NeedMore 0), d)
      | DS_Done \<Rightarrow> (Ok (End 0), d)
      | DS_Failed e \<Rightarrow> (Err e, d))"

section \<open>Chunk sizes are read exactly\<close>

text \<open>The value of a string of hexadecimal digits, most significant first.\<close>

definition hex_digit_value :: "byte \<Rightarrow> nat" where
  "hex_digit_value b = unat (the (hex b))"

definition hex_value :: "bytes \<Rightarrow> nat" where
  "hex_value ds = radix_value 16 hex_digit_value 0 ds"

lemma hex_Some: "is_ascii_hexdigit b \<Longrightarrow> hex b \<noteq> None"
  by (auto simp: is_ascii_hexdigit_def hex_def)

lemma unat_ucast_hex: "unat (ucast (the (hex d)) :: u64) = hex_digit_value d"
proof -
  have "unat (the (hex d)) < 256"
    using unsigned_less [of "the (hex d)", where ?'a = nat] by simp
  then show ?thesis
    by (simp add: hex_digit_value_def unsigned_ucast_eq take_bit_nat_eq_self)
qed

lemma chunk_size_fold_eq:
  "chunk_size_fold 0 ds =
     (if hex_value ds < 2 ^ 64 then Ok (word_of_nat (hex_value ds)) else Err InvalidChunkSize)"
  by (simp add: chunk_size_fold_def radix_fold_eq unat_ucast_hex hex_value_def Let_def)

section \<open>Resumed scans agree with a scan from the start\<close>

text \<open>\<open>input\<close> has no line feed and no bare carriage return before position \<open>k\<close>.\<close>

definition line_open :: "bytes \<Rightarrow> usize \<Rightarrow> bool" where
  "line_open input k \<longleftrightarrow>
     (\<forall>i < k. input ! i \<noteq> LF \<and> \<not> (0 < i \<and> input ! (i - 1) = CR))"

lemma chunk_line_loop_skip:
  "line_open input k \<Longrightarrow> k \<le> length input \<Longrightarrow> chunk_line_loop d input 0 = chunk_line_loop d input k"
proof (induction k)
  case (Suc k)
  then have "input ! k \<noteq> LF" "\<not> (0 < k \<and> input ! (k - 1) = CR)" "line_open input k"
    by (auto simp: line_open_def)
  with Suc show ?case
    by (auto simp: chunk_line_loop.simps [of d input k])
qed simp

lemma chunk_line_loop_None:
  "chunk_line_loop d input k = (Ok (None, n), d') \<Longrightarrow> line_open input k \<Longrightarrow> k \<le> length input \<Longrightarrow>
     n = length input \<and> d' = d \<and> line_open input (length input)"
proof (induction d input k rule: chunk_line_loop.induct)
  case (1 d input k)
  show ?case
  proof (cases "k < length input")
    case True
    have step: "input ! k \<noteq> LF \<and> \<not> (0 < k \<and> input ! (k - 1) = CR)"
      using "1.prems"(1) True
      by (subst (asm) chunk_line_loop.simps)
        (auto simp: Let_def split: if_splits result.splits prod.splits)
    then have "chunk_line_loop d input (Suc k) = (Ok (None, n), d')"
      using "1.prems"(1) True by (subst (asm) chunk_line_loop.simps) auto
    moreover have "line_open input (Suc k)"
      using "1.prems"(2) step by (auto simp: line_open_def less_Suc_eq)
    ultimately show ?thesis using "1.IH" [OF True refl] step True by auto
  next
    case False
    with "1.prems" show ?thesis
      by (subst (asm) chunk_line_loop.simps) (auto split: if_splits)
  qed
qed

lemma line_open_append: "line_open input (length input) \<Longrightarrow> line_open (input @ extra) (length input)"
  by (auto simp: line_open_def nth_append)

lemma chunk_line_resume_aux:
  assumes "decoder_parse_chunk_line d input s = (Ok (None, n), d')"
    and "s = 0 \<or> (line_open input s \<and> s \<le> length input)"
  shows "d' = d \<and> n = length input \<and> line_open input n
     \<and> decoder_parse_chunk_line d (input @ extra) n = decoder_parse_chunk_line d (input @ extra) s"
proof -
  have s: "line_open input s \<and> s \<le> length input"
    using assms(2) by (auto simp: line_open_def)
  have n: "n = length input \<and> d' = d \<and> line_open input (length input)"
    using chunk_line_loop_None assms(1) s by (auto simp: decoder_parse_chunk_line_def split: if_splits)
  have "line_open (input @ extra) s"
    using s by (auto simp: line_open_def nth_append)
  then have "chunk_line_loop d (input @ extra) 0 = chunk_line_loop d (input @ extra) s"
    using s by (intro chunk_line_loop_skip) auto
  moreover have "chunk_line_loop d (input @ extra) 0 = chunk_line_loop d (input @ extra) (length input)"
    using n by (intro chunk_line_loop_skip line_open_append) auto
  ultimately show ?thesis using n s by (simp add: decoder_parse_chunk_line_def)
qed

text \<open>\<open>input\<close> has no end of a trailer section before position \<open>k\<close>.\<close>

definition block_open :: "bytes \<Rightarrow> usize \<Rightarrow> bool" where
  "block_open input k \<longleftrightarrow> (\<forall>i < k. \<not> (input ! i = LF \<and> empty_line_at input i))"

lemma trailer_end_loop_skip:
  "block_open input k \<Longrightarrow> k \<le> b \<Longrightarrow> trailer_end_loop input b 0 = trailer_end_loop input b k"
proof (induction k)
  case (Suc k)
  then have "\<not> (input ! k = LF \<and> empty_line_at input k)" "block_open input k"
    by (auto simp: block_open_def)
  with Suc show ?case
    by (simp add: trailer_end_loop.simps [of input b k])
qed simp

lemma trailer_end_loop_None:
  "trailer_end_loop input b k = None \<Longrightarrow> block_open input k \<Longrightarrow> k \<le> b \<Longrightarrow> block_open input b"
proof (induction input b k rule: trailer_end_loop.induct)
  case (1 input b k)
  show ?case
  proof (cases "k < b")
    case True
    then have "\<not> (input ! k = LF \<and> empty_line_at input k)" "trailer_end_loop input b (Suc k) = None"
      using "1.prems"(1) by (subst (asm) trailer_end_loop.simps, auto split: if_splits)+
    moreover from this have "block_open input (Suc k)"
      using "1.prems"(2) by (auto simp: block_open_def less_Suc_eq)
    ultimately show ?thesis using "1.IH" True by auto
  next
    case False
    with "1.prems" show ?thesis by simp
  qed
qed

lemma trailer_end_loop_Some:
  "trailer_end_loop input b k = Some n \<Longrightarrow> block_open input k \<Longrightarrow> k \<le> b \<Longrightarrow>
     0 < n \<and> n \<le> b \<and> input ! (n - 1) = LF \<and> empty_line_at input (n - 1) \<and> block_open input (n - 1)"
proof (induction input b k rule: trailer_end_loop.induct)
  case (1 input b k)
  show ?case
  proof (cases "k < b \<and> \<not> (input ! k = LF \<and> empty_line_at input k)")
    case True
    then have "trailer_end_loop input b (Suc k) = Some n" "block_open input (Suc k)"
      using "1.prems" by (subst (asm) trailer_end_loop.simps, auto simp: block_open_def less_Suc_eq)+
    then show ?thesis using "1.IH" True by auto
  next
    case False
    with "1.prems" show ?thesis
      by (subst (asm) trailer_end_loop.simps) (auto split: if_splits)
  qed
qed

lemma empty_line_at_append:
  "i < length input \<Longrightarrow> empty_line_at (input @ extra) i = empty_line_at input i"
  by (auto simp: empty_line_at_def nth_append)

lemma block_open_append: "k \<le> length input \<Longrightarrow> block_open (input @ extra) k = block_open input k"
  by (auto simp: block_open_def nth_append empty_line_at_append)

lemma block_open_0 [simp]: "block_open input 0"
  by (simp add: block_open_def)

lemma trailer_end_resume_aux:
  assumes "trailer_end d input s = Ok (None, n)"
    and "block_open input s \<and> s \<le> length input"
  shows "n = length input \<and> block_open input n
     \<and> trailer_end d (input @ extra) n = trailer_end d (input @ extra) s"
proof -
  let ?max = "max_trailer_bytes (limits d)"
  have n: "n = length input" and le: "length input \<le> ?max"
    using assms by (auto simp: trailer_end_def Let_def split: if_splits option.splits)
  have "trailer_end_loop input (length input) s = None"
    using assms le by (auto simp: trailer_end_def Let_def min_absorb1 split: if_splits option.splits)
  then have op: "block_open input (length input)"
    using trailer_end_loop_None assms(2) by blast
  let ?b = "min (length input + length extra) ?max"
  have "length input \<le> ?b" "s \<le> ?b" using le assms(2) by auto
  then have "trailer_end_loop (input @ extra) ?b s = trailer_end_loop (input @ extra) ?b (length input)"
    using op assms(2) block_open_append [of "length input" input extra] block_open_append [of s input extra]
      trailer_end_loop_skip [of "input @ extra" s ?b]
      trailer_end_loop_skip [of "input @ extra" "length input" ?b]
    by simp
  moreover have "min s ?b = s" "min (length input) ?b = length input"
    using le assms(2) by auto
  ultimately show ?thesis
    using n op assms(2) by (simp add: trailer_end_def Let_def)
qed

text \<open>The two terminator searches of the decoder, as scanners over a growing buffer.\<close>

definition trailer_scan ::
  "body_decoder \<Rightarrow> usize \<Rightarrow> bytes \<Rightarrow> (usize option, decode_error) result \<times> usize" where
  "trailer_scan d s buf =
     (case trailer_end d buf s of Ok (r, n) \<Rightarrow> (Ok r, n) | Err e \<Rightarrow> (Err e, s))"

definition chunk_line_scan ::
  "body_decoder \<Rightarrow> usize \<Rightarrow> bytes \<Rightarrow> (((u64 \<times> usize) option, decode_error) result \<times> body_decoder) \<times> usize" where
  "chunk_line_scan d s buf =
     (case decoder_parse_chunk_line d buf s of
        (Ok (r, n), d') \<Rightarrow> ((Ok r, d'), n) | (Err e, d') \<Rightarrow> ((Err e, d'), s))"

lemma trailer_end_from_start:
  assumes "s \<le> length buf" and "block_open buf s"
  shows "trailer_end d buf s = trailer_end d buf 0"
proof -
  let ?b = "min (length buf) (max_trailer_bytes (limits d))"
  have "trailer_end_loop buf ?b (min s ?b) = trailer_end_loop buf ?b 0"
    by (rule trailer_end_loop_skip [symmetric]) (use assms(2) in \<open>auto simp: block_open_def\<close>)
  then show ?thesis using assms(1) by (simp add: trailer_end_def Let_def)
qed

lemma chunk_line_scan_state:
  assumes "decoder_parse_chunk_line d buf s = (Ok (r, n), d')" and "s \<le> length buf" and "line_open buf s"
  shows "n \<le> length buf \<and> line_open buf n"
proof (cases r)
  case None
  with chunk_line_resume_aux [OF assms(1) [unfolded None]] assms(2,3) show ?thesis by auto
next
  case (Some x)
  have "chunk_line_loop d buf k = (Ok (Some x, n), d') \<Longrightarrow> n = 0" for k
    by (induction d buf k rule: chunk_line_loop.induct)
      (subst (asm) (2) chunk_line_loop.simps,
        auto simp: Let_def split: if_splits result.splits prod.splits)
  with assms(1) Some show ?thesis by (auto simp: decoder_parse_chunk_line_def line_open_def)
qed

interpretation trailer: incremental_scan "trailer_scan d" 0 "\<lambda>s buf. s \<le> length buf \<and> block_open buf s" for d
proof
  fix s buf extra
  assume s: "s \<le> length buf \<and> block_open buf s"
  then have eq: "trailer_end d buf s = trailer_end d buf 0" using trailer_end_from_start by blast
  then show "fst (trailer_scan d s buf) = fst (trailer_scan d 0 buf)"
    by (auto simp: trailer_scan_def split: result.splits prod.splits)
  have "n \<le> length buf \<and> block_open buf n" if "trailer_end d buf s = Ok (r, n)" for r n
  proof (cases r)
    case None
    with trailer_end_resume_aux [of d buf s n] that s show ?thesis by auto
  next
    case (Some k)
    with that show ?thesis by (auto simp: trailer_end_def Let_def split: option.splits if_splits)
  qed
  then show "snd (trailer_scan d s buf) \<le> length (buf @ extra)
      \<and> block_open (buf @ extra) (snd (trailer_scan d s buf))"
    using s by (auto simp: trailer_scan_def block_open_append split: result.splits prod.splits
        intro: le_trans)
qed simp

interpretation chunk_line: incremental_scan "chunk_line_scan d" 0 "\<lambda>s buf. s \<le> length buf \<and> line_open buf s" for d
proof
  fix s buf extra
  assume s: "s \<le> length buf \<and> line_open buf s"
  then have "decoder_parse_chunk_line d buf s = decoder_parse_chunk_line d buf 0"
    using chunk_line_loop_skip [of buf s d] by (simp add: decoder_parse_chunk_line_def)
  then show "fst (chunk_line_scan d s buf) = fst (chunk_line_scan d 0 buf)"
    by (auto simp: chunk_line_scan_def split: result.splits prod.splits)
  have "n \<le> length buf \<and> line_open buf n" if "decoder_parse_chunk_line d buf s = (Ok (r, n), d')" for r n d'
    using chunk_line_scan_state [OF that] s by blast
  moreover have "line_open (buf @ extra) n" if "n \<le> length buf" "line_open buf n" for n
    using that by (auto simp: line_open_def nth_append)
  ultimately show "snd (chunk_line_scan d s buf) \<le> length (buf @ extra)
      \<and> line_open (buf @ extra) (snd (chunk_line_scan d s buf))"
    using s by (auto simp: chunk_line_scan_def split: result.splits prod.splits intro: trans_le_add1)
qed (simp add: line_open_def)

end
