(* ===== verification/Head_Scan.thy ===== *)
theory Head_Scan
  imports Decode
begin

text \<open>
  Incremental head scanning and parsing, from \<open>src/src/proto/h1/head.rs\<close> and
  \<open>src/src/proto/h1/head/scan.rs\<close>. \<open>HeadScan::complete\<close> looks for the end of a head in the
  retained input and remembers where it stopped; \<open>head_len\<close> bounds it by the configured
  size; \<open>parse_shared\<close> hands exactly that prefix to \<open>httparse\<close> and builds the owned head.

  The lemmas show that the byte-by-byte automaton finds the first empty line after the
  first non-blank byte, that a resumed scan agrees with a fresh one, and that no head
  longer than the limit is ever accepted.
\<close>

section \<open>Heads\<close>

record head_limits =
  hl_max_bytes :: usize
  hl_max_headers :: usize

text \<open>\<open>None\<close> is the assertion failure of \<open>HeadLimits::new\<close>.\<close>

definition head_limits_new :: "usize \<Rightarrow> usize \<Rightarrow> head_limits option" where
  "head_limits_new bytes headers =
     (if 0 < bytes \<and> 0 < headers
      then Some \<lparr>hl_max_bytes = bytes, hl_max_headers = headers\<rparr> else None)"

record ('h, 'u) request_head =
  req_method :: http_method
  req_target :: 'u
  req_version :: version
  req_headers :: 'h
  req_header_case :: "'h option"

record 'h response_head =
  resp_version :: version
  resp_status :: status_code
  resp_headers :: 'h
  resp_header_case :: "'h option"

section \<open>The terminator scan\<close>

datatype scan_line = Leading | Content | LineEnd | LineEndCr

datatype head_scan = Scanning usize scan_line | ScanComplete usize

definition head_scan_default :: head_scan where
  "head_scan_default = Scanning 0 Leading"

definition next_line :: "scan_line \<Rightarrow> byte \<Rightarrow> scan_line" where
  "next_line line b =
     (if line = Leading \<and> (b = CR \<or> b = LF) then Leading
      else if line = LineEnd \<and> b = CR then LineEndCr
      else if b = LF then LineEnd
      else Content)"

fun head_scan_loop :: "usize \<Rightarrow> scan_line \<Rightarrow> bytes \<Rightarrow> usize option \<times> head_scan" where
  "head_scan_loop scanned line [] = (None, Scanning scanned line)"
| "head_scan_loop scanned line (b # rest) =
     (if (line = LineEnd \<or> line = LineEndCr) \<and> b = LF
      then (Some (scanned + 1), ScanComplete (scanned + 1))
      else head_scan_loop (scanned + 1) (next_line line b) rest)"

definition head_scan_complete :: "head_scan \<Rightarrow> bytes \<Rightarrow> usize option \<times> head_scan" where
  "head_scan_complete scan input =
     (case scan of
        ScanComplete n \<Rightarrow>
          if n \<le> length input then (Some n, scan)
          else head_scan_loop 0 Leading input
      | Scanning scanned line \<Rightarrow>
          if length input < scanned then head_scan_loop 0 Leading input
          else head_scan_loop scanned line (drop scanned input))"

section \<open>The parser\<close>

record head_parser =
  hp_limits :: head_limits
  hp_workspace :: header_workspace
  hp_scan :: head_scan
  hp_preserve_header_case :: bool

definition head_parser_with_limits :: "head_limits \<Rightarrow> head_parser" where
  "head_parser_with_limits l =
     \<lparr>hp_limits = l, hp_workspace = workspace_new (hl_max_headers l),
      hp_scan = head_scan_default, hp_preserve_header_case = False\<rparr>"

definition with_preserved_header_case :: "head_parser \<Rightarrow> bool \<Rightarrow> head_parser" where
  "with_preserved_header_case p enabled = p\<lparr>hp_preserve_header_case := enabled\<rparr>"

definition parse_input_len :: "head_parser \<Rightarrow> bytes \<Rightarrow> usize" where
  "parse_input_len p input = min (length input) (hl_max_bytes (hp_limits p))"

definition head_len :: "head_parser \<Rightarrow> bytes \<Rightarrow> (usize option, head_error) result \<times> head_parser" where
  "head_len p input =
     (let (complete, scan') = head_scan_complete (hp_scan p) (take (parse_input_len p input) input) in
      if complete \<noteq> None then (Ok complete, p\<lparr>hp_scan := scan'\<rparr>)
      else if hl_max_bytes (hp_limits p) < length input
      then (Err (HLimit HL_Bytes), p\<lparr>hp_scan := head_scan_default\<rparr>)
      else (Ok None, p\<lparr>hp_scan := scan'\<rparr>))"

definition map_request_error :: "httparse_error \<Rightarrow> head_error" where
  "map_request_error e =
     (case e of
        TooManyHeaders \<Rightarrow> HLimit HL_Headers
      | HeaderNameError \<Rightarrow> InvalidHeader
      | HeaderValueError \<Rightarrow> InvalidHeader
      | VersionError \<Rightarrow> UnsupportedVersion
      | NewLineError \<Rightarrow> InvalidStartLine
      | TokenError \<Rightarrow> InvalidStartLine
      | StatusError \<Rightarrow> InvalidStartLine)"

definition map_response_error :: "httparse_error \<Rightarrow> head_error" where
  "map_response_error e =
     (case e of
        TooManyHeaders \<Rightarrow> HLimit HL_Headers
      | HeaderNameError \<Rightarrow> InvalidHeader
      | HeaderValueError \<Rightarrow> InvalidHeader
      | VersionError \<Rightarrow> UnsupportedVersion
      | NewLineError \<Rightarrow> InvalidStartLine
      | StatusError \<Rightarrow> InvalidStartLine
      | TokenError \<Rightarrow> InvalidStartLine)"

definition version_of_minor :: "nat \<Rightarrow> (version, head_error) result" where
  "version_of_minor minor =
     (if minor = 0 then Ok HTTP_10 else if minor = 1 then Ok HTTP_11 else Err UnsupportedVersion)"

text \<open>The loop of \<open>shared_headers\<close>; the second map keeps the received spellings.\<close>

fun shared_headers_loop ::
  "('h, 'u) http_api \<Rightarrow> 'h \<Rightarrow> 'h option \<Rightarrow> raw_header list \<Rightarrow> ('h \<times> 'h option, head_error) result" where
  "shared_headers_loop A owned original [] = Ok (owned, original)"
| "shared_headers_loop A owned original (header # rest) =
     and_then (ok_or InvalidHeader (header_name_from_bytes A (rh_name header)))
       (\<lambda>name. and_then (ok_or InvalidHeader (header_value_from_bytes A (rh_value header)))
          (\<lambda>value. shared_headers_loop A (hm_append A owned name value)
             (map_option (\<lambda>o'. hm_append A o' name (rh_name header)) original) rest))"

definition shared_headers ::
  "('h, 'u) http_api \<Rightarrow> raw_header list \<Rightarrow> bool \<Rightarrow> ('h \<times> 'h option, head_error) result" where
  "shared_headers A headers preserve =
     and_then (ok_or (HLimit HL_HeaderMap) (hm_try_with_capacity A (length headers)))
       (\<lambda>owned. shared_headers_loop A owned (if preserve then Some (hm_default A) else None) headers)"

definition build_shared_request_head ::
  "('h, 'u) http_api \<Rightarrow> raw_request \<Rightarrow> bool \<Rightarrow> (('h, 'u) request_head, head_error) result" where
  "build_shared_request_head A request preserve =
     and_then (ok_or InvalidStartLine (rq_method request)) (\<lambda>method_bytes.
     and_then (ok_or InvalidMethod (method_from_bytes A method_bytes)) (\<lambda>method.
     and_then (ok_or InvalidStartLine (rq_path request)) (\<lambda>path.
     and_then (ok_or InvalidTarget (uri_from_bytes A path)) (\<lambda>target.
     and_then (ok_or InvalidStartLine (rq_version request)) (\<lambda>minor.
     and_then (version_of_minor minor) (\<lambda>version.
     and_then (shared_headers A (rq_headers request) preserve) (\<lambda>(headers, header_case).
       Ok \<lparr>req_method = method, req_target = target, req_version = version,
           req_headers = headers, req_header_case = header_case\<rparr>)))))))"

definition build_shared_response_head ::
  "('h, 'u) http_api \<Rightarrow> raw_response \<Rightarrow> bool \<Rightarrow> ('h response_head, head_error) result" where
  "build_shared_response_head A response preserve =
     and_then (ok_or InvalidStartLine (rs_version response)) (\<lambda>minor.
     and_then (version_of_minor minor) (\<lambda>version.
     and_then (ok_or InvalidStartLine (rs_code response)) (\<lambda>code.
       if 599 < code then Err InvalidStatus
       else
         and_then (ok_or InvalidStatus (status_from_u16 A code)) (\<lambda>status.
         and_then (shared_headers A (rs_headers response) preserve) (\<lambda>(headers, header_case).
           Ok \<lparr>resp_version = version, resp_status = status,
               resp_headers = headers, resp_header_case = header_case\<rparr>)))))"

definition parse_shared_request ::
  "httparse_api \<Rightarrow> ('h, 'u) http_api \<Rightarrow> head_parser \<Rightarrow> bytes
     \<Rightarrow> (('h, 'u) request_head, head_error) result \<times> head_parser" where
  "parse_shared_request P A p input =
     (if hl_max_bytes (hp_limits p) < length input
      then (Err (HLimit HL_Bytes), p\<lparr>hp_scan := head_scan_default\<rparr>)
      else
        (let parsed =
           (case map_err map_request_error
                   (parse_request P input (workspace_capacity (hp_workspace p))) of
              Ok (Complete (consumed, request)) \<Rightarrow>
                if consumed = length input
                then build_shared_request_head A request (hp_preserve_header_case p)
                else Err InvalidStartLine
            | Ok Partial \<Rightarrow> Err InvalidStartLine
            | Err e \<Rightarrow> Err e)
         in (parsed, p\<lparr>hp_workspace := workspace_clear (hp_workspace p), hp_scan := head_scan_default\<rparr>)))"

definition parse_shared_response ::
  "httparse_api \<Rightarrow> ('h, 'u) http_api \<Rightarrow> head_parser \<Rightarrow> bytes
     \<Rightarrow> ('h response_head, head_error) result \<times> head_parser" where
  "parse_shared_response P A p input =
     (if hl_max_bytes (hp_limits p) < length input
      then (Err (HLimit HL_Bytes), p\<lparr>hp_scan := head_scan_default\<rparr>)
      else
        (let parsed =
           (case map_err map_response_error
                   (parse_response P input (workspace_capacity (hp_workspace p))) of
              Ok (Complete (consumed, response)) \<Rightarrow>
                if consumed = length input
                then build_shared_response_head A response (hp_preserve_header_case p)
                else Err InvalidStartLine
            | Ok Partial \<Rightarrow> Err InvalidStartLine
            | Err e \<Rightarrow> Err e)
         in (parsed, p\<lparr>hp_workspace := workspace_clear (hp_workspace p), hp_scan := head_scan_default\<rparr>)))"

section \<open>What the scan finds\<close>

abbreviation is_crlf :: "byte \<Rightarrow> bool" where
  "is_crlf b \<equiv> b = CR \<or> b = LF"

text \<open>
  \<open>input\<close> ends in an empty line after a first byte other than CR and LF: read backwards,
  the part that starts at that byte begins with LF LF or LF CR LF.
\<close>

definition ends_head :: "bytes \<Rightarrow> bool" where
  "ends_head input \<longleftrightarrow>
     (let r = rev (dropWhile is_crlf input) in take 2 r = [LF, LF] \<or> take 3 r = [LF, CR, LF])"

text \<open>The line state after a prefix in which no head ended.\<close>

definition line_after :: "bytes \<Rightarrow> scan_line" where
  "line_after input =
     (let r = rev (dropWhile is_crlf input) in
      if r = [] then Leading
      else if hd r = LF then LineEnd
      else if take 2 r = [CR, LF] then LineEndCr
      else Content)"

lemma rev_body_snoc:
  "rev (dropWhile is_crlf (input @ [b])) =
     (if rev (dropWhile is_crlf input) = [] then (if is_crlf b then [] else [b])
      else b # rev (dropWhile is_crlf input))"
  by (induction input) auto

lemma line_after_snoc: "line_after (input @ [b]) = next_line (line_after input) b"
proof -
  obtain r where r: "r = rev (dropWhile is_crlf input)" by simp
  show ?thesis
    unfolding line_after_def rev_body_snoc r [symmetric] Let_def next_line_def
    by (cases r) (auto simp: take_Cons')
qed

lemma ends_head_snoc:
  "ends_head (input @ [b]) \<longleftrightarrow> (line_after input = LineEnd \<or> line_after input = LineEndCr) \<and> b = LF"
proof -
  obtain r where r: "r = rev (dropWhile is_crlf input)" by simp
  show ?thesis
    unfolding line_after_def ends_head_def rev_body_snoc r [symmetric] Let_def
    by (cases r) (auto simp: take_Cons')
qed

text \<open>A scan in a position that the bytes before it justify.\<close>

definition scan_at :: "bytes \<Rightarrow> usize \<Rightarrow> scan_line \<Rightarrow> bool" where
  "scan_at input k line \<longleftrightarrow>
     k \<le> length input \<and> line = line_after (take k input) \<and> (\<forall>i \<le> k. \<not> ends_head (take i input))"

lemma head_scan_loop_spec:
  assumes "scan_at input k line"
  shows "case head_scan_loop k line (drop k input) of
     (Some n, s) \<Rightarrow> s = ScanComplete n \<and> k < n \<and> n \<le> length input \<and> ends_head (take n input)
        \<and> (\<forall>i < n. \<not> ends_head (take i input))
   | (None, s) \<Rightarrow> (\<exists>l. s = Scanning (length input) l \<and> scan_at input (length input) l)"
  using assms
proof (induction "drop k input" arbitrary: k line)
  case Nil
  then show ?case by (auto simp: scan_at_def)
next
  case (Cons b rest)
  then have k: "k < length input" by (metis drop_all leI list.distinct(1))
  then have b: "b = input ! k" and rest: "rest = drop (Suc k) input"
    using Cons.hyps(2) Cons_nth_drop_Suc [OF k] by (metis list.inject)+
  have snoc: "take (Suc k) input = take k input @ [b]"
    using k b by (simp add: take_Suc_conv_app_nth)
  have line: "line = line_after (take k input)" using Cons.prems by (simp add: scan_at_def)
  show ?case
  proof (cases "(line = LineEnd \<or> line = LineEndCr) \<and> b = LF")
    case True
    then have "ends_head (take (Suc k) input)"
      using line by (simp add: snoc ends_head_snoc)
    then show ?thesis
      using True Cons.prems k
      by (simp add: Cons.hyps(2) [symmetric] scan_at_def less_Suc_eq_le)
  next
    case False
    then have "\<not> ends_head (take (Suc k) input)"
      using line by (auto simp: snoc ends_head_snoc)
    then have "scan_at input (Suc k) (next_line line b)"
      using Cons.prems k line by (auto simp: scan_at_def snoc line_after_snoc le_Suc_eq)
    from Cons.hyps(1) [OF rest this]
    have "case head_scan_loop (Suc k) (next_line line b) rest of
       (Some n, s) \<Rightarrow> s = ScanComplete n \<and> Suc k < n \<and> n \<le> length input \<and> ends_head (take n input)
          \<and> (\<forall>i < n. \<not> ends_head (take i input))
     | (None, s) \<Rightarrow> (\<exists>l. s = Scanning (length input) l \<and> scan_at input (length input) l)"
      by (simp add: rest)
    then show ?thesis
      using False by (auto simp: Cons.hyps(2) [symmetric] split: prod.splits option.splits)
  qed
qed

text \<open>The reference: the length of the shortest prefix that ends a head.\<close>

definition head_end :: "bytes \<Rightarrow> usize option" where
  "head_end input = find (\<lambda>n. ends_head (take n input)) [0..<Suc (length input)]"

lemma head_end_Some:
  "head_end input = Some n \<longleftrightarrow>
     n \<le> length input \<and> ends_head (take n input) \<and> (\<forall>i < n. \<not> ends_head (take i input))"
proof -
  have "head_end input = Some n \<longleftrightarrow> (\<exists>i < Suc (length input). ends_head (take i input) \<and> n = i
      \<and> (\<forall>j < i. \<not> ends_head (take j input)))"
    unfolding head_end_def find_Some_iff by (auto simp: nth_append simp del: upt_Suc)
  then show ?thesis by auto
qed

lemma head_end_None: "head_end input = None \<longleftrightarrow> (\<forall>i \<le> length input. \<not> ends_head (take i input))"
  by (auto simp: head_end_def find_None_iff less_Suc_eq_le simp del: upt_Suc)

fun scan_state_ok :: "head_scan \<Rightarrow> bytes \<Rightarrow> bool" where
  "scan_state_ok (Scanning k line) input \<longleftrightarrow> scan_at input k line"
| "scan_state_ok (ScanComplete n) input \<longleftrightarrow> head_end input = Some n"

lemma ends_head_Nil [simp]: "\<not> ends_head []"
  by (simp add: ends_head_def)

lemma scan_state_ok_default [simp]: "scan_state_ok head_scan_default input"
  by (simp add: head_scan_default_def scan_at_def line_after_def)

lemma scan_state_ok_append:
  assumes "scan_state_ok scan input"
  shows "scan_state_ok scan (input @ extra)"
proof (cases scan)
  case (Scanning k line)
  with assms show ?thesis by (auto simp: scan_at_def)
next
  case (ScanComplete n)
  with assms show ?thesis by (auto simp: head_end_Some)
qed

lemma head_scan_loop_eq:
  assumes "scan_at input k line"
  shows "fst (head_scan_loop k line (drop k input)) = head_end input
     \<and> scan_state_ok (snd (head_scan_loop k line (drop k input))) input"
proof (cases "head_scan_loop k line (drop k input)")
  case (Pair r s)
  show ?thesis
  proof (cases r)
    case None
    with Pair head_scan_loop_spec [OF assms] obtain l where
      "s = Scanning (length input) l" "scan_at input (length input) l" by auto
    moreover from this(2) have "head_end input = None" by (simp add: head_end_None scan_at_def)
    ultimately show ?thesis using Pair None by simp
  next
    case (Some n)
    with Pair head_scan_loop_spec [OF assms] have "s = ScanComplete n" "head_end input = Some n"
      by (auto simp: head_end_Some)
    with Pair Some show ?thesis by simp
  qed
qed

lemma head_scan_complete_eq:
  assumes "scan_state_ok scan input"
  shows "fst (head_scan_complete scan input) = head_end input
     \<and> scan_state_ok (snd (head_scan_complete scan input)) input"
proof (cases scan)
  case (Scanning k line)
  with assms have "scan_at input k line" "k \<le> length input" by (auto simp: scan_at_def)
  with Scanning show ?thesis using head_scan_loop_eq by (simp add: head_scan_complete_def)
next
  case (ScanComplete n)
  with assms have "head_end input = Some n" "n \<le> length input" by (auto simp: head_end_Some)
  with ScanComplete show ?thesis by (simp add: head_scan_complete_def)
qed

section \<open>The bounded search of the parser\<close>

text \<open>The part of the retained input that the parser may look at, and a parser whose scan
  position that part justifies.\<close>

definition head_window :: "head_parser \<Rightarrow> bytes \<Rightarrow> bytes" where
  "head_window p input = take (hl_max_bytes (hp_limits p)) input"

definition parser_ok :: "head_parser \<Rightarrow> bytes \<Rightarrow> bool" where
  "parser_ok p input \<longleftrightarrow> scan_state_ok (hp_scan p) (head_window p input)"

lemma parse_window: "take (parse_input_len p input) input = head_window p input"
  by (simp add: parse_input_len_def head_window_def min_def)

lemma parser_ok_new: "parser_ok (head_parser_with_limits l) input"
  by (simp add: parser_ok_def head_parser_with_limits_def)

lemma parser_ok_append: "parser_ok p input \<Longrightarrow> parser_ok p (input @ extra)"
  by (simp add: parser_ok_def head_window_def scan_state_ok_append)

lemma head_len_eq:
  assumes "parser_ok p input"
  shows "fst (head_len p input) =
      (case head_end (head_window p input) of
         Some n \<Rightarrow> Ok (Some n)
       | None \<Rightarrow> if hl_max_bytes (hp_limits p) < length input then Err (HLimit HL_Bytes) else Ok None)
    \<and> parser_ok (snd (head_len p input)) input
    \<and> hp_limits (snd (head_len p input)) = hp_limits p"
proof -
  obtain r s where rs: "head_scan_complete (hp_scan p) (head_window p input) = (r, s)" by fastforce
  then have r: "r = head_end (head_window p input)" and s: "scan_state_ok s (head_window p input)"
    using head_scan_complete_eq [of "hp_scan p" "head_window p input"] assms by (auto simp: parser_ok_def)
  have "head_window (p\<lparr>hp_scan := x\<rparr>) input = head_window p input" for x
    by (simp add: head_window_def)
  then show ?thesis
    using rs r s by (auto simp: head_len_def parse_window parser_ok_def split: option.splits)
qed

lemma head_end_le: "head_end (head_window p input) = Some n \<Longrightarrow>
    n \<le> length input \<and> n \<le> hl_max_bytes (hp_limits p)"
  by (auto simp: head_end_Some head_window_def)

lemma head_len_limits [simp]: "hp_limits (snd (head_len p input)) = hp_limits p"
  by (simp add: head_len_def Let_def case_prod_beta)

interpretation head: incremental_scan head_len "head_parser_with_limits l"
  "\<lambda>p buf. parser_ok p buf \<and> hp_limits p = l" for l
proof
  fix p buf extra
  assume p: "parser_ok p buf \<and> hp_limits p = l"
  moreover have "hp_limits (head_parser_with_limits l) = l" by (simp add: head_parser_with_limits_def)
  ultimately show "fst (head_len p buf) = fst (head_len (head_parser_with_limits l) buf)"
    using head_len_eq [of p buf] head_len_eq [OF parser_ok_new [of l buf]] by (simp add: head_window_def)
  show "parser_ok (snd (head_len p buf)) (buf @ extra) \<and> hp_limits (snd (head_len p buf)) = l"
    using p head_len_eq [of p buf] parser_ok_append by simp
qed (use parser_ok_new in \<open>simp_all add: head_parser_with_limits_def\<close>)

section \<open>Properties\<close>

text \<open>
  C34. The end of a message head is found wherever the reads fall. Calling \<open>head_len\<close> after
  every read, with the scan position it kept, answers for the whole input what the
  reference \<open>head_end\<close> answers: the length of the shortest prefix that, after leading line
  breaks, ends with an empty line. Only the first \<open>max_bytes\<close> bytes are searched, and an input
  that is longer without such a prefix is refused.
\<close>

theorem head_len_incremental:
  "fst (rescan head_len (head_parser_with_limits l) [] fs) =
     (case head_end (take (hl_max_bytes l) (concat fs)) of
        Some n \<Rightarrow> Ok (Some n)
      | None \<Rightarrow> if hl_max_bytes l < length (concat fs) then Err (HLimit HL_Bytes) else Ok None)"
  using head.rescan_start [of l fs] head_len_eq [OF parser_ok_new [of l "concat fs"]]
  by (simp add: head_window_def head_parser_with_limits_def)

text \<open>
  A parsed head leaves nothing behind in the parser: whatever the outcome, the next
  head is searched from the start and the header workspace has all its slots free again;
  and a head that is accepted is within the configured size.
\<close>

theorem parse_shared_request_resets:
  assumes "parse_shared_request P A p input = (r, p')" and "hp_workspace p = workspace_new n"
  shows "p' = p\<lparr>hp_scan := head_scan_default\<rparr>
     \<and> (\<forall>h. r = Ok h \<longrightarrow> length input \<le> hl_max_bytes (hp_limits p))"
proof -
  have "workspace_clear (workspace_new n) = workspace_new n"
    by (simp add: workspace_clear_def workspace_new_def map_replicate_const)
  then show ?thesis
    using assms by (auto simp: parse_shared_request_def Let_def split: if_splits)
qed

theorem parse_shared_request_resets_witness:
  "snd (parse_shared_request empty_httparse alist_http
      (head_parser_with_limits \<lparr>hl_max_bytes = 4, hl_max_headers = 2\<rparr>) [71, LF, LF])
   = (head_parser_with_limits \<lparr>hl_max_bytes = 4, hl_max_headers = 2\<rparr>)\<lparr>hp_scan := head_scan_default\<rparr>"
proof -
  let ?p = "head_parser_with_limits \<lparr>hl_max_bytes = 4, hl_max_headers = 2\<rparr>"
  obtain r p' where run: "parse_shared_request empty_httparse alist_http ?p [71, LF, LF] = (r, p')"
    by fastforce
  have "hp_workspace ?p = workspace_new 2" by (simp add: head_parser_with_limits_def)
  from parse_shared_request_resets [OF run this] run show ?thesis by simp
qed

end
