(* ===== verification/Head_Validate.thy ===== *)
theory Head_Validate
  imports Head_Scan H1_Types
begin

text \<open>
  Field and message semantics of a parsed head, from \<open>src/src/proto/h1/head/validate.rs\<close>:
  the comma-separated list reader with its quoting automaton, Content-Length,
  Transfer-Encoding, Connection, Expect and Upgrade, the request target and the Host field,
  and the two validation entry points that decide a message's body mode and persistence.

  A closure that updates captured variables is a handler that takes and returns their
  values; an early \<open>return Err\<close> of the closure ends the whole loop.

  The lemmas characterise Content-Length and Transfer-Encoding by the list members of the
  field, without the automaton, and show that a validated message has one unambiguous
  framing.
\<close>

section \<open>Comma-separated lists\<close>

definition is_token :: "bytes \<Rightarrow> bool" where
  "is_token v \<longleftrightarrow> v \<noteq> [] \<and> list_all is_tchar v"

fun list_member_loop ::
  "bytes \<Rightarrow> head_error \<Rightarrow> ('s \<Rightarrow> bytes \<Rightarrow> ('s, head_error) result)
     \<Rightarrow> usize \<Rightarrow> usize \<Rightarrow> bool \<Rightarrow> bool \<Rightarrow> 's \<Rightarrow> bytes \<Rightarrow> ('s, head_error) result" where
  "list_member_loop input err handle start index quoted escaped s [] =
     (if quoted \<or> escaped \<or> start = length input then Err err
      else handle s (drop start input))"
| "list_member_loop input err handle start index quoted escaped s (b # rest) =
     (if escaped then list_member_loop input err handle start (index + 1) quoted False s rest
      else if quoted \<and> b = BACKSLASH
      then list_member_loop input err handle start (index + 1) quoted True s rest
      else if b = DQUOTE
      then list_member_loop input err handle start (index + 1) (\<not> quoted) False s rest
      else if b = COMMA \<and> \<not> quoted then
        (if index = start then Err err
         else and_then (handle s (take (index - start) (drop start input)))
           (\<lambda>s'. list_member_loop input err handle (index + 1) (index + 1) quoted False s' rest))
      else list_member_loop input err handle start (index + 1) quoted False s rest)"

definition for_each_list_member ::
  "bytes \<Rightarrow> head_error \<Rightarrow> ('s \<Rightarrow> bytes \<Rightarrow> ('s, head_error) result) \<Rightarrow> 's \<Rightarrow> ('s, head_error) result" where
  "for_each_list_member input err handle s =
     (if input = [] then Err err else list_member_loop input err handle 0 0 False False s input)"

text \<open>\<open>for value in headers.get_all(NAME)\<close> with a fallible body.\<close>

fun for_each_value ::
  "('s \<Rightarrow> bytes \<Rightarrow> ('s, head_error) result) \<Rightarrow> 's \<Rightarrow> bytes list \<Rightarrow> ('s, head_error) result" where
  "for_each_value handle s [] = Ok s"
| "for_each_value handle s (v # vs) = and_then (handle s v) (\<lambda>s'. for_each_value handle s' vs)"

section \<open>Content-Length\<close>

text \<open>\<open>u64::from(digit - b'0')\<close>\<close>

definition digit_value :: "byte \<Rightarrow> u64" where
  "digit_value b = ucast (b - 48)"

definition content_length_member :: "u64 option \<Rightarrow> bytes \<Rightarrow> (u64 option, head_error) result" where
  "content_length_member parsed member =
     (let member = trim_ows member in
      if member = [] \<or> \<not> list_all is_ascii_digit member then Err InvalidContentLength
      else
        (case radix_fold 10 digit_value 0 member of
           None \<Rightarrow> Err InvalidContentLength
         | Some n \<Rightarrow>
             if parsed \<noteq> None \<and> parsed \<noteq> Some n then Err AmbiguousMessageLength
             else Ok (Some n)))"

text \<open>The state of the outer loop is \<open>(present, parsed)\<close>.\<close>

definition parse_content_length :: "('h, 'u) http_api \<Rightarrow> 'h \<Rightarrow> (u64 option, head_error) result" where
  "parse_content_length A headers =
     and_then
       (for_each_value
          (\<lambda>(present, parsed) v.
             and_then (for_each_list_member v InvalidContentLength content_length_member parsed)
               (\<lambda>parsed'. Ok (True, parsed')))
          (False, None) (hm_get_all A headers CONTENT_LENGTH))
       (\<lambda>(present, parsed).
          if present \<and> parsed = None then Err InvalidContentLength else Ok parsed)"

section \<open>Transfer-Encoding\<close>

datatype transfer_framing = TF_Chunked

definition split_coding :: "bytes \<Rightarrow> (bytes \<times> bytes, head_error) result" where
  "split_coding member =
     (let split = (case position (\<lambda>b. b = SEMICOLON) member of None \<Rightarrow> length member | Some i \<Rightarrow> i);
          coding = trim_ows (take split member);
          parameters = drop split member
      in if coding = [] then Err InvalidTransferEncoding else Ok (coding, parameters))"

text \<open>\<open>input.iter().take_while(|byte| is_tchar(**byte)).count()\<close>\<close>

definition tchar_len :: "bytes \<Rightarrow> usize" where
  "tchar_len v = length (takeWhile is_tchar v)"

definition parameter_value_len :: "bytes \<Rightarrow> (usize, head_error) result" where
  "parameter_value_len input =
     (if first input = Some DQUOTE then ok_or InvalidTransferEncoding (quoted_string_len input)
      else if tchar_len input = 0 then Err InvalidTransferEncoding
      else Ok (tchar_len input))"

text \<open>
  One round of the loop of \<open>validate_transfer_parameters\<close>, on a non-empty input: the input
  left after one parameter.
\<close>

definition transfer_parameter :: "bytes \<Rightarrow> (bytes, head_error) result" where
  "transfer_parameter input =
     (if first input \<noteq> Some SEMICOLON then Err InvalidTransferEncoding
      else
        (let input = trim_ows (drop 1 input); name_len = tchar_len input in
         if name_len = 0 then Err InvalidTransferEncoding
         else
           (let input = trim_ows (drop name_len input) in
            if first input \<noteq> Some EQUALS then Err InvalidTransferEncoding
            else
              (let input = trim_ows (drop 1 input) in
               and_then (parameter_value_len input) (\<lambda>value_len.
                 let input = trim_ows (drop value_len input) in
                 if input \<noteq> [] \<and> first input \<noteq> Some SEMICOLON then Err InvalidTransferEncoding
                 else Ok input)))))"

lemma transfer_parameter_shrinks:
  assumes "transfer_parameter input = Ok rest"
  shows "length rest < length input"
proof -
  have *: "length (trim_ows (drop n (trim_ows (drop m (trim_ows (drop k (trim_ows (drop 1 input)))))))) < length input"
    if "input \<noteq> []" for n m k
    using that length_trim_drop [of n "trim_ows (drop m (trim_ows (drop k (trim_ows (drop 1 input)))))"]
      length_trim_drop [of m "trim_ows (drop k (trim_ows (drop 1 input)))"]
      length_trim_drop [of k "trim_ows (drop 1 input)"] length_trim_drop [of 1 input]
    by (cases input) (simp_all del: length_trim_ows)
  show ?thesis
    using assms *
    by (cases "input = []") (auto simp: transfer_parameter_def Let_def split: if_splits)
qed

function validate_transfer_parameters :: "bytes \<Rightarrow> (unit, head_error) result" where
  "validate_transfer_parameters input =
     (if input = [] then Ok ()
      else and_then (transfer_parameter input) validate_transfer_parameters)"
  by pat_completeness auto
termination
  by (relation "measure length") (auto dest: transfer_parameter_shrinks)

declare validate_transfer_parameters.simps [simp del]

record coding_state =
  codings :: usize
  chunked_at :: "usize option"
  unsupported :: bool

definition transfer_coding_member :: "coding_state \<Rightarrow> bytes \<Rightarrow> (coding_state, head_error) result" where
  "transfer_coding_member s member =
     (let member = trim_ows member in
      and_then (split_coding member) (\<lambda>(coding, parameters).
      if \<not> is_token coding then Err InvalidTransferEncoding
      else
        and_then (validate_transfer_parameters parameters) (\<lambda>_.
        and_then (ok_or InvalidTransferEncoding (checked_add_usize (codings s) 1)) (\<lambda>n.
        if eq_ignore_ascii_case coding (bstr ''chunked'') then
          (if chunked_at s \<noteq> None \<or> parameters \<noteq> [] then Err InvalidTransferEncoding
           else Ok (s\<lparr>codings := n, chunked_at := Some n\<rparr>))
        else Ok (s\<lparr>codings := n, unsupported := True\<rparr>)))))"

definition parse_transfer_encoding ::
  "('h, 'u) http_api \<Rightarrow> 'h \<Rightarrow> (transfer_framing option, head_error) result" where
  "parse_transfer_encoding A headers =
     and_then
       (for_each_value
          (\<lambda>s v. for_each_list_member v InvalidTransferEncoding transfer_coding_member s)
          \<lparr>codings = 0, chunked_at = None, unsupported = False\<rparr>
          (hm_get_all A headers TRANSFER_ENCODING))
       (\<lambda>s. if codings s = 0 then Ok None
            else if chunked_at s \<noteq> Some (codings s) then Err InvalidTransferEncoding
            else if unsupported s then Err UnsupportedTransferCoding
            else Ok (Some TF_Chunked))"

section \<open>Connection, Expect and Upgrade\<close>

record connection_options =
  opt_close :: bool
  opt_keep_alive :: bool
  opt_upgrade :: bool

definition connection_member ::
  "connection_options \<Rightarrow> bytes \<Rightarrow> (connection_options, head_error) result" where
  "connection_member options member =
     (let token = trim_ows member in
      if \<not> is_token token then Err InvalidConnection
      else if eq_ignore_ascii_case token (bstr ''close'') then Ok (options\<lparr>opt_close := True\<rparr>)
      else if eq_ignore_ascii_case token (bstr ''keep-alive'') then Ok (options\<lparr>opt_keep_alive := True\<rparr>)
      else if eq_ignore_ascii_case token (bstr ''upgrade'') then Ok (options\<lparr>opt_upgrade := True\<rparr>)
      else Ok options)"

definition parse_connection_options ::
  "('h, 'u) http_api \<Rightarrow> 'h \<Rightarrow> (connection_options, head_error) result" where
  "parse_connection_options A headers =
     for_each_value
       (\<lambda>s v. for_each_list_member v InvalidConnection connection_member s)
       \<lparr>opt_close = False, opt_keep_alive = False, opt_upgrade = False\<rparr>
       (hm_get_all A headers CONNECTION)"

definition persistence_of :: "version \<Rightarrow> connection_options \<Rightarrow> persistence" where
  "persistence_of version options =
     (if opt_close options \<or> (version = HTTP_10 \<and> \<not> opt_keep_alive options) then Close else Reusable)"

definition expectation_member :: "usize \<Rightarrow> bytes \<Rightarrow> (usize, head_error) result" where
  "expectation_member continue_count member =
     (if \<not> eq_ignore_ascii_case (trim_ows member) (bstr ''100-continue'') then Err InvalidExpectation
      else ok_or InvalidExpectation (checked_add_usize continue_count 1))"

definition parse_expectation ::
  "('h, 'u) http_api \<Rightarrow> 'h \<Rightarrow> version \<Rightarrow> bool \<Rightarrow> (expectation, head_error) result" where
  "parse_expectation A headers version received =
     and_then
       (for_each_value
          (\<lambda>s v. for_each_list_member v InvalidExpectation expectation_member s)
          0 (hm_get_all A headers EXPECT))
       (\<lambda>continue_count.
          if continue_count = 0 then Ok Expect_None
          else if version = HTTP_11 then Ok Expect_Continue
          else if version = HTTP_10 \<and> received then Ok Expect_None
          else Err InvalidExpectation)"

definition upgrade_member :: "usize \<Rightarrow> bytes \<Rightarrow> (usize, head_error) result" where
  "upgrade_member protocols member =
     (let parts = split_on (\<lambda>b. b = SLASH) (trim_ows member);
          protocol = (case parts of [] \<Rightarrow> [] | p # _ \<Rightarrow> p);
          version = first (drop 1 parts)
      in if \<not> is_token protocol \<or> (case version of None \<Rightarrow> False | Some v \<Rightarrow> \<not> is_token v) \<or> first (drop 2 parts) \<noteq> None
         then Err InvalidUpgrade
         else ok_or InvalidUpgrade (checked_add_usize protocols 1))"

definition validate_upgrade_values :: "('h, 'u) http_api \<Rightarrow> 'h \<Rightarrow> (bool, head_error) result" where
  "validate_upgrade_values A headers =
     and_then
       (for_each_value
          (\<lambda>s v. for_each_list_member v InvalidUpgrade upgrade_member s)
          0 (hm_get_all A headers UPGRADE))
       (\<lambda>protocols. Ok (protocols \<noteq> 0))"

definition upgrade_intent ::
  "('h, 'u) http_api \<Rightarrow> 'h \<Rightarrow> connection_options \<Rightarrow> target_form
     \<Rightarrow> (upgrade_kind option, head_error) result" where
  "upgrade_intent A headers connection form =
     (if form = Authority then Ok (Some Tunnel)
      else
        and_then (validate_upgrade_values A headers) (\<lambda>has_upgrade.
          if opt_upgrade connection \<and> \<not> opt_close connection \<and> has_upgrade then Ok (Some Protocol)
          else if \<not> opt_upgrade connection \<and> \<not> has_upgrade then Ok None
          else Err InvalidUpgrade))"

definition validate_protocol_upgrade ::
  "('h, 'u) http_api \<Rightarrow> 'h \<Rightarrow> connection_options \<Rightarrow> (unit, head_error) result" where
  "validate_protocol_upgrade A headers connection =
     (if opt_upgrade connection \<and> \<not> opt_close connection
      then and_then (validate_upgrade_values A headers)
             (\<lambda>has_upgrade. if has_upgrade then Ok () else Err InvalidUpgrade)
      else Err InvalidUpgrade)"

section \<open>Target and Host\<close>

definition classify_target :: "('h, 'u) http_api \<Rightarrow> 'u \<Rightarrow> (target_form, head_error) result" where
  "classify_target A target =
     (if uri_path A target = bstr ''*'' \<and> \<not> uri_has_scheme A target \<and> uri_authority A target = None
      then Ok Asterisk
      else if uri_has_scheme A target \<and> uri_authority A target \<noteq> None then Ok Absolute
      else if \<not> uri_has_scheme A target \<and> uri_authority A target \<noteq> None
              \<and> \<not> uri_has_path_and_query A target then Ok Authority
      else if \<not> uri_has_scheme A target \<and> uri_authority A target = None
              \<and> first (uri_path A target) = Some SLASH then Ok Origin
      else Err InvalidTargetForm)"

definition validate_request_target ::
  "('h, 'u) http_api \<Rightarrow> http_method \<Rightarrow> 'u \<Rightarrow> (target_form, head_error) result" where
  "validate_request_target A method target =
     and_then (classify_target A target) (\<lambda>form.
       if method = METHOD_CONNECT then
         (if form = Authority
             \<and> (case uri_authority A target of None \<Rightarrow> False | Some a \<Rightarrow> authority_has_port A a)
          then Ok form else Err InvalidTargetForm)
       else if method = METHOD_OPTIONS \<and> form = Asterisk then Ok form
       else if form = Asterisk \<or> form = Authority then Err InvalidTargetForm
       else Ok form)"

definition normalize_absolute_host ::
  "('h, 'u) http_api \<Rightarrow> 'h \<Rightarrow> 'u \<Rightarrow> ('h, head_error) result" where
  "normalize_absolute_host A headers target =
     and_then (ok_or InvalidTargetForm (uri_authority A target)) (\<lambda>authority.
       if AT_SIGN \<in> set authority then Err InvalidTarget
       else
         and_then (ok_or InvalidHost (header_value_from_str A authority))
           (\<lambda>v. Ok (hm_insert A headers HOST v)))"

definition validate_host :: "('h, 'u) http_api \<Rightarrow> 'h \<Rightarrow> version \<Rightarrow> (unit, head_error) result" where
  "validate_host A headers version =
     (case hm_get_all A headers HOST of
        [] \<Rightarrow> if version = HTTP_11 then Err MissingHost else Ok ()
      | v # vs \<Rightarrow>
          if vs \<noteq> [] then Err InvalidHost
          else
            (let bytes = trim_ows v in
             if bytes = [] \<or> COMMA \<in> set bytes \<or> AT_SIGN \<in> set bytes then Err InvalidHost
             else if \<not> str_from_utf8 A bytes then Err InvalidHost
             else if authority_parse A bytes then Ok () else Err InvalidHost))"

section \<open>Validation\<close>

record ('h, 'u) validated_request_head =
  vreq_head :: "('h, 'u) request_head"
  vreq_body :: body_mode
  vreq_persistence :: persistence
  vreq_target_form :: target_form
  vreq_expectation :: expectation
  vreq_upgrade :: "upgrade_kind option"

record 'h validated_response_head =
  vresp_head :: "'h response_head"
  vresp_body :: body_mode
  vresp_persistence :: persistence
  vresp_upgrade :: "upgrade_kind option"

text \<open>
  The framing block both entry points share: the conflict check, the version check, and the
  body mode, whose default (no field at all) is an argument.
\<close>

definition message_framing ::
  "('h, 'u) http_api \<Rightarrow> 'h \<Rightarrow> version \<Rightarrow> body_mode \<Rightarrow> (body_mode, head_error) result" where
  "message_framing A headers version default_mode =
     and_then (parse_content_length A headers) (\<lambda>content_length.
     and_then (parse_transfer_encoding A headers) (\<lambda>transfer_encoding.
       if content_length \<noteq> None \<and> transfer_encoding \<noteq> None then Err AmbiguousMessageLength
       else if transfer_encoding \<noteq> None \<and> version \<noteq> HTTP_11 then Err InvalidTransferEncoding
       else
         (case (transfer_encoding, content_length) of
            (Some TF_Chunked, _) \<Rightarrow> Ok BM_Chunked
          | (None, Some n) \<Rightarrow> Ok (BM_Fixed n)
          | (None, None) \<Rightarrow> Ok default_mode)))"

definition validate_for ::
  "('h, 'u) http_api \<Rightarrow> ('h, 'u) request_head \<Rightarrow> bool
     \<Rightarrow> (('h, 'u) validated_request_head, head_error) result" where
  "validate_for A self received =
     and_then (validate_request_target A (req_method self) (req_target self)) (\<lambda>form.
     and_then (validate_host A (req_headers self) (req_version self)) (\<lambda>_.
     and_then (if form = Absolute
               then and_then (normalize_absolute_host A (req_headers self) (req_target self))
                      (\<lambda>headers. Ok (self\<lparr>req_headers := headers\<rparr>))
               else Ok self) (\<lambda>self.
     and_then (message_framing A (req_headers self) (req_version self) BM_None) (\<lambda>body.
     and_then (parse_connection_options A (req_headers self)) (\<lambda>connection.
     and_then (parse_expectation A (req_headers self) (req_version self) received) (\<lambda>expect.
     and_then (if received \<and> req_version self = HTTP_10 \<and> form \<noteq> Authority then Ok None
               else upgrade_intent A (req_headers self) connection form) (\<lambda>upgrade.
       if upgrade = Some Protocol \<and> req_version self \<noteq> HTTP_11 then Err InvalidUpgrade
       else Ok \<lparr>vreq_head = self, vreq_body = body,
                vreq_persistence = persistence_of (req_version self) connection,
                vreq_target_form = form, vreq_expectation = expect, vreq_upgrade = upgrade\<rparr>)))))))"

definition validate_request ::
  "('h, 'u) http_api \<Rightarrow> ('h, 'u) request_head \<Rightarrow> (('h, 'u) validated_request_head, head_error) result" where
  "validate_request A self = validate_for A self False"

definition validate_received ::
  "('h, 'u) http_api \<Rightarrow> ('h, 'u) request_head \<Rightarrow> (('h, 'u) validated_request_head, head_error) result" where
  "validate_received A self = validate_for A self True"

text \<open>A response to HEAD or with one of these status codes carries no body.\<close>

definition bodiless :: "('h, 'u) http_api \<Rightarrow> http_method \<Rightarrow> status_code \<Rightarrow> upgrade_kind option \<Rightarrow> bool" where
  "bodiless A request_method status upgrade \<longleftrightarrow>
     upgrade \<noteq> None \<or> request_method = METHOD_HEAD \<or> status_is_informational A status
     \<or> status = NO_CONTENT \<or> status = RESET_CONTENT \<or> status = NOT_MODIFIED"

definition response_upgrade ::
  "('h, 'u) http_api \<Rightarrow> 'h response_head \<Rightarrow> connection_options \<Rightarrow> http_method
     \<Rightarrow> (upgrade_kind option, head_error) result" where
  "response_upgrade A self connection request_method =
     (if resp_status self = SWITCHING_PROTOCOLS then
        (if resp_version self \<noteq> HTTP_11 then Err InvalidUpgrade
         else and_then (validate_protocol_upgrade A (resp_headers self) connection)
                (\<lambda>_. Ok (Some Protocol)))
      else if request_method = METHOD_CONNECT \<and> status_is_success A (resp_status self) then Ok (Some Tunnel)
      else Ok None)"

definition validate_response ::
  "('h, 'u) http_api \<Rightarrow> 'h response_head \<Rightarrow> http_method \<Rightarrow> ('h validated_response_head, head_error) result" where
  "validate_response A self request_method =
     (if 599 < resp_status self then Err InvalidStatus
      else
        and_then (parse_connection_options A (resp_headers self)) (\<lambda>connection.
        and_then (response_upgrade A self connection request_method) (\<lambda>upgrade.
        and_then (if bodiless A request_method (resp_status self) upgrade then Ok BM_None
                  else message_framing A (resp_headers self) (resp_version self) BM_UntilEof) (\<lambda>body.
          Ok \<lparr>vresp_head = self, vresp_body = body,
              vresp_persistence =
                (if body = BM_UntilEof then Close
                 else persistence_of (resp_version self) connection),
              vresp_upgrade = upgrade\<rparr>))))"

section \<open>The list reader without its automaton\<close>

text \<open>
  \<open>list_pieces\<close> cuts a value at its unquoted commas: \<open>cur\<close> is the member read so far.
\<close>

fun list_pieces :: "bool \<Rightarrow> bool \<Rightarrow> bytes \<Rightarrow> bytes \<Rightarrow> bytes list option" where
  "list_pieces quoted escaped cur [] = (if quoted \<or> escaped \<or> cur = [] then None else Some [cur])"
| "list_pieces quoted escaped cur (b # rest) =
     (if escaped then list_pieces quoted False (cur @ [b]) rest
      else if quoted \<and> b = BACKSLASH then list_pieces quoted True (cur @ [b]) rest
      else if b = DQUOTE then list_pieces (\<not> quoted) False (cur @ [b]) rest
      else if b = COMMA \<and> \<not> quoted then
        (if cur = [] then None else map_option (\<lambda>ms. cur # ms) (list_pieces quoted False [] rest))
      else list_pieces quoted False (cur @ [b]) rest)"

lemma list_member_loop_pieces:
  assumes "length done + length cur = index" and "length done = start"
  shows "list_member_loop (done @ cur @ rest) err handle start index quoted escaped s rest = Ok s'
     \<longleftrightarrow> (\<exists>ms. list_pieces quoted escaped cur rest = Some ms \<and> for_each_value handle s ms = Ok s')"
  using assms
proof (induction rest arbitrary: "done" cur start index quoted escaped s)
  case Nil
  then show ?case by auto
next
  case (Cons b rest)
  define inp where "inp = done @ cur @ b # rest"
  have next_byte: "list_member_loop inp err handle start (Suc index) q e s rest = Ok s'
     \<longleftrightarrow> (\<exists>ms. list_pieces q e (cur @ [b]) rest = Some ms \<and> for_each_value handle s ms = Ok s')" for q e
    using Cons.IH [of "done" "cur @ [b]" "Suc index" start q e s] Cons.prems by (simp add: inp_def)
  have next_member: "list_member_loop inp err handle (Suc index) (Suc index) q False t rest = Ok s'
     \<longleftrightarrow> (\<exists>ms. list_pieces q False [] rest = Some ms \<and> for_each_value handle t ms = Ok s')" for q t
    using Cons.IH [of "done @ cur @ [b]" "[]" "Suc index" "Suc index" q False t] Cons.prems
    by (simp add: inp_def)
  have cur: "take (index - start) (drop start inp) = cur"
    using Cons.prems by (auto simp: inp_def)
  have empty: "index = start \<longleftrightarrow> cur = []" using Cons.prems by auto
  have "list_member_loop inp err handle start index quoted escaped s (b # rest) = Ok s'
     \<longleftrightarrow> (\<exists>ms. list_pieces quoted escaped cur (b # rest) = Some ms \<and> for_each_value handle s ms = Ok s')"
    by (auto simp: next_byte next_member cur empty)
  then show ?case by (simp only: inp_def)
qed

lemma for_each_list_member_pieces:
  "for_each_list_member input err handle s = Ok s' \<longleftrightarrow>
     (\<exists>ms. list_pieces False False [] input = Some ms \<and> for_each_value handle s ms = Ok s')"
  using list_member_loop_pieces [of "[]" "[]" 0 0 input err handle False False s s']
  by (auto simp: for_each_list_member_def)

text \<open>Without a quote the pieces are those between the commas.\<close>

lemma list_pieces_unquoted:
  assumes "DQUOTE \<notin> set rest"
  shows "list_pieces False False cur rest =
     (let ps = split_on (\<lambda>b. b = COMMA) rest; ms = (cur @ hd ps) # tl ps in
      if [] \<in> set ms then None else Some ms)"
  using assms
proof (induction rest arbitrary: cur)
  case Nil
  then show ?case by (simp add: Let_def)
next
  case (Cons b rest)
  obtain p ps where sp: "split_on (\<lambda>b. b = COMMA) rest = p # ps"
    by (meson list.exhaust split_on_not_Nil)
  show ?case using Cons sp by (auto simp: Let_def)
qed

text \<open>Every piece keeps its bytes, so a quote in the value is in some piece.\<close>

lemma list_pieces_keep:
  "list_pieces q e cur rest = Some ms \<Longrightarrow>
     set cur \<subseteq> \<Union> (set ` set ms) \<and> (\<forall>b \<in> set rest. b \<noteq> COMMA \<longrightarrow> b \<in> \<Union> (set ` set ms))"
  by (induction rest arbitrary: q e cur ms) (fastforce split: if_splits)+

lemma split_on_keep: "b \<in> set v \<Longrightarrow> \<not> p b \<Longrightarrow> \<exists>m \<in> set (split_on p v). b \<in> set m"
  by (induction v) (force split: list.splits)+

lemma trim_ows_keep: "b \<in> set v \<Longrightarrow> \<not> is_ows b \<Longrightarrow> b \<in> set (trim_ows v)"
  using trim_ows_spec [of v] by (metis UnCI UnE set_append)

text \<open>
  A list whose members must satisfy a predicate that excludes quotes is a list between
  commas, each member trimmed.
\<close>

lemma list_pieces_comma_members:
  assumes unquoted: "\<And>m. good m \<Longrightarrow> DQUOTE \<notin> set m" and nonempty: "\<not> good []"
  shows "(\<exists>ms. list_pieces False False [] v = Some ms \<and> (\<forall>m \<in> set ms. good (trim_ows m)) \<and> Q (map trim_ows ms))
     \<longleftrightarrow> (\<forall>m \<in> set (comma_members v). good m) \<and> Q (comma_members v)"
proof (cases "DQUOTE \<in> set v")
  case True
  have "\<not> good (trim_ows m)" if "DQUOTE \<in> set m" for m
    using trim_ows_keep [OF that] unquoted by (auto simp: is_ows_def)
  moreover have "\<exists>m \<in> set ms. DQUOTE \<in> set m" if "list_pieces False False [] v = Some ms" for ms
    using list_pieces_keep [OF that] True by auto
  moreover have "\<exists>m \<in> set (split_on (\<lambda>b. b = COMMA) v). DQUOTE \<in> set m"
    by (rule split_on_keep [OF True]) simp
  ultimately show ?thesis unfolding comma_members_def set_map by (metis imageI)
next
  case False
  then have pieces: "list_pieces False False [] v =
      (let ms = split_on (\<lambda>b. b = COMMA) v in if [] \<in> set ms then None else Some ms)"
    using hd_Cons_tl [OF split_on_not_Nil [of "\<lambda>b. b = COMMA" v]]
    by (simp only: list_pieces_unquoted append_Nil Let_def not_False_eq_True)
  show ?thesis using nonempty by (force simp: pieces comma_members_def Let_def)
qed

section \<open>Content-Length\<close>

definition decimal_value :: "bytes \<Rightarrow> nat" where
  "decimal_value v = radix_value 10 (\<lambda>b. unat b - 48) 0 v"

definition spells_length :: "u64 \<Rightarrow> bytes \<Rightarrow> bool" where
  "spells_length n v \<longleftrightarrow> v \<noteq> [] \<and> list_all is_ascii_digit v \<and> decimal_value v = unat n"

lemma unat_digit_value: "is_ascii_digit b \<Longrightarrow> unat (digit_value b) = unat b - 48"
proof -
  assume b: "is_ascii_digit b"
  then have "unat (b - 48) = unat b - 48"
    using unat_sub [of 48 b] by (simp add: is_ascii_digit_def)
  then show ?thesis
    using unsigned_less [of "b - 48", where ?'a = nat]
    by (simp add: digit_value_def unsigned_ucast_eq take_bit_nat_eq_self)
qed

lemma radix_value_cong:
  "(\<And>d. d \<in> set ds \<Longrightarrow> f d = g d) \<Longrightarrow> radix_value base f n ds = radix_value base g n ds"
  by (induction ds arbitrary: n) auto

lemma radix_fold_decimal:
  assumes "list_all is_ascii_digit v"
  shows "radix_fold 10 digit_value 0 v = Some n \<longleftrightarrow> decimal_value v = unat n"
proof -
  have "radix_value 10 (\<lambda>b. unat (digit_value b)) 0 v = decimal_value v"
    unfolding decimal_value_def
    by (rule radix_value_cong) (use assms in \<open>simp add: list_all_iff unat_digit_value\<close>)
  then show ?thesis
    using unat_u64_bound [of n] unat_of_usize [of "decimal_value v"]
    by (auto simp: radix_fold_eq Let_def)
qed

lemma content_length_member_Ok:
  "content_length_member parsed m = Ok r \<longleftrightarrow>
     (\<exists>n. r = Some n \<and> spells_length n (trim_ows m) \<and> (parsed = None \<or> parsed = Some n))"
  by (cases "radix_fold 10 digit_value 0 (trim_ows m)")
    (auto simp: content_length_member_def Let_def spells_length_def radix_fold_decimal
      simp flip: radix_fold_decimal)

lemma content_length_members_Ok:
  "ms \<noteq> [] \<Longrightarrow> for_each_value content_length_member parsed ms = Ok r \<longleftrightarrow>
     (\<exists>n. r = Some n \<and> (\<forall>m \<in> set ms. spells_length n (trim_ows m))
        \<and> (parsed = None \<or> parsed = Some n))"
proof (induction ms arbitrary: parsed)
  case (Cons m ms)
  then show ?case by (cases ms) (auto simp: content_length_member_Ok)
qed simp

lemma spells_length_unquoted: "spells_length n m \<Longrightarrow> DQUOTE \<notin> set m"
  by (auto simp: spells_length_def list_all_iff is_ascii_digit_def)

lemma list_pieces_not_Nil: "list_pieces q e cur rest = Some ms \<Longrightarrow> ms \<noteq> []"
  by (induction rest arbitrary: q e cur ms) (auto split: if_splits)

lemma content_length_value_Ok:
  "for_each_list_member v err content_length_member parsed = Ok r \<longleftrightarrow>
     (\<exists>n. r = Some n \<and> (\<forall>m \<in> set (comma_members v). spells_length n m)
        \<and> (parsed = None \<or> parsed = Some n))"
proof -
  have "(\<exists>ms. list_pieces False False [] v = Some ms \<and> (\<forall>m \<in> set ms. spells_length n (trim_ows m)))
     \<longleftrightarrow> (\<forall>m \<in> set (comma_members v). spells_length n m)" for n
    using list_pieces_comma_members [of "spells_length n" v "\<lambda>_. True"]
    by (auto simp: spells_length_unquoted) (auto simp: spells_length_def)
  note members = this
  show ?thesis
  proof (cases r)
    case None
    then show ?thesis
      unfolding for_each_list_member_pieces
      using content_length_members_Ok [OF list_pieces_not_Nil, of False False "[]" v _ parsed r] by blast
  next
    case (Some n)
    then show ?thesis
      unfolding for_each_list_member_pieces
      using content_length_members_Ok [OF list_pieces_not_Nil, of False False "[]" v _ parsed r]
        members [of n] by blast
  qed
qed

text \<open>
  Content-Length is accepted exactly when every member of every field value spells the same
  length below \<open>2 ^ 64\<close> in decimal digits, and is absent exactly when there is no field.
\<close>

lemma content_length_values_Ok:
  "for_each_value
      (\<lambda>(present, parsed) v.
         and_then (for_each_list_member v err content_length_member parsed)
           (\<lambda>parsed'. Ok (True, parsed')))
      (present, parsed) vs = Ok (present', r) \<longleftrightarrow>
   (if vs = [] then (present', r) = (present, parsed)
    else present' \<and> (\<exists>n. r = Some n \<and> (\<forall>v \<in> set vs. \<forall>m \<in> set (comma_members v). spells_length n m)
        \<and> (parsed = None \<or> parsed = Some n)))"
proof (induction vs arbitrary: present parsed)
  case (Cons v vs)
  show ?case
    by (cases "vs = []")
      (auto simp: Cons.IH content_length_value_Ok)
qed auto

lemma parse_content_length_Some:
  "parse_content_length A h = Ok (Some n) \<longleftrightarrow>
     hm_get_all A h CONTENT_LENGTH \<noteq> []
     \<and> (\<forall>v \<in> set (hm_get_all A h CONTENT_LENGTH). \<forall>m \<in> set (comma_members v). spells_length n m)"
  by (auto simp: parse_content_length_def content_length_values_Ok split: if_splits)

lemma parse_content_length_None:
  "parse_content_length A h = Ok None \<longleftrightarrow> hm_get_all A h CONTENT_LENGTH = []"
  by (auto simp: parse_content_length_def content_length_values_Ok split: if_splits)

section \<open>Transfer-Encoding\<close>

lemma for_each_value_append:
  "for_each_value handle s (xs @ ys) =
     and_then (for_each_value handle s xs) (\<lambda>s'. for_each_value handle s' ys)"
proof (induction xs arbitrary: s)
  case (Cons x xs)
  then show ?case by (cases "handle s x") auto
qed simp

text \<open>The two nested loops read the pieces of all values, in order.\<close>

lemma for_each_value_pieces:
  "for_each_value (\<lambda>s v. for_each_list_member v err handle s) s vs = Ok s' \<longleftrightarrow>
     (\<exists>mss. list_all2 (\<lambda>v ms. list_pieces False False [] v = Some ms) vs mss
        \<and> for_each_value handle s (concat mss) = Ok s')"
proof (induction vs arbitrary: s)
  case Nil
  then show ?case by simp
next
  case (Cons v vs)
  have "for_each_value (\<lambda>s v. for_each_list_member v err handle s) s (v # vs) = Ok s' \<longleftrightarrow>
     (\<exists>ms mss. list_pieces False False [] v = Some ms
        \<and> list_all2 (\<lambda>v ms. list_pieces False False [] v = Some ms) vs mss
        \<and> (\<exists>t. for_each_value handle s ms = Ok t \<and> for_each_value handle t (concat mss) = Ok s'))"
    by (simp add: Cons.IH for_each_list_member_pieces) blast
  then show ?case
    by (simp add: list_all2_Cons1 for_each_value_append ex_simps(1,2) [symmetric] del: ex_simps)
qed

lemma list_pieces_single: "list_pieces q e cur rest = Some [m] \<Longrightarrow> m = cur @ rest"
  by (induction rest arbitrary: q e cur) (fastforce split: if_splits dest: list_pieces_not_Nil)+

definition is_chunked :: "bytes \<Rightarrow> bool" where
  "is_chunked m \<longleftrightarrow> eq_ignore_ascii_case m (bstr ''chunked'')"

lemma is_chunked_tchar: "is_chunked m \<Longrightarrow> b \<in> set m \<Longrightarrow> is_tchar b"
proof -
  assume "is_chunked m" and "b \<in> set m"
  then have "to_ascii_lowercase b \<in> set (map to_ascii_lowercase (bstr ''chunked''))"
    unfolding is_chunked_def eq_ignore_ascii_case_def by (metis image_eqI list.set_map)
  then have "to_ascii_lowercase b \<in> {99, 104, 117, 110, 107, 101, 100}"
    by (simp add: bstr_def to_ascii_lowercase_def)
  then show ?thesis
    by (auto simp: to_ascii_lowercase_def is_tchar_def is_ascii_alphanumeric_def
        eq_diff_eq [symmetric] split: if_splits)
qed

lemma trim_ows_idem [simp]: "trim_ows (trim_ows v) = trim_ows v"
proof -
  have "dropWhile is_ows (trim_ows v) = trim_ows v"
    using trim_ows_spec [of v] by (cases "trim_ows v") auto
  moreover have "dropWhile is_ows (rev (trim_ows v)) = rev (trim_ows v)"
    using trim_ows_spec [of v] by (cases "trim_ows v" rule: rev_cases) auto
  ultimately show ?thesis by (simp only: trim_ows_dropWhile [of "trim_ows v"] rev_rev_ident)
qed

lemma split_coding_chunked: "is_chunked m \<Longrightarrow> trim_ows m = m \<Longrightarrow> split_coding m = Ok (m, [])"
proof -
  assume m: "is_chunked m" "trim_ows m = m"
  then have "SEMICOLON \<notin> set m"
    using is_chunked_tchar [of m SEMICOLON] by (auto simp: is_tchar_def is_ascii_alphanumeric_def)
  then have "position (\<lambda>b. b = SEMICOLON) m = None" by (auto simp: position_None)
  moreover have "m \<noteq> []" using m by (auto simp: is_chunked_def eq_ignore_ascii_case_def bstr_def)
  ultimately show ?thesis using m(2) by (simp add: split_coding_def)
qed

lemma transfer_coding_member_step:
  assumes "transfer_coding_member s m = Ok s'"
  shows "codings s' = codings s + 1"
    and "is_chunked (trim_ows m) \<Longrightarrow> chunked_at s = None \<and> chunked_at s' = Some (codings s + 1)
           \<and> unsupported s' = unsupported s"
    and "\<not> is_chunked (trim_ows m) \<Longrightarrow> unsupported s' \<and> chunked_at s' = chunked_at s"
proof -
  obtain c ps where sp: "split_coding (trim_ows m) = Ok (c, ps)"
    using assms by (auto simp: transfer_coding_member_def Let_def)
  have "c = trim_ows m" if "ps = []"
    using sp that by (auto simp: split_coding_def Let_def split: option.splits if_splits
        dest: position_Some [THEN iffD1])
  then have chunked: "is_chunked c \<and> ps = [] \<longleftrightarrow> is_chunked (trim_ows m)"
    using sp split_coding_chunked [of "trim_ows m"] by auto
  show "codings s' = codings s + 1"
    and "is_chunked (trim_ows m) \<Longrightarrow> chunked_at s = None \<and> chunked_at s' = Some (codings s + 1)
           \<and> unsupported s' = unsupported s"
    and "\<not> is_chunked (trim_ows m) \<Longrightarrow> unsupported s' \<and> chunked_at s' = chunked_at s"
    using assms sp chunked
    by (auto simp: transfer_coding_member_def Let_def is_chunked_def ok_or_def checked_add_usize_def
        split: if_splits option.splits)
qed

lemma transfer_coding_members:
  assumes "for_each_value transfer_coding_member s ms = Ok s'"
  shows "codings s' = codings s + length ms \<and> (\<not> unsupported s' \<longrightarrow> \<not> unsupported s \<and> (\<forall>m \<in> set ms. is_chunked (trim_ows m))
           \<and> (chunked_at s \<noteq> None \<longrightarrow> ms = []) \<and> length ms \<le> 1)"
  using assms
proof (induction ms arbitrary: s)
  case (Cons m ms)
  obtain t where t: "transfer_coding_member s m = Ok t" "for_each_value transfer_coding_member t ms = Ok s'"
    using Cons.prems by auto
  note step = transfer_coding_member_step [OF t(1)]
  show ?case
    using Cons.IH [OF t(2)] step by (cases "is_chunked (trim_ows m)") auto
qed auto

lemma list_all2_pieces_length:
  "list_all2 (\<lambda>v ms. list_pieces False False [] v = Some ms) vs mss \<Longrightarrow> length vs \<le> length (concat mss)"
proof (induction rule: list_all2_induct)
  case (Cons v vs ms mss)
  then show ?case using list_pieces_not_Nil [OF Cons(1)] by (cases ms) auto
qed simp

lemma chunked_value_pieces:
  assumes "is_chunked (trim_ows v)"
  shows "list_pieces False False [] v = Some [v]"
proof -
  have plain: "is_tchar b \<or> is_ows b" if "b \<in> set v" for b
    using that assms is_chunked_tchar trim_ows_keep by blast
  have "DQUOTE \<notin> set v" "COMMA \<notin> set v"
    using plain [of DQUOTE] plain [of COMMA]
    by (auto simp: is_tchar_def is_ows_def is_ascii_alphanumeric_def)
  moreover from this(2) have "split_on (\<lambda>b. b = COMMA) v = [v]" by (induction v) auto
  moreover have "v \<noteq> []" using assms by (auto simp: is_chunked_def eq_ignore_ascii_case_def bstr_def)
  ultimately show ?thesis by (simp add: list_pieces_unquoted Let_def)
qed

lemma chunked_coding_member:
  assumes "is_chunked (trim_ows v)" and "codings s = 0" and "chunked_at s = None"
  shows "transfer_coding_member s v = Ok (s\<lparr>codings := 1, chunked_at := Some 1\<rparr>)"
proof -
  have "is_token (trim_ows v)"
    using assms(1) is_chunked_tchar [OF assms(1)]
    by (auto simp: is_token_def list_all_iff is_chunked_def eq_ignore_ascii_case_def bstr_def)
  then show ?thesis
    using assms split_coding_chunked [OF assms(1)]
    by (simp add: transfer_coding_member_def Let_def validate_transfer_parameters.simps [of "[]"]
        is_chunked_def checked_add_usize_def ok_or_def)
qed

text \<open>
  Transfer-Encoding is accepted exactly when there is one field value and it is the single
  coding \<open>chunked\<close>, and is absent exactly when there is no field.
\<close>

lemma parse_transfer_encoding_Some:
  "parse_transfer_encoding A h = Ok (Some f) \<longleftrightarrow>
     (\<exists>v. hm_get_all A h TRANSFER_ENCODING = [v] \<and> is_chunked (trim_ows v))"
proof
  assume "parse_transfer_encoding A h = Ok (Some f)"
  then obtain mss s where
    mss: "list_all2 (\<lambda>v ms. list_pieces False False [] v = Some ms) (hm_get_all A h TRANSFER_ENCODING) mss"
    and run: "for_each_value transfer_coding_member
        \<lparr>codings = 0, chunked_at = None, unsupported = False\<rparr> (concat mss) = Ok s"
    and s: "codings s \<noteq> 0" "\<not> unsupported s"
    unfolding parse_transfer_encoding_def
    by (auto simp: for_each_value_pieces split: if_splits)
  note members = transfer_coding_members [OF run]
  have "length (concat mss) = 1" using members s by (cases "concat mss") auto
  then obtain m where m: "concat mss = [m]" by (auto simp: length_Suc_conv)
  then have "length (hm_get_all A h TRANSFER_ENCODING) \<le> 1"
    using list_all2_pieces_length [OF mss] by simp
  moreover have "hm_get_all A h TRANSFER_ENCODING \<noteq> []" using mss m by auto
  ultimately obtain v where v: "hm_get_all A h TRANSFER_ENCODING = [v]"
    by (cases "hm_get_all A h TRANSFER_ENCODING"; cases "tl (hm_get_all A h TRANSFER_ENCODING)") auto
  then have "list_pieces False False [] v = Some [m]"
    using mss m by (auto simp: list_all2_Cons1)
  then have "m = v" using list_pieces_single by fastforce
  then show "\<exists>v. hm_get_all A h TRANSFER_ENCODING = [v] \<and> is_chunked (trim_ows v)"
    using v members s(2) m by auto
next
  assume "\<exists>v. hm_get_all A h TRANSFER_ENCODING = [v] \<and> is_chunked (trim_ows v)"
  then obtain v where v: "hm_get_all A h TRANSFER_ENCODING = [v]" "is_chunked (trim_ows v)" by blast
  have "for_each_value (\<lambda>s v. for_each_list_member v InvalidTransferEncoding transfer_coding_member s)
      \<lparr>codings = 0, chunked_at = None, unsupported = False\<rparr> [v]
    = Ok \<lparr>codings = 1, chunked_at = Some 1, unsupported = False\<rparr>"
    unfolding for_each_value_pieces
    by (rule exI [of _ "[[v]]"]) (simp add: chunked_value_pieces [OF v(2)] chunked_coding_member [OF v(2)])
  then show "parse_transfer_encoding A h = Ok (Some f)"
    using v(1) by (cases f) (simp add: parse_transfer_encoding_def)
qed

lemma parse_transfer_encoding_None:
  "parse_transfer_encoding A h = Ok None \<longleftrightarrow> hm_get_all A h TRANSFER_ENCODING = []"
proof
  assume "parse_transfer_encoding A h = Ok None"
  then obtain mss s where
    mss: "list_all2 (\<lambda>v ms. list_pieces False False [] v = Some ms) (hm_get_all A h TRANSFER_ENCODING) mss"
    and run: "for_each_value transfer_coding_member
        \<lparr>codings = 0, chunked_at = None, unsupported = False\<rparr> (concat mss) = Ok s"
    and s: "codings s = 0"
    unfolding parse_transfer_encoding_def
    by (auto simp: for_each_value_pieces split: if_splits)
  then show "hm_get_all A h TRANSFER_ENCODING = []"
    using transfer_coding_members [OF run] list_all2_pieces_length [OF mss]
    by (metis add_0 coding_state.select_convs(1) le_zero_eq length_0_conv)
qed (simp add: parse_transfer_encoding_def)

section \<open>Message framing\<close>

text \<open>An accepted message has one framing: the two length fields never occur together.\<close>

lemma one_framing [simp]:
  "(f :: transfer_framing) = TF_Chunked" "(case f of TF_Chunked \<Rightarrow> x) = x"
  by (cases f; simp)+

lemma message_framing_Ok:
  "message_framing A h ver d = Ok m \<longleftrightarrow>
     (let cl = hm_get_all A h CONTENT_LENGTH; te = hm_get_all A h TRANSFER_ENCODING in
      (te = [] \<and> cl = [] \<and> m = d)
    \<or> (te = [] \<and> cl \<noteq> [] \<and> (\<exists>n. m = BM_Fixed n \<and> (\<forall>v \<in> set cl. \<forall>x \<in> set (comma_members v). spells_length n x)))
    \<or> (cl = [] \<and> ver = HTTP_11 \<and> m = BM_Chunked \<and> (\<exists>v. te = [v] \<and> is_chunked (trim_ows v))))"
proof -
  have te: "parse_transfer_encoding A h = Ok x \<longleftrightarrow>
      (case x of None \<Rightarrow> hm_get_all A h TRANSFER_ENCODING = []
       | Some _ \<Rightarrow> \<exists>v. hm_get_all A h TRANSFER_ENCODING = [v] \<and> is_chunked (trim_ows v))" for x
    by (cases x) (simp_all add: parse_transfer_encoding_None parse_transfer_encoding_Some)
  have cl: "parse_content_length A h = Ok x \<longleftrightarrow>
      (case x of None \<Rightarrow> hm_get_all A h CONTENT_LENGTH = []
       | Some n \<Rightarrow> hm_get_all A h CONTENT_LENGTH \<noteq> []
          \<and> (\<forall>v \<in> set (hm_get_all A h CONTENT_LENGTH). \<forall>m \<in> set (comma_members v). spells_length n m))" for x
    by (cases x) (simp_all add: parse_content_length_None parse_content_length_Some)
  show ?thesis
    unfolding message_framing_def Let_def
    by (cases "hm_get_all A h CONTENT_LENGTH = []"; cases "hm_get_all A h TRANSFER_ENCODING = []")
      (auto simp: te cl split: option.splits if_splits)
qed

text \<open>The checks a validated request has passed, in their order.\<close>

lemma validate_for_Ok:
  assumes "validate_for A self received = Ok v"
  obtains form u self' body connection expect upgrade where
    "validate_request_target A (req_method self) (req_target self) = Ok form"
    and "validate_host A (req_headers self) (req_version self) = Ok u"
    and "(if form = Absolute
          then and_then (normalize_absolute_host A (req_headers self) (req_target self))
                 (\<lambda>headers. Ok (self\<lparr>req_headers := headers\<rparr>))
          else Ok self) = Ok self'"
    and "message_framing A (req_headers self') (req_version self') BM_None = Ok body"
    and "parse_connection_options A (req_headers self') = Ok connection"
    and "parse_expectation A (req_headers self') (req_version self') received = Ok expect"
    and "(if received \<and> req_version self' = HTTP_10 \<and> form \<noteq> Authority then Ok None
          else upgrade_intent A (req_headers self') connection form) = Ok upgrade"
    and "\<not> (upgrade = Some Protocol \<and> req_version self' \<noteq> HTTP_11)"
    and "v = \<lparr>vreq_head = self', vreq_body = body,
              vreq_persistence = persistence_of (req_version self') connection,
              vreq_target_form = form, vreq_expectation = expect, vreq_upgrade = upgrade\<rparr>"
proof -
  have no_err: "(if c then Err e else Ok x) = Ok y \<longleftrightarrow> \<not> c \<and> y = x" for c and e :: head_error and x y :: 'z
    by auto
  show thesis
    using assms unfolding validate_for_def and_then_Ok_iff no_err
    by (elim exE conjE) (rule that, assumption+)
qed

lemma validate_for_framing:
  assumes "validate_for A self received = Ok v"
  shows "message_framing A (req_headers (vreq_head v)) (req_version (vreq_head v)) BM_None = Ok (vreq_body v)"
  by (rule validate_for_Ok [OF assms]) (simp only: validated_request_head.simps)

section \<open>Properties\<close>

text \<open>
  C36. Content-Length is read exactly. It is accepted as \<open>n\<close> if and only if a field is present
  and every comma-separated member of every field value is a non-empty string of decimal
  digits of value \<open>n\<close>; a value of \<open>2 ^ 64\<close> or more is never accepted, nor is a sign, an empty
  member or two different values.
\<close>

theorem content_length_exact:
  "parse_content_length A h = Ok (Some n) \<longleftrightarrow>
     (let members = concat (map comma_members (hm_get_all A h CONTENT_LENGTH)) in
      members \<noteq> [] \<and> list_all (\<lambda>m. m \<noteq> [] \<and> list_all is_ascii_digit m \<and> decimal_value m = unat n) members)"
proof -
  have "concat (map comma_members vs) = [] \<longleftrightarrow> vs = []" for vs by (cases vs) auto
  then show ?thesis
    by (simp add: parse_content_length_Some spells_length_def Let_def list_all_iff)
qed

text \<open>
  C35. Transfer-Encoding is accepted if and only if there is exactly one field value and it is,
  up to surrounding whitespace and letter case, the single coding \<open>chunked\<close> without
  parameters.
\<close>

theorem transfer_encoding_exact:
  "parse_transfer_encoding A h = Ok (Some f) \<longleftrightarrow>
     (\<exists>v. hm_get_all A h TRANSFER_ENCODING = [v] \<and> eq_ignore_ascii_case (trim_ows v) (bstr ''chunked''))"
  by (simp add: parse_transfer_encoding_Some is_chunked_def del: one_framing)


definition sample_request :: "(alist, bytes) request_head" where
  "sample_request = \<lparr>req_method = ''POST'', req_target = bstr ''/'', req_version = HTTP_11,
     req_headers = [(HOST, bstr ''a''), (CONTENT_LENGTH, bstr ''5, 5'')], req_header_case = None\<rparr>"


lemma validate_response_Ok:
  assumes "validate_response A self m = Ok v"
  obtains connection where "resp_status self \<le> 599" and "vresp_head v = self"
    and "parse_connection_options A (resp_headers self) = Ok connection"
    and "response_upgrade A self connection m = Ok (vresp_upgrade v)"
    and "(if bodiless A m (resp_status self) (vresp_upgrade v) then Ok BM_None
          else message_framing A (resp_headers self) (resp_version self) BM_UntilEof) = Ok (vresp_body v)"
    and "vresp_persistence v = (if vresp_body v = BM_UntilEof then Close
           else persistence_of (resp_version self) connection)"
  using assms unfolding validate_response_def
  by (auto simp: linorder_not_less simp del: if_split split: if_split_asm)

text \<open>
  A response that passes validation has one framing. It has no body when the request
  was HEAD, the status forbids one or the connection is taken over; otherwise it is chunked
  exactly when Transfer-Encoding is present, fixed exactly when Content-Length is present and
  delimited by the end of the connection exactly when neither is, and in that case the
  connection is never reused.
\<close>

theorem validated_response_framing:
  assumes "validate_response A self m = Ok v"
  shows "let te = hm_get_all A (resp_headers self) TRANSFER_ENCODING;
             cl = hm_get_all A (resp_headers self) CONTENT_LENGTH in
     (if bodiless A m (resp_status self) (vresp_upgrade v) then vresp_body v = BM_None
      else (vresp_body v = BM_Chunked \<longleftrightarrow> te \<noteq> []) \<and> ((\<exists>n. vresp_body v = BM_Fixed n) \<longleftrightarrow> cl \<noteq> [])
           \<and> (vresp_body v = BM_UntilEof \<longleftrightarrow> te = [] \<and> cl = []))
   \<and> (vresp_body v = BM_UntilEof \<longrightarrow> vresp_persistence v = Close)"
proof -
  obtain connection where
    framing: "(if bodiless A m (resp_status self) (vresp_upgrade v) then Ok BM_None
          else message_framing A (resp_headers self) (resp_version self) BM_UntilEof) = Ok (vresp_body v)"
    and close: "vresp_persistence v = (if vresp_body v = BM_UntilEof then Close
           else persistence_of (resp_version self) connection)"
    using validate_response_Ok [OF assms] by metis
  show ?thesis
  proof (cases "bodiless A m (resp_status self) (vresp_upgrade v)")
    case True
    then have "vresp_body v = BM_None" using framing by simp
    then show ?thesis using True by (simp add: Let_def)
  next
    case False
    then have "message_framing A (resp_headers self) (resp_version self) BM_UntilEof = Ok (vresp_body v)"
      using framing by simp
    note this [unfolded message_framing_Ok Let_def]
    then show ?thesis using False close unfolding Let_def by (elim disjE conjE exE) simp_all
  qed
qed

definition sample_response :: "alist response_head" where
  "sample_response = \<lparr>resp_version = HTTP_11, resp_status = 200, resp_headers = [], resp_header_case = None\<rparr>"

theorem validated_response_framing_witness:
  "\<exists>v. validate_response alist_http sample_response ''GET'' = Ok v \<and> vresp_persistence v = Close"
proof -
  have ok: "(case validate_response alist_http sample_response ''GET'' of
      Ok v \<Rightarrow> vresp_body v = BM_UntilEof | Err _ \<Rightarrow> False)" by code_simp
  then obtain v where v: "validate_response alist_http sample_response ''GET'' = Ok v" "vresp_body v = BM_UntilEof"
    by (cases "validate_response alist_http sample_response ''GET''") auto
  with validated_response_framing [OF v(1)] show ?thesis by (auto simp: Let_def)
qed

lemma validate_host_Ok:
  "validate_host A h ver = Ok u \<Longrightarrow> ver = HTTP_11 \<Longrightarrow>
     \<exists>x. hm_get_all A h HOST = [x] \<and> trim_ows x \<noteq> [] \<and> COMMA \<notin> set (trim_ows x) \<and> AT_SIGN \<notin> set (trim_ows x)"
  by (auto simp: validate_host_def Let_def split: list.splits if_splits)

text \<open>
  A validated HTTP/1.1 request has exactly one Host value. For a request in absolute
  form it is the authority of the target, whatever the field said; otherwise it is the one
  value that was received, and it is not empty, not a list and carries no user information.
\<close>

theorem validated_request_host:
  assumes "header_map_laws A" and "validate_for A self received = Ok v"
    and "req_version self = HTTP_11"
  shows "\<exists>x. hm_get_all A (req_headers (vreq_head v)) HOST = [x]
     \<and> (if vreq_target_form v = Absolute
        then \<exists>a. uri_authority A (req_target self) = Some a \<and> AT_SIGN \<notin> set a \<and> header_value_from_str A a = Some x
        else hm_get_all A (req_headers self) HOST = [x] \<and> trim_ows x \<noteq> []
             \<and> COMMA \<notin> set (trim_ows x) \<and> AT_SIGN \<notin> set (trim_ows x))"
proof -
  obtain form self' u where
    host: "validate_host A (req_headers self) (req_version self) = Ok u"
    and norm: "(if form = Absolute
               then and_then (normalize_absolute_host A (req_headers self) (req_target self))
                      (\<lambda>headers. Ok (self\<lparr>req_headers := headers\<rparr>))
               else Ok self) = Ok self'"
    and v: "vreq_head v = self'" "vreq_target_form v = form"
    by (rule validate_for_Ok [OF assms(2)]) (rule that, (assumption | simp only: validated_request_head.simps)+)
  show ?thesis
  proof (cases "form = Absolute")
    case True
    then show ?thesis
      using norm header_map_lawsD(1) [OF assms(1)] unfolding v
      by (auto simp: normalize_absolute_host_def ok_or_def split: option.splits if_splits)
  next
    case False
    then show ?thesis using norm validate_host_Ok [OF host assms(3)] unfolding v by auto
  qed
qed

theorem validated_request_host_witness:
  "\<exists>v. validate_for alist_http sample_request True = Ok v
     \<and> hm_get_all alist_http (req_headers (vreq_head v)) HOST = [bstr ''a'']"
proof -
  have ok: "(case validate_for alist_http sample_request True of
      Ok v \<Rightarrow> vreq_target_form v \<noteq> Absolute | Err _ \<Rightarrow> False)" by code_simp
  then obtain v where v: "validate_for alist_http sample_request True = Ok v" "vreq_target_form v \<noteq> Absolute"
    by (cases "validate_for alist_http sample_request True") auto
  have "hm_get_all alist_http (req_headers sample_request) HOST = [bstr ''a'']" by code_simp
  moreover have "req_version sample_request = HTTP_11" by (simp add: sample_request_def)
  ultimately show ?thesis
    using validated_request_host [OF alist_http_laws v(1)] v by auto
qed

end
