(* ===== verification/Body_Types.thy ===== *)
theory Body_Types
  imports Http_Api
begin

text \<open>
  The metadata and frames of streaming bodies, from \<open>src/src/body/size_hint.rs\<close>,
  \<open>src/src/body/frame.rs\<close> and the enum \<open>TrailerHint\<close> of \<open>src/src/body.rs\<close>.
\<close>

record size_hint =
  sh_lower :: u64
  sh_upper :: "u64 option"

definition size_hint_new :: size_hint where
  "size_hint_new = \<lparr>sh_lower = 0, sh_upper = None\<rparr>"

definition with_exact :: "u64 \<Rightarrow> size_hint" where
  "with_exact bytes = \<lparr>sh_lower = bytes, sh_upper = Some bytes\<rparr>"

definition with_bounds :: "u64 \<Rightarrow> u64 option \<Rightarrow> (size_hint, error) result" where
  "with_bounds lower upper =
     (if (case upper of None \<Rightarrow> False | Some u \<Rightarrow> u < lower)
      then Err (error_new KLocalMessage ''body size upper bound is below its lower bound'')
      else Ok \<lparr>sh_lower = lower, sh_upper = upper\<rparr>)"

definition exact :: "size_hint \<Rightarrow> u64 option" where
  "exact h =
     (case sh_upper h of
        Some upper \<Rightarrow> if upper = sh_lower h then Some upper else None
      | None \<Rightarrow> None)"

datatype trailer_hint = TH_None | TH_MayHave

datatype ('d, 'h) frame = DataFrame 'd | TrailersFrame 'h

definition data_ref :: "('d, 'h) frame \<Rightarrow> 'd option" where
  "data_ref f = (case f of DataFrame d \<Rightarrow> Some d | TrailersFrame _ \<Rightarrow> None)"

definition trailers_ref :: "('d, 'h) frame \<Rightarrow> 'h option" where
  "trailers_ref f = (case f of DataFrame _ \<Rightarrow> None | TrailersFrame t \<Rightarrow> Some t)"

definition into_data :: "('d, 'h) frame \<Rightarrow> ('d, ('d, 'h) frame) result" where
  "into_data f = (case f of DataFrame d \<Rightarrow> Ok d | TrailersFrame _ \<Rightarrow> Err f)"

definition into_trailers :: "('d, 'h) frame \<Rightarrow> ('h, ('d, 'h) frame) result" where
  "into_trailers f = (case f of DataFrame _ \<Rightarrow> Err f | TrailersFrame t \<Rightarrow> Ok t)"

definition frame_map_data :: "('d \<Rightarrow> 'c) \<Rightarrow> ('d, 'h) frame \<Rightarrow> ('c, 'h) frame" where
  "frame_map_data f fr = (case fr of DataFrame d \<Rightarrow> DataFrame (f d) | TrailersFrame t \<Rightarrow> TrailersFrame t)"

section \<open>Lemmas\<close>

lemma exact_with_exact [simp]: "exact (with_exact n) = Some n"
  by (simp add: exact_def with_exact_def)

lemma exact_Some: "exact h = Some n \<longleftrightarrow> sh_lower h = n \<and> sh_upper h = Some n"
  by (auto simp: exact_def split: option.splits)

lemma exact_size_hint_new [simp]: "exact size_hint_new = None"
  by (simp add: exact_def size_hint_new_def)

text \<open>Bounds that were checked hold of some number of bytes.\<close>

lemma with_bounds_Ok:
  "with_bounds l u = Ok h \<longleftrightarrow> h = \<lparr>sh_lower = l, sh_upper = u\<rparr> \<and> (\<forall>x. u = Some x \<longrightarrow> l \<le> x)"
  by (auto simp: with_bounds_def split: option.splits)

lemma frame_extract:
  "into_data f = Ok d \<longleftrightarrow> f = DataFrame d" "into_trailers f = Ok t \<longleftrightarrow> f = TrailersFrame t"
  "into_data f = Err g \<Longrightarrow> g = f" "into_trailers f = Err g \<Longrightarrow> g = f"
  by (auto simp: into_data_def into_trailers_def split: frame.splits)

end
