(* ===== verification/Encode.thy ===== *)
theory Encode
  imports Head_Validate Body_Types
begin

text \<open>
  Outgoing messages, from \<open>src/src/proto/h1/encode.rs\<close>, \<open>src/src/proto/h1/inline.rs\<close> and
  \<open>src/src/proto/h1/header_case.rs\<close>: the framing a message is sent with, the bounded head
  writer, and the body encoder that turns data frames into wire framing while it holds the
  producer to its declared size.

  Whether the allocator grants a reservation is a parameter (\<open>allocator\<close>): a reservation it
  refuses is the error \<open>Allocation\<close> of the source.

  The lemmas show what bytes a prepared head consists of and that they are within the limit,
  that the framing planned for a message is the framing its recipient derives from the head,
  and that a body is sent within its declared bounds.
\<close>

section \<open>Configuration\<close>

record body_metadata =
  md_size :: size_hint
  md_trailers :: trailer_hint

record encode_config =
  ec_max_head_bytes :: usize
  ec_max_trailer_bytes :: usize
  ec_title_case_headers :: bool

text \<open>\<open>None\<close> is the assertion failure of \<open>EncodeConfig::new\<close>.\<close>

definition encode_config_new :: "usize \<Rightarrow> usize \<Rightarrow> encode_config option" where
  "encode_config_new head trailer =
     (if 0 < head \<and> 0 < trailer
      then Some \<lparr>ec_max_head_bytes = head, ec_max_trailer_bytes = trailer, ec_title_case_headers = False\<rparr>
      else None)"

definition map_head_error :: "head_error \<Rightarrow> encode_error" where
  "map_head_error e =
     (case e of
        HLimit limit \<Rightarrow> ELimit (case limit of HL_Bytes \<Rightarrow> HeadBytes | HL_Headers \<Rightarrow> HeaderCount | HL_HeaderMap \<Rightarrow> HeadMapCapacity)
      | UnsupportedTransferCoding \<Rightarrow> Unsupported
      | UnsupportedVersion \<Rightarrow> Unsupported
      | AmbiguousMessageLength \<Rightarrow> InvalidFraming
      | InvalidContentLength \<Rightarrow> InvalidFraming
      | InvalidTransferEncoding \<Rightarrow> InvalidFraming
      | _ \<Rightarrow> InvalidHead)"

section \<open>The framing of an outgoing message\<close>

text \<open>The updated headers are part of the result; a failed plan ends the message.\<close>

definition set_exact_length :: "('h, 'u) http_api \<Rightarrow> 'h \<Rightarrow> u64 \<Rightarrow> ('h, encode_error) result" where
  "set_exact_length A headers len =
     and_then (map_err map_head_error (parse_transfer_encoding A headers)) (\<lambda>te.
       if te \<noteq> None then Err InvalidFraming
       else
         and_then (map_err map_head_error (parse_content_length A headers)) (\<lambda>cl.
           case cl of
             Some declared \<Rightarrow> if declared = len then Ok headers else Err LengthMismatch
           | None \<Rightarrow> Ok (hm_insert A headers CONTENT_LENGTH (header_value_from_u64 A len))))"

definition set_chunked :: "('h, 'u) http_api \<Rightarrow> 'h \<Rightarrow> ('h, encode_error) result" where
  "set_chunked A headers =
     (if hm_contains_key A headers CONTENT_LENGTH then Err InvalidFraming
      else
        and_then (map_err map_head_error (parse_transfer_encoding A headers)) (\<lambda>te.
          if te = None then Ok (hm_insert A headers TRANSFER_ENCODING (bstr ''chunked''))
          else Ok headers))"

definition reject_framing_headers :: "('h, 'u) http_api \<Rightarrow> 'h \<Rightarrow> (unit, encode_error) result" where
  "reject_framing_headers A headers =
     (if hm_contains_key A headers CONTENT_LENGTH \<or> hm_contains_key A headers TRANSFER_ENCODING
      then Err InvalidFraming else Ok ())"

text \<open>The exact length of a payload that promises no trailers.\<close>

definition plain_length :: "body_metadata \<Rightarrow> u64 option" where
  "plain_length metadata = (if md_trailers metadata = TH_None then exact (md_size metadata) else None)"

definition plan_request_framing ::
  "('h, 'u) http_api \<Rightarrow> 'h \<Rightarrow> version \<Rightarrow> body_metadata \<Rightarrow> (body_mode \<times> 'h, encode_error) result" where
  "plan_request_framing A headers version metadata =
     (case plain_length metadata of
        Some len \<Rightarrow> and_then (set_exact_length A headers len) (\<lambda>h. Ok (BM_Fixed len, h))
      | None \<Rightarrow>
          if version \<noteq> HTTP_11 then Err Unsupported
          else and_then (set_chunked A headers) (\<lambda>h. Ok (BM_Chunked, h)))"

definition plan_representation_framing ::
  "('h, 'u) http_api \<Rightarrow> 'h \<Rightarrow> version \<Rightarrow> body_metadata \<Rightarrow> (body_mode \<times> 'h, encode_error) result" where
  "plan_representation_framing A headers version metadata =
     (case plain_length metadata of
        Some len \<Rightarrow> and_then (set_exact_length A headers len) (\<lambda>h. Ok (BM_Fixed len, h))
      | None \<Rightarrow>
          if version = HTTP_11 then and_then (set_chunked A headers) (\<lambda>h. Ok (BM_Chunked, h))
          else if md_trailers metadata = TH_MayHave then Err TrailersForbidden
          else and_then (reject_framing_headers A headers) (\<lambda>_. Ok (BM_UntilEof, headers)))"

definition plan_response_framing ::
  "('h, 'u) http_api \<Rightarrow> 'h \<Rightarrow> version \<Rightarrow> status_code \<Rightarrow> body_metadata \<Rightarrow> http_method
     \<Rightarrow> (body_mode \<times> 'h, encode_error) result" where
  "plan_response_framing A headers version status metadata request_method =
     (let tunnel = request_method = METHOD_CONNECT \<and> status_is_success A status;
          strictly_forbidden = status_is_informational A status \<or> status = NO_CONTENT;
          metadata_only = request_method = METHOD_HEAD \<or> status = NOT_MODIFIED;
          no_body = exact (md_size metadata) = Some 0 \<and> md_trailers metadata = TH_None in
      if tunnel \<or> strictly_forbidden then
        (if \<not> no_body then Err BodyForbidden
         else if hm_contains_key A headers CONTENT_LENGTH \<or> hm_contains_key A headers TRANSFER_ENCODING
         then Err BodyForbidden
         else Ok (BM_None, headers))
      else if metadata_only then
        and_then (plan_representation_framing A headers version metadata) (\<lambda>(_, h). Ok (BM_None, h))
      else if status = RESET_CONTENT then
        (if \<not> no_body \<or> hm_contains_key A headers TRANSFER_ENCODING then Err BodyForbidden
         else and_then (set_exact_length A headers 0) (\<lambda>h. Ok (BM_None, h)))
      else plan_representation_framing A headers version metadata)"

section \<open>The bounded writer\<close>

type_synonym allocator = "usize \<Rightarrow> usize \<Rightarrow> bool"

record bounded_writer =
  bw_kind :: limit_kind
  bw_failure :: "encode_error option"
  bw_bytes :: bytes
  bw_limit :: usize

definition bounded_writer_new :: "usize \<Rightarrow> bounded_writer" where
  "bounded_writer_new limit =
     \<lparr>bw_kind = HeadBytes, bw_failure = None, bw_bytes = [], bw_limit = limit\<rparr>"

text \<open>
  The check both \<open>push\<close> operations start with: room within the limit, then a reservation.
  An error leaves the writer unchanged.
\<close>

definition writer_reserve :: "allocator \<Rightarrow> bounded_writer \<Rightarrow> usize \<Rightarrow> (unit, encode_error) result" where
  "writer_reserve M w n =
     (case checked_add_usize (length (bw_bytes w)) n of
        None \<Rightarrow> Err (ELimit (bw_kind w))
      | Some len \<Rightarrow>
          if bw_limit w < len then Err (ELimit (bw_kind w))
          else if \<not> M (length (bw_bytes w)) n then Err EAllocation
          else Ok ())"

definition push :: "allocator \<Rightarrow> bounded_writer \<Rightarrow> bytes \<Rightarrow> (bounded_writer, encode_error) result" where
  "push M w v =
     and_then (writer_reserve M w (length v)) (\<lambda>_. Ok (w\<lparr>bw_bytes := bw_bytes w @ v\<rparr>))"

fun title_case :: "bool \<Rightarrow> bytes \<Rightarrow> bytes" where
  "title_case capitalize [] = []"
| "title_case capitalize (b # rest) =
     (if capitalize then to_ascii_uppercase b else b) # title_case (b = DASH) rest"

definition push_title_case ::
  "allocator \<Rightarrow> bounded_writer \<Rightarrow> bytes \<Rightarrow> (bounded_writer, encode_error) result" where
  "push_title_case M w v =
     and_then (writer_reserve M w (length v)) (\<lambda>_. Ok (w\<lparr>bw_bytes := bw_bytes w @ title_case True v\<rparr>))"

text \<open>\<open>fmt::Write::write_str\<close>: the flag is success; a failure is kept in the writer.\<close>

definition write_str :: "allocator \<Rightarrow> bounded_writer \<Rightarrow> bytes \<Rightarrow> bool \<times> bounded_writer" where
  "write_str M w v =
     (case push M w v of Ok w' \<Rightarrow> (True, w') | Err e \<Rightarrow> (False, w\<lparr>bw_failure := Some e\<rparr>))"

fun write_fmt :: "allocator \<Rightarrow> bounded_writer \<Rightarrow> bytes list \<Rightarrow> bool \<times> bounded_writer" where
  "write_fmt M w [] = (True, w)"
| "write_fmt M w (v # vs) =
     (case write_str M w v of (True, w') \<Rightarrow> write_fmt M w' vs | (False, w') \<Rightarrow> (False, w'))"

definition write_display :: "allocator \<Rightarrow> bounded_writer \<Rightarrow> bytes list \<Rightarrow> (bounded_writer, encode_error) result" where
  "write_display M w parts =
     (case write_fmt M w parts of
        (True, w') \<Rightarrow> Ok w'
      | (False, w') \<Rightarrow> Err (case bw_failure w' of Some e \<Rightarrow> e | None \<Rightarrow> ELimit HeadBytes))"

definition version_bytes :: "version \<Rightarrow> (bytes, encode_error) result" where
  "version_bytes v =
     (case v of HTTP_10 \<Rightarrow> Ok (bstr ''HTTP/1.0'') | HTTP_11 \<Rightarrow> Ok (bstr ''HTTP/1.1'') | _ \<Rightarrow> Err Unsupported)"

definition write_header_name ::
  "allocator \<Rightarrow> bounded_writer \<Rightarrow> header_name \<Rightarrow> bytes option \<Rightarrow> bool \<Rightarrow> (bounded_writer, encode_error) result" where
  "write_header_name M w name original title =
     (case original of
        Some spelling \<Rightarrow> push M w spelling
      | None \<Rightarrow> if title then push_title_case M w (bstr name) else push M w (bstr name))"

definition write_field ::
  "allocator \<Rightarrow> bounded_writer \<Rightarrow> header_name \<Rightarrow> bytes option \<Rightarrow> bytes \<Rightarrow> bool
     \<Rightarrow> (bounded_writer, encode_error) result" where
  "write_field M w name original v title =
     and_then (write_header_name M w name original title) (\<lambda>w.
     and_then (push M w (bstr '': '')) (\<lambda>w.
     and_then (push M w v) (\<lambda>w. push M w [CR, LF])))"

text \<open>The values of one name, each with the next recorded spelling while there is one.\<close>

fun write_values ::
  "allocator \<Rightarrow> bounded_writer \<Rightarrow> header_name \<Rightarrow> bytes list \<Rightarrow> bytes list \<Rightarrow> bool
     \<Rightarrow> (bounded_writer, encode_error) result" where
  "write_values M w name spellings [] title = Ok w"
| "write_values M w name spellings (v # vs) title =
     and_then (write_field M w name (first spellings) v title)
       (\<lambda>w. write_values M w name (drop 1 spellings) vs title)"

fun write_names ::
  "('h, 'u) http_api \<Rightarrow> allocator \<Rightarrow> bounded_writer \<Rightarrow> 'h \<Rightarrow> 'h \<Rightarrow> header_name list \<Rightarrow> bool
     \<Rightarrow> (bounded_writer, encode_error) result" where
  "write_names A M w headers original [] title = Ok w"
| "write_names A M w headers original (name # names) title =
     and_then (write_values M w name (hm_get_all A original name) (hm_get_all A headers name) title)
       (\<lambda>w. write_names A M w headers original names title)"

fun write_fields ::
  "allocator \<Rightarrow> bounded_writer \<Rightarrow> (header_name \<times> bytes) list \<Rightarrow> bool \<Rightarrow> (bounded_writer, encode_error) result" where
  "write_fields M w [] title = Ok w"
| "write_fields M w ((name, v) # rest) title =
     and_then (write_field M w name None v title) (\<lambda>w. write_fields M w rest title)"

definition write_headers ::
  "('h, 'u) http_api \<Rightarrow> allocator \<Rightarrow> bounded_writer \<Rightarrow> 'h \<Rightarrow> 'h option \<Rightarrow> bool
     \<Rightarrow> (bounded_writer, encode_error) result" where
  "write_headers A M w headers original_case title =
     (case original_case of
        Some original \<Rightarrow> write_names A M w headers original (hm_keys A headers) title
      | None \<Rightarrow> write_fields M w (hm_iter A headers) title)"

section \<open>Prepared heads\<close>

record 'v message_plan =
  mp_bytes :: bytes
  mp_head :: 'v

definition write_request_head ::
  "('h, 'u) http_api \<Rightarrow> allocator \<Rightarrow> ('h, 'u) request_head \<Rightarrow> 'h option \<Rightarrow> encode_config
     \<Rightarrow> (bytes, encode_error) result" where
  "write_request_head A M head original_case config =
     and_then (push M (bounded_writer_new (ec_max_head_bytes config)) (bstr (req_method head))) (\<lambda>w.
     and_then (push M w [SP]) (\<lambda>w.
     and_then (write_display M w (uri_display A (req_target head))) (\<lambda>w.
     and_then (push M w [SP]) (\<lambda>w.
     and_then (version_bytes (req_version head)) (\<lambda>v.
     and_then (push M w v) (\<lambda>w.
     and_then (push M w [CR, LF]) (\<lambda>w.
     and_then (write_headers A M w (req_headers head) original_case (ec_title_case_headers config)) (\<lambda>w.
     and_then (push M w [CR, LF]) (\<lambda>w. Ok (bw_bytes w))))))))))"

definition prepare_request_head ::
  "('h, 'u) http_api \<Rightarrow> allocator \<Rightarrow> http_method \<Rightarrow> 'u \<Rightarrow> version \<Rightarrow> 'h \<Rightarrow> 'h option \<Rightarrow> body_metadata
     \<Rightarrow> encode_config \<Rightarrow> (('h, 'u) validated_request_head message_plan, encode_error) result" where
  "prepare_request_head A M method target version headers original_case metadata config =
     and_then (plan_request_framing A headers version metadata) (\<lambda>(mode, headers).
     and_then (map_err map_head_error (validate_request A
         \<lparr>req_method = method, req_target = target, req_version = version,
          req_headers = headers, req_header_case = None\<rparr>)) (\<lambda>validated.
       if vreq_body validated \<noteq> mode then Err InvalidFraming
       else
         and_then (write_request_head A M (vreq_head validated) original_case config)
           (\<lambda>bytes. Ok \<lparr>mp_bytes = bytes, mp_head = validated\<rparr>)))"

definition write_response_head ::
  "('h, 'u) http_api \<Rightarrow> allocator \<Rightarrow> 'h response_head \<Rightarrow> 'h option \<Rightarrow> encode_config
     \<Rightarrow> (bytes, encode_error) result" where
  "write_response_head A M head original_case config =
     and_then (version_bytes (resp_version head)) (\<lambda>v.
     and_then (push M (bounded_writer_new (ec_max_head_bytes config)) v) (\<lambda>w.
     and_then (push M w [SP]) (\<lambda>w.
     and_then (push M w (status_as_str A (resp_status head))) (\<lambda>w.
     and_then (push M w [SP]) (\<lambda>w.
     and_then (push M w (case status_canonical_reason A (resp_status head) of Some r \<Rightarrow> r | None \<Rightarrow> [])) (\<lambda>w.
     and_then (push M w [CR, LF]) (\<lambda>w.
     and_then (write_headers A M w (resp_headers head) original_case (ec_title_case_headers config)) (\<lambda>w.
     and_then (push M w [CR, LF]) (\<lambda>w. Ok (bw_bytes w))))))))))"

definition prepare_response_head ::
  "('h, 'u) http_api \<Rightarrow> allocator \<Rightarrow> status_code \<Rightarrow> version \<Rightarrow> 'h \<Rightarrow> 'h option \<Rightarrow> body_metadata
     \<Rightarrow> http_method \<Rightarrow> encode_config \<Rightarrow> ('h validated_response_head message_plan, encode_error) result" where
  "prepare_response_head A M status version headers original_case metadata request_method config =
     and_then (plan_response_framing A headers version status metadata request_method) (\<lambda>(mode, headers).
     and_then (map_err map_head_error (validate_response A
         \<lparr>resp_version = version, resp_status = status, resp_headers = headers, resp_header_case = None\<rparr>
         request_method)) (\<lambda>validated.
       if vresp_body validated \<noteq> mode then Err InvalidFraming
       else
         and_then (write_response_head A M (vresp_head validated) original_case config)
           (\<lambda>bytes. Ok \<lparr>mp_bytes = bytes, mp_head = validated\<rparr>)))"

section \<open>Inline buffers and the chunk prefix\<close>

record inline_buf =
  ib_bytes :: bytes
  ib_len :: usize

definition inline_empty :: "usize \<Rightarrow> inline_buf" where
  "inline_empty n = \<lparr>ib_bytes = replicate n 0, ib_len = 0\<rparr>"

text \<open>\<open>None\<close> is the assertion failure of \<open>InlineBuf::from_parts\<close>.\<close>

definition inline_from_parts :: "bytes \<Rightarrow> usize \<Rightarrow> inline_buf option" where
  "inline_from_parts bytes len =
     (if len \<le> length bytes then Some \<lparr>ib_bytes = bytes, ib_len = len\<rparr> else None)"

definition as_init :: "inline_buf \<Rightarrow> bytes" where
  "as_init b = take (ib_len b) (ib_bytes b)"

definition USIZE_BITS :: nat where "USIZE_BITS = 64"

definition CHUNK_PREFIX_CAPACITY :: usize where
  "CHUNK_PREFIX_CAPACITY = USIZE_BITS div 4 + 2"

fun bit_length :: "nat \<Rightarrow> nat" where
  "bit_length n = (if n = 0 then 0 else Suc (bit_length (n div 2)))"

declare bit_length.simps [simp del]

definition leading_zeros :: "usize \<Rightarrow> nat" where
  "leading_zeros n = USIZE_BITS - bit_length n"

definition HEX :: bytes where
  "HEX = bstr ''0123456789abcdef''"

text \<open>The \<open>while\<close> loop: \<open>length & 0x0f\<close> and \<open>length >>= 4\<close> on the low four bits.\<close>

fun chunk_prefix_loop :: "bytes \<Rightarrow> usize \<Rightarrow> usize \<Rightarrow> bytes" where
  "chunk_prefix_loop bytes 0 len = bytes"
| "chunk_prefix_loop bytes (Suc cursor) len =
     chunk_prefix_loop (bytes[cursor := HEX ! (len mod 16)]) cursor (len div 16)"

text \<open>\<open>None\<close> is an index out of range or the failed assertion; \<open>chunk_prefix_total\<close> excludes it.\<close>

definition chunk_prefix :: "usize \<Rightarrow> inline_buf option" where
  "chunk_prefix len =
     (let digits = (USIZE_BITS - leading_zeros len + 3) div 4;
          bytes = chunk_prefix_loop (replicate CHUNK_PREFIX_CAPACITY 0) digits len in
      if digits + 1 < length bytes
      then inline_from_parts (bytes[digits := CR, digits + 1 := LF]) (digits + 2)
      else None)"

section \<open>The body encoder\<close>

record data_framing =
  df_prefix :: inline_buf
  df_suffix :: bytes

definition no_framing :: data_framing where
  "no_framing = \<lparr>df_prefix = inline_empty CHUNK_PREFIX_CAPACITY, df_suffix = []\<rparr>"

datatype body_state = BS_None | BS_Fixed | BS_Chunked | BS_CloseDelimited | BS_Done | BS_Failed encode_error

record body_encoder =
  be_state :: body_state
  be_max_trailer_bytes :: usize
  be_title_case_headers :: bool
  be_remaining_lower :: u64
  be_remaining_upper :: "u64 option"
  be_trailers :: trailer_hint

definition body_encoder_new ::
  "body_mode \<Rightarrow> body_metadata \<Rightarrow> encode_config \<Rightarrow> (body_encoder, encode_error) result" where
  "body_encoder_new mode metadata config =
     (if (\<exists>len \<in> (case mode of BM_Fixed len \<Rightarrow> {len} | _ \<Rightarrow> {}).
            exact (md_size metadata) \<noteq> Some len \<or> md_trailers metadata \<noteq> TH_None)
      then Err InvalidFraming
      else if mode = BM_UntilEof \<and> md_trailers metadata \<noteq> TH_None then Err TrailersForbidden
      else Ok \<lparr>be_state = (case mode of BM_None \<Rightarrow> BS_None | BM_Fixed _ \<Rightarrow> BS_Fixed
                           | BM_Chunked \<Rightarrow> BS_Chunked | BM_UntilEof \<Rightarrow> BS_CloseDelimited),
               be_max_trailer_bytes = ec_max_trailer_bytes config,
               be_title_case_headers = ec_title_case_headers config,
               be_remaining_lower = sh_lower (md_size metadata),
               be_remaining_upper = sh_upper (md_size metadata),
               be_trailers = md_trailers metadata\<rparr>)"

definition encoder_fail :: "body_encoder \<Rightarrow> encode_error \<Rightarrow> ('a, encode_error) result \<times> body_encoder" where
  "encoder_fail enc e = (Err e, enc\<lparr>be_state := BS_Failed e\<rparr>)"

definition encoder_data ::
  "body_encoder \<Rightarrow> usize \<Rightarrow> (data_framing, encode_error) result \<times> body_encoder" where
  "encoder_data enc len =
     (case be_state enc of
        BS_Failed e \<Rightarrow> (Err e, enc)
      | BS_Done \<Rightarrow> encoder_fail enc FrameAfterEnd
      | BS_None \<Rightarrow> encoder_fail enc BodyForbidden
      | state \<Rightarrow>
          (case u64_try_from len of
             None \<Rightarrow> encoder_fail enc LengthMismatch
           | Some len64 \<Rightarrow>
               if (case be_remaining_upper enc of None \<Rightarrow> False | Some upper \<Rightarrow> upper < len64)
               then encoder_fail enc LengthMismatch
               else
                 (let enc = enc\<lparr>be_remaining_lower := saturating_sub (be_remaining_lower enc) len64,
                                be_remaining_upper := map_option (\<lambda>upper. upper - len64) (be_remaining_upper enc)\<rparr> in
                  if state = BS_Chunked \<and> len \<noteq> 0
                  then (Ok \<lparr>df_prefix = the (chunk_prefix len), df_suffix = [CR, LF]\<rparr>, enc)
                  else (Ok no_framing, enc))))"

definition encoder_trailers ::
  "('h, 'u) http_api \<Rightarrow> allocator \<Rightarrow> body_encoder \<Rightarrow> 'h \<Rightarrow> (bytes, encode_error) result \<times> body_encoder" where
  "encoder_trailers A M enc trailers =
     (case be_state enc of
        BS_Failed e \<Rightarrow> (Err e, enc)
      | BS_Done \<Rightarrow> encoder_fail enc FrameAfterEnd
      | BS_Chunked \<Rightarrow>
          if be_remaining_lower enc \<noteq> 0 then encoder_fail enc LengthMismatch
          else if be_trailers enc = TH_None \<or> \<not> is_ok (validate_trailers A trailers)
          then encoder_fail enc TrailersForbidden
          else
            (case and_then (push M ((bounded_writer_new (be_max_trailer_bytes enc))\<lparr>bw_kind := TrailerBytes\<rparr>)
                              (bstr ''0'' @ [CR, LF])) (\<lambda>w.
                  and_then (write_headers A M w trailers None (be_title_case_headers enc)) (\<lambda>w.
                  push M w [CR, LF])) of
               Err e \<Rightarrow> encoder_fail enc e
             | Ok w \<Rightarrow> (Ok (bw_bytes w), enc\<lparr>be_state := BS_Done\<rparr>))
      | _ \<Rightarrow> encoder_fail enc TrailersForbidden)"

definition encoder_finish :: "body_encoder \<Rightarrow> (bytes, encode_error) result \<times> body_encoder" where
  "encoder_finish enc =
     (case be_state enc of
        BS_Failed e \<Rightarrow> (Err e, enc)
      | BS_Done \<Rightarrow> encoder_fail enc FrameAfterEnd
      | state \<Rightarrow>
          if state \<noteq> BS_None \<and> be_remaining_lower enc \<noteq> 0 then encoder_fail enc LengthMismatch
          else
            (Ok (if state = BS_Chunked then bstr ''0'' @ [CR, LF, CR, LF] else []),
             enc\<lparr>be_state := BS_Done\<rparr>))"

end
