(* ===== verification/Encode_Laws.thy ===== *)
theory Encode_Laws
  imports Encode Decode
begin

text \<open>
  What the encoder promises: the bytes of a prepared head, the agreement of a planned
  framing with the framing the recipient derives, the size accounting of the body encoder,
  and the digits of a chunk prefix.
\<close>

section \<open>The bounded writer\<close>

definition writer_within :: "bounded_writer \<Rightarrow> bool" where
  "writer_within w \<longleftrightarrow> length (bw_bytes w) \<le> bw_limit w"

text \<open>\<open>w'\<close> is \<open>w\<close> with \<open>v\<close> appended, still within its limit.\<close>

definition appended :: "bounded_writer \<Rightarrow> bytes \<Rightarrow> bounded_writer \<Rightarrow> bool" where
  "appended w v w' \<longleftrightarrow> w' = w\<lparr>bw_bytes := bw_bytes w @ v\<rparr> \<and> (writer_within w \<longrightarrow> writer_within w')"

lemma appended_trans: "appended w u w' \<Longrightarrow> appended w' v w'' \<Longrightarrow> appended w (u @ v) w''"
  by (auto simp: appended_def)

lemma appended_refl: "appended w [] w"
  by (simp add: appended_def)

lemma length_title_case [simp]: "length (title_case c v) = length v"
  by (induction c v rule: title_case.induct) auto

lemma writer_reserve_Ok: "writer_reserve M w n = Ok u \<Longrightarrow> length (bw_bytes w) + n \<le> bw_limit w"
  by (auto simp: writer_reserve_def checked_add_usize_def split: option.splits if_splits)

lemma push_Ok: "push M w v = Ok w' \<Longrightarrow> appended w v w'"
  by (auto simp: push_def appended_def writer_within_def dest: writer_reserve_Ok)

lemma push_title_case_Ok: "push_title_case M w v = Ok w' \<Longrightarrow> appended w (title_case True v) w'"
  by (auto simp: push_title_case_def appended_def writer_within_def dest: writer_reserve_Ok)

lemma write_fmt_Ok: "write_fmt M w vs = (True, w') \<Longrightarrow> appended w (concat vs) w'"
proof (induction vs arbitrary: w)
  case (Cons v vs)
  then obtain w1 where "push M w v = Ok w1" "write_fmt M w1 vs = (True, w')"
    by (auto simp: write_str_def split: result.splits)
  then show ?case using Cons.IH push_Ok appended_trans by fastforce
qed (simp add: appended_refl)

lemma write_display_Ok: "write_display M w vs = Ok w' \<Longrightarrow> appended w (concat vs) w'"
  by (auto simp: write_display_def split: prod.splits bool.splits dest: write_fmt_Ok)

text \<open>The bytes of a field, and of a block of fields.\<close>

definition field_name_bytes :: "bool \<Rightarrow> header_name \<Rightarrow> bytes option \<Rightarrow> bytes" where
  "field_name_bytes title name original =
     (case original of Some s \<Rightarrow> s | None \<Rightarrow> if title then title_case True (bstr name) else bstr name)"

definition field_bytes :: "bool \<Rightarrow> header_name \<Rightarrow> bytes option \<Rightarrow> bytes \<Rightarrow> bytes" where
  "field_bytes title name original v = field_name_bytes title name original @ bstr '': '' @ v @ [CR, LF]"

fun values_bytes :: "bool \<Rightarrow> header_name \<Rightarrow> bytes list \<Rightarrow> bytes list \<Rightarrow> bytes" where
  "values_bytes title name spellings [] = []"
| "values_bytes title name spellings (v # vs) =
     field_bytes title name (first spellings) v @ values_bytes title name (drop 1 spellings) vs"

definition block_bytes :: "('h, 'u) http_api \<Rightarrow> 'h \<Rightarrow> 'h option \<Rightarrow> bool \<Rightarrow> bytes" where
  "block_bytes A headers original title =
     (case original of
        Some o' \<Rightarrow> concat (map (\<lambda>n. values_bytes title n (hm_get_all A o' n) (hm_get_all A headers n)) (hm_keys A headers))
      | None \<Rightarrow> concat (map (\<lambda>(n, v). field_bytes title n None v) (hm_iter A headers)))"

lemma write_field_Ok: "write_field M w name original v title = Ok w' \<Longrightarrow> appended w (field_bytes title name original v) w'"
proof -
  assume "write_field M w name original v title = Ok w'"
  then obtain w1 w2 w3 where "write_header_name M w name original title = Ok w1"
      "push M w1 (bstr '': '') = Ok w2" "push M w2 v = Ok w3" "push M w3 [CR, LF] = Ok w'"
    by (auto simp: write_field_def)
  moreover from this(1) have "appended w (field_name_bytes title name original) w1"
    by (auto simp: write_header_name_def field_name_bytes_def split: option.splits if_splits
        dest: push_Ok push_title_case_Ok)
  ultimately show ?thesis
    unfolding field_bytes_def by (blast intro: appended_trans push_Ok)
qed

lemma write_values_Ok:
  "write_values M w name spellings vs title = Ok w' \<Longrightarrow> appended w (values_bytes title name spellings vs) w'"
proof (induction vs arbitrary: w spellings)
  case (Cons v vs)
  then show ?case using write_field_Ok appended_trans by fastforce
qed (simp add: appended_refl)

lemma write_names_Ok:
  "write_names A M w headers original ns title = Ok w' \<Longrightarrow>
     appended w (concat (map (\<lambda>n. values_bytes title n (hm_get_all A original n) (hm_get_all A headers n)) ns)) w'"
proof (induction ns arbitrary: w)
  case (Cons n ns)
  then show ?case using write_values_Ok appended_trans by fastforce
qed (simp add: appended_refl)

lemma write_fields_Ok:
  "write_fields M w fs title = Ok w' \<Longrightarrow>
     appended w (concat (map (\<lambda>(n, v). field_bytes title n None v) fs)) w'"
proof (induction fs arbitrary: w)
  case (Cons f fs)
  then show ?case by (cases f) (use Cons write_field_Ok appended_trans in fastforce)
qed (simp add: appended_refl)

lemma write_headers_Ok:
  "write_headers A M w headers original title = Ok w' \<Longrightarrow> appended w (block_bytes A headers original title) w'"
  by (auto simp: write_headers_def block_bytes_def split: option.splits dest: write_names_Ok write_fields_Ok)

lemma appended_new: "appended (bounded_writer_new n) v w \<Longrightarrow> bw_bytes w = v \<and> length v \<le> n"
  by (auto simp: appended_def bounded_writer_new_def writer_within_def)

lemma write_request_head_Ok:
  assumes "write_request_head A M head original config = Ok bytes"
  obtains v where "version_bytes (req_version head) = Ok v"
    and "bytes = bstr (req_method head) @ [SP] @ concat (uri_display A (req_target head)) @ [SP] @ v @ [CR, LF]
           @ block_bytes A (req_headers head) original (ec_title_case_headers config) @ [CR, LF]"
    and "length bytes \<le> ec_max_head_bytes config"
proof -
  let ?w = "bounded_writer_new (ec_max_head_bytes config)"
  obtain v w1 w2 w3 w4 w5 w6 w7 w8 where
    "push M ?w (bstr (req_method head)) = Ok w1" "push M w1 [SP] = Ok w2"
    "write_display M w2 (uri_display A (req_target head)) = Ok w3" "push M w3 [SP] = Ok w4"
    and v: "version_bytes (req_version head) = Ok v"
    and "push M w4 v = Ok w5" "push M w5 [CR, LF] = Ok w6"
    "write_headers A M w6 (req_headers head) original (ec_title_case_headers config) = Ok w7"
    "push M w7 [CR, LF] = Ok w8" and bytes: "bw_bytes w8 = bytes"
    using assms unfolding write_request_head_def and_then_Ok_iff result.inject
    by (elim exE conjE) (rule that, assumption+)
  then have "appended ?w (bstr (req_method head) @ [SP] @ concat (uri_display A (req_target head)) @ [SP] @ v @ [CR, LF]
           @ block_bytes A (req_headers head) original (ec_title_case_headers config) @ [CR, LF]) w8"
    by (blast intro: appended_trans push_Ok write_display_Ok write_headers_Ok)
  from appended_new [OF this] bytes show thesis by (intro that [OF v]) simp_all
qed

lemma write_response_head_Ok:
  assumes "write_response_head A M head original config = Ok bytes"
  obtains v where "version_bytes (resp_version head) = Ok v"
    and "bytes = v @ [SP] @ status_as_str A (resp_status head) @ [SP]
           @ (case status_canonical_reason A (resp_status head) of Some r \<Rightarrow> r | None \<Rightarrow> []) @ [CR, LF]
           @ block_bytes A (resp_headers head) original (ec_title_case_headers config) @ [CR, LF]"
    and "length bytes \<le> ec_max_head_bytes config"
proof -
  let ?w = "bounded_writer_new (ec_max_head_bytes config)"
  let ?reason = "case status_canonical_reason A (resp_status head) of Some r \<Rightarrow> r | None \<Rightarrow> []"
  obtain v w1 w2 w3 w4 w5 w6 w7 w8 where
    v: "version_bytes (resp_version head) = Ok v" and
    "push M ?w v = Ok w1" "push M w1 [SP] = Ok w2"
    "push M w2 (status_as_str A (resp_status head)) = Ok w3" "push M w3 [SP] = Ok w4"
    "push M w4 ?reason = Ok w5" "push M w5 [CR, LF] = Ok w6"
    "write_headers A M w6 (resp_headers head) original (ec_title_case_headers config) = Ok w7"
    "push M w7 [CR, LF] = Ok w8" and bytes: "bw_bytes w8 = bytes"
    using assms unfolding write_response_head_def and_then_Ok_iff result.inject
    by (elim exE conjE) (rule that, assumption+)
  then have "appended ?w (v @ [SP] @ status_as_str A (resp_status head) @ [SP] @ ?reason @ [CR, LF]
           @ block_bytes A (resp_headers head) original (ec_title_case_headers config) @ [CR, LF]) w8"
    by (blast intro: appended_trans push_Ok write_headers_Ok)
  from appended_new [OF this] bytes show thesis by (intro that [OF v]) simp_all
qed

section \<open>Planned and derived framing\<close>

text \<open>Documented behaviour of \<open>HeaderValue::from(u64)\<close>: the decimal digits of the number.\<close>

definition length_value_law :: "('h, 'u) http_api \<Rightarrow> bool" where
  "length_value_law A \<longleftrightarrow> (\<forall>n. spells_length n (header_value_from_u64 A n))"

lemma split_on_none: "\<forall>b \<in> set v. \<not> p b \<Longrightarrow> split_on p v = [v]"
  by (induction v) auto

lemma comma_members_digits: "list_all is_ascii_digit v \<Longrightarrow> comma_members v = [v]"
proof -
  assume "list_all is_ascii_digit v"
  then have "\<forall>b \<in> set v. b \<noteq> COMMA \<and> \<not> is_ows b"
    by (auto simp: list_all_iff is_ascii_digit_def is_ows_def)
  then show ?thesis by (simp add: comma_members_def split_on_none trim_ows_no_ows)
qed

lemma set_exact_length_Ok:
  "set_exact_length A h n = Ok h' \<longleftrightarrow> parse_transfer_encoding A h = Ok None
     \<and> ((parse_content_length A h = Ok (Some n) \<and> h' = h)
      \<or> (parse_content_length A h = Ok None \<and> h' = hm_insert A h CONTENT_LENGTH (header_value_from_u64 A n)))"
proof (cases "parse_transfer_encoding A h")
  case te: (Ok te)
  show ?thesis
  proof (cases "parse_content_length A h")
    case (Ok cl)
    then show ?thesis using te by (cases te; cases cl) (auto simp: set_exact_length_def)
  next
    case (Err e)
    then show ?thesis using te by (simp add: set_exact_length_def)
  qed
next
  case (Err e)
  then show ?thesis by (simp add: set_exact_length_def)
qed

lemma set_exact_length_framing:
  assumes "header_map_laws A" and "length_value_law A" and "set_exact_length A h n = Ok h'"
  shows "message_framing A h' ver d = Ok (BM_Fixed n)"
proof -
  from assms(3) have te: "hm_get_all A h TRANSFER_ENCODING = []"
    by (simp add: set_exact_length_Ok parse_transfer_encoding_None)
  from assms(3) consider (declared) "parse_content_length A h = Ok (Some n)" "h' = h"
    | (added) "parse_content_length A h = Ok None" "h' = hm_insert A h CONTENT_LENGTH (header_value_from_u64 A n)"
    by (auto simp: set_exact_length_Ok)
  then show ?thesis
  proof cases
    case declared
    then show ?thesis using te by (simp add: message_framing_Ok Let_def parse_content_length_Some)
  next
    case added
    have "comma_members (header_value_from_u64 A n) = [header_value_from_u64 A n]"
      using assms(2) by (auto simp: length_value_law_def spells_length_def intro!: comma_members_digits)
    then show ?thesis
      using added(2) te assms(2)
      by (simp add: message_framing_Ok Let_def header_map_lawsD(1) [OF assms(1)] length_value_law_def)
  qed
qed

lemma set_chunked_Ok:
  "set_chunked A h = Ok h' \<longleftrightarrow> \<not> hm_contains_key A h CONTENT_LENGTH
     \<and> ((parse_transfer_encoding A h = Ok (Some TF_Chunked) \<and> h' = h)
      \<or> (parse_transfer_encoding A h = Ok None \<and> h' = hm_insert A h TRANSFER_ENCODING (bstr ''chunked'')))"
proof (cases "parse_transfer_encoding A h")
  case (Ok te)
  then show ?thesis by (cases te) (auto simp: set_chunked_def)
next
  case (Err e)
  then show ?thesis by (simp add: set_chunked_def)
qed

lemma set_chunked_framing:
  assumes "header_map_laws A" and "set_chunked A h = Ok h'"
  shows "message_framing A h' HTTP_11 d = Ok BM_Chunked"
proof -
  from assms have cl: "hm_get_all A h CONTENT_LENGTH = []"
    by (simp add: set_chunked_Ok header_map_lawsD(5) [OF assms(1)])
  have chunked: "is_chunked (trim_ows (bstr ''chunked''))" by code_simp
  from assms(2) consider (declared) "parse_transfer_encoding A h = Ok (Some TF_Chunked)" "h' = h"
    | (added) "parse_transfer_encoding A h = Ok None" "h' = hm_insert A h TRANSFER_ENCODING (bstr ''chunked'')"
    by (auto simp: set_chunked_Ok)
  then show ?thesis
  proof cases
    case declared
    then show ?thesis
      using cl parse_transfer_encoding_Some [of A h TF_Chunked] by (simp add: message_framing_Ok Let_def)
  next
    case added
    then show ?thesis
      using cl chunked by (simp add: message_framing_Ok Let_def header_map_lawsD(1) [OF assms(1)])
  qed
qed

lemma plan_request_framing_agrees:
  assumes "header_map_laws A" and "length_value_law A"
    and "plan_request_framing A h ver md = Ok (mode, h')"
  shows "message_framing A h' ver BM_None = Ok mode"
  using assms set_exact_length_framing [OF assms(1,2)] set_chunked_framing [OF assms(1)]
  by (auto simp: plan_request_framing_def split: option.splits if_splits)

lemma plan_representation_framing_agrees:
  assumes "header_map_laws A" and "length_value_law A"
    and "plan_representation_framing A h ver md = Ok (mode, h')"
  shows "message_framing A h' ver BM_UntilEof = Ok mode"
proof -
  have "message_framing A h ver BM_UntilEof = Ok BM_UntilEof" if "reject_framing_headers A h = Ok u" for u
    using that by (auto simp: reject_framing_headers_def message_framing_Ok Let_def
        header_map_lawsD(5) [OF assms(1)] split: if_splits)
  then show ?thesis
    using assms(3) set_exact_length_framing [OF assms(1,2)] set_chunked_framing [OF assms(1)]
    by (auto simp: plan_representation_framing_def split: option.splits if_splits)
qed

lemma response_upgrade_bodiless:
  assumes "status_class_laws A" and "response_upgrade A self connection m = Ok upgrade"
  shows "bodiless A m (resp_status self) upgrade \<longleftrightarrow>
     (m = METHOD_CONNECT \<and> status_is_success A (resp_status self)) \<or> status_is_informational A (resp_status self)
     \<or> resp_status self = NO_CONTENT \<or> m = METHOD_HEAD \<or> resp_status self = NOT_MODIFIED
     \<or> resp_status self = RESET_CONTENT"
  using assms by (auto simp: bodiless_def response_upgrade_def status_class_laws_def split: if_splits)

lemma plan_response_framing_agrees:
  assumes "header_map_laws A" and "length_value_law A" and "status_class_laws A"
    and "plan_response_framing A h ver status md m = Ok (mode, h')"
    and "validate_response A \<lparr>resp_version = ver, resp_status = status, resp_headers = h', resp_header_case = c\<rparr> m = Ok v"
  shows "vresp_body v = mode"
proof -
  let ?self = "\<lparr>resp_version = ver, resp_status = status, resp_headers = h', resp_header_case = c\<rparr>"
  obtain connection where up: "response_upgrade A ?self connection m = Ok (vresp_upgrade v)"
    and body: "(if bodiless A m status (vresp_upgrade v) then Ok BM_None
          else message_framing A h' ver BM_UntilEof) = Ok (vresp_body v)"
    by (rule validate_response_Ok [OF assms(5)]) (rule that, assumption, simp only: response_head.simps)
  note bodiless = response_upgrade_bodiless [OF assms(3) up, simplified]
  show ?thesis
  proof (cases "bodiless A m status (vresp_upgrade v)")
    case True
    then have "mode = BM_None"
      using assms(4) bodiless by (auto simp: plan_response_framing_def Let_def split: if_splits)
    then show ?thesis using body True by simp
  next
    case False
    then have "plan_representation_framing A h ver md = Ok (mode, h')"
      using assms(4) bodiless by (auto simp: plan_response_framing_def Let_def split: if_splits)
    then show ?thesis
      using plan_representation_framing_agrees [OF assms(1,2)] body False by simp
  qed
qed

section \<open>Chunk prefixes\<close>

fun hex_digits :: "nat \<Rightarrow> bytes" where
  "hex_digits n = (if n = 0 then [] else hex_digits (n div 16) @ [HEX ! (n mod 16)])"

declare hex_digits.simps [simp del]

lemma hex_digits_0 [simp]: "hex_digits 0 = []"
  by (simp add: hex_digits.simps)

lemma bit_length_0 [simp]: "bit_length 0 = 0"
  by (simp add: bit_length.simps)

lemma bit_length_16: "16 \<le> n \<Longrightarrow> bit_length n = 4 + bit_length (n div 16)"
  by (simp add: bit_length.simps [of n] bit_length.simps [of "n div 2"] bit_length.simps [of "n div 4"]
      bit_length.simps [of "n div 8"] div_mult2_eq [symmetric] div_greater_zero_iff)

lemma bit_length_le: "n < 2 ^ k \<Longrightarrow> bit_length n \<le> k"
proof (induction k arbitrary: n)
  case (Suc k)
  then have "n div 2 < 2 ^ k" by (simp add: less_mult_imp_div_less)
  with Suc.IH show ?case by (simp add: bit_length.simps [of n])
qed simp

lemma length_hex_digits: "length (hex_digits n) = (bit_length n + 3) div 4"
proof (induction n rule: less_induct)
  case (less n)
  consider "n = 0" | "0 < n" "n < 16" | "16 \<le> n" by linarith
  then show ?case
  proof cases
    case 2
    then have "bit_length n \<le> 4" "0 < bit_length n"
      using bit_length_le [of n 4] by (simp_all add: bit_length.simps [of n])
    moreover have "hex_digits n = [HEX ! (n mod 16)]" using 2 by (simp add: hex_digits.simps [of n])
    ultimately show ?thesis by simp
  next
    case 3
    then show ?thesis using less [of "n div 16"] by (simp add: hex_digits.simps [of n] bit_length_16)
  qed simp
qed

lemma chunk_prefix_loop_digits:
  "c = length (hex_digits n) \<Longrightarrow> c \<le> length bs \<Longrightarrow> chunk_prefix_loop bs c n = hex_digits n @ drop c bs"
proof (induction bs c n rule: chunk_prefix_loop.induct)
  case (1 bs n)
  then show ?case by simp
next
  case (2 bs c n)
  then have n: "hex_digits n = hex_digits (n div 16) @ [HEX ! (n mod 16)]"
    by (cases "n = 0") (simp_all add: hex_digits.simps [of n])
  have "drop c (bs[c := x]) = x # drop (Suc c) bs" for x
    using "2.prems"(2) Cons_nth_drop_Suc [of c "bs[c := x]"] by simp
  with 2 n show ?case by simp
qed

lemma chunk_prefix_total:
  assumes "n < 2 ^ 64"
  shows "\<exists>b. chunk_prefix n = Some b \<and> as_init b = hex_digits n @ [CR, LF]"
proof -
  let ?d = "length (hex_digits n)"
  have d: "(USIZE_BITS - leading_zeros n + 3) div 4 = ?d"
    using bit_length_le [OF assms] by (simp add: leading_zeros_def USIZE_BITS_def length_hex_digits)
  have le: "?d + 2 \<le> CHUNK_PREFIX_CAPACITY"
    using bit_length_le [OF assms] by (simp add: CHUNK_PREFIX_CAPACITY_def USIZE_BITS_def length_hex_digits)
  let ?bs = "chunk_prefix_loop (replicate CHUNK_PREFIX_CAPACITY 0) ?d n"
  have bs: "?bs = hex_digits n @ replicate (CHUNK_PREFIX_CAPACITY - ?d) 0"
    using le by (simp add: chunk_prefix_loop_digits)
  obtain k where k: "CHUNK_PREFIX_CAPACITY - ?d = Suc (Suc k)"
    using le by (cases "CHUNK_PREFIX_CAPACITY - ?d"; cases "CHUNK_PREFIX_CAPACITY - ?d - 1") auto
  have "take (?d + 2) (?bs[?d := CR, ?d + 1 := LF]) = hex_digits n @ [CR, LF]"
    unfolding bs k by (simp add: list_update_append)
  moreover have "?d + 1 < length ?bs" using bs le by simp
  ultimately show ?thesis
    by (simp add: chunk_prefix_def d Let_def inline_from_parts_def as_init_def)
qed

section \<open>The size accounting of the body encoder\<close>

text \<open>
  The wire image of a sequence of data frames, as a driver writes it: the prefix, the
  payload and the suffix of each frame; then the end of the body.
\<close>

fun encode_frames :: "body_encoder \<Rightarrow> bytes list \<Rightarrow> (bytes, encode_error) result \<times> body_encoder" where
  "encode_frames enc [] = (Ok [], enc)"
| "encode_frames enc (d # ds) =
     (case encoder_data enc (length d) of
        (Err e, enc') \<Rightarrow> (Err e, enc')
      | (Ok f, enc') \<Rightarrow>
          (case encode_frames enc' ds of
             (Err e, enc'') \<Rightarrow> (Err e, enc'')
           | (Ok wire, enc'') \<Rightarrow> (Ok (as_init (df_prefix f) @ d @ df_suffix f @ wire), enc'')))"

definition encode_body :: "body_encoder \<Rightarrow> bytes list \<Rightarrow> (bytes, encode_error) result \<times> body_encoder" where
  "encode_body enc ds =
     (case encode_frames enc ds of
        (Err e, enc') \<Rightarrow> (Err e, enc')
      | (Ok wire, enc') \<Rightarrow>
          (case encoder_finish enc' of
             (Err e, enc'') \<Rightarrow> (Err e, enc'')
           | (Ok tail, enc'') \<Rightarrow> (Ok (wire @ tail), enc'')))"

definition sending :: "body_state \<Rightarrow> bool" where
  "sending st \<longleftrightarrow> st = BS_Fixed \<or> st = BS_Chunked \<or> st = BS_CloseDelimited"

lemma encoder_data_Ok:
  assumes "encoder_data enc n = (Ok f, enc')"
  shows "sending (be_state enc) \<and> be_state enc' = be_state enc \<and> n < 2 ^ 64
     \<and> unat (be_remaining_lower enc') = unat (be_remaining_lower enc) - n
     \<and> (case be_remaining_upper enc of
          None \<Rightarrow> be_remaining_upper enc' = None
        | Some u \<Rightarrow> n \<le> unat u \<and> (\<exists>u'. be_remaining_upper enc' = Some u' \<and> unat u' = unat u - n))
     \<and> f = (if be_state enc = BS_Chunked \<and> n \<noteq> 0
            then \<lparr>df_prefix = the (chunk_prefix n), df_suffix = [CR, LF]\<rparr> else no_framing)"
proof -
  obtain w where w: "u64_try_from n = Some w"
    using assms by (cases "u64_try_from n") (auto simp: encoder_data_def encoder_fail_def split: body_state.splits)
  then have n: "n = unat w" by (simp add: u64_try_from_Some)
  have up: "case be_remaining_upper enc of None \<Rightarrow> True | Some u \<Rightarrow> w \<le> u"
    using assms w by (auto simp: encoder_data_def encoder_fail_def not_less
        split: body_state.splits option.splits if_splits)
  then show ?thesis
    using assms w n unat_u64_bound [of w]
    by (auto simp: encoder_data_def encoder_fail_def sending_def Let_def unat_saturating_sub
        unat_u64_sub word_le_nat_alt split: body_state.splits option.splits if_splits)
qed

text \<open>The accounting of a run of frames: what was sent comes off both bounds.\<close>

lemma encode_frames_Ok:
  "encode_frames enc ds = (Ok wire, enc') \<Longrightarrow>
     be_state enc' = be_state enc \<and> (ds \<noteq> [] \<longrightarrow> sending (be_state enc)) \<and> (\<forall>d \<in> set ds. length d < 2 ^ 64)
     \<and> unat (be_remaining_lower enc') = unat (be_remaining_lower enc) - length (concat ds)
     \<and> (\<forall>u. be_remaining_upper enc = Some u \<longrightarrow> length (concat ds) \<le> unat u)"
proof (induction ds arbitrary: enc wire)
  case (Cons d ds)
  obtain f enc1 w where step: "encoder_data enc (length d) = (Ok f, enc1)"
    and rest: "encode_frames enc1 ds = (Ok w, enc')"
    using Cons.prems by (auto split: prod.splits result.splits)
  note one = encoder_data_Ok [OF step]
  show ?case
    using one Cons.IH [OF rest] by (cases "be_remaining_upper enc") (auto simp: sending_def)
qed simp

lemma as_init_no_framing [simp]: "as_init (df_prefix no_framing) = []" "df_suffix no_framing = []"
  by (simp_all add: no_framing_def inline_empty_def as_init_def)

lemma encode_frames_plain:
  "encode_frames enc ds = (Ok wire, enc') \<Longrightarrow> be_state enc \<noteq> BS_Chunked \<Longrightarrow> wire = concat ds"
proof (induction ds arbitrary: enc wire)
  case (Cons d ds)
  obtain f enc1 w where step: "encoder_data enc (length d) = (Ok f, enc1)"
    and rest: "encode_frames enc1 ds = (Ok w, enc')" and wire: "wire = as_init (df_prefix f) @ d @ df_suffix f @ w"
    using Cons.prems by (auto split: prod.splits result.splits)
  show ?case
    using encoder_data_Ok [OF step] Cons.IH [OF rest] Cons.prems(2) wire by simp
qed simp

text \<open>One chunk on the wire; an empty frame leaves no trace.\<close>

definition chunk_bytes :: "bytes \<Rightarrow> bytes" where
  "chunk_bytes d = (if d = [] then [] else hex_digits (length d) @ [CR, LF] @ d @ [CR, LF])"

lemma encode_frames_chunked:
  "encode_frames enc ds = (Ok wire, enc') \<Longrightarrow> be_state enc = BS_Chunked \<Longrightarrow>
     wire = concat (map chunk_bytes ds)"
proof (induction ds arbitrary: enc wire)
  case (Cons d ds)
  obtain f enc1 w where step: "encoder_data enc (length d) = (Ok f, enc1)"
    and rest: "encode_frames enc1 ds = (Ok w, enc')" and wire: "wire = as_init (df_prefix f) @ d @ df_suffix f @ w"
    using Cons.prems by (auto split: prod.splits result.splits)
  note one = encoder_data_Ok [OF step]
  have "as_init (df_prefix f) @ d @ df_suffix f = chunk_bytes d"
    using one Cons.prems(2) chunk_prefix_total [of "length d"] by (auto simp: chunk_bytes_def)
  with wire Cons.IH [OF rest] one Cons.prems(2) show ?case by simp
qed simp

lemma encoder_finish_Ok:
  assumes "encoder_finish enc = (Ok tail, enc')"
  shows "(be_state enc = BS_None \<or> be_remaining_lower enc = 0) \<and> be_state enc' = BS_Done
     \<and> tail = (if be_state enc = BS_Chunked then [48, CR, LF, CR, LF] else [])"
  using assms
  by (auto simp: encoder_finish_def encoder_fail_def bstr_def split: body_state.splits if_splits)

lemma encode_body_Ok:
  assumes "encode_body enc ds = (Ok wire, enc')"
  obtains frames tail enc1 where "encode_frames enc ds = (Ok frames, enc1)"
    and "encoder_finish enc1 = (Ok tail, enc')" and "wire = frames @ tail"
  using assms by (auto simp: encode_body_def split: prod.splits result.splits)

section \<open>The concrete header map\<close>

lemma decimal_digit_value: "d < 10 \<Longrightarrow> is_ascii_digit (nat_digits_byte d) \<and> unat (nat_digits_byte d) - 48 = d"
proof -
  assume d: "d < 10"
  have "unat (nat_digits_byte d) = 48 + d"
    using d by (simp add: nat_digits_byte_def unat_word_ariths unat_of_nat take_bit_nat_eq_self)
  with d show ?thesis by (simp add: is_ascii_digit_def word_le_nat_alt)
qed

lemma decimal_digits_spell:
  "decimal_digits n \<noteq> [] \<and> list_all is_ascii_digit (decimal_digits n) \<and> decimal_value (decimal_digits n) = n"
proof (induction n rule: decimal_digits.induct)
  case (1 n)
  then show ?case
    using decimal_digit_value [of n] decimal_digit_value [of "n mod 10"]
    by (auto simp: decimal_digits.simps [of n] decimal_value_def radix_value_append)
qed

lemma alist_length_law: "length_value_law alist_http"
  using decimal_digits_spell by (simp add: length_value_law_def alist_http_def spells_length_def)

section \<open>Properties\<close>

text \<open>
  A prepared request head is exactly its request line, its fields and an empty line, and
  never longer than the configured limit; the head that is returned for the exchange is the
  one that was written, and its body mode is the one its own header fields give to the
  recipient.
\<close>

theorem prepared_request_head:
  assumes "prepare_request_head A M method target ver headers original md config = Ok plan"
  shows "let head = vreq_head (mp_head plan) in
     (\<exists>v. version_bytes (req_version head) = Ok v \<and>
        mp_bytes plan = bstr (req_method head) @ [SP] @ concat (uri_display A (req_target head)) @ [SP] @ v @ [CR, LF]
          @ block_bytes A (req_headers head) original (ec_title_case_headers config) @ [CR, LF])
   \<and> length (mp_bytes plan) \<le> ec_max_head_bytes config
   \<and> message_framing A (req_headers head) (req_version head) BM_None = Ok (vreq_body (mp_head plan))"
proof -
  obtain mode h' v where
    v: "validate_for A \<lparr>req_method = method, req_target = target, req_version = ver,
          req_headers = h', req_header_case = None\<rparr> False = Ok v"
    and w: "write_request_head A M (vreq_head v) original config = Ok (mp_bytes plan)" and plan: "mp_head plan = v"
    using assms by (auto simp: prepare_request_head_def validate_request_def split: if_splits)
  show ?thesis
    unfolding plan Let_def
    by (rule write_request_head_Ok [OF w]) (use validate_for_framing [OF v] in blast)
qed

definition sample_config :: encode_config where
  "sample_config = \<lparr>ec_max_head_bytes = 200, ec_max_trailer_bytes = 100, ec_title_case_headers = True\<rparr>"

definition sample_metadata :: body_metadata where
  "sample_metadata = \<lparr>md_size = with_exact 3, md_trailers = TH_None\<rparr>"

theorem prepared_request_head_witness:
  "\<exists>plan. prepare_request_head alist_http (\<lambda>_ _. True) ''PUT'' (bstr ''/'') HTTP_11 [(HOST, bstr ''a'')] None
      sample_metadata sample_config = Ok plan \<and> length (mp_bytes plan) \<le> 200"
proof -
  let ?r = "prepare_request_head alist_http (\<lambda>_ _. True) ''PUT'' (bstr ''/'') HTTP_11 [(HOST, bstr ''a'')] None
      sample_metadata sample_config"
  have "is_ok ?r" by code_simp
  then obtain plan where plan: "?r = Ok plan" by (cases ?r) auto
  moreover have "ec_max_head_bytes sample_config = 200" by (simp add: sample_config_def)
  ultimately show ?thesis using prepared_request_head [OF plan] by (auto simp: Let_def)
qed

text \<open>
  C32. The framing planned for a request is the framing its recipient reads from the head:
  the plan replaces or adds a length field only in a way that the validation of the result
  gives back the same body mode, for every size hint, trailer hint and header map.
\<close>

theorem planned_request_framing:
  assumes "header_map_laws A" and "length_value_law A"
    and "plan_request_framing A h ver md = Ok (mode, h')"
    and "validate_for A \<lparr>req_method = m, req_target = t, req_version = ver,
           req_headers = h', req_header_case = None\<rparr> received = Ok v"
  shows "vreq_body v = mode"
proof -
  obtain form self' where
    norm: "(if form = Absolute then and_then (normalize_absolute_host A h' t)
                 (\<lambda>headers. Ok (\<lparr>req_method = m, req_target = t, req_version = ver,
           req_headers = h', req_header_case = None\<rparr>\<lparr>req_headers := headers\<rparr>))
          else Ok \<lparr>req_method = m, req_target = t, req_version = ver,
           req_headers = h', req_header_case = None\<rparr>) = Ok self'"
    and framing: "message_framing A (req_headers self') (req_version self') BM_None = Ok (vreq_body v)"
    by (rule validate_for_Ok [OF assms(4)])
      (rule that; simp only: validated_request_head.simps request_head.simps)
  have "message_framing A (hm_insert A h' HOST x) ver BM_None = Ok b \<longleftrightarrow> message_framing A h' ver BM_None = Ok b" for x b
    by (simp add: message_framing_Ok header_map_lawsD(1) [OF assms(1)])
  then have "message_framing A h' ver BM_None = Ok (vreq_body v)"
    using norm framing by (auto simp: normalize_absolute_host_def split: if_splits)
  with plan_request_framing_agrees [OF assms(1-3)] show ?thesis by simp
qed

theorem planned_request_framing_witness:
  "\<exists>h' v. plan_request_framing alist_http [(HOST, bstr ''a'')] HTTP_11 sample_metadata = Ok (BM_Fixed 3, h')
     \<and> validate_for alist_http \<lparr>req_method = ''PUT'', req_target = bstr ''/'', req_version = HTTP_11,
           req_headers = h', req_header_case = None\<rparr> True = Ok v \<and> vreq_body v = BM_Fixed 3"
proof -
  let ?h = "[(HOST, bstr ''a''), (CONTENT_LENGTH, bstr ''3'')]"
  let ?v = "validate_for alist_http \<lparr>req_method = ''PUT'', req_target = bstr ''/'', req_version = HTTP_11,
           req_headers = ?h, req_header_case = None\<rparr> True"
  have plan: "plan_request_framing alist_http [(HOST, bstr ''a'')] HTTP_11 sample_metadata = Ok (BM_Fixed 3, ?h)"
    by code_simp
  have "is_ok ?v" by code_simp
  then obtain v where "?v = Ok v" by (cases ?v) auto
  with planned_request_framing [OF alist_http_laws alist_length_law plan] plan show ?thesis by blast
qed

text \<open>
  C33. The framing planned for a response is the framing its recipient derives, for every
  status, request method and version: a body mode is announced exactly as it is sent, and a
  response that must not have a body is planned with none.
\<close>

theorem planned_response_framing:
  assumes "header_map_laws A" and "length_value_law A" and "status_class_laws A"
    and "plan_response_framing A h ver status md m = Ok (mode, h')"
    and "validate_response A \<lparr>resp_version = ver, resp_status = status, resp_headers = h',
           resp_header_case = None\<rparr> m = Ok v"
  shows "vresp_body v = mode"
  by (rule plan_response_framing_agrees [OF assms])

theorem planned_response_framing_witness:
  "\<exists>h' v. plan_response_framing alist_http [] HTTP_10 200 \<lparr>md_size = size_hint_new, md_trailers = TH_None\<rparr> ''GET''
        = Ok (BM_UntilEof, h')
     \<and> validate_response alist_http \<lparr>resp_version = HTTP_10, resp_status = 200, resp_headers = h',
           resp_header_case = None\<rparr> ''GET'' = Ok v \<and> vresp_body v = BM_UntilEof"
proof -
  let ?v = "validate_response alist_http \<lparr>resp_version = HTTP_10, resp_status = 200, resp_headers = [],
           resp_header_case = None\<rparr> ''GET''"
  have plan: "plan_response_framing alist_http [] HTTP_10 200 \<lparr>md_size = size_hint_new, md_trailers = TH_None\<rparr> ''GET''
      = Ok (BM_UntilEof, [])" by code_simp
  have "is_ok ?v" by code_simp
  then obtain v where "?v = Ok v" by (cases ?v) auto
  with planned_response_framing [OF alist_http_laws alist_length_law alist_status_laws plan] plan show ?thesis
    by blast
qed

lemma body_bounds:
  assumes "body_encoder_new mode md config = Ok enc" and "mode \<noteq> BM_None"
    and "encode_body enc ds = (Ok wire, enc')"
  shows "unat (sh_lower (md_size md)) \<le> length (concat ds)
     \<and> (\<forall>u. sh_upper (md_size md) = Some u \<longrightarrow> length (concat ds) \<le> unat u)
     \<and> (\<forall>n. mode = BM_Fixed n \<longrightarrow> length (concat ds) = unat n \<and> wire = concat ds)"
proof -
  have enc: "be_remaining_lower enc = sh_lower (md_size md)" "be_remaining_upper enc = sh_upper (md_size md)"
    "be_state enc \<noteq> BS_None" "mode \<noteq> BM_Chunked \<Longrightarrow> be_state enc \<noteq> BS_Chunked"
    using assms(1,2) by (auto simp: body_encoder_new_def split: if_splits body_mode.splits)
  have exact: "exact (md_size md) = Some n" if "mode = BM_Fixed n" for n
    using assms(1) that by (auto simp: body_encoder_new_def split: if_splits)
  obtain frames tail enc1 where fr: "encode_frames enc ds = (Ok frames, enc1)"
    and fin: "encoder_finish enc1 = (Ok tail, enc')" and wire: "wire = frames @ tail"
    by (rule encode_body_Ok [OF assms(3)])
  note run = encode_frames_Ok [OF fr] and stop = encoder_finish_Ok [OF fin]
  have "unat (be_remaining_lower enc) - length (concat ds) = 0"
    using run stop enc(3) by (metis unat_0)
  then have low: "unat (sh_lower (md_size md)) \<le> length (concat ds)" using enc(1) by simp
  moreover have "wire = concat ds" if "mode = BM_Fixed n" for n
    using encode_frames_plain [OF fr] stop run enc(4) that wire by simp
  ultimately show ?thesis using run enc(2) exact by (auto simp: exact_Some)
qed

lemma body_fixed_wire:
  assumes "body_encoder_new (BM_Fixed n) md config = Ok enc" and "encode_body enc ds = (Ok wire, enc')"
  shows "length (concat ds) = unat n \<and> wire = concat ds"
  using body_bounds [OF assms(1) _ assms(2)] by simp

text \<open>
  A body is sent within its declared size. When every frame and the end were accepted,
  the payload is at least the lower bound and at most the upper bound of the size hint; a
  body sent with a Content-Length is exactly that many bytes and is written unchanged.
\<close>

theorem body_sent_within_bounds:
  assumes "body_encoder_new mode md config = Ok enc" and "mode \<noteq> BM_None"
    and "encode_body enc ds = (Ok wire, enc')"
  shows "unat (sh_lower (md_size md)) \<le> length (concat ds)
     \<and> (\<forall>u. sh_upper (md_size md) = Some u \<longrightarrow> length (concat ds) \<le> unat u)
     \<and> (\<forall>n. mode = BM_Fixed n \<longrightarrow> length (concat ds) = unat n \<and> wire = concat ds)"
  by (rule body_bounds [OF assms])

theorem body_sent_within_bounds_witness:
  "\<exists>enc. body_encoder_new (BM_Fixed 3) sample_metadata sample_config = Ok enc
     \<and> fst (encode_body enc [[97], [98, 99]]) = Ok [97, 98, 99]"
proof -
  let ?enc = "\<lparr>be_state = BS_Fixed, be_max_trailer_bytes = 100, be_title_case_headers = True,
      be_remaining_lower = 3, be_remaining_upper = Some 3, be_trailers = TH_None\<rparr>"
  have new: "body_encoder_new (BM_Fixed 3) sample_metadata sample_config = Ok ?enc" by code_simp
  have "is_ok (fst (encode_body ?enc [[97], [98, 99]]))" by code_simp
  then obtain wire enc' where run: "encode_body ?enc [[97], [98, 99]] = (Ok wire, enc')"
    by (cases "encode_body ?enc [[97], [98, 99]]"; cases "fst (encode_body ?enc [[97], [98, 99]])") auto
  from body_sent_within_bounds [OF new _ run] run new show ?thesis by auto
qed

text \<open>
  A frame that breaks the declared size is refused before any of it is framed, and the
  encoder stays failed: every later frame, trailer block or end gets the same error.
\<close>

theorem encoder_error_sticky:
  assumes "encoder_data enc n = (Err e, enc')"
  shows "encoder_data enc' n' = (Err e, enc') \<and> encoder_trailers A M enc' t = (Err e, enc')
     \<and> encoder_finish enc' = (Err e, enc')"
proof -
  have "be_state enc' = BS_Failed e"
    using assms by (auto simp: encoder_data_def encoder_fail_def Let_def
        split: body_state.splits option.splits if_splits)
  then show ?thesis by (simp add: encoder_data_def encoder_trailers_def encoder_finish_def)
qed

theorem encoder_error_sticky_witness:
  "\<exists>enc. fst (encoder_finish enc) = Err LengthMismatch
     \<and> fst (encoder_data enc 0) = Err LengthMismatch"
proof -
  let ?enc = "\<lparr>be_state = BS_Fixed, be_max_trailer_bytes = 100, be_title_case_headers = True,
      be_remaining_lower = 3, be_remaining_upper = Some 3, be_trailers = TH_None\<rparr>"
  have "encoder_data ?enc 4 = (Err LengthMismatch, snd (encoder_data ?enc 4))" by code_simp
  from encoder_error_sticky [OF this] show ?thesis by (metis fst_conv)
qed

end
