(* ===== verification/Decode_Laws.thy ===== *)
theory Decode_Laws
  imports Decode
begin

text \<open>
  The contract of the body decoder: what each call keeps of the decoder's state, how much
  it consumes, that a failure is final, that feeding the input in pieces gives the same
  decoding as feeding it at once, and how many bytes each framing delivers.
\<close>

section \<open>The invariant\<close>

definition chunk_state_ok :: "chunk_state \<Rightarrow> bool" where
  "chunk_state_ok st \<longleftrightarrow> (case st of CS_Data r \<Rightarrow> r \<noteq> 0 | _ \<Rightarrow> True)"

definition decoder_inv :: "body_decoder \<Rightarrow> bool" where
  "decoder_inv d \<longleftrightarrow>
     extension_bytes d \<le> max_chunk_extension_bytes (limits d)
   \<and> (\<forall>st. dstate d = DS_Chunked st \<longrightarrow> chunk_state_ok st)
   \<and> (\<forall>w. trailer_workspace d = Some w \<longrightarrow> w = workspace_new (max_trailers (limits d)))"

lemma chunk_state_ok_simps [simp]:
  "chunk_state_ok (CS_Size n)" "chunk_state_ok CS_DataCrlf" "chunk_state_ok (CS_Trailers n)"
  "chunk_state_ok (CS_Data r) \<longleftrightarrow> r \<noteq> 0"
  by (simp_all add: chunk_state_ok_def)

lemma decoder_inv_set_state:
  "decoder_inv d \<Longrightarrow> (\<And>st. s = DS_Chunked st \<Longrightarrow> chunk_state_ok st) \<Longrightarrow> decoder_inv (d\<lparr>dstate := s\<rparr>)"
  by (simp add: decoder_inv_def)

lemma decoder_inv_new: "decoder_inv (decoder_with_limits mode l)"
  by (cases mode) (auto simp: decoder_inv_def decoder_with_limits_def)

text \<open>Only the extension charge changes in a chunk-size line.\<close>

lemma charge_extensions_frame:
  assumes "charge_extensions d line = (r, d')"
  shows "limits d' = limits d \<and> dstate d' = dstate d \<and> trailer_workspace d' = trailer_workspace d
     \<and> extension_bytes d \<le> extension_bytes d'
     \<and> (extension_bytes d \<le> max_chunk_extension_bytes (limits d)
         \<longrightarrow> extension_bytes d' \<le> max_chunk_extension_bytes (limits d))"
  using assms
  by (auto simp: charge_extensions_def Let_def checked_add_usize_def split: option.splits if_splits)

lemma chunk_line_loop_frame:
  "chunk_line_loop d input k = (r, d') \<Longrightarrow>
     limits d' = limits d \<and> dstate d' = dstate d \<and> trailer_workspace d' = trailer_workspace d
     \<and> extension_bytes d \<le> extension_bytes d'
     \<and> (extension_bytes d \<le> max_chunk_extension_bytes (limits d)
         \<longrightarrow> extension_bytes d' \<le> max_chunk_extension_bytes (limits d))"
proof (induction d input k rule: chunk_line_loop.induct)
  case (1 d input k)
  show ?case
  proof (cases "k < length input \<and> input ! k \<noteq> LF \<and> \<not> (0 < k \<and> input ! (k - 1) = CR)")
    case True
    then have "chunk_line_loop d input (Suc k) = (r, d')"
      using "1.prems" by (subst (asm) chunk_line_loop.simps) auto
    with True "1.IH" show ?thesis by auto
  next
    case False
    with "1.prems" show ?thesis
      by (subst (asm) chunk_line_loop.simps)
        (auto simp: Let_def dest: charge_extensions_frame split: if_splits result.splits prod.splits)
  qed
qed

lemmas parse_chunk_line_frame =
  chunk_line_loop_frame [of d input "if length input < s then 0 else s" for d input s,
    folded decoder_parse_chunk_line_def]

lemma parse_chunk_line_inv:
  "decoder_parse_chunk_line d input s = (r, d') \<Longrightarrow> decoder_inv d \<Longrightarrow> decoder_inv d'"
  by (drule parse_chunk_line_frame) (auto simp: decoder_inv_def)

lemma decode_trailers_inv:
  assumes "decode_trailers P A d input cursor eof s = (r, d')" and "decoder_inv d"
  shows "decoder_inv d' \<and> limits d' = limits d"
proof -
  have "workspace_clear (workspace_new n) = workspace_new n" for n
    by (simp add: workspace_clear_def workspace_new_def)
  with assms show ?thesis
    by (auto simp: decode_trailers_def decoder_inv_def Let_def decoder_fail_def
        split: result.splits prod.splits option.splits if_splits)
qed

lemma decode_chunked_inv:
  "decode_chunked P A d st input eof cursor = (r, d') \<Longrightarrow> decoder_inv d \<Longrightarrow> chunk_state_ok st \<Longrightarrow>
     decoder_inv d' \<and> limits d' = limits d"
proof (induction P A d st input eof cursor rule: decode_chunked.induct)
  case (1 P A d st input eof cursor)
  show ?case
  proof (cases st)
    case (CS_Size scanned)
    obtain p d1 where p: "decoder_parse_chunk_line d (drop cursor input) scanned = (p, d1)"
      by fastforce
    then have d1: "decoder_inv d1" "limits d1 = limits d"
      using "1.prems"(2) by (auto dest: parse_chunk_line_inv parse_chunk_line_frame)
    show ?thesis
    proof (cases "\<exists>sz c s. p = Ok (Some (sz, c), s)")
      case True
      then obtain sz c s where "p = Ok (Some (sz, c), s)" by blast
      then show ?thesis
        using "1.prems" CS_Size p d1
          "1.IH"(1) [OF CS_Size p [symmetric], of "(Some (sz, c), s)" "Some (sz, c)" s "(sz, c)" sz c]
        by (subst (asm) decode_chunked.simps) (auto split: if_splits)
    next
      case False
      then show ?thesis
        using "1.prems" CS_Size p d1
        by (subst (asm) decode_chunked.simps)
          (auto simp: decoder_fail_def intro!: decoder_inv_set_state
            split: result.splits prod.splits option.splits if_splits)
    qed
  next
    case (CS_Data r)
    then show ?thesis
      using "1.prems"
      by (subst (asm) decode_chunked.simps)
        (auto simp: Let_def decoder_fail_def intro!: decoder_inv_set_state split: if_splits)
  next
    case CS_DataCrlf
    then show ?thesis
      using "1.prems" "1.IH"(2)
      by (subst (asm) decode_chunked.simps)
        (auto simp: Let_def decoder_fail_def intro!: decoder_inv_set_state split: if_splits)
  next
    case (CS_Trailers s)
    then show ?thesis
      using "1.prems"
      by (subst (asm) decode_chunked.simps) (auto dest: decode_trailers_inv)
  qed
qed

lemma decode_inv:
  assumes "decode P A d input eof = (r, d')" and "decoder_inv d"
  shows "decoder_inv d' \<and> limits d' = limits d"
proof (cases "\<exists>st. dstate d = DS_Chunked st")
  case True
  then obtain st where "dstate d = DS_Chunked st" by blast
  with assms show ?thesis
    using decode_chunked_inv [of P A d st input eof 0 r d'] by (auto simp: decode_def decoder_inv_def)
next
  case False
  with assms show ?thesis
    by (auto simp: decode_def Let_def decoder_fail_def intro!: decoder_inv_set_state
        split: decoder_state.splits if_splits)
qed

section \<open>Consumption\<close>

text \<open>
  What an outcome may report for an input of \<open>n\<close> bytes already consumed up to \<open>c\<close>: a
  prefix of the input, and a nonempty payload that ends where the prefix ends.
\<close>

fun outcome_within :: "usize \<Rightarrow> usize \<Rightarrow> 'h decode_outcome \<Rightarrow> bool" where
  "outcome_within c n (NeedMore k) \<longleftrightarrow> c \<le> k \<and> k \<le> n"
| "outcome_within c n (Data (s, e) k) \<longleftrightarrow> c \<le> s \<and> s < e \<and> e = k \<and> k \<le> n"
| "outcome_within c n (Trailers _ k) \<longleftrightarrow> c \<le> k \<and> k \<le> n"
| "outcome_within c n (End k) \<longleftrightarrow> c \<le> k \<and> k \<le> n"

lemma outcome_within_mono: "outcome_within c n out \<Longrightarrow> c' \<le> c \<Longrightarrow> outcome_within c' n out"
  by (induction c n out rule: outcome_within.induct) auto

text \<open>The byte count of a data step: never more than is available or remains.\<close>

lemma count64_bounds:
  assumes "(r :: u64) \<noteq> 0" and "0 < n"
  defines "m \<equiv> (case u64_try_from n of Some k \<Rightarrow> k | None \<Rightarrow> - 1)"
  shows "0 < unat (min m r)" and "unat (min m r) \<le> n" and "min m r \<le> r"
    and "unat (min m r) = min n (unat r)"
proof -
  have m: "unat m = min n USIZE_MAX"
  proof (cases "n < 18446744073709551616")
    case True
    then show ?thesis by (simp add: m_def u64_try_from_def unat_of_usize)
  next
    case False
    then show ?thesis
      by (simp add: m_def u64_try_from_def unsigned_minus_1_eq_mask mask_eq_exp_minus_1)
  qed
  have r: "0 < unat r" "unat r \<le> USIZE_MAX"
    using assms(1) unat_u64_bound [of r] by (auto simp: unat_gt_0)
  then show "unat (min m r) = min n (unat r)"
    using m by (simp add: unat_min_u64)
  then show "0 < unat (min m r)" "unat (min m r) \<le> n"
    using r assms(2) by auto
  show "min m r \<le> r" by simp
qed

lemma parse_trailer_block_used:
  assumes "parse_headers_law P" and "parse_trailer_block P A block n = Ok (used, h)"
  shows "used \<le> length block"
  using assms unfolding parse_headers_law_def
  by (auto simp: parse_trailer_block_def split: result.splits parse_status.splits prod.splits
      head_error.splits httparse_error.splits)

lemma decode_trailers_within:
  assumes "parse_headers_law P" and "decode_trailers P A d input cursor eof s = (Ok out, d')"
    and "cursor \<le> length input"
  shows "outcome_within cursor (length input) out"
proof -
  have used: "cursor + used \<le> length input"
    if "parse_trailer_block P A (take k (drop cursor input)) m = Ok (used, h)" for used h k m
    using parse_trailer_block_used [OF assms(1) that] assms(3) by simp linarith
  show ?thesis
    using assms(2,3)
    by (auto simp: decode_trailers_def Let_def decoder_fail_def dest: used
        split: result.splits prod.splits option.splits if_splits)
qed

lemma decode_chunked_within:
  "decode_chunked P A d st input eof cursor = (Ok out, d') \<Longrightarrow> parse_headers_law P \<Longrightarrow>
     chunk_state_ok st \<Longrightarrow> cursor \<le> length input \<Longrightarrow> outcome_within cursor (length input) out"
proof (induction P A d st input eof cursor rule: decode_chunked.induct)
  case (1 P A d st input eof cursor)
  show ?case
  proof (cases st)
    case (CS_Size scanned)
    obtain p d1 where p: "decoder_parse_chunk_line d (drop cursor input) scanned = (p, d1)"
      by fastforce
    show ?thesis
    proof (cases "\<exists>sz c s. p = Ok (Some (sz, c), s)")
      case True
      then obtain sz c s where pc: "p = Ok (Some (sz, c), s)" by blast
      with p have c: "cursor + c \<le> length input"
        using "1.prems"(4) by (auto dest: decoder_parse_chunk_line_consumed)
      have "decode_chunked P A d1 (if sz = 0 then CS_Trailers 0 else CS_Data sz) input eof (cursor + c)
              = (Ok out, d')"
        using "1.prems"(1) CS_Size p pc by (subst (asm) decode_chunked.simps) auto
      then have "outcome_within (cursor + c) (length input) out"
        using "1.IH"(1) [OF CS_Size p [symmetric] pc refl refl refl] "1.prems" c by (auto split: if_splits)
      then show ?thesis by (rule outcome_within_mono) simp
    next
      case False
      then show ?thesis
        using "1.prems" CS_Size p
        by (subst (asm) decode_chunked.simps)
          (auto simp: decoder_fail_def split: result.splits prod.splits option.splits if_splits)
    qed
  next
    case (CS_Data r)
    show ?thesis
    proof (cases "cursor = length input")
      case True
      then show ?thesis
        using "1.prems" CS_Data
        by (subst (asm) decode_chunked.simps) (auto simp: decoder_fail_def split: if_splits)
    next
      case False
      then have "0 < length input - cursor" and "r \<noteq> 0" using "1.prems" CS_Data by auto
      then show ?thesis
        using "1.prems" CS_Data False count64_bounds(1,2) [of r "length input - cursor"]
        by (subst (asm) decode_chunked.simps) (auto simp: Let_def)
    qed
  next
    case CS_DataCrlf
    show ?thesis
    proof (cases "length (drop cursor input) < 2 \<or> take 2 (drop cursor input) \<noteq> [CR, LF]")
      case True
      then show ?thesis
        using "1.prems" CS_DataCrlf
        by (subst (asm) decode_chunked.simps) (auto simp: Let_def decoder_fail_def split: if_splits)
    next
      case False
      then have "decode_chunked P A d (CS_Size 0) input eof (cursor + 2) = (Ok out, d')"
        using "1.prems" CS_DataCrlf by (subst (asm) decode_chunked.simps) (auto simp: Let_def)
      then have "outcome_within (cursor + 2) (length input) out"
        using "1.IH"(2) [OF CS_DataCrlf refl] "1.prems" False by auto
      then show ?thesis by (rule outcome_within_mono) simp
    qed
  next
    case (CS_Trailers s)
    then show ?thesis
      using "1.prems"
      by (subst (asm) decode_chunked.simps) (auto intro: decode_trailers_within)
  qed
qed

lemma decode_within:
  assumes "decode P A d input eof = (Ok out, d')" and "parse_headers_law P" and "decoder_inv d"
  shows "outcome_within 0 (length input) out"
proof (cases "\<exists>st. dstate d = DS_Chunked st")
  case True
  then obtain st where "dstate d = DS_Chunked st" by blast
  with assms show ?thesis
    using decode_chunked_within [of P A d st input eof 0 out d'] by (auto simp: decode_def decoder_inv_def)
next
  case False
  then show ?thesis
    using assms count64_bounds(1,2) [of _ "length input"]
    by (auto simp: decode_def Let_def decoder_fail_def split: decoder_state.splits if_splits)
qed

section \<open>Failures are final\<close>

lemma decode_chunked_fail:
  "decode_chunked P A d st input eof cursor = (Err e, d') \<Longrightarrow> dstate d' = DS_Failed e"
proof (induction P A d st input eof cursor rule: decode_chunked.induct)
  case (1 P A d st input eof cursor)
  note unfolded = "1.prems" [unfolded decode_chunked.simps [of P A d st input eof cursor]]
  show ?case
  proof (cases st)
    case (CS_Size scanned)
    with unfolded "1.IH"(1) [OF CS_Size] show ?thesis
      by (auto simp: decoder_fail_def split: result.splits prod.splits option.splits if_splits)
  next
    case (CS_Data r)
    with unfolded show ?thesis
      by (auto simp: decoder_fail_def Let_def split: if_splits)
  next
    case CS_DataCrlf
    with unfolded "1.IH"(2) [OF CS_DataCrlf refl] show ?thesis
      by (auto simp: decoder_fail_def Let_def split: if_splits)
  next
    case (CS_Trailers s)
    with unfolded show ?thesis
      by (auto simp: decoder_fail_def decode_trailers_def Let_def
          split: result.splits prod.splits option.splits if_splits)
  qed
qed

lemma decode_fail:
  assumes "decode P A d input eof = (Err e, d')"
  shows "dstate d' = DS_Failed e"
  using assms decode_chunked_fail
  by (auto simp: decode_def Let_def decoder_fail_def split: decoder_state.splits if_splits)

lemma decode_failed_again: "dstate d = DS_Failed e \<Longrightarrow> decode P A d input eof = (Err e, d)"
  by (simp add: decode_def)

section \<open>Feeding the input in pieces\<close>

text \<open>Positions of an outcome relative to an input whose first \<open>c\<close> bytes were dropped.\<close>

fun shift_outcome :: "usize \<Rightarrow> 'h decode_outcome \<Rightarrow> 'h decode_outcome" where
  "shift_outcome c (NeedMore k) = NeedMore (c + k)"
| "shift_outcome c (Data (s, e) k) = Data (c + s, c + e) (c + k)"
| "shift_outcome c (Trailers h k) = Trailers h (c + k)"
| "shift_outcome c (End k) = End (c + k)"

definition shift_result ::
  "usize \<Rightarrow> ('h decode_outcome, 'e) result \<times> 'd \<Rightarrow> ('h decode_outcome, 'e) result \<times> 'd" where
  "shift_result c x = (case x of (Ok out, d) \<Rightarrow> (Ok (shift_outcome c out), d) | (Err e, d) \<Rightarrow> (Err e, d))"

lemma shift_result_simps [simp]:
  "shift_result c (Ok out, d) = (Ok (shift_outcome c out), d)"
  "shift_result c (Err e, d) = (Err e, d)"
  by (simp_all add: shift_result_def)

lemma shift_result_fail [simp]: "shift_result c (decoder_fail d e) = decoder_fail d e"
  by (simp add: shift_result_def decoder_fail_def)

lemma decode_trailers_shift:
  "decode_trailers P A d input (c + k) eof s = shift_result c (decode_trailers P A d (drop c input) k eof s)"
  by (auto simp: decode_trailers_def Let_def add.assoc add.commute [of c k]
      split: result.splits prod.splits option.splits)

lemma decode_chunked_shift:
  "c \<le> length input \<Longrightarrow>
     decode_chunked P A d st input eof (c + k) = shift_result c (decode_chunked P A d st (drop c input) eof k)"
proof (induction P A d st "drop c input" eof k rule: decode_chunked.induct)
  case (1 P A d st eof k)
  note unfolded = decode_chunked.simps [of P A d st input eof "c + k"]
    decode_chunked.simps [of P A d st "drop c input" eof k]
  have dk: "drop (c + k) input = drop k (drop c input)" by (simp add: add.commute)
  show ?case
  proof (cases st)
    case (CS_Size s)
    then show ?thesis
      using "1.hyps"(1) [OF CS_Size] "1.prems" unfolding unfolded dk
      by (auto simp: add.assoc split: result.splits prod.splits option.splits)
  next
    case (CS_Data r)
    then show ?thesis
      using "1.prems" unfolding unfolded by (auto simp: Let_def)
  next
    case CS_DataCrlf
    then show ?thesis
      using "1.hyps"(2) [OF CS_DataCrlf refl] "1.prems" unfolding unfolded dk
      by (auto simp: Let_def add.assoc)
  next
    case (CS_Trailers s)
    then show ?thesis
      unfolding unfolded by (simp add: decode_trailers_shift)
  qed
qed

text \<open>The stored state plays no part while the loop runs: every exit overwrites it.\<close>

lemma charge_extensions_dstate:
  "charge_extensions (d\<lparr>dstate := x\<rparr>) line = apsnd (\<lambda>e. e\<lparr>dstate := x\<rparr>) (charge_extensions d line)"
  by (auto simp: charge_extensions_def Let_def split: option.splits)

lemma chunk_line_loop_dstate:
  "chunk_line_loop (d\<lparr>dstate := x\<rparr>) input k = apsnd (\<lambda>e. e\<lparr>dstate := x\<rparr>) (chunk_line_loop d input k)"
proof (induction d input k rule: chunk_line_loop.induct)
  case (1 d input k)
  note unfolded = chunk_line_loop.simps [of "d\<lparr>dstate := x\<rparr>" input k] chunk_line_loop.simps [of d input k]
  show ?case
    using "1.IH" unfolding unfolded charge_extensions_dstate
    by (auto simp: Let_def apsnd_def split: result.splits prod.splits)
qed

lemma parse_chunk_line_dstate:
  "decoder_parse_chunk_line (d\<lparr>dstate := x\<rparr>) input s
     = apsnd (\<lambda>e. e\<lparr>dstate := x\<rparr>) (decoder_parse_chunk_line d input s)"
  by (simp add: decoder_parse_chunk_line_def chunk_line_loop_dstate)

lemma decode_trailers_dstate:
  "decode_trailers P A (d\<lparr>dstate := x\<rparr>) input cursor eof s = decode_trailers P A d input cursor eof s"
proof -
  have "trailer_end (d\<lparr>dstate := x\<rparr>) input' s = trailer_end d input' s" for input'
    by (simp add: trailer_end_def Let_def cong: option.case_cong)
  then show ?thesis
    by (cases "trailer_end d (drop cursor input) s"; cases "trailer_workspace d")
      (auto simp: decode_trailers_def Let_def decoder_fail_def
        split: option.split prod.split result.split)
qed

lemma decode_chunked_dstate:
  "decode_chunked P A (d\<lparr>dstate := x\<rparr>) st input eof cursor = decode_chunked P A d st input eof cursor"
proof (induction P A d st input eof cursor rule: decode_chunked.induct)
  case (1 P A d st input eof cursor)
  note unfolded = decode_chunked.simps [of P A "d\<lparr>dstate := x\<rparr>" st input eof cursor]
    decode_chunked.simps [of P A d st input eof cursor]
  show ?case
  proof (cases st)
    case (CS_Size s)
    then show ?thesis
      using "1.IH"(1) [OF CS_Size] unfolding unfolded parse_chunk_line_dstate
      by (auto simp: decoder_fail_def apsnd_def split: result.splits prod.splits option.splits)
  next
    case (CS_Data r)
    then show ?thesis unfolding unfolded by (simp add: Let_def decoder_fail_def)
  next
    case CS_DataCrlf
    then show ?thesis
      using "1.IH"(2) [OF CS_DataCrlf refl] unfolding unfolded by (auto simp: Let_def decoder_fail_def)
  next
    case (CS_Trailers s)
    then show ?thesis unfolding unfolded by (simp add: decode_trailers_dstate)
  qed
qed

text \<open>A complete chunk-size line is complete whatever follows it.\<close>

lemma chunk_line_loop_append:
  "chunk_line_loop d input k = (Ok (Some x, s), d') \<Longrightarrow>
     chunk_line_loop d (input @ extra) k = (Ok (Some x, s), d')"
proof (induction d input k rule: chunk_line_loop.induct)
  case (1 d input k)
  note unfolded = "1.prems" [unfolded chunk_line_loop.simps [of d input k]]
  show ?case
    using unfolded "1.IH"
    unfolding chunk_line_loop.simps [of d "input @ extra" k]
    by (auto simp: Let_def nth_append split: if_splits result.splits prod.splits)
qed

lemma parse_chunk_line_append:
  "decoder_parse_chunk_line d input s = (Ok (Some x, n), d') \<Longrightarrow> s \<le> length input \<Longrightarrow>
     decoder_parse_chunk_line d (input @ extra) s = (Ok (Some x, n), d')"
  by (simp add: decoder_parse_chunk_line_def chunk_line_loop_append)

text \<open>A scan position that the retained input justifies.\<close>

fun scan_ok :: "chunk_state \<Rightarrow> bytes \<Rightarrow> bool" where
  "scan_ok (CS_Size s) buf \<longleftrightarrow> s \<le> length buf \<and> line_open buf s"
| "scan_ok (CS_Trailers s) buf \<longleftrightarrow> s \<le> length buf \<and> block_open buf s"
| "scan_ok _ buf \<longleftrightarrow> True"

definition resumable :: "body_decoder \<Rightarrow> bytes \<Rightarrow> bool" where
  "resumable d buf \<longleftrightarrow> (\<forall>st. dstate d = DS_Chunked st \<longrightarrow> scan_ok st buf)"

lemma line_open_0 [simp]: "line_open buf 0"
  by (simp add: line_open_def)

lemma scan_ok_append: "scan_ok st buf \<Longrightarrow> scan_ok st (buf @ extra)"
  by (cases st) (auto simp: line_open_def nth_append block_open_append)

lemma decode_chunked_need_more:
  "decode_chunked P A d st input False cursor = (Ok (NeedMore c), d') \<Longrightarrow> cursor \<le> length input \<Longrightarrow>
     scan_ok st (drop cursor input) \<Longrightarrow>
     \<exists>st'. dstate d' = DS_Chunked st' \<and> cursor \<le> c \<and> c \<le> length input \<and> scan_ok st' (drop c input)
       \<and> decode_chunked P A d st (input @ extra) eof cursor
           = decode_chunked P A d' st' (input @ extra) eof c"
proof (induction P A d st input False cursor rule: decode_chunked.induct)
  case (1 P A d st input cursor)
  note unfolded = "1.prems"(1) [unfolded decode_chunked.simps [of P A d st input False cursor]]
  have app: "drop cursor (input @ extra) = drop cursor input @ extra" using "1.prems"(2) by simp
  show ?case
  proof (cases st)
    case (CS_Size s)
    obtain p d1 where p: "decoder_parse_chunk_line d (drop cursor input) s = (p, d1)" by fastforce
    show ?thesis
    proof (cases "\<exists>sz k n. p = Ok (Some (sz, k), n)")
      case True
      then obtain sz k n where pc: "p = Ok (Some (sz, k), n)" by blast
      let ?st = "if sz = 0 then CS_Trailers 0 else CS_Data sz"
      have k: "cursor + k \<le> length input"
        using p pc "1.prems"(2) by (auto dest: decoder_parse_chunk_line_consumed)
      have full: "decode_chunked P A d st (input @ extra) eof cursor
          = decode_chunked P A d1 ?st (input @ extra) eof (cursor + k)"
        using parse_chunk_line_append [OF p [unfolded pc], of extra] "1.prems"(2,3) CS_Size
        by (simp add: decode_chunked.simps [of P A d _ "input @ extra" eof cursor] app)
      have "decode_chunked P A d1 ?st input False (cursor + k) = (Ok (NeedMore c), d')"
        using unfolded CS_Size p pc by simp
      moreover have "scan_ok ?st (drop (cursor + k) input)" by simp
      ultimately obtain st' where "dstate d' = DS_Chunked st'" "cursor + k \<le> c" "c \<le> length input"
          "scan_ok st' (drop c input)"
          "decode_chunked P A d1 ?st (input @ extra) eof (cursor + k)
            = decode_chunked P A d' st' (input @ extra) eof c"
        using "1.hyps"(1) [OF CS_Size p [symmetric] pc refl refl refl] k by blast
      with full show ?thesis by auto
    next
      case False
      with unfolded CS_Size p obtain n where n: "p = Ok (None, n)" and c: "c = cursor"
        and d': "d' = d1\<lparr>dstate := DS_Chunked (CS_Size n)\<rparr>"
        by (auto simp: decoder_fail_def split: result.splits prod.splits option.splits if_splits)
      have res: "d1 = d" "n = length (drop cursor input)" "line_open (drop cursor input) n"
          "decoder_parse_chunk_line d (drop cursor input @ extra) n
            = decoder_parse_chunk_line d (drop cursor input @ extra) s"
        using chunk_line_resume_aux [OF p [unfolded n]] "1.prems"(3) CS_Size by auto
      have "decode_chunked P A d st (input @ extra) eof cursor
          = decode_chunked P A d (CS_Size n) (input @ extra) eof cursor"
        using res(4) CS_Size "1.prems"(2)
        by (simp add: decode_chunked.simps [of P A d _ "input @ extra" eof cursor] app)
      then show ?thesis using c d' res "1.prems"(2) by (auto simp: decode_chunked_dstate)
    qed
  next
    case (CS_Data r)
    with unfolded have "c = cursor" "d' = d\<lparr>dstate := DS_Chunked st\<rparr>"
      by (auto simp: Let_def split: if_splits)
    with CS_Data "1.prems" show ?thesis by (auto simp: decode_chunked_dstate)
  next
    case CS_DataCrlf
    show ?thesis
    proof (cases "length (drop cursor input) < 2")
      case True
      with unfolded CS_DataCrlf have "c = cursor" "d' = d\<lparr>dstate := DS_Chunked st\<rparr>"
        by (auto simp: Let_def decoder_fail_def split: if_splits)
      with CS_DataCrlf "1.prems" show ?thesis by (auto simp: decode_chunked_dstate)
    next
      case False
      with unfolded CS_DataCrlf have crlf: "take 2 (drop cursor input) = [CR, LF]"
        and rec: "decode_chunked P A d (CS_Size 0) input False (cursor + 2) = (Ok (NeedMore c), d')"
        by (auto simp: Let_def decoder_fail_def split: if_splits)
      have "\<not> length input + length extra - cursor < 2" using False by simp
      then have "decode_chunked P A d st (input @ extra) eof cursor
          = decode_chunked P A d (CS_Size 0) (input @ extra) eof (cursor + 2)"
        using CS_DataCrlf crlf False "1.prems"(2)
        by (simp add: decode_chunked.simps [of P A d _ "input @ extra" eof cursor] app Let_def)
      moreover have "cursor + 2 \<le> length input" using False by simp
      ultimately show ?thesis
        using "1.hyps"(2) [OF CS_DataCrlf refl False _ rec] crlf by fastforce
    qed
  next
    case (CS_Trailers s)
    with unfolded obtain n where n: "trailer_end d (drop cursor input) s = Ok (None, n)"
      and c: "c = cursor" and d': "d' = d\<lparr>dstate := DS_Chunked (CS_Trailers n)\<rparr>"
      by (auto simp: decode_trailers_def Let_def decoder_fail_def
          split: result.splits prod.splits option.splits if_splits)
    have res: "n = length (drop cursor input)" "block_open (drop cursor input) n"
        "trailer_end d (drop cursor input @ extra) n = trailer_end d (drop cursor input @ extra) s"
      using trailer_end_resume_aux [OF n] "1.prems"(3) CS_Trailers by auto
    have "decode_chunked P A d st (input @ extra) eof cursor
        = decode_chunked P A d (CS_Trailers n) (input @ extra) eof cursor"
      using res(3) CS_Trailers "1.prems"(2)
      by (simp add: decode_chunked.simps [of P A d _ "input @ extra" eof cursor] app decode_trailers_def)
    then show ?thesis using c d' res "1.prems"(2) by (auto simp: decode_chunked_dstate)
  qed
qed

lemma decode_need_more:
  assumes "decode P A d buf False = (Ok (NeedMore c), d')" and "resumable d buf"
  shows "c \<le> length buf \<and> resumable d' (drop c buf @ extra)
     \<and> decode P A d (buf @ extra) eof = shift_result c (decode P A d' (drop c buf @ extra) eof)"
proof (cases "\<exists>st. dstate d = DS_Chunked st")
  case True
  then obtain st where st: "dstate d = DS_Chunked st" by blast
  with assms have "decode_chunked P A d st buf False 0 = (Ok (NeedMore c), d')" "scan_ok st buf"
    by (auto simp: decode_def resumable_def)
  from decode_chunked_need_more [OF this(1), of extra eof] this(2)
  obtain st' where st': "dstate d' = DS_Chunked st'" "c \<le> length buf" "scan_ok st' (drop c buf)"
      "decode_chunked P A d st (buf @ extra) eof 0 = decode_chunked P A d' st' (buf @ extra) eof c"
    by auto
  have "decode P A d (buf @ extra) eof = decode_chunked P A d' st' (buf @ extra) eof (c + 0)"
    using st st' by (simp add: decode_def)
  also have "\<dots> = shift_result c (decode_chunked P A d' st' (drop c buf @ extra) eof 0)"
    using st'(2) by (subst decode_chunked_shift) auto
  finally show ?thesis
    using st' by (auto simp: decode_def resumable_def scan_ok_append)
next
  case False
  then have "c = 0" "d' = d"
    using assms(1)
    by (auto simp: decode_def Let_def decoder_fail_def split: decoder_state.splits if_splits)
  moreover have "shift_result 0 x = x" for x :: "('a decode_outcome, decode_error) result \<times> body_decoder"
  proof -
    have "shift_outcome 0 out = out" for out :: "'a decode_outcome"
      by (induction "0 :: nat" out rule: shift_outcome.induct) auto
    then show ?thesis by (auto simp: shift_result_def split: prod.splits result.splits)
  qed
  ultimately show ?thesis using False by (simp add: resumable_def)
qed

section \<open>Fixed-length bodies\<close>

lemma decode_fixed:
  assumes "dstate d = DS_Fixed r" and "r \<noteq> 0" and "f \<noteq> []"
  shows "decode P A d f eof =
     (Ok (Data (0, min (length f) (unat r)) (min (length f) (unat r))),
      d\<lparr>dstate := DS_Fixed (r - word_of_nat (min (length f) (unat r)))\<rparr>)"
    and "unat (r - word_of_nat (min (length f) (unat r))) = unat r - length f"
proof -
  let ?m = "case u64_try_from (length f) of Some k \<Rightarrow> k | None \<Rightarrow> - 1"
  have b: "unat (min ?m r) = min (length f) (unat r)" and le: "min ?m r \<le> r"
    using count64_bounds(3,4) [of r "length f"] assms by auto
  have w: "word_of_nat (min (length f) (unat r)) = min ?m r"
    by (simp flip: b)
  show "decode P A d f eof =
     (Ok (Data (0, min (length f) (unat r)) (min (length f) (unat r))),
      d\<lparr>dstate := DS_Fixed (r - word_of_nat (min (length f) (unat r)))\<rparr>)"
    using assms b w by (simp add: decode_def Let_def)
  show "unat (r - word_of_nat (min (length f) (unat r))) = unat r - length f"
    using unat_u64_sub [OF le] b w by simp
qed

end
