(* ===== verification/Decode_Stream.thy ===== *)
theory Decode_Stream
  imports Decode_Laws
begin

text \<open>
  The body decoder as its callers use it: they call \<open>decode\<close> again and again, take the
  payload ranges out of the receive buffer, drop what was consumed and append what the
  transport delivers next. \<open>drain\<close> is such a run on one buffer and \<open>feed\<close> a run over a
  sequence of fragments; the locale \<open>stream_decoder\<close> states what a decoder owes such a
  caller and proves once that the boundaries of the fragments cannot be observed. The
  interpretation discharges the laws for \<open>BodyDecoder::decode\<close>.
\<close>

section \<open>More input does not change what was decoded\<close>

text \<open>A call that yields payload or trailers ends in one of two states of the loop.\<close>

lemma decode_chunked_last:
  "decode_chunked P A d st input False cursor = (Ok out, d') \<Longrightarrow> (\<And>c. out \<noteq> NeedMore c) \<Longrightarrow>
     cursor \<le> length input \<Longrightarrow> scan_ok st (drop cursor input) \<Longrightarrow> chunk_state_ok st \<Longrightarrow>
     \<exists>dl stl cl. cl \<le> length input \<and> scan_ok stl (drop cl input) \<and> chunk_state_ok stl
       \<and> ((\<exists>r. stl = CS_Data r) \<or> (\<exists>s. stl = CS_Trailers s))
       \<and> decode_chunked P A dl stl input False cl = (Ok out, d')
       \<and> (\<forall>extra eof. decode_chunked P A d st (input @ extra) eof cursor
                        = decode_chunked P A dl stl (input @ extra) eof cl)"
proof (induction P A d st input False cursor rule: decode_chunked.induct)
  case (1 P A d st input cursor)
  note unfolded = "1.prems"(1) [unfolded decode_chunked.simps [of P A d st input False cursor]]
  have app: "drop cursor (input @ extra) = drop cursor input @ extra" for extra :: bytes
    using "1.prems"(3) by simp
  show ?case
  proof (cases st)
    case (CS_Size s)
    obtain p d1 where p: "decoder_parse_chunk_line d (drop cursor input) s = (p, d1)" by fastforce
    with unfolded CS_Size "1.prems"(2) obtain sz k n where pc: "p = Ok (Some (sz, k), n)"
      by (auto simp: decoder_fail_def split: result.splits prod.splits option.splits if_splits)
    let ?st = "if sz = 0 then CS_Trailers 0 else CS_Data sz"
    have k: "cursor + k \<le> length input"
      using p pc "1.prems"(3) by (auto dest: decoder_parse_chunk_line_consumed)
    have full: "decode_chunked P A d st (input @ extra) eof cursor
        = decode_chunked P A d1 ?st (input @ extra) eof (cursor + k)" for extra eof
      using parse_chunk_line_append [OF p [unfolded pc], of extra] "1.prems"(3,4) CS_Size
      by (simp add: decode_chunked.simps [of P A d _ "input @ extra" eof cursor] app)
    have "decode_chunked P A d1 ?st input False (cursor + k) = (Ok out, d')"
      using unfolded CS_Size p pc by simp
    from "1.hyps"(1) [OF CS_Size p [symmetric] pc refl refl refl this "1.prems"(2) k]
    show ?thesis unfolding full by simp
  next
    case (CS_Data r)
    with "1.prems" show ?thesis by blast
  next
    case CS_DataCrlf
    have len: "\<not> length (drop cursor input) < 2" and crlf: "take 2 (drop cursor input) = [CR, LF]"
      and rec: "decode_chunked P A d (CS_Size 0) input False (cursor + 2) = (Ok out, d')"
      using unfolded CS_DataCrlf "1.prems"(2) by (auto simp: Let_def decoder_fail_def split: if_splits)
    then have le: "cursor + 2 \<le> length input" by simp
    then have "\<not> length input + length extra - cursor < 2" for extra :: bytes by simp
    then have "decode_chunked P A d st (input @ extra) eof cursor
        = decode_chunked P A d (CS_Size 0) (input @ extra) eof (cursor + 2)" for extra eof
      using CS_DataCrlf crlf len "1.prems"(3)
      by (simp add: decode_chunked.simps [of P A d _ "input @ extra" eof cursor] app Let_def)
    then show ?thesis
      using "1.hyps"(2) [OF CS_DataCrlf refl len _ rec "1.prems"(2) le] crlf by simp
  next
    case (CS_Trailers s)
    with "1.prems" show ?thesis by blast
  qed
qed

lemma trailer_end_loop_append:
  "trailer_end_loop input b k = Some n \<Longrightarrow> b \<le> length input \<Longrightarrow> b \<le> b' \<Longrightarrow>
     trailer_end_loop (input @ extra) b' k = Some n"
proof (induction input b k rule: trailer_end_loop.induct)
  case (1 input b k)
  note unfolded = "1.prems"(1) [unfolded trailer_end_loop.simps [of input b k]]
  show ?case
    using unfolded "1.prems"(2,3) "1.IH"
    unfolding trailer_end_loop.simps [of "input @ extra" b' k]
    by (auto simp: nth_append empty_line_at_append split: if_splits)
qed

lemma trailer_end_append:
  assumes "trailer_end d input s = Ok (Some n, m)" and "s \<le> length input"
  shows "trailer_end d (input @ extra) s = Ok (Some n, m) \<and> n \<le> length input"
proof -
  let ?b = "min (length input) (max_trailer_bytes (limits d))"
  let ?b' = "min (length (input @ extra)) (max_trailer_bytes (limits d))"
  have loop: "trailer_end_loop input ?b (min s ?b) = Some n" and m: "m = 0"
    using assms by (auto simp: trailer_end_def Let_def split: option.splits if_splits)
  have "min s ?b = min s ?b'" using assms(2) by auto
  then have "trailer_end_loop (input @ extra) ?b' (min s ?b') = Some n"
    using trailer_end_loop_append [OF loop, of ?b' extra] by simp
  moreover have "trailer_end_loop input b k = Some n \<Longrightarrow> n \<le> b" for b k
    by (induction input b k rule: trailer_end_loop.induct)
      (subst (asm) (2) trailer_end_loop.simps, auto split: if_splits)
  from this [OF loop] have "n \<le> length input" by simp
  ultimately show ?thesis using m assms(2) by (simp add: trailer_end_def Let_def)
qed

lemma decode_trailers_append:
  assumes "decode_trailers P A d input c False s = (Ok out, d')" and "\<And>k. out \<noteq> NeedMore k"
    and "c \<le> length input" and "s \<le> length (drop c input)"
  shows "decode_trailers P A d (input @ extra) c eof s = (Ok out, d') \<and> (\<exists>h k. out = Trailers h k)"
proof -
  obtain n m where n: "trailer_end d (drop c input) s = Ok (Some n, m)"
    using assms(1,2)
    by (auto simp: decode_trailers_def Let_def decoder_fail_def
        split: result.splits prod.splits option.splits if_splits)
  from trailer_end_append [OF this assms(4)] assms(1,3) n show ?thesis
    by (auto simp: decode_trailers_def Let_def decoder_fail_def
        split: result.splits prod.splits option.splits if_splits)
qed

text \<open>The payload step of a chunk, with the byte count written out.\<close>

lemma decode_chunked_data:
  assumes "r \<noteq> 0" and "c < length input"
  defines "m \<equiv> min (length input - c) (unat r)"
  shows "decode_chunked P A d (CS_Data r) input eof c =
     (Ok (Data (c, c + m) (c + m)),
      d\<lparr>dstate := DS_Chunked (if unat r = m then CS_DataCrlf else CS_Data (r - word_of_nat m))\<rparr>)"
    and "unat (r - word_of_nat m) = unat r - m" and "0 < m"
proof -
  let ?w = "min (case u64_try_from (length input - c) of Some n \<Rightarrow> n | None \<Rightarrow> - 1) r"
  have w: "unat ?w = m" using count64_bounds(4) [of r "length input - c"] assms by simp
  then have wm: "?w = word_of_nat m" by (simp flip: w)
  have "?w \<le> r" by simp
  then show sub: "unat (r - word_of_nat m) = unat r - m"
    using w unfolding wm by (subst unat_u64_sub) auto
  have "m \<le> unat r" unfolding m_def by simp
  then have "r - word_of_nat m = 0 \<longleftrightarrow> unat r = m"
    using sub by (auto simp flip: unat_eq_zero)
  then show "decode_chunked P A d (CS_Data r) input eof c =
     (Ok (Data (c, c + m) (c + m)),
      d\<lparr>dstate := DS_Chunked (if unat r = m then CS_DataCrlf else CS_Data (r - word_of_nat m))\<rparr>)"
    using assms(2) w wm by (simp add: decode_chunked.simps [of P A d "CS_Data r" input eof c] Let_def)
  show "0 < m" using assms(1,2) unat_eq_zero [of r] unfolding m_def by auto
qed

text \<open>
  With more input a payload step is the same; or the retained input was used up, and the
  step is the old one followed by the next one; or the end of the stream was already
  known, and the next call reports it either way.
\<close>

type_synonym ('d, 'h, 'e) decode_step =
  "'d \<Rightarrow> bytes \<Rightarrow> bool \<Rightarrow> ('h decode_outcome, 'e) result \<times> 'd"

definition data_extends ::
  "('d, 'h, 'e) decode_step \<Rightarrow> 'd \<Rightarrow> bytes \<Rightarrow> usize \<Rightarrow> usize \<Rightarrow> 'd \<Rightarrow> bytes \<Rightarrow> bool \<Rightarrow> bool" where
  "data_extends step d buf s e d' extra eof \<longleftrightarrow>
     step d (buf @ extra) eof = (Ok (Data (s, e) e), d')
   \<or> (e = length buf \<and> step d' [] False = (Ok (NeedMore 0), d')
      \<and> ((\<exists>m d''. 0 < m \<and> m \<le> length extra \<and> step d' extra eof = (Ok (Data (0, m) m), d'')
              \<and> step d (buf @ extra) eof = (Ok (Data (s, e + m) (e + m)), d''))
        \<or> (extra = [] \<and> (\<exists>d'' d3. step d buf eof = (Ok (Data (s, e) e), d'')
              \<and> step d' [] eof = (Ok (End 0), d3) \<and> step d'' [] eof = (Ok (End 0), d3)))))"

lemma decode_chunked_data_append:
  assumes "r \<noteq> 0" and "c < length buf"
    and "decode_chunked P A d (CS_Data r) buf False c = (Ok (Data (s, e) k), d')"
  shows "s = c \<and> k = e \<and> resumable d' (drop k buf @ extra)
     \<and> (decode_chunked P A d (CS_Data r) (buf @ extra) eof c = (Ok (Data (s, e) e), d')
      \<or> (e = length buf \<and> decode P A d' [] False = (Ok (NeedMore 0), d')
         \<and> (\<exists>m d''. 0 < m \<and> m \<le> length extra \<and> decode P A d' extra eof = (Ok (Data (0, m) m), d'')
              \<and> decode_chunked P A d (CS_Data r) (buf @ extra) eof c = (Ok (Data (s, e + m) (e + m)), d''))))"
proof -
  let ?m = "min (length buf - c) (unat r)"
  have eq: "s = c" "e = c + ?m" "k = e"
    and d': "d' = d\<lparr>dstate := DS_Chunked (if unat r = ?m then CS_DataCrlf else CS_Data (r - word_of_nat ?m))\<rparr>"
    using assms(3) by (auto simp: decode_chunked_data(1) [OF assms(1,2)])
  have res: "resumable d' (drop k buf @ extra)" by (simp add: d' resumable_def)
  have c': "c < length (buf @ extra)" using assms(2) by simp
  note full = decode_chunked_data(1) [OF assms(1) c', of P A d eof]
  show ?thesis
  proof (cases "unat r \<le> length buf - c \<or> extra = []")
    case True
    then have "min (length (buf @ extra) - c) (unat r) = ?m" using assms(2) by auto
    then show ?thesis using full eq d' res by simp
  next
    case False
    define m where "m = length buf - c"
    then have m: "?m = m" and e: "e = length buf" using False eq(2) assms(2) by auto
    define r' where "r' = r - word_of_nat m"
    have r': "unat r' = unat r - m"
      using decode_chunked_data(2) [OF assms(1,2)] m by (simp add: r'_def)
    have mr: "m < unat r" using False by (simp add: m_def)
    then have r'0: "r' \<noteq> 0" using r' by (auto simp flip: unat_eq_zero)
    define n where "n = min (length extra) (unat r')"
    define fin where "fin = d\<lparr>dstate := DS_Chunked (if unat r' = n then CS_DataCrlf else CS_Data (r' - word_of_nat n))\<rparr>"
    have st': "d' = d\<lparr>dstate := DS_Chunked (CS_Data r')\<rparr>"
      using d' mr unfolding m r'_def by simp
    have one: "decode P A d' extra eof = (Ok (Data (0, n) n), fin)"
      using decode_chunked_data(1) [OF r'0, of 0 extra P A d' eof] False st'
      by (simp add: decode_def n_def fin_def)
    have mn: "min (length (buf @ extra) - c) (unat r) = m + n"
      unfolding n_def r' using mr assms(2) by (simp add: m_def)
    have "unat r = m + n \<longleftrightarrow> unat r' = n" unfolding r' using mr by linarith
    then have two: "decode_chunked P A d (CS_Data r) (buf @ extra) eof c
        = (Ok (Data (c, length buf + n) (length buf + n)), fin)"
      using full assms(2) unfolding mn by (simp add: fin_def r'_def m_def)
    have "0 < n" "n \<le> length extra" using False r'0 by (auto simp: n_def unat_gt_0)
    moreover have "decode P A d' [] False = (Ok (NeedMore 0), d')"
      by (simp add: st' decode_def decode_chunked.simps [of _ _ _ _ "[]"])
    ultimately show ?thesis
      using one two eq(1,3) e res by auto
  qed
qed

lemma decode_chunked_trailers:
  "decode_chunked P A d (CS_Trailers s) input eof c = decode_trailers P A d input c eof s"
  by (simp add: decode_chunked.simps [of P A d "CS_Trailers s" input eof c])

lemma decode_trailers_outcome:
  assumes "decode_trailers P A d input c eof s = (Ok out, d')"
  shows "(\<exists>k. out = NeedMore k) \<or> (\<exists>h k. out = Trailers h k)"
  using assms
  by (auto simp: decode_trailers_def Let_def decoder_fail_def
      split: result.splits prod.splits option.splits if_splits)

lemma decode_chunked_data_outcome:
  assumes "decode_chunked P A d (CS_Data r) input eof c = (Ok out, d')"
  shows "if c = length input then out = NeedMore c else \<exists>s e k. out = Data (s, e) k"
  using assms
  by (auto simp: decode_chunked.simps [of P A d "CS_Data r" input eof c] Let_def decoder_fail_def
      split: if_splits)

lemma decode_last:
  assumes "dstate d = DS_Chunked st" and "decode P A d buf False = (Ok out, d')"
    and "resumable d buf" and "decoder_inv d" and "\<And>c. out \<noteq> NeedMore c"
  obtains dl stl cl where "cl \<le> length buf" and "scan_ok stl (drop cl buf)" and "chunk_state_ok stl"
    and "(\<exists>r. stl = CS_Data r) \<or> (\<exists>s. stl = CS_Trailers s)"
    and "decode_chunked P A dl stl buf False cl = (Ok out, d')"
    and "\<And>extra eof. decode P A d (buf @ extra) eof = decode_chunked P A dl stl (buf @ extra) eof cl"
proof -
  have run: "decode_chunked P A d st buf False 0 = (Ok out, d')" and ok: "scan_ok st (drop 0 buf)" "chunk_state_ok st"
    using assms by (auto simp: decode_def resumable_def decoder_inv_def)
  have "decode P A d b eof = decode_chunked P A d st b eof 0" for b eof
    using assms(1) by (simp add: decode_def)
  with decode_chunked_last [OF run assms(5) le0 ok] that show thesis by metis
qed

lemma decode_data_append:
  assumes "decode P A d buf False = (Ok (Data (s, e) k), d')" and "resumable d buf" and "decoder_inv d"
  shows "k = e \<and> resumable d' (drop k buf @ extra) \<and> data_extends (decode P A) d buf s e d' extra eof"
proof (cases "dstate d")
  case (DS_Chunked st)
  have more: "\<And>c. Data (s, e) k \<noteq> NeedMore c" by simp
  obtain dl stl cl where
    last: "cl \<le> length buf" "scan_ok stl (drop cl buf)" "chunk_state_ok stl" "(\<exists>r. stl = CS_Data r) \<or> (\<exists>s. stl = CS_Trailers s)"
      "decode_chunked P A dl stl buf False cl = (Ok (Data (s, e) k), d')"
      "\<And>extra eof. decode P A d (buf @ extra) eof = decode_chunked P A dl stl (buf @ extra) eof cl"
    by (rule decode_last [OF DS_Chunked assms(1-3) more]) (rule that)
  from last(4) obtain r where r: "stl = CS_Data r" "r \<noteq> 0" "cl < length buf"
    using last(1,3,5)
    by (auto simp: decode_chunked_trailers split: if_splits
        dest!: decode_trailers_outcome decode_chunked_data_outcome)
  from decode_chunked_data_append [OF r(2,3) last(5) [unfolded r(1)], of extra eof] last(6) [of extra eof]
  show ?thesis by (auto simp: data_extends_def r(1))
next
  case (DS_Fixed r)
  have r: "r \<noteq> 0" "buf \<noteq> []"
    using assms(1) DS_Fixed by (auto simp: decode_def decoder_fail_def split: if_splits)
  let ?m = "min (length buf) (unat r)" and ?r = "r - word_of_nat (min (length buf) (unat r))"
  have eq: "s = 0" "e = ?m" "k = e" "d' = d\<lparr>dstate := DS_Fixed ?r\<rparr>"
    using assms(1) decode_fixed(1) [OF DS_Fixed r, of P A False] by auto
  have r': "unat ?r = unat r - length buf" using decode_fixed(2) [OF DS_Fixed r] .
  have res: "resumable d' (drop k buf @ extra)" by (simp add: eq(4) resumable_def)
  show ?thesis
  proof (cases "unat r \<le> length buf \<or> extra = []")
    case True
    then have "min (length (buf @ extra)) (unat r) = ?m" by auto
    then show ?thesis
      using decode_fixed(1) [OF DS_Fixed r(1), of "buf @ extra" P A eof] r(2) eq res by (simp add: data_extends_def)
  next
    case False
    then have r'0: "?r \<noteq> 0" using r' by (auto simp flip: unat_eq_zero)
    have m: "?m = length buf" using False by simp
    let ?n = "min (length extra) (unat r - length buf)"
    have mn: "min (length (buf @ extra)) (unat r) = length buf + ?n" using False by auto
    have "decode P A d' extra eof = (Ok (Data (0, ?n) ?n), d\<lparr>dstate := DS_Fixed (?r - word_of_nat ?n)\<rparr>)"
      using decode_fixed(1) [of d' ?r extra P A eof] r'0 False eq(4) r' by simp
    moreover have "decode P A d (buf @ extra) eof = (Ok (Data (0, length buf + ?n) (length buf + ?n)),
        d\<lparr>dstate := DS_Fixed (?r - word_of_nat ?n)\<rparr>)"
      using decode_fixed(1) [OF DS_Fixed r(1), of "buf @ extra" P A eof] r(2) mn m by simp
    moreover have "decode P A d' [] False = (Ok (NeedMore 0), d')" using r'0 eq(4) by (simp add: decode_def)
    moreover have "0 < ?n" "?n \<le> length extra" using False by auto
    ultimately show ?thesis using eq m res by (auto simp: data_extends_def)
  qed
next
  case DS_UntilEof
  then have eq: "s = 0" "e = length buf" "k = e" "d' = d" "buf \<noteq> []"
    using assms(1) by (auto simp: decode_def decoder_fail_def split: if_splits)
  then show ?thesis
    using DS_UntilEof by (cases "extra = []") (auto simp: data_extends_def decode_def resumable_def)
qed (use assms(1) in \<open>auto simp: decode_def decoder_fail_def\<close>)

lemma decode_stop_append:
  assumes "decode P A d buf False = (Ok out, d')" and "resumable d buf" and "decoder_inv d"
    and "(\<exists>h k. out = Trailers h k) \<or> (\<exists>k. out = End k)"
  shows "decode P A d (buf @ extra) eof = (Ok out, d')"
proof (cases "dstate d")
  case (DS_Chunked st)
  have more: "\<And>c. out \<noteq> NeedMore c" using assms(4) by auto
  obtain dl stl cl where
    last: "cl \<le> length buf" "scan_ok stl (drop cl buf)" "chunk_state_ok stl" "(\<exists>r. stl = CS_Data r) \<or> (\<exists>s. stl = CS_Trailers s)"
      "decode_chunked P A dl stl buf False cl = (Ok out, d')"
      "\<And>extra eof. decode P A d (buf @ extra) eof = decode_chunked P A dl stl (buf @ extra) eof cl"
    by (rule decode_last [OF DS_Chunked assms(1-3) more]) (rule that)
  from last(4) obtain s where s: "stl = CS_Trailers s"
    using last(5) assms(4) by (auto split: if_splits dest!: decode_chunked_data_outcome)
  have "decode_trailers P A dl (buf @ extra) cl eof s = (Ok out, d')"
    using decode_trailers_append [of P A dl buf cl s out d' extra eof] last(1,2,5) s assms(4)
    by (auto simp: decode_chunked_trailers)
  then show ?thesis by (simp only: last(6) s decode_chunked_trailers)
qed (use assms(1,4) in \<open>auto simp: decode_def decoder_fail_def Let_def split: if_splits\<close>)

text \<open>An error stays an error when more input arrives, though not always the same one.\<close>

lemma chunk_line_loop_over:
  assumes "max_chunk_line_bytes (limits d) \<le> k" and "max_chunk_line_bytes (limits d) < length input"
  shows "\<exists>e. fst (chunk_line_loop d input k) = Err e"
  using assms
proof (induction d input k rule: chunk_line_loop.induct)
  case (1 d input k)
  show ?case
  proof (cases "k < length input \<and> input ! k \<noteq> LF \<and> \<not> (0 < k \<and> input ! (k - 1) = CR)")
    case True
    then have "chunk_line_loop d input k = chunk_line_loop d input (Suc k)"
      by (auto simp: chunk_line_loop.simps [of d input k])
    then show ?thesis using "1.IH" True "1.prems" by auto
  next
    case False
    then show ?thesis using "1.prems" by (auto simp: chunk_line_loop.simps [of d input k] Let_def)
  qed
qed

lemma chunk_line_loop_err_append:
  "chunk_line_loop d input k = (Err e, d') \<Longrightarrow> k \<le> length input \<Longrightarrow>
     \<exists>e'. fst (chunk_line_loop d (input @ extra) k) = Err e'"
proof (induction d input k rule: chunk_line_loop.induct)
  case (1 d input k)
  note unfolded = "1.prems"(1) [unfolded chunk_line_loop.simps [of d input k]]
  show ?case
  proof (cases "k < length input")
    case True
    then have prev: "(input @ extra) ! k = input ! k" "0 < k \<Longrightarrow> (input @ extra) ! (k - 1) = input ! (k - 1)"
      by (auto simp: nth_append)
    show ?thesis
    proof (cases "input ! k \<noteq> LF \<and> \<not> (0 < k \<and> input ! (k - 1) = CR)")
      case True
      with \<open>k < length input\<close> prev unfolded have
        "chunk_line_loop d input (Suc k) = (Err e, d')"
        "chunk_line_loop d (input @ extra) k = chunk_line_loop d (input @ extra) (Suc k)"
        by (auto simp: chunk_line_loop.simps [of d "input @ extra" k])
      with "1.IH" \<open>k < length input\<close> True show ?thesis by auto
    next
      case False
      have "take (k - 1) (input @ extra) = take (k - 1) input" using \<open>k < length input\<close> by simp
      with \<open>k < length input\<close> False prev unfolded show ?thesis
        unfolding chunk_line_loop.simps [of d "input @ extra" k]
        by (cases "k = 0") (auto simp: Let_def split: if_splits result.splits prod.splits)
    qed
  next
    case False
    with "1.prems" unfolded have "max_chunk_line_bytes (limits d) < length input" "k = length input"
      by (auto split: if_splits)
    then show ?thesis using chunk_line_loop_over [of d k "input @ extra"] by simp
  qed
qed

lemma trailer_end_err_append:
  assumes "trailer_end d input s = Err e" and "s \<le> length input"
  shows "trailer_end d (input @ extra) s = Err e"
proof -
  let ?m = "max_trailer_bytes (limits d)"
  have over: "?m < length input" and loop: "trailer_end_loop input ?m (min s ?m) = None"
    using assms by (auto simp: trailer_end_def Let_def split: option.splits if_splits)
  have same: "trailer_end_loop (input @ extra) b k = trailer_end_loop input b k" if "b \<le> length input" for b k
    using that
  proof (induction input b k rule: trailer_end_loop.induct)
    case (1 input b k)
    then show ?case
      by (auto simp: trailer_end_loop.simps [of "input @ extra" b k] trailer_end_loop.simps [of input b k]
          nth_append empty_line_at_append)
  qed
  show ?thesis
    using assms over loop same [of ?m "min s ?m"] by (simp add: trailer_end_def Let_def split: if_splits)
qed

lemma decode_trailers_err_append:
  assumes "decode_trailers P A d input c False s = (Err e, d')"
    and "c \<le> length input" and "s \<le> length (drop c input)"
  shows "\<exists>e'. fst (decode_trailers P A d (input @ extra) c eof s) = Err e'"
proof (cases "trailer_end d (drop c input) s")
  case (Err e1)
  from trailer_end_err_append [OF this assms(3), of extra] assms(2) show ?thesis
    by (simp add: decode_trailers_def decoder_fail_def)
next
  case (Ok x)
  then obtain n m where n: "trailer_end d (drop c input) s = Ok (Some n, m)"
    using assms(1) by (cases x) (auto simp: decode_trailers_def Let_def split: option.splits)
  from trailer_end_append [OF n assms(3), of extra] assms n show ?thesis
    by (auto simp: decode_trailers_def Let_def decoder_fail_def
        split: result.splits prod.splits option.splits)
qed

lemma decode_chunked_err_append:
  "decode_chunked P A d st input False cursor = (Err e, d') \<Longrightarrow> cursor \<le> length input \<Longrightarrow>
     scan_ok st (drop cursor input) \<Longrightarrow>
     \<exists>e'. fst (decode_chunked P A d st (input @ extra) eof cursor) = Err e'"
proof (induction P A d st input False cursor rule: decode_chunked.induct)
  case (1 P A d st input cursor)
  note unfolded = "1.prems"(1) [unfolded decode_chunked.simps [of P A d st input False cursor]]
  have app: "drop cursor (input @ extra) = drop cursor input @ extra" using "1.prems"(2) by simp
  show ?case
  proof (cases st)
    case (CS_Size s)
    obtain p d1 where p: "decoder_parse_chunk_line d (drop cursor input) s = (p, d1)" by fastforce
    have s: "s \<le> length (drop cursor input)" using "1.prems"(3) CS_Size by simp
    show ?thesis
    proof (cases p)
      case (Err e1)
      with p s chunk_line_loop_err_append [of d "drop cursor input" s e1 d1 extra]
      obtain e2 where "fst (decoder_parse_chunk_line d (drop cursor input @ extra) s) = Err e2"
        by (auto simp: decoder_parse_chunk_line_def)
      then show ?thesis
        using "1.prems"(2)
        by (cases "decoder_parse_chunk_line d (drop cursor input @ extra) s")
          (simp add: CS_Size decode_chunked.simps [of P A d _ "input @ extra" eof cursor] app decoder_fail_def)
    next
      case (Ok x)
      with unfolded CS_Size p obtain sz k n where pc: "p = Ok (Some (sz, k), n)"
        by (cases x) (auto split: option.splits prod.splits)
      have k: "cursor + k \<le> length input"
        using p pc "1.prems"(2) by (auto dest: decoder_parse_chunk_line_consumed)
      let ?st = "if sz = 0 then CS_Trailers 0 else CS_Data sz"
      have "decode_chunked P A d st (input @ extra) eof cursor
          = decode_chunked P A d1 ?st (input @ extra) eof (cursor + k)"
        using parse_chunk_line_append [OF p [unfolded pc], of extra] s CS_Size "1.prems"(2)
        by (simp add: decode_chunked.simps [of P A d _ "input @ extra" eof cursor] app)
      moreover have "decode_chunked P A d1 ?st input False (cursor + k) = (Err e, d')"
        using unfolded CS_Size p pc by simp
      ultimately show ?thesis
        using "1.hyps"(1) [OF CS_Size p [symmetric] pc refl refl refl] k by simp
    qed
  next
    case (CS_Data r)
    with unfolded show ?thesis by (auto simp: Let_def split: if_splits)
  next
    case CS_DataCrlf
    show ?thesis
    proof (cases "length (drop cursor input) < 2")
      case True
      with unfolded CS_DataCrlf obtain b where "drop cursor input = [b]" "b \<noteq> CR"
        by (cases "drop cursor input") (auto simp: Let_def split: if_splits)
      then have "drop cursor (input @ extra) = b # extra" using app by simp
      then show ?thesis
        unfolding CS_DataCrlf decode_chunked.simps [of P A d CS_DataCrlf "input @ extra" eof cursor]
        using \<open>b \<noteq> CR\<close>
        by (cases extra) (simp_all add: Let_def decoder_fail_def del: drop_append)
    next
      case False
      then have more: "\<not> length input + length extra - cursor < 2" by simp
      show ?thesis
      proof (cases "take 2 (drop cursor input) = [CR, LF]")
        case True
        then have rec: "decode_chunked P A d (CS_Size 0) input False (cursor + 2) = (Err e, d')"
          using unfolded CS_DataCrlf False by (simp add: Let_def)
        have "decode_chunked P A d st (input @ extra) eof cursor
            = decode_chunked P A d (CS_Size 0) (input @ extra) eof (cursor + 2)"
          using CS_DataCrlf True False more "1.prems"(2)
          by (simp add: decode_chunked.simps [of P A d _ "input @ extra" eof cursor] app Let_def)
        moreover have "cursor + 2 \<le> length input" using False by simp
        ultimately show ?thesis
          using "1.hyps"(2) [OF CS_DataCrlf refl False _ rec] True by simp
      next
        case bad: False
        then show ?thesis
          using CS_DataCrlf False more "1.prems"(2)
          by (simp add: decode_chunked.simps [of P A d _ "input @ extra" eof cursor] app Let_def decoder_fail_def)
      qed
    qed
  next
    case (CS_Trailers s)
    with "1.prems" decode_trailers_err_append [of P A d input cursor s e d' extra eof] show ?thesis
      by (simp add: decode_chunked_trailers)
  qed
qed

lemma decode_err_append:
  assumes "decode P A d buf False = (Err e, d')" and "resumable d buf"
  shows "\<exists>e'. fst (decode P A d (buf @ extra) eof) = Err e'"
proof (cases "dstate d")
  case (DS_Chunked st)
  with assms have "decode_chunked P A d st buf False 0 = (Err e, d')" "scan_ok st (drop 0 buf)"
    by (auto simp: decode_def resumable_def)
  from decode_chunked_err_append [OF this(1) le0 this(2), of extra eof] DS_Chunked show ?thesis
    by (simp add: decode_def)
qed (use assms(1) in \<open>auto simp: decode_def Let_def decoder_fail_def split: if_splits\<close>)

section \<open>Draining a buffer and feeding fragments\<close>

text \<open>
  What a run ends with: more input is needed, the body is over (with its trailers, if the
  section was read), or the decoder failed. \<open>Stalled\<close> stands for a payload step that makes
  no progress; \<open>drain_progress\<close> shows that it does not occur.
\<close>

datatype ('h, 'e) run_end = More | Ended "'h option" | Failed 'e | Stalled

function drain ::
  "('d, 'h, 'e) decode_step \<Rightarrow> 'd \<Rightarrow> bytes \<Rightarrow> bool \<Rightarrow> bytes \<times> ('h, 'e) run_end \<times> 'd \<times> bytes" where
  "drain step d buf eof =
     (case step d buf eof of
        (Ok (Data (s, e) k), d') \<Rightarrow>
          if 0 < k \<and> k \<le> length buf then
            (let (payload, st, d2, left) = drain step d' (drop k buf) eof
             in (take (e - s) (drop s buf) @ payload, st, d2, left))
          else ([], Stalled, d', buf)
      | (Ok (NeedMore k), d') \<Rightarrow> ([], More, d', drop k buf)
      | (Ok (Trailers h k), d') \<Rightarrow> ([], Ended (Some h), d', drop k buf)
      | (Ok (End k), d') \<Rightarrow> ([], Ended None, d', drop k buf)
      | (Err e, d') \<Rightarrow> ([], Failed e, d', []))"
  by pat_completeness auto
termination
  by (relation "measure (\<lambda>(step, d, buf, eof). length buf)") auto

declare drain.simps [simp del]

text \<open>Prefix a run with payload that was already taken.\<close>

definition with_payload :: "bytes \<Rightarrow> bytes \<times> 'r \<Rightarrow> bytes \<times> 'r" where
  "with_payload p x = (case x of (q, r) \<Rightarrow> (p @ q, r))"

lemma with_payload_simps [simp]:
  "with_payload p (q, r) = (p @ q, r)" "with_payload [] x = x"
  "with_payload p (with_payload q x) = with_payload (p @ q) x"
  by (simp_all add: with_payload_def case_prod_beta)

lemma drain_data:
  "step d buf eof = (Ok (Data (s, e) k), d') \<Longrightarrow> 0 < k \<Longrightarrow> k \<le> length buf \<Longrightarrow>
     drain step d buf eof = with_payload (take (e - s) (drop s buf)) (drain step d' (drop k buf) eof)"
  by (simp add: drain.simps [of step d buf eof] with_payload_def case_prod_beta)

fun feed ::
  "('d, 'h, 'e) decode_step \<Rightarrow> 'd \<Rightarrow> bytes \<Rightarrow> bytes list \<Rightarrow> bool \<Rightarrow> bytes \<times> ('h, 'e) run_end \<times> 'd \<times> bytes" where
  "feed step d buf [] eof = drain step d buf eof"
| "feed step d buf (f # fs) eof =
     (case drain step d buf False of
        (payload, More, d', left) \<Rightarrow> with_payload payload (feed step d' (left @ f) fs eof)
      | (payload, st, d', left) \<Rightarrow> (payload, st, d', left @ concat (f # fs)))"

text \<open>Two runs agree when they are equal or both fail.\<close>

definition same_run :: "'b \<times> ('h, 'x) run_end \<times> 'c \<Rightarrow> 'b \<times> ('h, 'x) run_end \<times> 'c \<Rightarrow> bool" where
  "same_run x y \<longleftrightarrow> x = y \<or> (\<exists>e e'. fst (snd x) = Failed e \<and> fst (snd y) = Failed e')"

locale stream_decoder =
  fixes step :: "('d, 'h, 'e) decode_step" and ok :: "'d \<Rightarrow> bytes \<Rightarrow> bool"
  assumes data_within: "step d buf eof = (Ok (Data (s, e) k), d') \<Longrightarrow> ok d buf \<Longrightarrow>
      s < e \<and> k = e \<and> e \<le> length buf \<and> ok d' (drop k buf)"
    and data_more: "step d buf False = (Ok (Data (s, e) k), d') \<Longrightarrow> ok d buf \<Longrightarrow>
      data_extends step d buf s e d' extra eof"
    and need_more: "step d buf False = (Ok (NeedMore c), d') \<Longrightarrow> ok d buf \<Longrightarrow>
      c \<le> length buf \<and> ok d' (drop c buf @ extra)
      \<and> step d (buf @ extra) eof = shift_result c (step d' (drop c buf @ extra) eof)"
    and trailers_stop: "step d buf False = (Ok (Trailers h k), d') \<Longrightarrow> ok d buf \<Longrightarrow>
      k \<le> length buf \<and> step d (buf @ extra) eof = (Ok (Trailers h k), d')"
    and end_stop: "step d buf False = (Ok (End k), d') \<Longrightarrow> ok d buf \<Longrightarrow>
      k \<le> length buf \<and> step d (buf @ extra) eof = (Ok (End k), d')"
    and err_more: "step d buf False = (Err x, d') \<Longrightarrow> ok d buf \<Longrightarrow>
      \<exists>y. fst (step d (buf @ extra) eof) = Err y"
begin

text \<open>A step that is another decoder's step on a suffix of the buffer runs as that decoder does.\<close>

lemma drain_suffix:
  assumes c: "c \<le> length buf" and ok: "ok d' (drop c buf)"
    and eq: "step d buf eof = shift_result c (step d' (drop c buf) eof)"
  shows "drain step d buf eof = drain step d' (drop c buf) eof"
proof -
  define b where "b = drop c buf"
  obtain r d2 where r: "step d' b eof = (r, d2)" by fastforce
  have drop_b: "drop (c + n) buf = drop n b" for n by (simp add: b_def add.commute)
  show ?thesis
  proof (cases "\<exists>s e k. r = Ok (Data (s, e) k)")
    case True
    then obtain s e k where se: "r = Ok (Data (s, e) k)" by blast
    have k: "0 < k" "k \<le> length b"
      using data_within [of d' b eof s e k d2] r ok se by (auto simp: b_def)
    have step_d: "step d buf eof = (Ok (Data (c + s, c + e) (c + k)), d2)"
      using eq r se by (simp add: b_def)
    have "c + k \<le> length buf" using k(2) c by (simp add: b_def)
    then have "drain step d buf eof =
        with_payload (take (c + e - (c + s)) (drop s b)) (drain step d2 (drop k b) eof)"
      using drain_data [of step, OF step_d] k(1) unfolding drop_b by simp
    also have "\<dots> = drain step d' b eof"
      using drain_data [of step d' b eof s e k d2] k r se by simp
    finally show ?thesis by (simp only: b_def)
  next
    case False
    then show ?thesis
      using eq r drop_b unfolding b_def [symmetric]
      by (cases r; cases "case r of Ok x \<Rightarrow> x | Err _ \<Rightarrow> undefined")
        (auto simp: drain.simps [of step d buf eof] drain.simps [of step d' b eof])
  qed
qed

lemma drain_shift:
  assumes "step d buf False = (Ok (NeedMore c), d')" and "ok d buf"
  shows "drain step d (buf @ extra) eof = drain step d' (drop c buf @ extra) eof"
  using need_more [OF assms, of extra eof] drain_suffix [of c "buf @ extra" d' d eof] by simp

lemma drain_append:
  "drain step d buf False = (payload, st, d', left) \<Longrightarrow> ok d buf \<Longrightarrow>
     (st = More \<longrightarrow> ok d' (left @ extra)
        \<and> drain step d (buf @ extra) eof = with_payload payload (drain step d' (left @ extra) eof))
   \<and> (\<forall>t. st = Ended t \<longrightarrow> drain step d (buf @ extra) eof = (payload, st, d', left @ extra))
   \<and> (\<forall>e. st = Failed e \<longrightarrow> (\<exists>p2 e2 d2 l2. drain step d (buf @ extra) eof = (p2, Failed e2, d2, l2)))"
proof (induction "length buf" arbitrary: d buf payload rule: less_induct)
  case less
  obtain r d1 where r: "step d buf False = (r, d1)" by fastforce
  show ?case
  proof (cases "\<exists>s e k. r = Ok (Data (s, e) k)")
    case True
    then obtain s e k where "r = Ok (Data (s, e) k)" by blast
    with r data_within [of d buf False s e k d1] less.prems have
      data: "step d buf False = (Ok (Data (s, e) e), d1)" "s < e" "e \<le> length buf" "ok d1 (drop e buf)"
      by auto
    obtain q where q: "drain step d1 (drop e buf) False = (q, st, d', left)"
      and payload: "payload = take (e - s) (drop s buf) @ q"
      using less.prems(1) drain_data [of step, OF data(1)] data(2,3) by (auto simp: with_payload_def split: prod.splits)
    note IH = less.hyps [OF _ q data(4)]
    have slice: "take (e - s) (drop s (buf @ extra)) = take (e - s) (drop s buf)"
      and rest: "drop e (buf @ extra) = drop e buf @ extra" using data(2,3) by simp_all
    from data_more [OF data(1) less.prems(2), of extra eof] consider
      (same) "step d (buf @ extra) eof = (Ok (Data (s, e) e), d1)"
    | (joined) m d2 where "e = length buf" "step d1 [] False = (Ok (NeedMore 0), d1)" "0 < m" "m \<le> length extra"
        "step d1 extra eof = (Ok (Data (0, m) m), d2)"
        "step d (buf @ extra) eof = (Ok (Data (s, e + m) (e + m)), d2)"
    | (eof) d2 d3 where "e = length buf" "step d1 [] False = (Ok (NeedMore 0), d1)" "extra = []"
        "step d buf eof = (Ok (Data (s, e) e), d2)" "step d1 [] eof = (Ok (End 0), d3)"
        "step d2 [] eof = (Ok (End 0), d3)"
      unfolding data_extends_def by blast
    then show ?thesis
    proof cases
      case same
      then have "drain step d (buf @ extra) eof =
          with_payload (take (e - s) (drop s buf)) (drain step d1 (drop e buf @ extra) eof)"
        using drain_data [of step, OF same] data(2,3) slice rest by simp
      moreover have "length (drop e buf) < length buf" using data(2,3) by simp
      note IH [OF this]
      ultimately show ?thesis unfolding payload by (elim conjE) (cases st; auto)
    next
      case joined
      then have q': "q = []" "st = More" "d' = d1" "left = []"
        using q by (auto simp: drain.simps [of step d1 "[]" False])
      have "ok d1 extra"
        using need_more [OF joined(2), of extra eof] data(4) joined(1) by simp
      moreover have "take (e + m - s) (drop s (buf @ extra)) = take (e - s) (drop s buf) @ take m extra"
      proof -
        have "e + m - s = length (drop s buf) + m" "e - s = length (drop s buf)"
          "drop s (buf @ extra) = drop s buf @ extra" using data(2) joined(1) by auto
        then show ?thesis by (simp only: take_append take_all_iff) simp
      qed
      moreover have "drop (e + m) (buf @ extra) = drop m extra" using joined(1) by simp
      moreover have "drain step d (buf @ extra) eof =
          with_payload (take (e + m - s) (drop s (buf @ extra))) (drain step d2 (drop (e + m) (buf @ extra)) eof)"
        by (rule drain_data [of step, OF joined(6)]) (use joined(1,3,4) in auto)
      moreover have "drain step d1 extra eof = with_payload (take (m - 0) (drop 0 extra)) (drain step d2 (drop m extra) eof)"
        by (rule drain_data [of step, OF joined(5) joined(3,4)])
      ultimately show ?thesis by (simp add: q' payload)
    next
      case eof
      then have q': "q = []" "st = More" "d' = d1" "left = []"
        using q by (auto simp: drain.simps [of step d1 "[]" False])
      have "drain step x [] eof = ([], Ended None, d3, [])" if "x = d1 \<or> x = d2" for x
        using that eof(5,6) by (auto simp: drain.simps [of step _ "[]" eof])
      then show ?thesis
        using drain_data [of step, OF eof(4)] eof(1,3) data payload q' by (cases buf) auto
    qed
  next
    case False
    consider (more) c where "r = Ok (NeedMore c)" | (trailers) h k where "r = Ok (Trailers h k)"
      | (fin) k where "r = Ok (End k)" | (err) e where "r = Err e"
      using False by (metis decode_outcome.exhaust old.prod.exhaust result.exhaust)
    then show ?thesis
    proof cases
      case more
      with less.prems(1) r have "payload = []" "st = More" "d' = d1" "left = drop c buf"
        by (auto simp: drain.simps [of step d buf False])
      then show ?thesis
        using drain_shift [OF r [unfolded more] less.prems(2)] need_more [OF r [unfolded more] less.prems(2)]
        by simp
    next
      case trailers
      with less.prems(1) r trailers_stop [OF r [unfolded trailers] less.prems(2), of extra eof] show ?thesis
        by (auto simp: drain.simps [of step d buf False] drain.simps [of step d "buf @ extra" eof])
    next
      case fin
      with less.prems(1) r end_stop [OF r [unfolded fin] less.prems(2), of extra eof] show ?thesis
        by (auto simp: drain.simps [of step d buf False] drain.simps [of step d "buf @ extra" eof])
    next
      case err
      with less.prems(1) r have st: "st = Failed e" by (auto simp: drain.simps [of step d buf False])
      obtain e' d2 where "step d (buf @ extra) eof = (Err e', d2)"
        using err_more [OF r [unfolded err] less.prems(2), of extra eof] by (metis prod.collapse)
      then show ?thesis using st by (simp add: drain.simps [of step d "buf @ extra" eof])
    qed
  qed
qed

lemma drain_progress:
  "drain step d buf eof = (payload, st, d', left) \<Longrightarrow> ok d buf \<Longrightarrow> st \<noteq> Stalled"
proof (induction "length buf" arbitrary: d buf payload rule: less_induct)
  case less
  obtain r d1 where r: "step d buf eof = (r, d1)" by fastforce
  show ?case
  proof (cases "\<exists>s e k. r = Ok (Data (s, e) k)")
    case True
    then obtain s e k where "r = Ok (Data (s, e) k)" by blast
    with r data_within [of d buf eof s e k d1] less.prems have
      data: "step d buf eof = (Ok (Data (s, e) e), d1)" "s < e" "e \<le> length buf" "ok d1 (drop e buf)"
      by auto
    then show ?thesis
      using less.prems(1) less.hyps [of "drop e buf" d1] drain_data [of step, OF data(1)]
      by (auto simp: with_payload_def split: prod.splits)
  next
    case False
    then show ?thesis
      using less.prems(1) r
      by (auto simp: drain.simps [of step d buf eof] split: result.splits decode_outcome.splits)
  qed
qed

text \<open>A run over fragments is a run over their concatenation; both fail or neither does.\<close>

lemma feed_concat:
  "ok d buf \<Longrightarrow> same_run (feed step d buf fs eof) (drain step d (buf @ concat fs) eof)"
proof (induction fs arbitrary: d buf)
  case Nil
  then show ?case by (simp add: same_run_def)
next
  case (Cons f fs)
  obtain p r d1 l where run: "drain step d buf False = (p, r, d1, l)" by (metis prod_cases4)
  note append = drain_append [OF run Cons.prems]
  show ?case
  proof (cases r)
    case More
    have ok1: "ok d1 (l @ f)"
      and all: "drain step d (buf @ f @ concat fs) eof = with_payload p (drain step d1 (l @ f @ concat fs) eof)"
      using append [of f] append [of "f @ concat fs" eof] More by auto
    have "same_run (with_payload p x) (with_payload p y)" if "same_run x y" for x y :: "bytes \<times> ('h, 'e) run_end \<times> 'd \<times> bytes"
      using that by (auto simp: same_run_def with_payload_def split: prod.splits)
    from this [OF Cons.IH [OF ok1]] show ?thesis using run More by (simp add: all)
  next
    case (Ended t)
    with run append [of "f @ concat fs" eof] show ?thesis by (simp add: same_run_def)
  next
    case (Failed e)
    with run append [of "f @ concat fs" eof] show ?thesis by (auto simp: same_run_def)
  qed (use run drain_progress [OF run Cons.prems] in auto)
qed

end

section \<open>The model's decoder\<close>

text \<open>A decoder whose scan position the retained input justifies, with a parser that keeps its
  documentation.\<close>

definition decoder_ok :: "httparse_api \<Rightarrow> body_decoder \<Rightarrow> bytes \<Rightarrow> bool" where
  "decoder_ok P d buf \<longleftrightarrow> parse_headers_law P \<and> resumable d buf \<and> decoder_inv d"

lemma decode_data_resumable:
  assumes "decode P A d buf eof = (Ok (Data (s, e) k), d')"
  shows "resumable d' b"
proof -
  have "decode_chunked P A d st buf eof c = (Ok (Data (s, e) k), d') \<Longrightarrow> resumable d' b" for st c
  proof (induction P A d st buf eof c rule: decode_chunked.induct)
    case (1 P A d st buf eof c)
    note unfolded = "1.prems" [unfolded decode_chunked.simps [of P A d st buf eof c]]
    show ?case
    proof (cases st)
      case (CS_Size n)
      with unfolded "1.IH"(1) [OF CS_Size] show ?thesis
        by (auto simp: decoder_fail_def split: result.splits prod.splits option.splits if_splits)
    next
      case (CS_Data r)
      with unfolded show ?thesis
        by (auto simp: Let_def decoder_fail_def resumable_def split: if_splits)
    next
      case CS_DataCrlf
      with unfolded "1.IH"(2) [OF CS_DataCrlf refl] show ?thesis
        by (auto simp: Let_def decoder_fail_def split: if_splits)
    next
      case (CS_Trailers n)
      with unfolded show ?thesis using decode_trailers_outcome by fastforce
    qed
  qed
  then show ?thesis
    using assms
    by (auto simp: decode_def Let_def decoder_fail_def resumable_def split: decoder_state.splits if_splits)
qed

lemma decoder_ok_next:
  "decode P A d buf eof = (r, d') \<Longrightarrow> decoder_ok P d buf \<Longrightarrow> resumable d' b \<Longrightarrow> decoder_ok P d' b"
  using decode_inv [of P A d buf eof r d'] by (simp add: decoder_ok_def)

interpretation body: stream_decoder "decode P A" "decoder_ok P" for P A
proof
  fix d buf eof s e k d'
  assume run: "decode P A d buf eof = (Ok (Data (s, e) k), d')" and ok: "decoder_ok P d buf"
  then have "outcome_within 0 (length buf) (Data (s, e) k)"
    using decode_within [OF run] by (simp add: decoder_ok_def)
  then show "s < e \<and> k = e \<and> e \<le> length buf \<and> decoder_ok P d' (drop k buf)"
    using decoder_ok_next [OF run ok decode_data_resumable [OF run]] by simp
next
  fix d buf s e k d' extra eof
  assume run: "decode P A d buf False = (Ok (Data (s, e) k), d')" and ok: "decoder_ok P d buf"
  then show "data_extends (decode P A) d buf s e d' extra eof"
    using decode_data_append [OF run] by (simp add: decoder_ok_def)
next
  fix d buf c d' extra eof
  assume run: "decode P A d buf False = (Ok (NeedMore c), d')" and ok: "decoder_ok P d buf"
  then show "c \<le> length buf \<and> decoder_ok P d' (drop c buf @ extra)
      \<and> decode P A d (buf @ extra) eof = shift_result c (decode P A d' (drop c buf @ extra) eof)"
    using decode_need_more [OF run, of extra eof] decoder_ok_next [OF run ok, of "drop c buf @ extra"]
    by (auto simp: decoder_ok_def)
next
  fix d buf h k d' extra eof
  assume run: "decode P A d buf False = (Ok (Trailers h k), d')" and ok: "decoder_ok P d buf"
  then show "k \<le> length buf \<and> decode P A d (buf @ extra) eof = (Ok (Trailers h k), d')"
    using decode_stop_append [OF run] decode_within [OF run] by (auto simp: decoder_ok_def)
next
  fix d buf k d' extra eof
  assume run: "decode P A d buf False = (Ok (End k), d')" and ok: "decoder_ok P d buf"
  then show "k \<le> length buf \<and> decode P A d (buf @ extra) eof = (Ok (End k), d')"
    using decode_stop_append [OF run] decode_within [OF run] by (auto simp: decoder_ok_def)
next
  fix d buf e d' extra eof
  assume run: "decode P A d buf False = (Err e, d')" and ok: "decoder_ok P d buf"
  then show "\<exists>e'. fst (decode P A d (buf @ extra) eof) = Err e'"
    using decode_err_append [OF run] by (simp add: decoder_ok_def)
qed

section \<open>Properties of the decoder\<close>

lemma decoder_ok_new: "parse_headers_law P \<Longrightarrow> decoder_ok P (decoder_with_limits mode l) buf"
proof -
  have "resumable (decoder_with_limits mode l) buf"
    by (auto simp: resumable_def decoder_with_limits_def split: body_mode.splits)
  then show "parse_headers_law P \<Longrightarrow> decoder_ok P (decoder_with_limits mode l) buf"
    by (simp add: decoder_ok_def decoder_inv_new)
qed

text \<open>
  C4. The boundaries of the fragments in which a body arrives cannot be observed. A new
  decoder fed any sequence of fragments, calling \<open>decode\<close> until it asks for more and
  keeping what it did not consume, fails exactly when it fails on the whole input at once,
  and otherwise delivers the same payload, end, trailers and unread rest.
\<close>

theorem decode_fragmentation:
  assumes "parse_headers_law P"
  shows "same_run (feed (decode P A) (decoder_with_limits mode l) [] fs eof)
           (drain (decode P A) (decoder_with_limits mode l) (concat fs) eof)"
  using body.feed_concat [OF decoder_ok_new [OF assms], of A mode l "[]" fs eof] by simp

definition sample_fragments :: "bytes list" where
  "sample_fragments = [bstr ''3'', [CR], [LF, 97], [98, 99, CR], [LF, 48, CR, LF, CR], [LF]]"

lemma sample_feed:
  "(case feed (decode empty_httparse alist_http) (decoder_with_limits BM_Chunked decode_limits_default) []
      sample_fragments True of (payload, st, d', left) \<Rightarrow> (payload, st, left))
   = (bstr ''abc'', Ended (Some []), [])"
  by code_simp

theorem decode_fragmentation_witness:
  "\<exists>d'. drain (decode empty_httparse alist_http) (decoder_with_limits BM_Chunked decode_limits_default)
      (concat sample_fragments) True = (bstr ''abc'', Ended (Some []), d', [])"
proof -
  obtain p st d' l where run: "feed (decode empty_httparse alist_http)
      (decoder_with_limits BM_Chunked decode_limits_default) [] sample_fragments True = (p, st, d', l)"
    by (metis prod_cases4)
  with sample_feed have "p = bstr ''abc''" "st = Ended (Some [])" "l = []" by simp_all
  with decode_fragmentation [OF empty_httparse_law, of alist_http BM_Chunked decode_limits_default sample_fragments True]
  show ?thesis unfolding run same_run_def by (metis fst_conv run_end.distinct(7) snd_conv)
qed

lemma drain_stop:
  assumes "step d buf eof = (r, d')" and "\<nexists>s e k. r = Ok (Data (s, e) k)"
  shows "drain step d buf eof =
     (case r of Ok (NeedMore k) \<Rightarrow> ([], More, d', drop k buf)
      | Ok (Trailers h k) \<Rightarrow> ([], Ended (Some h), d', drop k buf)
      | Ok (End k) \<Rightarrow> ([], Ended None, d', drop k buf)
      | Ok (Data _ _) \<Rightarrow> ([], Stalled, d', buf)
      | Err e \<Rightarrow> ([], Failed e, d', []))"
  using assms
  by (auto simp: drain.simps [of step d buf eof] split: result.splits decode_outcome.splits)

lemma drain_fixed:
  "\<exists>d'. drain (decode P A) (decoder_with_limits (BM_Fixed n) l) buf eof =
     (take (unat n) buf,
      if unat n \<le> length buf then Ended None else if eof then Failed UnexpectedEof else More,
      d',
      if unat n \<le> length buf then drop (unat n) buf else [])"
proof -
  let ?d = "decoder_with_limits (BM_Fixed n) l"
  have st: "dstate ?d = DS_Fixed n" by (simp add: decoder_with_limits_def)
  have over: "drain (decode P A) d b eof = ([], Ended None, d\<lparr>dstate := DS_Done\<rparr>, b)" if "dstate d = DS_Fixed 0" for d b
    using that by (simp add: drain.simps [of "decode P A" d b eof] decode_def)
  have dry: "drain (decode P A) d [] eof = (if eof then ([], Failed UnexpectedEof, d\<lparr>dstate := DS_Failed UnexpectedEof\<rparr>, [])
      else ([], More, d, []))" if "dstate d = DS_Fixed r" "r \<noteq> 0" for d r
    using that by (simp add: drain.simps [of "decode P A" d "[]" eof] decode_def decoder_fail_def)
  consider (zero) "n = 0" | (empty) "n \<noteq> 0" "buf = []" | (data) "n \<noteq> 0" "buf \<noteq> []" by blast
  then show ?thesis
  proof cases
    case zero
    then show ?thesis using over [of ?d buf] st by simp
  next
    case empty
    then show ?thesis using dry [OF st] by (simp add: unat_eq_zero)
  next
    case data
    let ?m = "min (length buf) (unat n)" and ?r = "n - word_of_nat (min (length buf) (unat n))"
    let ?d' = "?d\<lparr>dstate := DS_Fixed ?r\<rparr>"
    have r: "unat ?r = unat n - length buf" using decode_fixed(2) [OF st data] .
    have "0 < ?m" using data by (simp add: unat_gt_0)
    then have run: "drain (decode P A) ?d buf eof = with_payload (take ?m buf) (drain (decode P A) ?d' (drop ?m buf) eof)"
      using drain_data [of "decode P A", OF decode_fixed(1) [OF st data]] by simp
    show ?thesis
    proof (cases "unat n \<le> length buf")
      case True
      then have "?r = 0" using r by (simp flip: unat_eq_zero)
      then show ?thesis using run over [of ?d' "drop ?m buf"] True by (simp add: min_absorb2)
    next
      case False
      then have "?r \<noteq> 0" using r by (auto simp flip: unat_eq_zero)
      then show ?thesis using run dry [of ?d' ?r] False by (simp add: min_absorb1)
    qed
  qed
qed

text \<open>
  A body with a Content-Length is exactly its first \<open>n\<close> bytes: the decoder delivers them
  and leaves every later byte unread, for the next message; a stream that ends early is
  reported as an unexpected end and never as a shorter body.
\<close>

theorem fixed_body_exact:
  "\<exists>d'. drain (decode P A) (decoder_with_limits (BM_Fixed n) l) buf eof =
     (take (unat n) buf,
      if unat n \<le> length buf then Ended None else if eof then Failed UnexpectedEof else More,
      d',
      if unat n \<le> length buf then drop (unat n) buf else [])"
  by (rule drain_fixed)

text \<open>
  A body delimited by the end of the connection is everything that was received: no
  byte of it is dropped or left behind.
\<close>

theorem until_eof_body_exact:
  "\<exists>d'. drain (decode P A) (decoder_with_limits BM_UntilEof l) buf True = (buf, Ended None, d', [])"
proof -
  let ?d = "decoder_with_limits BM_UntilEof l"
  have st: "dstate ?d = DS_UntilEof" by (simp add: decoder_with_limits_def)
  show ?thesis
  proof (cases "buf = []")
    case True
    then show ?thesis using st by (simp add: drain.simps [of "decode P A" ?d "[]" True] decode_def)
  next
    case False
    then have "decode P A ?d buf True = (Ok (Data (0, length buf) (length buf)), ?d\<lparr>dstate := DS_Done\<rparr>)"
      using st by (simp add: decode_def)
    from drain_data [of "decode P A", OF this] False show ?thesis
      by (simp add: drain.simps [of "decode P A" "?d\<lparr>dstate := DS_Done\<rparr>" "[]" True] decode_def)
  qed
qed

section \<open>Sequences of calls\<close>

text \<open>The decoder after any sequence of calls, each with its own buffer and end-of-stream flag.\<close>

definition decode_calls ::
  "httparse_api \<Rightarrow> ('h, 'u) http_api \<Rightarrow> body_decoder \<Rightarrow> (bytes \<times> bool) list \<Rightarrow> body_decoder" where
  "decode_calls P A d calls = foldl (\<lambda>d (buf, eof). snd (decode P A d buf eof)) d calls"

lemma decode_calls_simps [simp]:
  "decode_calls P A d [] = d"
  "decode_calls P A d ((buf, eof) # calls) = decode_calls P A (snd (decode P A d buf eof)) calls"
  by (simp_all add: decode_calls_def)

lemma decode_calls_inv:
  "decoder_inv d \<Longrightarrow> decoder_inv (decode_calls P A d calls) \<and> limits (decode_calls P A d calls) = limits d"
proof (induction calls arbitrary: d)
  case (Cons call calls)
  obtain buf eof where call: "call = (buf, eof)" by fastforce
  obtain r d1 where "decode P A d buf eof = (r, d1)" by fastforce
  with Cons decode_inv [of P A d buf eof r d1] show ?case by (simp add: call)
qed simp

text \<open>
  Whatever the peer sends and however it is split, the chunk extensions a decoder has
  accepted never exceed the configured budget for the whole message, and no call changes
  the limits.
\<close>

theorem chunk_extension_budget:
  "extension_bytes (decode_calls P A (decoder_with_limits mode l) calls) \<le> max_chunk_extension_bytes l
   \<and> limits (decode_calls P A (decoder_with_limits mode l) calls) = l"
proof -
  have "limits (decoder_with_limits mode l) = l" by (simp add: decoder_with_limits_def)
  then show ?thesis
    using decode_calls_inv [OF decoder_inv_new [of mode l], of P A calls] by (auto simp: decoder_inv_def)
qed

text \<open>
  A failed decoder stays failed: after an error every later call returns the same error,
  whatever its input, so framing is never guessed again after it was lost.
\<close>

theorem decode_error_sticky:
  assumes "decode P A d buf eof = (Err e, d')"
  shows "fst (decode P A (decode_calls P A d' calls) buf' eof') = Err e"
proof -
  have "dstate d = DS_Failed e \<Longrightarrow> decode_calls P A d calls = d" for d
    by (induction calls) (auto simp: decode_failed_again)
  with decode_fail [OF assms] show ?thesis by (simp add: decode_failed_again)
qed

theorem decode_error_sticky_witness:
  "fst (decode empty_httparse alist_http
      (decode_calls empty_httparse alist_http
         (snd (decode empty_httparse alist_http (decoder_with_limits BM_Chunked decode_limits_default)
            (bstr ''x'' @ [CR, LF]) False))
         [([51, CR, LF], False)])
      [CR, LF] False) = Err InvalidChunkSize"
proof -
  let ?d = "decoder_with_limits BM_Chunked decode_limits_default"
  have "decode empty_httparse alist_http ?d (bstr ''x'' @ [CR, LF]) False
      = (Err InvalidChunkSize, snd (decode empty_httparse alist_http ?d (bstr ''x'' @ [CR, LF]) False))"
    by code_simp
  from decode_error_sticky [OF this] show ?thesis .
qed

text \<open>
  Positions a decoder reports lie in the buffer it was given: a payload range is
  non-empty and ends where the consumed prefix ends, and no more than the buffer is
  consumed, after any sequence of earlier calls.
\<close>

theorem decode_outcome_bounds:
  assumes "parse_headers_law P"
    and "decode P A (decode_calls P A (decoder_with_limits mode l) calls) buf eof = (Ok out, d')"
  shows "outcome_within 0 (length buf) out"
  using decode_within [OF assms(2,1)] decode_calls_inv [OF decoder_inv_new [of mode l], of P A calls] by simp

theorem decode_outcome_bounds_witness:
  "outcome_within 0 6 (Data (3, 5) 5 :: alist decode_outcome)"
proof -
  let ?d = "decoder_with_limits BM_Chunked decode_limits_default"
  let ?buf = "[50, CR, LF, 97, 98, CR]"
  have "decode empty_httparse alist_http (decode_calls empty_httparse alist_http ?d []) ?buf False
      = (Ok (Data (3, 5) 5), snd (decode empty_httparse alist_http ?d ?buf False))"
    by code_simp
  from decode_outcome_bounds [OF empty_httparse_law this] show ?thesis by simp
qed

end
