(* ===== verification/Roundtrip.thy ===== *)
theory Roundtrip
  imports Encode_Laws Decode_Stream
begin

text \<open>
  The encoder and the decoder together: what \<open>BodyEncoder\<close> puts on the wire,
  \<open>BodyDecoder\<close> reads back, in whatever fragments it arrives, and it stops at the first byte
  that belongs to the next message.
\<close>

section \<open>Hexadecimal digits\<close>

lemma HEX_nth: "d < 16 \<Longrightarrow> is_ascii_hexdigit (HEX ! d) \<and> hex_digit_value (HEX ! d) = d"
proof -
  have "\<forall>d \<in> set [0..<16]. is_ascii_hexdigit (HEX ! d) \<and> hex_digit_value (HEX ! d) = d" by code_simp
  then show "d < 16 \<Longrightarrow> is_ascii_hexdigit (HEX ! d) \<and> hex_digit_value (HEX ! d) = d" by simp
qed

lemma hex_digits_hexdigit: "list_all is_ascii_hexdigit (hex_digits n)"
proof (induction n rule: hex_digits.induct)
  case (1 n)
  then show ?case using HEX_nth [of "n mod 16"] by (cases "n = 0") (simp_all add: hex_digits.simps [of n])
qed

lemma hex_value_hex_digits: "hex_value (hex_digits n) = n"
proof (induction n rule: hex_digits.induct)
  case (1 n)
  then show ?case
    using HEX_nth [of "n mod 16"]
    by (cases "n = 0") (simp_all add: hex_digits.simps [of n] hex_value_def radix_value_append)
qed

lemma hexdigit_plain: "is_ascii_hexdigit b \<Longrightarrow> \<not> is_ows b \<and> b \<noteq> SEMICOLON \<and> b \<noteq> LF \<and> b \<noteq> CR"
  by (auto simp: is_ascii_hexdigit_def is_ows_def)

section \<open>Reading a chunk-size line\<close>

lemma parse_chunk_line_digits:
  assumes "list_all is_ascii_hexdigit ds" and "ds \<noteq> []" and "hex_value ds < 2 ^ 64"
  shows "parse_chunk_line ds = Ok (word_of_nat (hex_value ds))"
proof -
  have plain: "\<forall>b \<in> set ds. \<not> is_ows b \<and> b \<noteq> SEMICOLON"
    using assms(1) hexdigit_plain by (auto simp: list_all_iff)
  then have "position (\<lambda>b. b = SEMICOLON) ds = None" by (auto simp: position_None)
  then show ?thesis
    using assms plain
    by (simp add: parse_chunk_line_def Let_def trim_end_no_ows chunk_size_fold_eq validate_extensions.simps [of "[]"])
qed

lemma decoder_reads_size_line:
  assumes "list_all is_ascii_hexdigit ds" and "ds \<noteq> []" and "hex_value ds < 2 ^ 64"
    and "length ds + 2 \<le> max_chunk_line_bytes (limits d)"
  shows "decoder_parse_chunk_line d (ds @ CR # LF # rest) 0 =
     (Ok (Some (word_of_nat (hex_value ds), length ds + 2), 0), d)"
proof -
  let ?input = "ds @ CR # LF # rest" and ?i = "Suc (length ds)"
  have ds: "ds ! i \<noteq> LF \<and> ds ! i \<noteq> CR" if "i < length ds" for i
    using that assms(1) hexdigit_plain by (auto simp: list_all_length)
  have "line_open ?input ?i"
    unfolding line_open_def
  proof (intro allI impI)
    fix i assume "i < ?i"
    then show "?input ! i \<noteq> LF \<and> \<not> (0 < i \<and> ?input ! (i - 1) = CR)"
      using ds [of i] ds [of "i - 1"] by (cases "i < length ds") (auto simp: nth_append)
  qed
  then have skip: "chunk_line_loop d ?input 0 = chunk_line_loop d ?input ?i"
    by (rule chunk_line_loop_skip) simp
  have "position (\<lambda>b. b = SEMICOLON) ds = None"
    using assms(1) hexdigit_plain by (auto simp: position_None list_all_iff)
  then have "charge_extensions d ds = (Ok (), d)" by (simp add: charge_extensions_def)
  then show ?thesis
    using assms(4) parse_chunk_line_digits [OF assms(1-3)]
    by (simp add: decoder_parse_chunk_line_def skip chunk_line_loop.simps [of d ?input ?i] Let_def nth_append)
qed

section \<open>Draining chunks\<close>

text \<open>A decoder between two chunks, with room for the longest size line the encoder writes.\<close>

definition at_chunk :: "body_decoder \<Rightarrow> bool" where
  "at_chunk d \<longleftrightarrow> dstate d = DS_Chunked (CS_Size 0) \<and> decoder_inv d
     \<and> 18 \<le> max_chunk_line_bytes (limits d) \<and> 2 \<le> max_trailer_bytes (limits d)"

lemma at_chunk_ok: "parse_headers_law P \<Longrightarrow> at_chunk d \<Longrightarrow> decoder_ok P d buf"
  by (auto simp: decoder_ok_def at_chunk_def resumable_def)

lemma hex_digits_Nil [simp]: "hex_digits n = [] \<longleftrightarrow> n = 0"
  by (simp add: hex_digits.simps [of n])

lemma length_hex_digits_le: "n < 2 ^ 64 \<Longrightarrow> length (hex_digits n) \<le> 16"
  using bit_length_le [of n 64] by (simp add: length_hex_digits)

lemma drain_chunk:
  assumes law: "parse_headers_law P" and d: "at_chunk d" and data: "data \<noteq> []" "length data < 2 ^ 64"
  shows "drain (decode P A) d (chunk_bytes data @ rest) eof = with_payload data (drain (decode P A) d rest eof)"
proof -
  let ?n = "length data" and ?hs = "hex_digits (length data)"
  let ?buf = "chunk_bytes data @ rest" and ?c = "length ?hs + 2"
  let ?mid = "d\<lparr>dstate := DS_Chunked CS_DataCrlf\<rparr>"
  have buf: "?buf = ?hs @ CR # LF # data @ CR # LF # rest" using data(1) by (simp add: chunk_bytes_def)
  have hs: "?hs \<noteq> []" "hex_value ?hs = ?n" using data(1) by (simp_all add: hex_value_hex_digits)
  have w: "unat (word_of_nat ?n :: u64) = ?n" using data(2) by (intro unat_of_usize) simp
  then have w0: "(word_of_nat ?n :: u64) \<noteq> 0" using data(1) by (metis length_0_conv unat_0)
  have "decoder_parse_chunk_line d ?buf 0 = (Ok (Some (word_of_nat ?n, ?c), 0), d)"
    using decoder_reads_size_line [of ?hs d "data @ CR # LF # rest"] d hs data(2)
      hex_digits_hexdigit length_hex_digits_le [OF data(2)]
    unfolding buf by (simp add: at_chunk_def)
  moreover have st: "dstate d = DS_Chunked (CS_Size 0)" using d by (simp add: at_chunk_def)
  ultimately have "decode P A d ?buf eof = decode_chunked P A d (CS_Data (word_of_nat ?n)) ?buf eof ?c"
    using w0 by (simp add: decode_def decode_chunked.simps [of P A d "CS_Size 0" ?buf eof 0])
  also have "\<dots> = (Ok (Data (?c, ?c + ?n) (?c + ?n)), ?mid)"
    using decode_chunked_data(1) [OF w0, of ?c ?buf P A d eof] w data(1)
    by (simp add: buf)
  finally have "drain (decode P A) d ?buf eof =
      with_payload (take ?n (drop ?c ?buf)) (drain (decode P A) ?mid (drop (?c + ?n) ?buf) eof)"
    using drain_data [of "decode P A" d ?buf eof ?c "?c + ?n" "?c + ?n" ?mid] by (simp add: buf)
  moreover have "take ?n (drop ?c ?buf) = data" "drop (?c + ?n) ?buf = CR # LF # rest" by (simp_all add: buf)
  moreover have "drain (decode P A) ?mid (CR # LF # rest) eof = drain (decode P A) d (drop 2 (CR # LF # rest)) eof"
  proof (rule body.drain_suffix)
    show "decoder_ok P d (drop 2 (CR # LF # rest))" by (rule at_chunk_ok [OF law d])
    have "decode P A ?mid (CR # LF # rest) eof = decode_chunked P A ?mid (CS_Size 0) (CR # LF # rest) eof (2 + 0)"
      by (simp add: decode_def decode_chunked.simps [of P A ?mid CS_DataCrlf "CR # LF # rest" eof 0] Let_def numeral_2_eq_2)
    also have "\<dots> = shift_result 2 (decode_chunked P A ?mid (CS_Size 0) (drop 2 (CR # LF # rest)) eof 0)"
      by (rule decode_chunked_shift) simp
    finally show "decode P A ?mid (CR # LF # rest) eof = shift_result 2 (decode P A d (drop 2 (CR # LF # rest)) eof)"
      using st by (simp add: decode_def decode_chunked_dstate)
  qed simp
  ultimately show ?thesis by simp
qed

lemma drain_chunks:
  assumes "parse_headers_law P" and "at_chunk d" and "\<forall>data \<in> set ds. length data < 2 ^ 64"
  shows "drain (decode P A) d (concat (map chunk_bytes ds) @ rest) eof =
     with_payload (concat ds) (drain (decode P A) d rest eof)"
  using assms(3)
proof (induction ds)
  case (Cons x ds)
  show ?case
  proof (cases "x = []")
    case True
    with Cons show ?thesis by (simp add: chunk_bytes_def)
  next
    case False
    with Cons drain_chunk [OF assms(1,2) False, of A "concat (map chunk_bytes ds) @ rest" eof] show ?thesis
      by simp
  qed
qed simp

text \<open>The last chunk and the empty trailer section.\<close>

lemma empty_trailers:
  assumes "header_map_laws A" and "hm_try_with_capacity A 0 = Some h" and "parse_headers_law P"
  shows "parse_trailer_block P A [CR, LF] n = Ok (2, h)"
proof -
  have "hm_keys A h = []"
    using header_map_lawsD(3,5,6) [OF assms(1)] assms(2) by (metis ex_in_conv set_empty)
  then have "validate_trailers A h = Ok ()" by (simp add: validate_trailers_def)
  then show ?thesis
    using assms(2,3) by (simp add: parse_trailer_block_def parse_headers_law_def own_headers_def ok_or_def)
qed

lemma drain_end:
  assumes "header_map_laws A" and "hm_try_with_capacity A 0 = Some h" and "parse_headers_law P" and "at_chunk d"
  shows "\<exists>d'. drain (decode P A) d ([48, CR, LF, CR, LF] @ rest) eof = ([], Ended (Some h), d', rest)"
proof -
  let ?buf = "[48, CR, LF, CR, LF] @ rest"
  have "decoder_parse_chunk_line d ([48] @ CR # LF # CR # LF # rest) 0 = (Ok (Some (word_of_nat (hex_value [48]), length [48 :: byte] + 2), 0), d)"
    by (rule decoder_reads_size_line)
      (use assms(4) in \<open>simp_all add: at_chunk_def is_ascii_hexdigit_def hex_value_def hex_digit_value_def hex_def\<close>)
  then have line: "decoder_parse_chunk_line d ?buf 0 = (Ok (Some (0, 3), 0), d)"
    by (simp add: hex_value_def hex_digit_value_def hex_def)
  have "trailer_end_loop (CR # LF # rest) b 0 = Some 2" if "2 \<le> b" for b
    using that
    by (simp add: trailer_end_loop.simps [of _ b 0] trailer_end_loop.simps [of _ b "Suc 0"] empty_line_at_def)
  then have "trailer_end d (CR # LF # rest) 0 = Ok (Some 2, 0)"
    using assms(4) by (simp add: trailer_end_def Let_def at_chunk_def)
  then have "\<exists>d'. decode_trailers P A d ?buf 3 eof 0 = (Ok (Trailers h 5), d')"
    using empty_trailers [OF assms(1-3)] by (simp add: decode_trailers_def Let_def)
  moreover have "decode P A d ?buf eof = decode_trailers P A d ?buf 3 eof 0"
    using assms(4) line
    by (simp add: at_chunk_def decode_def decode_chunked.simps [of P A d "CS_Size 0" _ eof 0] decode_chunked_trailers)
  ultimately show ?thesis by (auto simp: drain.simps [of "decode P A" d "48 # CR # LF # CR # LF # rest" eof])
qed

section \<open>The round trip\<close>

lemma drain_encoded_chunked:
  assumes "parse_headers_law P" and "header_map_laws A" and "hm_try_with_capacity A 0 = Some h"
    and "18 \<le> max_chunk_line_bytes l" and "2 \<le> max_trailer_bytes l"
    and "body_encoder_new BM_Chunked md config = Ok enc" and "encode_body enc ds = (Ok wire, enc')"
  shows "\<exists>d'. drain (decode P A) (decoder_with_limits BM_Chunked l) (wire @ rest) eof = (concat ds, Ended (Some h), d', rest)"
proof -
  let ?d = "decoder_with_limits BM_Chunked l"
  have chunked: "be_state enc = BS_Chunked" using assms(6) by (auto simp: body_encoder_new_def split: if_splits)
  obtain frames tail enc1 where fr: "encode_frames enc ds = (Ok frames, enc1)"
    and fin: "encoder_finish enc1 = (Ok tail, enc')" and wire: "wire = frames @ tail"
    by (rule encode_body_Ok [OF assms(7)])
  have bytes: "wire = concat (map chunk_bytes ds) @ [48, CR, LF, CR, LF]"
    using wire encode_frames_chunked [OF fr chunked] encode_frames_Ok [OF fr] encoder_finish_Ok [OF fin] chunked
    by simp
  have small: "\<forall>data \<in> set ds. length data < 2 ^ 64" using encode_frames_Ok [OF fr] by blast
  have at: "at_chunk ?d"
    using assms(4,5) decoder_inv_new [of BM_Chunked l] by (simp add: at_chunk_def decoder_with_limits_def)
  obtain d' where "drain (decode P A) ?d ([48, CR, LF, CR, LF] @ rest) eof = ([], Ended (Some h), d', rest)"
    using drain_end [OF assms(2,3,1) at] by blast
  then show ?thesis
    using drain_chunks [OF assms(1) at small, of A "[48, CR, LF, CR, LF] @ rest" eof] bytes by simp
qed

lemma drain_encoded_fixed:
  assumes "body_encoder_new (BM_Fixed n) md config = Ok enc" and "encode_body enc ds = (Ok wire, enc')"
  shows "\<exists>d'. drain (decode P A) (decoder_with_limits (BM_Fixed n) l) (wire @ rest) eof = (concat ds, Ended None, d', rest)"
proof -
  have wire: "length (concat ds) = unat n" "wire = concat ds"
    using body_fixed_wire [OF assms] by simp_all
  then show ?thesis using drain_fixed [of P A n l "wire @ rest" eof] by auto
qed

text \<open>Fragments of what a decoder reads to its end are read as a whole.\<close>

lemma feed_drained:
  assumes "parse_headers_law P" and "concat fragments = input"
    and "\<exists>d'. drain (decode P A) (decoder_with_limits mode l) input eof = (p, Ended t, d', left)"
  shows "\<exists>d'. feed (decode P A) (decoder_with_limits mode l) [] fragments eof = (p, Ended t, d', left)"
  using body.feed_concat [OF decoder_ok_new [OF assms(1)], of A mode l "[]" fragments eof] assms(2,3)
  by (auto simp: same_run_def)

text \<open>
  A chunked body survives the wire. Whatever data frames the body encoder accepted and
  ended, the decoder of the peer, fed the encoded bytes and any later bytes in any fragments,
  delivers the concatenation of the frames, reports the end of the body with an empty trailer
  section, and leaves exactly the later bytes unread.
\<close>

theorem chunked_roundtrip:
  assumes "parse_headers_law P" and "header_map_laws A" and "hm_try_with_capacity A 0 = Some h"
    and "18 \<le> max_chunk_line_bytes l" and "2 \<le> max_trailer_bytes l"
    and "body_encoder_new BM_Chunked md config = Ok enc"
    and "encode_body enc ds = (Ok wire, enc')"
    and "concat fragments = wire @ rest"
  shows "\<exists>d'. feed (decode P A) (decoder_with_limits BM_Chunked l) [] fragments eof
     = (concat ds, Ended (Some h), d', rest)"
  by (rule feed_drained [OF assms(1,8) drain_encoded_chunked [OF assms(1-7)]])

theorem chunked_roundtrip_witness:
  "\<exists>d'. feed (decode empty_httparse alist_http) (decoder_with_limits BM_Chunked decode_limits_default) []
      [[50, CR], [LF, 97], [98, CR, LF, 48, CR], [LF, CR, LF, 71]] False = ([97, 98], Ended (Some []), d', [71])"
proof -
  let ?md = "\<lparr>md_size = size_hint_new, md_trailers = TH_MayHave\<rparr>"
  let ?enc = "\<lparr>be_state = BS_Chunked, be_max_trailer_bytes = 100, be_title_case_headers = True,
      be_remaining_lower = 0, be_remaining_upper = None, be_trailers = TH_MayHave\<rparr>"
  let ?wire = "[50, CR, LF, 97, 98, CR, LF, 48, CR, LF, CR, LF]"
  have new: "body_encoder_new BM_Chunked ?md sample_config = Ok ?enc" by code_simp
  have "fst (encode_body ?enc [[97, 98]]) = Ok ?wire" by code_simp
  then obtain enc' where run: "encode_body ?enc [[97, 98]] = (Ok ?wire, enc')"
    by (metis prod.collapse)
  have cap: "hm_try_with_capacity alist_http 0 = Some []" by (simp add: alist_http_def)
  have limits: "18 \<le> max_chunk_line_bytes decode_limits_default" "2 \<le> max_trailer_bytes decode_limits_default"
    by code_simp+
  have "\<exists>d'. feed (decode empty_httparse alist_http) (decoder_with_limits BM_Chunked decode_limits_default) []
      [[50, CR], [LF, 97], [98, CR, LF, 48, CR], [LF, CR, LF, 71]] False = (concat [[97, 98]], Ended (Some []), d', [71])"
    by (rule chunked_roundtrip [OF empty_httparse_law alist_http_laws cap limits new run]) simp
  then show ?thesis by simp
qed

text \<open>
  A body with a Content-Length survives the wire: the decoder set to the length the
  encoder was created with delivers the payload of the accepted frames and leaves the bytes
  of the next message unread.
\<close>

theorem fixed_roundtrip:
  assumes "parse_headers_law P" and "body_encoder_new (BM_Fixed n) md config = Ok enc"
    and "encode_body enc ds = (Ok wire, enc')" and "concat fragments = wire @ rest"
  shows "\<exists>d'. feed (decode P A) (decoder_with_limits (BM_Fixed n) l) [] fragments eof
     = (concat ds, Ended None, d', rest)"
  by (rule feed_drained [OF assms(1,4) drain_encoded_fixed [OF assms(2,3)]])

theorem fixed_roundtrip_witness:
  "\<exists>d'. feed (decode empty_httparse alist_http) (decoder_with_limits (BM_Fixed 3) decode_limits_default) []
      [[97], [98, 99, 71]] False = ([97, 98, 99], Ended None, d', [71])"
proof -
  let ?enc = "\<lparr>be_state = BS_Fixed, be_max_trailer_bytes = 100, be_title_case_headers = True,
      be_remaining_lower = 3, be_remaining_upper = Some 3, be_trailers = TH_None\<rparr>"
  have new: "body_encoder_new (BM_Fixed 3) sample_metadata sample_config = Ok ?enc" by code_simp
  have "fst (encode_body ?enc [[97], [98, 99]]) = Ok [97, 98, 99]" by code_simp
  then obtain enc' where run: "encode_body ?enc [[97], [98, 99]] = (Ok [97, 98, 99], enc')"
    by (metis prod.collapse)
  have "\<exists>d'. feed (decode empty_httparse alist_http) (decoder_with_limits (BM_Fixed 3) decode_limits_default) []
      [[97], [98, 99, 71]] False = (concat [[97], [98, 99]], Ended None, d', [71])"
    by (rule fixed_roundtrip [OF empty_httparse_law new run]) simp
  then show ?thesis by simp
qed

end
