(* ===== verification/Loops.thy ===== *)
theory Loops
  imports Vakya_Prelude
begin

text \<open>
  Loops of \<open>async\<close> functions that run until something outside the program lets them stop: a
  peer that sends or reads, a consumer that asks. One round gives the next state (\<open>Inl\<close>), the
  value returned (\<open>Inr\<close>), or \<open>None\<close> for a panic. \<open>iterate\<close> is the loop; \<open>None\<close> is a panic or
  a loop that never returns, and \<open>iterate_returns\<close> is the rule by which both are excluded.
\<close>

partial_function (option) iterate :: "('s \<Rightarrow> ('s + 'a) option) \<Rightarrow> 's \<Rightarrow> 'a option" where
  "iterate step s =
     (case step s of
        None \<Rightarrow> None
      | Some (Inl s') \<Rightarrow> iterate step s'
      | Some (Inr a) \<Rightarrow> Some a)"

declare iterate.simps [code]

lemma iterate_more [simp]: "step s = Some (Inl s') \<Longrightarrow> iterate step s = iterate step s'"
  by (simp add: iterate.simps [of step s])

lemma iterate_stop [simp]: "step s = Some (Inr a) \<Longrightarrow> iterate step s = Some a"
  by (simp add: iterate.simps)

text \<open>Total correctness: an invariant, a well-founded order, and what the last round ensures.\<close>

lemma iterate_returns:
  assumes "wf R" and "I s"
    and "\<And>s. I s \<Longrightarrow> (\<exists>s'. step s = Some (Inl s') \<and> I s' \<and> (s', s) \<in> R) \<or> (\<exists>a. step s = Some (Inr a) \<and> Q a)"
  shows "\<exists>a. iterate step s = Some a \<and> Q a"
  using assms(1,2)
proof (induction s rule: wf_induct_rule)
  case (less s)
  from assms(3) [OF less.prems] show ?case
  proof
    assume "\<exists>s'. step s = Some (Inl s') \<and> I s' \<and> (s', s) \<in> R"
    then obtain s' where "step s = Some (Inl s')" "I s'" "(s', s) \<in> R" by blast
    with less.IH show ?thesis by simp
  next
    assume "\<exists>a. step s = Some (Inr a) \<and> Q a"
    then show ?thesis by auto
  qed
qed

text \<open>Partial correctness.\<close>

lemma iterate_ensures:
  assumes "iterate step s = Some a" and "I s"
    and "\<And>s s'. I s \<Longrightarrow> step s = Some (Inl s') \<Longrightarrow> I s'"
    and "\<And>s a. I s \<Longrightarrow> step s = Some (Inr a) \<Longrightarrow> Q a"
  shows "Q a"
  using assms
proof (induction rule: iterate.raw_induct [rotated, consumes 1])
  case (1 iter step s a)
  note all = 1
  from all(2) consider s' where "step s = Some (Inl s')" "iter step s' = Some a" | "step s = Some (Inr a)"
    by (auto split: option.splits sum.splits)
  then show ?case
  proof cases
    case 1
    note go = this
    show ?thesis by (rule all(1) [OF go(2) all(4) [OF all(3) go(1)] all(4) all(5)])
  next
    case 2
    then show ?thesis by (rule all(5) [OF all(3)])
  qed
qed

end
