(* ===== verification/Transport_Api.thy ===== *)
theory Transport_Api
  imports Vakya_Errors
begin

text \<open>
  The foreign code the I/O layer calls: \<open>BytesMut\<close> and \<open>Bytes\<close> of the \<open>bytes\<close> crate, and the
  read and write halves of a transport of the runtime. Each is a record of functions that the
  model takes as an argument, with its documented behaviour as a named hypothesis and one
  instance on lists that has that behaviour.
\<close>

section \<open>Byte buffers\<close>

record 'b buffer_api =
  bm_with_capacity :: "usize \<Rightarrow> 'b"
  bm_bytes :: "'b \<Rightarrow> bytes"
  bm_capacity :: "'b \<Rightarrow> usize"
  bm_advance :: "'b \<Rightarrow> usize \<Rightarrow> 'b option"
  bm_split_to :: "'b \<Rightarrow> usize \<Rightarrow> (bytes \<times> 'b) option"
  bm_from :: "bytes \<Rightarrow> 'b"
  bm_reserve :: "'b \<Rightarrow> usize \<Rightarrow> 'b"
  bm_fill :: "'b \<Rightarrow> bytes \<Rightarrow> 'b"
  fz_truncate :: "bytes \<Rightarrow> usize \<Rightarrow> bytes"
  fz_advance :: "bytes \<Rightarrow> usize \<Rightarrow> bytes option"

text \<open>
  Documented behaviour. \<open>bm_split_to\<close> is \<open>split_to(n).freeze()\<close>: the first \<open>n\<close> bytes and the
  rest. \<open>bm_fill\<close> is the buffer a read gives back, with the slice's initialized bytes after
  its own.
\<close>

definition buffer_laws :: "'b buffer_api \<Rightarrow> bool" where
  "buffer_laws U \<longleftrightarrow>
     (\<forall>n. bm_bytes U (bm_with_capacity U n) = [])
   \<and> (\<forall>b n. n \<le> length (bm_bytes U b) \<longrightarrow> (\<exists>b'. bm_advance U b n = Some b' \<and> bm_bytes U b' = drop n (bm_bytes U b)))
   \<and> (\<forall>b n. n \<le> length (bm_bytes U b) \<longrightarrow>
        (\<exists>b'. bm_split_to U b n = Some (take n (bm_bytes U b), b') \<and> bm_bytes U b' = drop n (bm_bytes U b)))
   \<and> (\<forall>v. bm_bytes U (bm_from U v) = v)
   \<and> (\<forall>b n. bm_bytes U (bm_reserve U b n) = bm_bytes U b)
   \<and> (\<forall>b v. bm_bytes U (bm_fill U b v) = bm_bytes U b @ v)
   \<and> (\<forall>v n. fz_truncate U v n = take n v)
   \<and> (\<forall>v n. n \<le> length v \<longrightarrow> fz_advance U v n = Some (drop n v))"

section \<open>The read half\<close>

record 'r reader_api =
  rd_canceled :: "'r \<Rightarrow> bool"
  rd_read :: "usize \<Rightarrow> 'r \<Rightarrow> (usize, io_error) result \<times> bytes \<times> 'r"
  rd_read_managed :: "usize \<Rightarrow> 'r \<Rightarrow> (bytes option, io_error) result \<times> 'r"

text \<open>A read puts its bytes into the slice it was given, which bounds them.\<close>

definition reader_laws :: "'r reader_api \<Rightarrow> bool" where
  "reader_laws T \<longleftrightarrow> (\<forall>n r. length (fst (snd (rd_read T n r))) \<le> n)"

text \<open>
  A transport whose peer sends the bytes \<open>input\<close> and then closes, in whatever pieces they
  arrive, and on which no read fails.
\<close>

definition stream_transport :: "'r reader_api \<Rightarrow> ('r \<Rightarrow> bytes) \<Rightarrow> bool" where
  "stream_transport T input \<longleftrightarrow>
     (\<forall>r. \<not> rd_canceled T r)
   \<and> (\<forall>n r. 0 < n \<longrightarrow> (\<exists>v r'. rd_read T n r = (Ok (length v), v, r') \<and> length v \<le> n
        \<and> input r = v @ input r' \<and> (v = [] \<longrightarrow> input r = [])))
   \<and> (\<forall>n r. 0 < n \<longrightarrow>
        (\<exists>r'. rd_read_managed T n r = (Ok None, r') \<and> input r = [] \<and> input r' = [])
      \<or> (\<exists>v r'. rd_read_managed T n r = (Ok (Some v), r') \<and> v \<noteq> [] \<and> length v \<le> n \<and> input r = v @ input r'))"

section \<open>The write half\<close>

record 'w writer_api =
  wr_canceled :: "'w \<Rightarrow> bool"
  wr_write :: "bytes \<Rightarrow> 'w \<Rightarrow> (usize, io_error) result \<times> 'w"
  wr_write_vectored :: "bytes list \<Rightarrow> 'w \<Rightarrow> (usize, io_error) result \<times> 'w"
  wr_vec_slice :: "bytes list \<Rightarrow> usize \<Rightarrow> bytes list"
  wr_flush :: "'w \<Rightarrow> (unit, io_error) result \<times> 'w"

definition operation_canceled :: io_error where
  "operation_canceled = \<lparr>io_kind = OtherIo, io_deadline = None, io_rustls = False, io_canceled = True\<rparr>"

definition plain_io :: "io_error_kind \<Rightarrow> io_error" where
  "plain_io k = \<lparr>io_kind = k, io_deadline = None, io_rustls = False, io_canceled = False\<rparr>"

text \<open>
  Documented behaviour of a transport on which \<open>sent\<close> is what it has accepted: a write takes a
  prefix of what it is given and reports its length, and a failed write takes nothing. The
  vectored slice leaves out the bytes already written.
\<close>

definition accepts :: "('w \<Rightarrow> bytes) \<Rightarrow> bytes \<Rightarrow> 'w \<Rightarrow> (usize, io_error) result \<times> 'w \<Rightarrow> bool" where
  "accepts sent v w res =
     (case res of
        (Ok n, w') \<Rightarrow> n \<le> length v \<and> sent w' = sent w @ take n v
      | (Err e, w') \<Rightarrow> sent w' = sent w)"

definition writer_laws :: "'w writer_api \<Rightarrow> ('w \<Rightarrow> bytes) \<Rightarrow> bool" where
  "writer_laws W sent \<longleftrightarrow>
     (\<forall>v w. accepts sent v w (wr_write W v w))
   \<and> (\<forall>vs w. accepts sent (concat vs) w (wr_write_vectored W vs w))
   \<and> (\<forall>vs n. n \<le> length (concat vs) \<longrightarrow> concat (wr_vec_slice W vs n) = drop n (concat vs))
   \<and> (\<forall>w. sent (snd (wr_flush W w)) = sent w)"

text \<open>Interruptions end: \<open>patience\<close> bounds how many follow each other.\<close>

definition patient :: "'w writer_api \<Rightarrow> ('w \<Rightarrow> nat) \<Rightarrow> bool" where
  "patient W patience \<longleftrightarrow>
     (\<forall>v w e w'. wr_write W v w = (Err e, w') \<longrightarrow> io_kind e = Interrupted \<longrightarrow> patience w' < patience w)
   \<and> (\<forall>vs w e w'. wr_write_vectored W vs w = (Err e, w') \<longrightarrow> io_kind e = Interrupted \<longrightarrow> patience w' < patience w)"

text \<open>A transport on which no write or flush fails and no token is cancelled.\<close>

definition progresses :: "(usize, io_error) result \<Rightarrow> bool" where
  "progresses res = (case res of Ok n \<Rightarrow> 0 < n | Err e \<Rightarrow> io_kind e = Interrupted)"

definition reliable :: "'w writer_api \<Rightarrow> bool" where
  "reliable W \<longleftrightarrow>
     (\<forall>w. \<not> wr_canceled W w)
   \<and> (\<forall>v w. v \<noteq> [] \<longrightarrow> progresses (fst (wr_write W v w)))
   \<and> (\<forall>vs w. concat vs \<noteq> [] \<longrightarrow> progresses (fst (wr_write_vectored W vs w)))
   \<and> (\<forall>w. is_ok (fst (wr_flush W w)))"

section \<open>Instances\<close>

text \<open>An instance of the foreign operations: a buffer is its bytes and its capacity.\<close>

definition list_buffer :: "(bytes \<times> nat) buffer_api" where
  "list_buffer =
     \<lparr>bm_with_capacity = (\<lambda>n. ([], n)), bm_bytes = fst, bm_capacity = snd,
      bm_advance = (\<lambda>(v, c) n. if n \<le> length v then Some (drop n v, c - n) else None),
      bm_split_to = (\<lambda>(v, c) n. if n \<le> length v then Some (take n v, drop n v, c - n) else None),
      bm_from = (\<lambda>v. (v, length v)), bm_reserve = (\<lambda>(v, c) n. (v, max c (length v + n))),
      bm_fill = (\<lambda>(v, c) w. (v @ w, c)), fz_truncate = (\<lambda>v n. take n v),
      fz_advance = (\<lambda>v n. if n \<le> length v then Some (drop n v) else None)\<rparr>"

lemma list_buffer_laws: "buffer_laws list_buffer"
  by (auto simp: buffer_laws_def list_buffer_def split: prod.splits)

text \<open>A transport that holds its remaining input and delivers as much as fits.\<close>

definition list_reader :: "bytes reader_api" where
  "list_reader =
     \<lparr>rd_canceled = (\<lambda>_. False), rd_read = (\<lambda>n v. (Ok (min n (length v)), take n v, drop n v)),
      rd_read_managed = (\<lambda>n v. if v = [] then (Ok None, []) else (Ok (Some (take n v)), drop n v))\<rparr>"

lemma list_reader_laws: "reader_laws list_reader"
  by (simp add: reader_laws_def list_reader_def)

lemma list_reader_stream: "stream_transport list_reader (\<lambda>v. v)"
  by (auto simp: stream_transport_def list_reader_def min_def)

text \<open>
  A transport that records what it accepts. Its script limits the writes one by one, \<open>0\<close> being
  an interruption; without a script it accepts everything.
\<close>

definition script_write :: "bytes \<Rightarrow> bytes \<times> usize list \<Rightarrow> (usize, io_error) result \<times> bytes \<times> usize list" where
  "script_write v w =
     (case w of
        (sent, []) \<Rightarrow> (Ok (length v), sent @ v, [])
      | (sent, n # script) \<Rightarrow>
          if n = 0 then (Err (plain_io Interrupted), sent, script)
          else (Ok (min n (length v)), sent @ take n v, script))"

definition list_writer :: "(bytes \<times> usize list) writer_api" where
  "list_writer =
     \<lparr>wr_canceled = (\<lambda>_. False), wr_write = script_write, wr_write_vectored = (\<lambda>vs. script_write (concat vs)),
      wr_vec_slice = (\<lambda>vs n. [drop n (concat vs)]), wr_flush = (\<lambda>w. (Ok (), w))\<rparr>"

lemma list_writer_laws: "writer_laws list_writer fst"
  by (auto simp: writer_laws_def accepts_def list_writer_def script_write_def min_def split: prod.splits list.splits result.splits)

lemma list_writer_patient: "patient list_writer (\<lambda>w. length (snd w))"
  by (auto simp: patient_def list_writer_def script_write_def split: list.splits if_splits)

lemma list_writer_reliable: "reliable list_writer"
  by (auto simp: reliable_def progresses_def list_writer_def script_write_def plain_io_def split: prod.splits list.splits)

end
