(* ===== verification/Send.thy ===== *)
theory Send
  imports Loops Transport_Api
begin

text \<open>
  Complete writes, \<open>src/src/io/send.rs\<close>.

  The transport is a parameter: one completed \<open>write\<close> or \<open>write_vectored\<close> gives its result and
  the transport after it, and \<open>wr_canceled\<close> whether the caller's token is cancelled when the
  next submission is checked. \<open>wr_vec_slice\<close> is the runtime's owned vectored slice. The work
  budget of the loops only yields to other tasks and changes no value they use.

  The lemmas show that both loops hand every byte over exactly once and in order through any
  sequence of partial and interrupted writes, and that they return when interruptions do not
  go on forever.
\<close>

section \<open>The loops\<close>

definition checked_progress :: "(usize, io_error) result \<Rightarrow> usize \<Rightarrow> (usize, io_error) result" where
  "checked_progress res remaining =
     (case res of
        Ok n \<Rightarrow>
          if n = 0 then Err (plain_io WriteZero)
          else if remaining < n then Err (plain_io InvalidData)
          else Ok n
      | Err e \<Rightarrow> if io_kind e = Interrupted then Ok 0 else Err e)"

text \<open>
  One round of \<open>write_scalar\<close> and of \<open>write_vectors\<close>; \<open>submit\<close> writes what follows the first
  \<open>written\<close> bytes.
\<close>

definition write_round ::
  "'w writer_api \<Rightarrow> (usize \<Rightarrow> 'w \<Rightarrow> (usize, io_error) result \<times> 'w) \<Rightarrow> usize \<Rightarrow> usize \<times> 'w
     \<Rightarrow> ((usize \<times> 'w) + ((usize, io_error) result \<times> 'w)) option" where
  "write_round W submit len = (\<lambda>(written, w).
     Some (if written < len then
             if wr_canceled W w then Inr (Err operation_canceled, w)
             else
               (case submit written w of
                  (res, w') \<Rightarrow>
                    (case checked_progress res (len - written) of
                       Ok n \<Rightarrow> Inl (written + n, w')
                     | Err e \<Rightarrow> Inr (Err e, w')))
           else Inr (Ok written, w)))"

definition write_scalar :: "'w writer_api \<Rightarrow> bytes \<Rightarrow> 'w \<Rightarrow> ((usize, io_error) result \<times> 'w) option" where
  "write_scalar W buffer w =
     iterate (write_round W (\<lambda>written. wr_write W (drop written buffer)) (length buffer)) (0, w)"

fun vectored_length :: "usize \<Rightarrow> bytes list \<Rightarrow> usize option" where
  "vectored_length acc [] = Some acc"
| "vectored_length acc (part # parts) =
     (case checked_add_usize acc (length part) of None \<Rightarrow> None | Some acc' \<Rightarrow> vectored_length acc' parts)"

definition write_vectors :: "'w writer_api \<Rightarrow> bytes list \<Rightarrow> 'w \<Rightarrow> ((usize, io_error) result \<times> 'w) option" where
  "write_vectors W buffers w =
     (case vectored_length 0 buffers of
        None \<Rightarrow> Some (Err (plain_io InvalidInput), w)
      | Some len \<Rightarrow>
          iterate (write_round W (\<lambda>written. wr_write_vectored W (wr_vec_slice W buffers written)) len) (0, w))"

definition write_all :: "'w writer_api \<Rightarrow> bytes \<Rightarrow> 'w \<Rightarrow> ((usize, io_error) result \<times> 'w) option" where
  "write_all W buffer w = write_scalar W buffer w"

definition write_vectored_all :: "'w writer_api \<Rightarrow> bytes list \<Rightarrow> 'w \<Rightarrow> ((usize, io_error) result \<times> 'w) option" where
  "write_vectored_all W buffers w = write_vectors W buffers w"

definition write_framed ::
  "'w writer_api \<Rightarrow> bytes \<Rightarrow> bytes \<Rightarrow> bytes \<Rightarrow> 'w \<Rightarrow> ((usize, io_error) result \<times> 'w) option" where
  "write_framed W prefix data suffix w = write_vectored_all W [prefix, data, suffix] w"

section \<open>Writing everything once\<close>

text \<open>The outcome of writing \<open>v\<close>: everything, or a prefix and an error.\<close>

definition wrote :: "('w \<Rightarrow> bytes) \<Rightarrow> bytes \<Rightarrow> 'w \<Rightarrow> (usize, io_error) result \<times> 'w \<Rightarrow> bool" where
  "wrote sent v w res \<longleftrightarrow>
     (\<exists>k \<le> length v. sent (snd res) = sent w @ take k v
        \<and> (case fst res of Ok n \<Rightarrow> k = length v \<and> n = length v | Err _ \<Rightarrow> True))"

lemma checked_progress_Ok:
  "checked_progress res remaining = Ok n \<Longrightarrow>
     (res = Ok n \<and> 0 < n \<and> n \<le> remaining) \<or> (\<exists>e. res = Err e \<and> io_kind e = Interrupted \<and> n = 0)"
  by (auto simp: checked_progress_def split: result.splits if_splits)

lemma write_rounds:
  assumes submit: "\<And>n w. n \<le> length v \<Longrightarrow> accepts sent (drop n v) w (submit n w)"
    and patient: "\<And>n w e w'. submit n w = (Err e, w') \<Longrightarrow> io_kind e = Interrupted \<Longrightarrow> patience w' < (patience w :: nat)"
    and rel: "\<And>n w. rel \<Longrightarrow> n < length v \<Longrightarrow> \<not> wr_canceled W w \<and> progresses (fst (submit n w))"
  shows "\<exists>res. iterate (write_round W submit (length v)) (0, w) = Some res \<and> wrote sent v w res \<and> (rel \<longrightarrow> is_ok (fst res))"
proof (rule iterate_returns)
  let ?R = "inv_image (less_than <*lex*> less_than) (\<lambda>(written, w). (length v - written, patience w))"
  let ?I = "\<lambda>(written, x). written \<le> length v \<and> sent x = sent w @ take written v"
  show "wf ?R" by auto
  show "?I (0, w)" by simp
  fix s assume "?I s"
  then obtain written x where s: "s = (written, x)" "written \<le> length v" "sent x = sent w @ take written v" by auto
  obtain res x' where sub: "submit written x = (res, x')" by fastforce
  have acc: "accepts sent (drop written v) x (res, x')" using submit [OF s(2), of x] sub by simp
  have fin: "wrote sent v w (Err e, y)" if "sent y = sent w @ take k v" "k \<le> length v" for e y k
    using that by (auto simp: wrote_def)
  consider (finished) "written = length v" | (canceled) "written < length v" "wr_canceled W x"
    | (submitted) "written < length v" "\<not> wr_canceled W x" using s(2) by linarith
  then show "(\<exists>s'. write_round W submit (length v) s = Some (Inl s') \<and> ?I s' \<and> (s', s) \<in> ?R)
      \<or> (\<exists>a. write_round W submit (length v) s = Some (Inr a) \<and> wrote sent v w a \<and> (rel \<longrightarrow> is_ok (fst a)))"
  proof cases
    case finished
    with s show ?thesis by (auto simp: write_round_def wrote_def)
  next
    case canceled
    with s fin rel [of written x] show ?thesis by (auto simp: write_round_def)
  next
    case submitted
    show ?thesis
    proof (cases "checked_progress res (length v - written)")
      case (Ok n)
      then consider "res = Ok n" "0 < n" "n \<le> length v - written"
        | e where "res = Err e" "io_kind e = Interrupted" "n = 0" using checked_progress_Ok by blast
      then show ?thesis
      proof cases
        case 1
        then have "sent x' = sent w @ take (written + n) v"
          using acc s(3) by (simp add: accepts_def take_add)
        with 1 Ok s(1) sub submitted show ?thesis by (auto simp: write_round_def)
      next
        case 2
        then have "patience x' < patience x" using patient sub by blast
        with 2 Ok s sub submitted acc show ?thesis by (auto simp: write_round_def accepts_def)
      qed
    next
      case (Err e)
      have "\<exists>k \<le> length v. sent x' = sent w @ take k v"
      proof (cases res)
        case (Ok n)
        with acc s(2,3) show ?thesis by (auto simp: accepts_def take_add [symmetric] intro!: exI [of _ "written + n"])
      qed (use acc s in \<open>auto simp: accepts_def\<close>)
      moreover have "\<not> rel"
        using rel [OF _ submitted(1), of x] sub acc Err
        by (auto simp: progresses_def checked_progress_def accepts_def split: result.splits if_splits)
      ultimately show ?thesis using Err s sub submitted by (auto simp: write_round_def dest: fin)
    qed
  qed
qed

lemma vectored_length_eq:
  "vectored_length acc vs = (if acc + length (concat vs) \<le> USIZE_MAX \<or> vs = [] then Some (acc + length (concat vs)) else None)"
  by (induction vs arbitrary: acc) (auto simp: checked_add_usize_def)

lemma write_all_wrote:
  assumes "writer_laws W sent" "patient W patience"
  shows "\<exists>res. write_all W v w = Some res \<and> wrote sent v w res \<and> (reliable W \<longrightarrow> is_ok (fst res))"
  unfolding write_all_def write_scalar_def
  by (rule write_rounds [where patience = patience])
    (use assms in \<open>auto simp: writer_laws_def patient_def reliable_def\<close>)

lemma write_framed_wrote:
  assumes "writer_laws W sent" "patient W patience"
  shows "\<exists>res. write_framed W p d s w = Some res \<and> wrote sent (p @ d @ s) w res
    \<and> (reliable W \<and> length (p @ d @ s) \<le> USIZE_MAX \<longrightarrow> is_ok (fst res))"
proof (cases "vectored_length 0 [p, d, s]")
  case None
  then have "\<not> length (p @ d @ s) \<le> USIZE_MAX" by (simp add: vectored_length_eq split: if_splits)
  with None show ?thesis
    by (simp add: write_framed_def write_vectored_all_def write_vectors_def wrote_def exI [of _ 0])
next
  case (Some len)
  then have len: "len = length (p @ d @ s)" by (simp add: vectored_length_eq split: if_splits)
  have "\<exists>res. iterate (write_round W (\<lambda>n. wr_write_vectored W (wr_vec_slice W [p, d, s] n)) (length (p @ d @ s))) (0, w) = Some res
      \<and> wrote sent (p @ d @ s) w res \<and> (reliable W \<longrightarrow> is_ok (fst res))"
  proof (rule write_rounds [where patience = patience])
    fix n w assume "n \<le> length (p @ d @ s)"
    then have "concat (wr_vec_slice W [p, d, s] n) = drop n (p @ d @ s)" using assms(1) by (simp add: writer_laws_def)
    then show "accepts sent (drop n (p @ d @ s)) w (wr_write_vectored W (wr_vec_slice W [p, d, s] n) w)"
      using assms(1) unfolding writer_laws_def by metis
  next
    show "patience w' < patience w" if "wr_write_vectored W (wr_vec_slice W [p, d, s] n) w = (Err e, w')" "io_kind e = Interrupted" for n w e w'
      using assms(2) that unfolding patient_def by blast
  next
    fix n w assume rel: "reliable W" "n < length (p @ d @ s)"
    then have "concat (wr_vec_slice W [p, d, s] n) = drop n (p @ d @ s)" using assms(1) by (simp add: writer_laws_def)
    with rel(2) have "concat (wr_vec_slice W [p, d, s] n) \<noteq> []" by (simp only: drop_eq_Nil not_le)
    with rel(1) show "\<not> wr_canceled W w \<and> progresses (fst (wr_write_vectored W (wr_vec_slice W [p, d, s] n) w))"
      unfolding reliable_def by blast
  qed
  with Some len show ?thesis
    by (auto simp: write_framed_def write_vectored_all_def write_vectors_def simp del: vectored_length.simps)
qed

section \<open>Properties\<close>



end
