(* ===== verification/Body.thy ===== *)
theory Body
  imports Body_Types
begin

text \<open>
  The trait \<open>Body\<close> of \<open>src/src/body.rs\<close> and the two bodies of \<open>src/src/body/simple.rs\<close>.

  An implementation of the trait is a record of functions on the state of the body. A call
  of \<open>next_frame\<close> is modelled at its completion: it gives the result of the \<open>async fn\<close> and
  the state after it, or \<open>None\<close> where the source panics (an \<open>expect\<close> that fails). The
  getters return \<open>None\<close> for a panic too. \<open>frame_bytes\<close> is \<open>IoBuf::as_init\<close> of the data type.

  The implementor contract that the trait documents is split over three locales.
  \<open>body_contract\<close>: calls return, an end or an error is final, and a true \<open>is_end_stream\<close> is
  kept. \<open>sized_body\<close>: the size hint bounds the remaining payload. \<open>ordered_body\<close>: trailers
  come at most once, last, and only when they were announced. Their lemmas speak of whole
  runs of a body.
\<close>

section \<open>The trait\<close>

record ('s, 'd, 'h, 'e) body_impl =
  next_frame :: "'s \<Rightarrow> ((('d, 'h) frame option, 'e) result \<times> 's) option"
  size_hint_of :: "'s \<Rightarrow> size_hint option"
  trailer_hint_of :: "'s \<Rightarrow> trailer_hint option"
  is_end_stream :: "'s \<Rightarrow> bool"
  recycle :: "'d \<Rightarrow> 's \<Rightarrow> 's"
  frame_bytes :: "'d \<Rightarrow> bytes"

text \<open>The default methods of the trait; a recycled buffer is dropped.\<close>

definition default_size_hint :: "'s \<Rightarrow> size_hint option" where
  "default_size_hint s = Some size_hint_new"

definition default_trailer_hint :: "'s \<Rightarrow> trailer_hint option" where
  "default_trailer_hint s = Some TH_MayHave"

definition default_is_end_stream :: "'s \<Rightarrow> bool" where
  "default_is_end_stream s = False"

definition default_recycle :: "'d \<Rightarrow> 's \<Rightarrow> 's" where
  "default_recycle d s = s"

text \<open>
  A run of at most \<open>n\<close> calls, ending at the first result that is not a frame: the frames,
  that result if it was reached, and the state.
\<close>

fun run_body :: "nat \<Rightarrow> ('s, 'd, 'h, 'e) body_impl \<Rightarrow> 's \<Rightarrow> ('d, 'h) frame list \<times> (unit, 'e) result option \<times> 's" where
  "run_body 0 B s = ([], None, s)"
| "run_body (Suc n) B s =
     (case next_frame B s of
        None \<Rightarrow> ([], None, s)
      | Some (Ok (Some f), s') \<Rightarrow> (case run_body n B s' of (fs, r, t) \<Rightarrow> (f # fs, r, t))
      | Some (Ok None, s') \<Rightarrow> ([], Some (Ok ()), s')
      | Some (Err e, s') \<Rightarrow> ([], Some (Err e), s'))"

definition payload :: "('d \<Rightarrow> bytes) \<Rightarrow> ('d, 'h) frame list \<Rightarrow> bytes" where
  "payload init fs = concat (map (\<lambda>f. case f of DataFrame d \<Rightarrow> init d | TrailersFrame _ \<Rightarrow> []) fs)"

fun trailers_last :: "('d, 'h) frame list \<Rightarrow> bool" where
  "trailers_last [] \<longleftrightarrow> True"
| "trailers_last (DataFrame d # fs) \<longleftrightarrow> trailers_last fs"
| "trailers_last (TrailersFrame t # fs) \<longleftrightarrow> fs = []"

definition has_trailers :: "('d, 'h) frame list \<Rightarrow> bool" where
  "has_trailers fs \<longleftrightarrow> list_ex (\<lambda>f. case f of TrailersFrame _ \<Rightarrow> True | DataFrame _ \<Rightarrow> False) fs"

lemma payload_simps [simp]:
  "payload init [] = []" "payload init (DataFrame d # fs) = init d @ payload init fs"
  "payload init (TrailersFrame t # fs) = payload init fs"
  by (simp_all add: payload_def)

lemma has_trailers_simps [simp]:
  "\<not> has_trailers []" "has_trailers (DataFrame d # fs) = has_trailers fs" "has_trailers (TrailersFrame t # fs)"
  by (simp_all add: has_trailers_def)

section \<open>The implementor contract\<close>

definition is_frame :: "(('d, 'h) frame option, 'e) result \<Rightarrow> bool" where
  "is_frame r = (case r of Ok (Some _) \<Rightarrow> True | _ \<Rightarrow> False)"

lemma is_frame_simps [simp]: "is_frame (Ok (Some f))" "\<not> is_frame (Ok None)" "\<not> is_frame (Err e)"
  by (simp_all add: is_frame_def)

locale body_inv =
  fixes B :: "('s, 'd, 'h, 'e) body_impl" and inv :: "'s \<Rightarrow> bool"
  assumes keeps: "inv s \<Longrightarrow> next_frame B s = Some (r, s') \<Longrightarrow> inv s'"

text \<open>What an adapter needs of its source: no call panics.\<close>

locale body_source =
  fixes B :: "('s, 'd, 'h, 'e) body_impl" and inv :: "'s \<Rightarrow> bool"
  assumes returns: "inv s \<Longrightarrow> \<exists>r s'. next_frame B s = Some (r, s') \<and> inv s'"
    and size_hint_returns: "inv s \<Longrightarrow> \<exists>h. size_hint_of B s = Some h \<and> (\<forall>u. sh_upper h = Some u \<longrightarrow> sh_lower h \<le> u)"
    and trailer_hint_returns: "inv s \<Longrightarrow> trailer_hint_of B s \<noteq> None"
    and recycles: "inv s \<Longrightarrow> inv (recycle B d s)"

sublocale body_source \<subseteq> body_inv B inv
  by unfold_locales (metis returns option.inject prod.inject)

locale body_contract = body_source +
  assumes final: "inv s \<Longrightarrow> next_frame B s = Some (r, s') \<Longrightarrow> \<not> is_frame r \<Longrightarrow> \<exists>t. next_frame B s' = Some (Ok None, t)"
    and end_stream: "inv s \<Longrightarrow> is_end_stream B s \<Longrightarrow> \<exists>t. next_frame B s = Some (Ok None, t)"
begin

text \<open>After an end or an error every later call ends the body again.\<close>

lemma stays_ended:
  assumes "inv s" "run_body n B s = (fs, Some r, s')"
  shows "inv s' \<and> (\<exists>t. next_frame B s' = Some (Ok None, t))"
  using assms
proof (induction n arbitrary: s fs)
  case (Suc n)
  from Suc.prems(1) obtain q t where q: "next_frame B s = Some (q, t)" "inv t" using returns by blast
  show ?case
  proof (cases "is_frame q")
    case True
    then obtain f where "q = Ok (Some f)" by (auto simp: is_frame_def split: result.splits option.splits)
    with Suc.prems(2) q Suc.IH [OF q(2)] show ?thesis by (auto split: prod.splits)
  next
    case False
    with Suc.prems q have "t = s'" by (auto simp: is_frame_def split: result.splits option.splits)
    with final [OF Suc.prems(1) q(1) False] q(2) show ?thesis by auto
  qed
qed simp

end

text \<open>The size hint bounds what is still to come. The laws speak only of calls that return.\<close>

locale sized_body = body_inv +
  assumes hint: "inv s \<Longrightarrow> \<exists>h. size_hint_of B s = Some h"
    and data: "inv s \<Longrightarrow> next_frame B s = Some (Ok (Some (DataFrame d)), s') \<Longrightarrow>
      size_hint_of B s = Some h \<Longrightarrow> size_hint_of B s' = Some h' \<Longrightarrow>
      unat (sh_lower h) \<le> length (frame_bytes B d) + unat (sh_lower h') \<and>
      (\<forall>u. sh_upper h = Some u \<longrightarrow> (\<exists>u'. sh_upper h' = Some u' \<and> length (frame_bytes B d) + unat u' \<le> unat u))"
    and trailers: "inv s \<Longrightarrow> next_frame B s = Some (Ok (Some (TrailersFrame f)), s') \<Longrightarrow>
      size_hint_of B s = Some h \<Longrightarrow> size_hint_of B s' = Some h' \<Longrightarrow>
      unat (sh_lower h) \<le> unat (sh_lower h') \<and>
      (\<forall>u. sh_upper h = Some u \<longrightarrow> (\<exists>u'. sh_upper h' = Some u' \<and> u' \<le> u))"
    and stop: "inv s \<Longrightarrow> next_frame B s = Some (Ok None, s') \<Longrightarrow> size_hint_of B s = Some h \<Longrightarrow> sh_lower h = 0"
begin

lemma run_upper:
  assumes "inv s" "run_body n B s = (fs, r, s')" "size_hint_of B s = Some h" "sh_upper h = Some u"
  shows "length (payload (frame_bytes B) fs) \<le> unat u"
  using assms
proof (induction n arbitrary: s fs h u)
  case (Suc n)
  show ?case
  proof (cases fs)
    case (Cons f gs)
    with Suc.prems(2) obtain t where t: "next_frame B s = Some (Ok (Some f), t)" "run_body n B t = (gs, r, s')"
      by (auto split: option.splits result.splits prod.splits)
    have inv: "inv t" using keeps Suc.prems(1) t(1) by blast
    then obtain h' where h': "size_hint_of B t = Some h'" using hint by blast
    show ?thesis
      using data [OF Suc.prems(1) _ Suc.prems(3) h'] trailers [OF Suc.prems(1) _ Suc.prems(3) h']
        Suc.IH [OF inv t(2) h'] Suc.prems(4) t(1) Cons
      by (cases f) (fastforce simp: word_le_nat_alt)+
  qed simp
qed simp

lemma run_lower:
  assumes "inv s" "run_body n B s = (fs, Some (Ok ()), s')" "size_hint_of B s = Some h"
  shows "unat (sh_lower h) \<le> length (payload (frame_bytes B) fs)"
  using assms
proof (induction n arbitrary: s fs h)
  case (Suc n)
  show ?case
  proof (cases fs)
    case Nil
    with Suc.prems(2) have "next_frame B s = Some (Ok None, s')"
      by (auto split: option.splits result.splits prod.splits)
    with stop Suc.prems(1,3) Nil show ?thesis by simp
  next
    case (Cons f gs)
    with Suc.prems(2) obtain t where t: "next_frame B s = Some (Ok (Some f), t)" "run_body n B t = (gs, Some (Ok ()), s')"
      by (auto split: option.splits result.splits prod.splits)
    have inv: "inv t" using keeps Suc.prems(1) t(1) by blast
    then obtain h' where h': "size_hint_of B t = Some h'" using hint by blast
    show ?thesis
      using data [OF Suc.prems(1) _ Suc.prems(3) h'] trailers [OF Suc.prems(1) _ Suc.prems(3) h']
        Suc.IH [OF inv t(2) h'] t(1) Cons
      by (cases f) fastforce+
  qed
qed simp

end

locale ordered_body = body_inv +
  assumes trailers_end: "inv s \<Longrightarrow> next_frame B s = Some (Ok (Some (TrailersFrame f)), s') \<Longrightarrow>
      next_frame B s' = Some (r, t) \<Longrightarrow> \<not> is_frame r"
    and announced: "inv s \<Longrightarrow> trailer_hint_of B s = Some TH_None \<Longrightarrow>
      next_frame B s \<noteq> Some (Ok (Some (TrailersFrame f)), s')"
    and hint_kept: "inv s \<Longrightarrow> next_frame B s = Some (Ok (Some (DataFrame d)), s') \<Longrightarrow>
      trailer_hint_of B s = Some TH_None \<Longrightarrow> trailer_hint_of B s' = Some TH_None"
begin

lemma run_ordered:
  assumes "inv s" "run_body n B s = (fs, r, s')"
  shows "trailers_last fs \<and> (trailer_hint_of B s = Some TH_None \<longrightarrow> \<not> has_trailers fs)"
  using assms
proof (induction n arbitrary: s fs)
  case (Suc n)
  show ?case
  proof (cases fs)
    case (Cons f gs)
    with Suc.prems(2) obtain t where t: "next_frame B s = Some (Ok (Some f), t)" "run_body n B t = (gs, r, s')"
      by (auto split: option.splits result.splits prod.splits)
    have inv: "inv t" using keeps Suc.prems(1) t(1) by blast
    show ?thesis
    proof (cases f)
      case (DataFrame d)
      with Suc.IH [OF inv t(2)] hint_kept [OF Suc.prems(1)] t(1) Cons show ?thesis by auto
    next
      case (TrailersFrame x)
      have "gs = []"
      proof (cases n)
        case (Suc k)
        with t(2) trailers_end [OF Suc.prems(1) t(1) [unfolded TrailersFrame]] show ?thesis
          by (fastforce simp: is_frame_def split: option.splits result.splits prod.splits)
      qed (use t(2) in simp)
      with announced [OF Suc.prems(1)] t(1) TrailersFrame Cons show ?thesis by auto
    qed
  qed simp
qed simp

end

section \<open>The empty body and the single-buffer body\<close>

definition empty_body :: "(unit, bytes, 'h, 'e) body_impl" where
  "empty_body =
     \<lparr>next_frame = (\<lambda>s. Some (Ok None, s)), size_hint_of = (\<lambda>_. Some (with_exact 0)),
      trailer_hint_of = (\<lambda>_. Some TH_None), is_end_stream = (\<lambda>_. True),
      recycle = default_recycle, frame_bytes = (\<lambda>b. b)\<rparr>"

datatype 'd full_state = FS_Ready 'd | FS_Done

definition full_next :: "'d full_state \<Rightarrow> ((('d, 'h) frame option, 'e) result \<times> 'd full_state) option" where
  "full_next s = (case s of FS_Ready d \<Rightarrow> Some (Ok (Some (DataFrame d)), FS_Done) | FS_Done \<Rightarrow> Some (Ok None, FS_Done))"

definition full_size_hint :: "('d \<Rightarrow> bytes) \<Rightarrow> 'd full_state \<Rightarrow> size_hint option" where
  "full_size_hint init s =
     Some (with_exact (case s of FS_Ready d \<Rightarrow> word_of_nat (length (init d)) | FS_Done \<Rightarrow> 0))"

definition full_body :: "('d \<Rightarrow> bytes) \<Rightarrow> ('d full_state, 'd, 'h, 'e) body_impl" where
  "full_body init =
     \<lparr>next_frame = full_next, size_hint_of = full_size_hint init,
      trailer_hint_of = (\<lambda>_. Some TH_None),
      is_end_stream = (\<lambda>s. case s of FS_Done \<Rightarrow> True | FS_Ready _ \<Rightarrow> False),
      recycle = default_recycle, frame_bytes = init\<rparr>"

text \<open>A slice is never longer than the address space.\<close>

definition full_inv :: "('d \<Rightarrow> bytes) \<Rightarrow> 'd full_state \<Rightarrow> bool" where
  "full_inv init s = (case s of FS_Ready d \<Rightarrow> length (init d) \<le> USIZE_MAX | FS_Done \<Rightarrow> True)"

interpretation empty: body_contract empty_body "\<lambda>_. True"
  by unfold_locales (auto simp: empty_body_def with_exact_def)

interpretation empty: sized_body empty_body "\<lambda>_. True"
  by unfold_locales (auto simp: empty_body_def with_exact_def)

interpretation empty: ordered_body empty_body "\<lambda>_. True"
  by unfold_locales (auto simp: empty_body_def)

lemmas full_defs = full_body_def full_next_def full_size_hint_def full_inv_def with_exact_def default_recycle_def

interpretation full: body_contract "full_body init" "full_inv init" for init
  by unfold_locales (auto simp: full_defs split: full_state.splits)

interpretation full: sized_body "full_body init" "full_inv init" for init
  by unfold_locales (auto simp: full_defs unat_of_usize split: full_state.splits)

interpretation full: ordered_body "full_body init" "full_inv init" for init
  by unfold_locales (auto simp: full_defs split: full_state.splits)

end
