(* ===== verification/Body_Send.thy ===== *)
theory Body_Send
  imports Send Encode_Laws Body
begin

text \<open>
  The transmitting half of \<open>src/src/proto/h1/body_io.rs\<close>: \<open>send_body\<close> pulls frames from a body,
  frames them with the encoder and writes them, and \<open>map_send_error\<close> classifies its failures.

  The body is any implementation of the trait. What the \<open>async\<close> loop cannot decide is in
  \<open>send_env\<close>: whether the body is pending when it is first polled in a round, and whether the
  caller's token is cancelled before it gives a frame.

  The lemmas show that what reaches the transport is what the encoder makes of the frames of
  the body, a prefix of it when something fails, and that the loop returns for every body
  that ends.
\<close>

section \<open>The driver\<close>

datatype 'e send_body_error = SE_Body 'e | SE_Encode encode_error | SE_Io io_error | SE_Canceled

record send_stats =
  ss_wire_bytes :: u64
  ss_data_frames :: u64
  ss_trailer_frames :: u64

definition send_stats_default :: send_stats where
  "send_stats_default = \<lparr>ss_wire_bytes = 0, ss_data_frames = 0, ss_trailer_frames = 0\<rparr>"

record ('s, 'w) send_env =
  sv_pending :: "'s \<Rightarrow> 'w \<Rightarrow> bool"
  sv_canceled :: "'s \<Rightarrow> 'w \<Rightarrow> bool"

record ('s, 'w) send_state =
  sd_body :: 's
  sd_encoder :: body_encoder
  sd_trailers_sent :: bool
  sd_stats :: send_stats
  sd_pending_output :: bool
  sd_writer :: 'w

text \<open>A body that is not ready gives way to a flush of what was written so far.\<close>

definition flush_pending ::
  "'w writer_api \<Rightarrow> bool \<Rightarrow> ('s, 'w) send_state \<Rightarrow> (unit, io_error) result \<times> ('s, 'w) send_state" where
  "flush_pending W pending st =
     (if pending \<and> sd_pending_output st then
        (case wr_flush W (sd_writer st) of
           (Ok _, w) \<Rightarrow> (Ok (), st\<lparr>sd_writer := w, sd_pending_output := False\<rparr>)
         | (Err e, w) \<Rightarrow> (Err e, st\<lparr>sd_writer := w\<rparr>))
      else (Ok (), st))"

definition add_wire :: "usize \<Rightarrow> ('s, 'w) send_state \<Rightarrow> ('s, 'w) send_state" where
  "add_wire written st =
     st\<lparr>sd_stats := (sd_stats st)\<lparr>ss_wire_bytes := saturating_add (ss_wire_bytes (sd_stats st)) (word_of_nat written)\<rparr>\<rparr>"

text \<open>The branch of a data frame. \<open>recycle\<close> gets the payload back in every outcome.\<close>

definition send_data ::
  "'w writer_api \<Rightarrow> ('s, 'd, 'h, 'e) body_impl \<Rightarrow> 'd \<Rightarrow> ('s, 'w) send_state
     \<Rightarrow> (('s, 'w) send_state + ((send_stats, 'e send_body_error) result \<times> ('s, 'w) send_state)) option" where
  "send_data W B d st =
     (case encoder_data (sd_encoder st) (length (frame_bytes B d)) of
        (Err e, enc) \<Rightarrow> Some (Inr (Err (SE_Encode e), st\<lparr>sd_encoder := enc, sd_body := recycle B d (sd_body st)\<rparr>))
      | (Ok framing, enc) \<Rightarrow>
          (case write_framed W (as_init (df_prefix framing)) (frame_bytes B d) (df_suffix framing) (sd_writer st) of
             None \<Rightarrow> None
           | Some (res, w) \<Rightarrow>
               (let st = st\<lparr>sd_encoder := enc, sd_body := recycle B d (sd_body st), sd_writer := w\<rparr> in
                case res of
                  Err e \<Rightarrow> Some (Inr (Err (SE_Io e), st))
                | Ok written \<Rightarrow>
                    (let st = add_wire written (st\<lparr>sd_pending_output := sd_pending_output st \<or> written \<noteq> 0\<rparr>) in
                     Some (Inl (st\<lparr>sd_stats := (sd_stats st)\<lparr>ss_data_frames := saturating_add (ss_data_frames (sd_stats st)) 1\<rparr>\<rparr>))))))"

definition send_trailers ::
  "('h, 'u) http_api \<Rightarrow> allocator \<Rightarrow> 'w writer_api \<Rightarrow> 'h \<Rightarrow> ('s, 'w) send_state
     \<Rightarrow> (('s, 'w) send_state + ((send_stats, 'e send_body_error) result \<times> ('s, 'w) send_state)) option" where
  "send_trailers A M W trailers st =
     (case encoder_trailers A M (sd_encoder st) trailers of
        (Err e, enc) \<Rightarrow> Some (Inr (Err (SE_Encode e), st\<lparr>sd_encoder := enc\<rparr>))
      | (Ok bytes, enc) \<Rightarrow>
          (case write_all W bytes (sd_writer st) of
             None \<Rightarrow> None
           | Some (res, w) \<Rightarrow>
               (let st = st\<lparr>sd_encoder := enc, sd_writer := w\<rparr> in
                case res of
                  Err e \<Rightarrow> Some (Inr (Err (SE_Io e), st))
                | Ok written \<Rightarrow>
                    (let st = add_wire written (st\<lparr>sd_pending_output := sd_pending_output st \<or> written \<noteq> 0\<rparr>) in
                     Some (Inl (st\<lparr>sd_stats := (sd_stats st)\<lparr>ss_trailer_frames := saturating_add (ss_trailer_frames (sd_stats st)) 1\<rparr>,
                                   sd_trailers_sent := True\<rparr>))))))"

definition send_end ::
  "'w writer_api \<Rightarrow> ('s, 'w) send_state
     \<Rightarrow> (('s, 'w) send_state + ((send_stats, 'e send_body_error) result \<times> ('s, 'w) send_state)) option" where
  "send_end W st =
     (if sd_trailers_sent st then Some (Inr (Ok (sd_stats st), st))
      else
        (case encoder_finish (sd_encoder st) of
           (Err e, enc) \<Rightarrow> Some (Inr (Err (SE_Encode e), st\<lparr>sd_encoder := enc\<rparr>))
         | (Ok bytes, enc) \<Rightarrow>
             (case write_all W bytes (sd_writer st) of
                None \<Rightarrow> None
              | Some (res, w) \<Rightarrow>
                  (let st = st\<lparr>sd_encoder := enc, sd_writer := w\<rparr> in
                   case res of
                     Err e \<Rightarrow> Some (Inr (Err (SE_Io e), st))
                   | Ok written \<Rightarrow>
                       (let st = add_wire written st in Some (Inr (Ok (sd_stats st), st)))))))"

text \<open>One round of the loop of \<open>send_body\<close>.\<close>

definition send_round ::
  "('h, 'u) http_api \<Rightarrow> allocator \<Rightarrow> ('s, 'w) send_env \<Rightarrow> 'w writer_api \<Rightarrow> ('s, 'd, 'h, 'e) body_impl \<Rightarrow> ('s, 'w) send_state
     \<Rightarrow> (('s, 'w) send_state + ((send_stats, 'e send_body_error) result \<times> ('s, 'w) send_state)) option" where
  "send_round A M E W B st =
     (case flush_pending W (sv_pending E (sd_body st) (sd_writer st)) st of
        (Err e, st) \<Rightarrow> Some (Inr (Err (SE_Io e), st))
      | (Ok _, st) \<Rightarrow>
          if sv_canceled E (sd_body st) (sd_writer st) then Some (Inr (Err SE_Canceled, st))
          else
            (case next_frame B (sd_body st) of
               None \<Rightarrow> None
             | Some (next, body) \<Rightarrow>
                 (let st = st\<lparr>sd_body := body\<rparr> in
                  case next of
                    Err e \<Rightarrow> Some (Inr (Err (SE_Body e), st))
                  | Ok None \<Rightarrow> send_end W st
                  | Ok (Some frame) \<Rightarrow>
                      (case into_data frame of
                         Ok d \<Rightarrow> send_data W B d st
                       | Err frame \<Rightarrow>
                           (case into_trailers frame of
                              Err _ \<Rightarrow> None
                            | Ok trailers \<Rightarrow> send_trailers A M W trailers st)))))"

definition send_body ::
  "('h, 'u) http_api \<Rightarrow> allocator \<Rightarrow> ('s, 'w) send_env \<Rightarrow> 'w writer_api \<Rightarrow> ('s, 'd, 'h, 'e) body_impl
     \<Rightarrow> 'w \<Rightarrow> 's \<Rightarrow> body_encoder \<Rightarrow> ((send_stats, 'e send_body_error) result \<times> ('s, 'w) send_state) option" where
  "send_body A M E W B w s enc =
     iterate (send_round A M E W B)
       \<lparr>sd_body = s, sd_encoder = enc, sd_trailers_sent = False, sd_stats = send_stats_default,
        sd_pending_output = True, sd_writer = w\<rparr>"

text \<open>\<open>map_send_error\<close>; the source of a body error is the body's own, named by \<open>describe\<close>.\<close>

definition map_send_error :: "('e \<Rightarrow> string) \<Rightarrow> 'e send_body_error \<Rightarrow> string \<Rightarrow> string \<Rightarrow> error" where
  "map_send_error describe e body canceled =
     (case e of
        SE_Body x \<Rightarrow> with_source KBody body (FromApplication (describe x))
      | SE_Encode x \<Rightarrow> error_from_encode x
      | SE_Io x \<Rightarrow> error_from_io x
      | SE_Canceled \<Rightarrow> error_new KCanceled canceled)"

section \<open>What reaches the wire\<close>

text \<open>The body as the driver runs it, each payload recycled before the next call.\<close>

definition recycling :: "('s, 'd, 'h, 'e) body_impl \<Rightarrow> ('s, 'd, 'h, 'e) body_impl" where
  "recycling B =
     B\<lparr>next_frame := (\<lambda>s. map_option
         (\<lambda>(r, s'). (r, case r of Ok (Some (DataFrame d)) \<Rightarrow> recycle B d s' | _ \<Rightarrow> s')) (next_frame B s))\<rparr>"

text \<open>
  The bytes of a body with frames \<open>fs\<close>, up to the first frame the encoder refuses, and whether
  it refuses none and the body ends without error.
\<close>

fun wire_of ::
  "('h, 'u) http_api \<Rightarrow> allocator \<Rightarrow> ('d \<Rightarrow> bytes) \<Rightarrow> body_encoder \<Rightarrow> bool \<Rightarrow> ('d, 'h) frame list \<Rightarrow> bool \<Rightarrow> bytes \<times> bool" where
  "wire_of A M init enc trailers_sent [] clean =
     (if \<not> clean then ([], False)
      else if trailers_sent then ([], True)
      else (case encoder_finish enc of (Ok v, _) \<Rightarrow> (v, True) | (Err _, _) \<Rightarrow> ([], False)))"
| "wire_of A M init enc trailers_sent (DataFrame d # fs) clean =
     (case encoder_data enc (length (init d)) of
        (Err _, _) \<Rightarrow> ([], False)
      | (Ok f, enc') \<Rightarrow>
          (case wire_of A M init enc' trailers_sent fs clean of
             (v, fine) \<Rightarrow> ((as_init (df_prefix f) @ init d @ df_suffix f) @ v, fine)))"
| "wire_of A M init enc trailers_sent (TrailersFrame t # fs) clean =
     (case encoder_trailers A M enc t of
        (Err _, _) \<Rightarrow> ([], False)
      | (Ok u, enc') \<Rightarrow> (case wire_of A M init enc' True fs clean of (v, fine) \<Rightarrow> (u @ v, fine)))"

text \<open>
  The outcome of a run that has the bytes \<open>fst x\<close> to send and may end well when \<open>snd x\<close>:
  a prefix was accepted, all of it on success, and on a reliable transport success is certain.
\<close>

definition sent_outcome ::
  "('w \<Rightarrow> bytes) \<Rightarrow> bool \<Rightarrow> ('s, 'w) send_state \<Rightarrow> bytes \<times> bool
     \<Rightarrow> (send_stats, 'e send_body_error) result \<times> ('s, 'w) send_state \<Rightarrow> bool" where
  "sent_outcome sent rel st x out \<longleftrightarrow>
     (\<exists>k \<le> length (fst x). sent (sd_writer (snd out)) = sent (sd_writer st) @ take k (fst x)
        \<and> (\<forall>stats. fst out = Ok stats \<longrightarrow> k = length (fst x) \<and> snd x
             \<and> (unat (ss_wire_bytes (sd_stats st)) + k \<le> USIZE_MAX \<longrightarrow>
                  unat (ss_wire_bytes stats) = unat (ss_wire_bytes (sd_stats st)) + k)))
   \<and> (rel \<and> snd x \<longrightarrow> is_ok (fst out))"

lemma sent_outcome_Err:
  assumes "sent (sd_writer st') = sent (sd_writer st) @ take k v" "k \<le> length v" "rel \<longrightarrow> \<not> fine"
  shows "sent_outcome sent rel st (v, fine) (Err e, st')"
  using assms by (auto simp: sent_outcome_def)

text \<open>A round that wrote \<open>u\<close> and went on.\<close>

lemma sent_outcome_step:
  assumes out: "sent_outcome sent rel st1 (v, fine) out" and st1: "sent (sd_writer st1) = sent (sd_writer st) @ u"
    and bytes: "unat (ss_wire_bytes (sd_stats st)) + length u \<le> USIZE_MAX \<longrightarrow>
      unat (ss_wire_bytes (sd_stats st1)) = unat (ss_wire_bytes (sd_stats st)) + length u"
  shows "sent_outcome sent rel st (u @ v, fine) out"
proof -
  obtain k where k: "k \<le> length v" "sent (sd_writer (snd out)) = sent (sd_writer st1) @ take k v"
    "\<And>stats. fst out = Ok stats \<Longrightarrow> k = length v \<and> fine
       \<and> (unat (ss_wire_bytes (sd_stats st1)) + k \<le> USIZE_MAX \<longrightarrow>
            unat (ss_wire_bytes stats) = unat (ss_wire_bytes (sd_stats st1)) + k)"
    using out by (auto simp: sent_outcome_def)
  have "sent (sd_writer (snd out)) = sent (sd_writer st) @ take (length u + k) (u @ v)" using k(2) st1 by simp
  moreover have "length u + k = length (u @ v) \<and> fine \<and> (unat (ss_wire_bytes (sd_stats st)) + (length u + k) \<le> USIZE_MAX \<longrightarrow>
      unat (ss_wire_bytes stats) = unat (ss_wire_bytes (sd_stats st)) + (length u + k))" if "fst out = Ok stats" for stats
    using k(3) [OF that] bytes by simp
  moreover have "rel \<and> fine \<longrightarrow> is_ok (fst out)" using out by (simp add: sent_outcome_def)
  moreover have "length u + k \<le> length (u @ v)" using k(1) by simp
  ultimately show ?thesis unfolding sent_outcome_def fst_conv snd_conv by blast
qed

lemma unat_add_wire:
  "unat (ss_wire_bytes (sd_stats st)) + n \<le> USIZE_MAX \<Longrightarrow>
     unat (ss_wire_bytes (sd_stats (add_wire n st))) = unat (ss_wire_bytes (sd_stats st)) + n"
  by (simp add: add_wire_def unat_saturating_add unat_of_usize)

lemma add_wire_simps [simp]:
  "sd_writer (add_wire n st) = sd_writer st" "sd_body (add_wire n st) = sd_body st"
  "sd_encoder (add_wire n st) = sd_encoder st" "sd_trailers_sent (add_wire n st) = sd_trailers_sent st"
  by (simp_all add: add_wire_def)

text \<open>
  One round after its frame was pulled: it stops with an outcome for the bytes \<open>u\<close> of the
  frame, or has written them and goes on.
\<close>

definition wrote_frame ::
  "('w \<Rightarrow> bytes) \<Rightarrow> bool \<Rightarrow> ('s, 'w) send_state \<Rightarrow> bytes
     \<Rightarrow> (('s, 'w) send_state + ((send_stats, 'e send_body_error) result \<times> ('s, 'w) send_state)) option \<Rightarrow> (('s, 'w) send_state \<Rightarrow> bool) \<Rightarrow> bool" where
  "wrote_frame sent rel st u res next \<longleftrightarrow>
     (\<exists>e st' k. res = Some (Inr (Err e, st')) \<and> \<not> rel \<and> k \<le> length u \<and> sent (sd_writer st') = sent (sd_writer st) @ take k u)
   \<or> (\<exists>st'. res = Some (Inl st') \<and> next st' \<and> sent (sd_writer st') = sent (sd_writer st) @ u
        \<and> (unat (ss_wire_bytes (sd_stats st)) + length u \<le> USIZE_MAX \<longrightarrow>
             unat (ss_wire_bytes (sd_stats st')) = unat (ss_wire_bytes (sd_stats st)) + length u))"

lemma wrote_frame_outcome:
  assumes "wrote_frame sent rel st u (step st0) next" "sd_writer st = sd_writer st0 \<or> sent (sd_writer st) = sent (sd_writer st0)"
    and "sd_stats st = sd_stats st0"
    and "\<And>st'. next st' \<Longrightarrow> \<exists>out. iterate step st' = Some out \<and> sent_outcome sent rel st' (v, fine) out"
  shows "\<exists>out. iterate step st0 = Some out \<and> sent_outcome sent rel st0 (u @ v, fine) out"
proof -
  consider e st' k where "step st0 = Some (Inr (Err e, st'))" "\<not> rel" "k \<le> length u" "sent (sd_writer st') = sent (sd_writer st) @ take k u"
    | st' where "step st0 = Some (Inl st')" "next st'" "sent (sd_writer st') = sent (sd_writer st) @ u"
      "unat (ss_wire_bytes (sd_stats st)) + length u \<le> USIZE_MAX \<longrightarrow>
         unat (ss_wire_bytes (sd_stats st')) = unat (ss_wire_bytes (sd_stats st)) + length u"
    using assms(1) unfolding wrote_frame_def by blast
  then show ?thesis
  proof cases
    case 1
    have "sent_outcome sent rel st0 (u @ v, fine) (Err e, st')"
      by (rule sent_outcome_Err [of _ _ _ k]) (use 1 assms(2) in auto)
    with 1(1) show ?thesis by simp
  next
    case 2
    obtain out where out: "iterate step st' = Some out" "sent_outcome sent rel st' (v, fine) out" using assms(4) [OF 2(2)] by blast
    have "sent_outcome sent rel st0 (u @ v, fine) out"
      by (rule sent_outcome_step [OF out(2)]) (use 2 assms(2,3) in auto)
    with 2(1) out(1) show ?thesis by simp
  qed
qed

lemma flush_pending_keeps:
  assumes "writer_laws W sent" "flush_pending W pending st = (res, st')"
  shows "sent (sd_writer st') = sent (sd_writer st) \<and> sd_body st' = sd_body st \<and> sd_encoder st' = sd_encoder st
    \<and> sd_trailers_sent st' = sd_trailers_sent st \<and> sd_stats st' = sd_stats st \<and> (reliable W \<longrightarrow> is_ok res)"
proof -
  have "sent (snd (wr_flush W (sd_writer st))) = sent (sd_writer st)" "reliable W \<Longrightarrow> is_ok (fst (wr_flush W (sd_writer st)))"
    using assms(1) by (simp_all add: writer_laws_def reliable_def)
  then show ?thesis using assms(2)
    by (auto simp: flush_pending_def split: if_splits prod.splits result.splits)
qed

lemma send_data_wrote:
  assumes "writer_laws W sent" "patient W patience"
    and "encoder_data (sd_encoder st) (length (frame_bytes B d)) = (Ok f, enc)"
    and "rel \<longrightarrow> reliable W \<and> length (as_init (df_prefix f) @ frame_bytes B d @ df_suffix f) \<le> USIZE_MAX"
  shows "wrote_frame sent rel st (as_init (df_prefix f) @ frame_bytes B d @ df_suffix f) (send_data W B d st)
    (\<lambda>st'. sd_body st' = recycle B d (sd_body st) \<and> sd_encoder st' = enc \<and> sd_trailers_sent st' = sd_trailers_sent st)"
proof -
  let ?u = "as_init (df_prefix f) @ frame_bytes B d @ df_suffix f"
  obtain res w where w: "write_framed W (as_init (df_prefix f)) (frame_bytes B d) (df_suffix f) (sd_writer st) = Some (res, w)"
    "wrote sent ?u (sd_writer st) (res, w)" "rel \<longrightarrow> is_ok res"
    using write_framed_wrote [OF assms(1,2), of "as_init (df_prefix f)" "frame_bytes B d" "df_suffix f" "sd_writer st"] assms(4)
    by (metis prod.collapse fst_conv)
  show ?thesis
  proof (cases res)
    case (Ok n)
    with w(2) have "n = length ?u" "sent w = sent (sd_writer st) @ ?u" by (auto simp: wrote_def)
    with Ok w(1) assms(3) show ?thesis
      by (auto simp: send_data_def wrote_frame_def Let_def unat_add_wire)
  next
    case (Err e)
    with w assms(3) show ?thesis by (auto simp: send_data_def wrote_frame_def Let_def wrote_def)
  qed
qed

lemma send_trailers_wrote:
  assumes "writer_laws W sent" "patient W patience" "encoder_trailers A M (sd_encoder st) t = (Ok u, enc)" "rel \<longrightarrow> reliable W"
  shows "wrote_frame sent rel st u (send_trailers A M W t st)
    (\<lambda>st'. sd_body st' = sd_body st \<and> sd_encoder st' = enc \<and> sd_trailers_sent st')"
proof -
  obtain res w where w: "write_all W u (sd_writer st) = Some (res, w)" "wrote sent u (sd_writer st) (res, w)" "rel \<longrightarrow> is_ok res"
    using write_all_wrote [OF assms(1,2), of u "sd_writer st"] assms(4) by (metis prod.collapse fst_conv)
  show ?thesis
  proof (cases res)
    case (Ok n)
    with w(2) have "n = length u" "sent w = sent (sd_writer st) @ u" by (auto simp: wrote_def)
    with Ok w(1) assms(3) show ?thesis by (auto simp: send_trailers_def wrote_frame_def Let_def unat_add_wire)
  next
    case (Err e)
    with w assms(3) show ?thesis by (auto simp: send_trailers_def wrote_frame_def Let_def wrote_def)
  qed
qed

lemma send_end_outcome:
  assumes "writer_laws W sent" "patient W patience" "rel \<longrightarrow> reliable W"
  shows "\<exists>out. send_end W st = Some (Inr out)
    \<and> sent_outcome sent rel st (wire_of A M init (sd_encoder st) (sd_trailers_sent st) [] True) out"
proof (cases "sd_trailers_sent st")
  case True
  then show ?thesis by (auto simp: send_end_def sent_outcome_def)
next
  case False
  obtain fin enc where fin: "encoder_finish (sd_encoder st) = (fin, enc)" by fastforce
  show ?thesis
  proof (cases fin)
    case (Err e)
    with False fin show ?thesis by (auto simp: send_end_def sent_outcome_def)
  next
    case (Ok u)
    obtain res w where w: "write_all W u (sd_writer st) = Some (res, w)" "wrote sent u (sd_writer st) (res, w)" "rel \<longrightarrow> is_ok res"
      using write_all_wrote [OF assms(1,2), of u "sd_writer st"] assms(3) by (metis prod.collapse fst_conv)
    show ?thesis
    proof (cases res)
      case (Ok n)
      with w(2) have "n = length u" "sent w = sent (sd_writer st) @ u" by (auto simp: wrote_def)
      with Ok w(1) False fin \<open>fin = Ok u\<close> show ?thesis
        by (auto simp: send_end_def sent_outcome_def Let_def unat_add_wire intro!: exI [of _ "length u"])
    next
      case (Err e)
      with w False fin \<open>fin = Ok u\<close> show ?thesis by (auto simp: send_end_def sent_outcome_def Let_def wrote_def)
    qed
  qed
qed

lemma framing_small:
  assumes "encoder_data enc n = (Ok f, enc')"
  shows "length (as_init (df_prefix f)) \<le> 18 \<and> length (df_suffix f) \<le> 2"
proof (cases "be_state enc = BS_Chunked \<and> n \<noteq> 0")
  case True
  note one = encoder_data_Ok [OF assms]
  then obtain b where "chunk_prefix n = Some b" "as_init b = hex_digits n @ [CR, LF]" using chunk_prefix_total by blast
  moreover have "length (hex_digits n) \<le> 16" using one bit_length_le [of n 64] by (simp add: length_hex_digits)
  ultimately show ?thesis using one True by simp
next
  case False
  then show ?thesis using encoder_data_Ok [OF assms] by (auto simp: no_framing_def as_init_def inline_empty_def)
qed

text \<open>The conditions under which success is certain.\<close>

definition reliable_send :: "('s, 'w) send_env \<Rightarrow> 'w writer_api \<Rightarrow> ('s, 'd, 'h, 'e) body_impl \<Rightarrow> bool" where
  "reliable_send E W B \<longleftrightarrow> reliable W \<and> (\<forall>s w. \<not> sv_canceled E s w) \<and> (\<forall>d. length (frame_bytes B d) < 2 ^ 63)"

text \<open>A round either stops before it pulls a frame or acts on the frame it pulled.\<close>

definition act_on ::
  "('h, 'u) http_api \<Rightarrow> allocator \<Rightarrow> 'w writer_api \<Rightarrow> ('s, 'd, 'h, 'e) body_impl \<Rightarrow> (('d, 'h) frame option, 'e) result \<Rightarrow> ('s, 'w) send_state
     \<Rightarrow> (('s, 'w) send_state + ((send_stats, 'e send_body_error) result \<times> ('s, 'w) send_state)) option" where
  "act_on A M W B next st =
     (case next of
        Err e \<Rightarrow> Some (Inr (Err (SE_Body e), st))
      | Ok None \<Rightarrow> send_end W st
      | Ok (Some (DataFrame d)) \<Rightarrow> send_data W B d st
      | Ok (Some (TrailersFrame t)) \<Rightarrow> send_trailers A M W t st)"

lemma act_on_simps [simp]:
  "act_on A M W B (Err e) st = Some (Inr (Err (SE_Body e), st))" "act_on A M W B (Ok None) st = send_end W st"
  "act_on A M W B (Ok (Some (DataFrame d))) st = send_data W B d st"
  "act_on A M W B (Ok (Some (TrailersFrame t))) st = send_trailers A M W t st"
  by (simp_all add: act_on_def)

text \<open>What a flush may change.\<close>

definition same_but_flushed :: "('w \<Rightarrow> bytes) \<Rightarrow> ('s, 'w) send_state \<Rightarrow> ('s, 'w) send_state \<Rightarrow> bool" where
  "same_but_flushed sent st st' \<longleftrightarrow> sent (sd_writer st') = sent (sd_writer st) \<and> sd_encoder st' = sd_encoder st
     \<and> sd_trailers_sent st' = sd_trailers_sent st \<and> sd_stats st' = sd_stats st"

lemma sent_outcome_cong:
  "same_but_flushed sent st st' \<Longrightarrow> sent_outcome sent rel st' x out \<longleftrightarrow> sent_outcome sent rel st x out"
  by (simp add: same_but_flushed_def sent_outcome_def)

lemma send_round_cases:
  fixes B :: "('s, 'd, 'h, 'e) body_impl"
  assumes laws: "writer_laws W sent" and nf: "next_frame B (sd_body st) = Some (nxt, body)"
  shows "(\<exists>e st'. send_round A M E W B st = Some (Inr (Err e, st')) \<and> same_but_flushed sent st st' \<and> \<not> reliable_send E W B)
    \<or> (\<exists>st'. send_round A M E W B st = act_on A M W B nxt st' \<and> same_but_flushed sent st st' \<and> sd_body st' = body)"
proof -
  obtain fr st1 where flush: "flush_pending W (sv_pending E (sd_body st) (sd_writer st)) st = (fr, st1)" by fastforce
  note keeps = flush_pending_keeps [OF laws flush]
  show ?thesis
  proof (cases "is_ok fr \<and> \<not> sv_canceled E (sd_body st1) (sd_writer st1)")
    case True
    then have "send_round A M E W B st = act_on A M W B nxt (st1\<lparr>sd_body := body\<rparr>)"
      using flush nf keeps
      by (auto simp: send_round_def act_on_def into_data_def into_trailers_def is_ok_iff split: result.splits option.splits frame.splits)
    then show ?thesis using keeps by (auto simp: same_but_flushed_def)
  next
    case False
    then show ?thesis using flush keeps
      by (cases fr) (auto simp: send_round_def same_but_flushed_def reliable_send_def)
  qed
qed

lemma stop_outcome:
  assumes "send_round A M E W B st = Some (Inr (Err e, st'))" "sent (sd_writer st') = sent (sd_writer st)" "rel \<longrightarrow> \<not> snd x"
  shows "\<exists>out. iterate (send_round A M E W B) st = Some out \<and> sent_outcome sent rel st x out"
  using assms sent_outcome_Err [of sent st' st 0 "fst x" rel "snd x" e] by simp

text \<open>The driver from \<open>st\<close> on, when the body still gives the frames \<open>fs\<close>.\<close>

definition sends ::
  "('h, 'u) http_api \<Rightarrow> allocator \<Rightarrow> ('s, 'w) send_env \<Rightarrow> 'w writer_api \<Rightarrow> ('s, 'd, 'h, 'e) body_impl
     \<Rightarrow> ('w \<Rightarrow> bytes) \<Rightarrow> ('d, 'h) frame list \<Rightarrow> bool \<Rightarrow> ('s, 'w) send_state \<Rightarrow> bool" where
  "sends A M E W B sent fs clean st \<longleftrightarrow>
     (\<exists>out. iterate (send_round A M E W B) st = Some out \<and> sent_outcome sent (reliable_send E W B) st
        (wire_of A M (frame_bytes B) (sd_encoder st) (sd_trailers_sent st) fs clean) out)"

lemma loop_after_data:
  fixes B :: "('s, 'd, 'h, 'e) body_impl"
  assumes laws: "writer_laws W sent" "patient W patience"
    and rnd: "send_round A M E W B st = send_data W B d st1" "same_but_flushed sent st st1"
    and rest: "\<And>st'. sd_body st' = recycle B d (sd_body st1) \<Longrightarrow> sends A M E W B sent fs clean st'"
  shows "sends A M E W B sent (DataFrame d # fs) clean st"
proof -
  obtain res enc where enc: "encoder_data (sd_encoder st) (length (frame_bytes B d)) = (res, enc)" by fastforce
  show ?thesis
  proof (cases res)
    case (Err e)
    with enc rnd show ?thesis unfolding sends_def
      by (intro stop_outcome [of _ _ _ _ _ _ "SE_Encode e" "st1\<lparr>sd_encoder := enc, sd_body := recycle B d (sd_body st1)\<rparr>"])
        (auto simp: send_data_def same_but_flushed_def)
  next
    case (Ok f)
    let ?u = "as_init (df_prefix f) @ frame_bytes B d @ df_suffix f"
    have "reliable_send E W B \<longrightarrow> reliable W \<and> length ?u \<le> USIZE_MAX"
    proof
      assume rel: "reliable_send E W B"
      then have "length (frame_bytes B d) < 2 ^ 63" "reliable W" by (simp_all add: reliable_send_def)
      with framing_small [OF enc [unfolded Ok]] show "reliable W \<and> length ?u \<le> USIZE_MAX" by simp
    qed
    then have wrote: "wrote_frame sent (reliable_send E W B) st1 ?u (send_round A M E W B st)
        (\<lambda>st'. sd_body st' = recycle B d (sd_body st1) \<and> sd_encoder st' = enc \<and> sd_trailers_sent st' = sd_trailers_sent st)"
      using send_data_wrote [OF laws, of st1 B d f enc "reliable_send E W B"] enc Ok rnd by (simp add: same_but_flushed_def)
    obtain v fine where v: "wire_of A M (frame_bytes B) enc (sd_trailers_sent st) fs clean = (v, fine)" by fastforce
    have go: "\<exists>out. iterate (send_round A M E W B) st' = Some out \<and> sent_outcome sent (reliable_send E W B) st' (v, fine) out"
      if "sd_body st' = recycle B d (sd_body st1) \<and> sd_encoder st' = enc \<and> sd_trailers_sent st' = sd_trailers_sent st" for st'
      using rest [of st', unfolded sends_def] v that by (simp del: split_paired_Ex)
    have "\<exists>out. iterate (send_round A M E W B) st = Some out \<and> sent_outcome sent (reliable_send E W B) st (?u @ v, fine) out"
      by (rule wrote_frame_outcome [where step = "send_round A M E W B" and ?st0.0 = st, OF wrote])
        (use rnd(2) go in \<open>simp_all add: same_but_flushed_def del: split_paired_Ex\<close>)
    with enc Ok v show ?thesis by (simp add: sends_def)
  qed
qed

lemma loop_after_trailers:
  fixes B :: "('s, 'd, 'h, 'e) body_impl"
  assumes laws: "writer_laws W sent" "patient W patience"
    and rnd: "send_round A M E W B st = send_trailers A M W t st1" "same_but_flushed sent st st1"
    and rest: "\<And>st'. sd_body st' = sd_body st1 \<Longrightarrow> sends A M E W B sent fs clean st'"
  shows "sends A M E W B sent (TrailersFrame t # fs) clean st"
proof -
  obtain res enc where enc: "encoder_trailers A M (sd_encoder st) t = (res, enc)" by fastforce
  show ?thesis
  proof (cases res)
    case (Err e)
    with enc rnd show ?thesis unfolding sends_def
      by (intro stop_outcome [of _ _ _ _ _ _ "SE_Encode e" "st1\<lparr>sd_encoder := enc\<rparr>"])
        (auto simp: send_trailers_def same_but_flushed_def)
  next
    case (Ok u)
    have wrote: "wrote_frame sent (reliable_send E W B) st1 u (send_round A M E W B st)
        (\<lambda>st'. sd_body st' = sd_body st1 \<and> sd_encoder st' = enc \<and> sd_trailers_sent st')"
      using send_trailers_wrote [OF laws, of A M st1 t u enc "reliable_send E W B"] enc Ok rnd
      by (simp add: same_but_flushed_def reliable_send_def)
    obtain v fine where v: "wire_of A M (frame_bytes B) enc True fs clean = (v, fine)" by fastforce
    have go: "\<exists>out. iterate (send_round A M E W B) st' = Some out \<and> sent_outcome sent (reliable_send E W B) st' (v, fine) out"
      if "sd_body st' = sd_body st1 \<and> sd_encoder st' = enc \<and> sd_trailers_sent st'" for st'
      using rest [of st', unfolded sends_def] v that by (simp del: split_paired_Ex)
    have "\<exists>out. iterate (send_round A M E W B) st = Some out \<and> sent_outcome sent (reliable_send E W B) st (u @ v, fine) out"
      by (rule wrote_frame_outcome [where step = "send_round A M E W B" and ?st0.0 = st, OF wrote])
        (use rnd(2) go in \<open>simp_all add: same_but_flushed_def del: split_paired_Ex\<close>)
    with enc Ok v show ?thesis by (simp add: sends_def)
  qed
qed

lemma loop_at_end:
  fixes B :: "('s, 'd, 'h, 'e) body_impl" and st :: "('s, 'w) send_state"
  assumes laws: "writer_laws W sent" "patient W patience"
    and rnd: "send_round A M E W B st = send_end W st1" "same_but_flushed sent st st1"
  shows "sends A M E W B sent [] True st"
proof -
  obtain out :: "(send_stats, 'e send_body_error) result \<times> ('s, 'w) send_state" where "send_end W st1 = Some (Inr out)" "sent_outcome sent (reliable_send E W B) st1
      (wire_of A M (frame_bytes B) (sd_encoder st1) (sd_trailers_sent st1) [] True) out"
    using send_end_outcome [OF laws, of "reliable_send E W B" st1 A M "frame_bytes B"] by (auto simp: reliable_send_def)
  then have "iterate (send_round A M E W B) st = Some out \<and> sent_outcome sent (reliable_send E W B) st
      (wire_of A M (frame_bytes B) (sd_encoder st) (sd_trailers_sent st) [] True) out"
    using rnd by (simp add: same_but_flushed_def sent_outcome_cong [OF rnd(2)] del: wire_of.simps)
  then show ?thesis unfolding sends_def by blast
qed

lemma send_loop:
  fixes B :: "('s, 'd, 'h, 'e) body_impl" and st :: "('s, 'w) send_state"
  assumes laws: "writer_laws W sent" "patient W patience"
  shows "run_body n (recycling B) (sd_body st) = (fs, Some r, t) \<Longrightarrow> sends A M E W B sent fs (r = Ok ()) st"
proof (induction n arbitrary: st fs)
  case (Suc n)
  then obtain nxt body where nf: "next_frame B (sd_body st) = Some (nxt, body)"
    by (auto simp: recycling_def split: option.splits)
  from send_round_cases [OF laws(1) nf, of A M E] show ?case
  proof (elim disjE exE conjE)
    fix e st' assume "send_round A M E W B st = Some (Inr (Err e, st'))" "same_but_flushed sent st st'" "\<not> reliable_send E W B"
    then show ?thesis unfolding sends_def by (intro stop_outcome [of _ _ _ _ _ _ e st']) (auto simp: same_but_flushed_def)
  next
    fix st1 assume rnd: "send_round A M E W B st = act_on A M W B nxt st1" "same_but_flushed sent st st1" "sd_body st1 = body"
    consider (error) e where "nxt = Err e" | (ended) "nxt = Ok None"
      | (data) d where "nxt = Ok (Some (DataFrame d))" | (trailers) u where "nxt = Ok (Some (TrailersFrame u))"
      by (metis frame.exhaust option.exhaust result.exhaust)
    then show ?thesis
    proof cases
      case error
      with nf Suc.prems have "fs = []" "r = Err e" by (auto simp: recycling_def)
      with error rnd show ?thesis unfolding sends_def
        by (intro stop_outcome [of _ _ _ _ _ _ "SE_Body e" st1]) (auto simp: same_but_flushed_def)
    next
      case ended
      with nf Suc.prems have "fs = []" "r = Ok ()" by (auto simp: recycling_def)
      with ended rnd loop_at_end [OF laws] show ?thesis by simp
    next
      case (data d)
      with nf Suc.prems obtain fs' where "fs = DataFrame d # fs'" "run_body n (recycling B) (recycle B d body) = (fs', Some r, t)"
        by (auto simp: recycling_def split: prod.splits)
      with data rnd loop_after_data [OF laws _ rnd(2), of A M E B d fs' "r = Ok ()"] Suc.IH show ?thesis by simp
    next
      case (trailers u)
      with nf Suc.prems obtain fs' where "fs = TrailersFrame u # fs'" "run_body n (recycling B) body = (fs', Some r, t)"
        by (auto simp: recycling_def split: prod.splits)
      with trailers rnd loop_after_trailers [OF laws _ rnd(2), of A M E B u fs' "r = Ok ()"] Suc.IH show ?thesis by simp
    qed
  qed
qed simp

section \<open>Properties\<close>

lemma send_body_sends:
  assumes "writer_laws W sent" "patient W patience" "run_body n (recycling B) s = (fs, Some r, t)"
    and "wire_of A M (frame_bytes B) enc False fs (r = Ok ()) = (wire, fine)"
  shows "\<exists>res st k. send_body A M E W B w s enc = Some (res, st) \<and> k \<le> length wire
    \<and> sent (sd_writer st) = sent w @ take k wire
    \<and> (\<forall>stats. res = Ok stats \<longrightarrow> k = length wire \<and> fine
         \<and> (length wire \<le> USIZE_MAX \<longrightarrow> unat (ss_wire_bytes stats) = length wire))
    \<and> (reliable_send E W B \<and> fine \<longrightarrow> is_ok res)"
proof -
  let ?st = "\<lparr>sd_body = s, sd_encoder = enc, sd_trailers_sent = False, sd_stats = send_stats_default,
      sd_pending_output = True, sd_writer = w\<rparr>"
  have "sends A M E W B sent fs (r = Ok ()) ?st"
    using send_loop [OF assms(1,2), of n B ?st fs r t A M E] assms(3) by simp
  then obtain res st where "iterate (send_round A M E W B) ?st = Some (res, st)"
      "sent_outcome sent (reliable_send E W B) ?st (wire, fine) (res, st)"
    using assms(4) unfolding sends_def by auto
  then show ?thesis by (auto simp: send_body_def sent_outcome_def send_stats_default_def)
qed

text \<open>
  C20. What \<open>send_body\<close> puts on the wire is what the encoder makes of the frames of the body,
  in order and once. For every body that ends, whether well or with an error, the driver
  returns; what the transport accepted is a prefix of the encoded frames; it is all of them,
  and the body ended well and the encoder refused nothing, whenever the driver reports
  success, which it does if no write fails and nothing is cancelled. The byte count it
  reports is the length of what was sent.
\<close>

theorem send_body_exact:
  assumes "writer_laws W sent" "patient W patience" "run_body n (recycling B) s = (fs, Some r, t)"
    and "wire_of A M (frame_bytes B) enc False fs (r = Ok ()) = (wire, fine)"
  shows "\<exists>res st k. send_body A M E W B w s enc = Some (res, st) \<and> k \<le> length wire
    \<and> sent (sd_writer st) = sent w @ take k wire
    \<and> (\<forall>stats. res = Ok stats \<longrightarrow> k = length wire \<and> fine
         \<and> (length wire \<le> USIZE_MAX \<longrightarrow> unat (ss_wire_bytes stats) = length wire))
    \<and> (reliable_send E W B \<and> fine \<longrightarrow> is_ok res)"
  by (rule send_body_sends [OF assms])

definition quiet_env :: "('s, 'w) send_env" where
  "quiet_env = \<lparr>sv_pending = (\<lambda>_ _. True), sv_canceled = (\<lambda>_ _. False)\<rparr>"

definition small_full_body :: "(unit full_state, unit, (header_name \<times> bytes) list, unit) body_impl" where
  "small_full_body = full_body (\<lambda>_. [97, 98])"

lemma small_full_body_reliable: "reliable_send quiet_env list_writer small_full_body"
  by (simp add: reliable_send_def quiet_env_def list_writer_reliable small_full_body_def full_body_def)

theorem send_body_exact_witness:
  "\<exists>stats st. send_body alist_http (\<lambda>_ _. True) quiet_env list_writer small_full_body ([], [1, 0, 2]) (FS_Ready ())
      \<lparr>be_state = BS_Chunked, be_max_trailer_bytes = 100, be_title_case_headers = True,
       be_remaining_lower = 0, be_remaining_upper = None, be_trailers = TH_None\<rparr> = Some (Ok stats, st)
    \<and> fst (sd_writer st) = [50, CR, LF, 97, 98, CR, LF, 48, CR, LF, CR, LF] \<and> unat (ss_wire_bytes stats) = 12"
proof -
  let ?enc = "\<lparr>be_state = BS_Chunked, be_max_trailer_bytes = 100, be_title_case_headers = True,
       be_remaining_lower = 0, be_remaining_upper = None, be_trailers = TH_None\<rparr>"
  let ?wire = "[50, CR, LF, 97, 98, CR, LF, 48, CR, LF, CR, LF]"
  have run: "run_body 2 (recycling small_full_body) (FS_Ready ()) = ([DataFrame ()], Some (Ok ()), FS_Done)"
    by (simp add: numeral_2_eq_2 recycling_def small_full_body_def full_body_def full_next_def default_recycle_def)
  have wire: "wire_of alist_http (\<lambda>_ _. True) (frame_bytes small_full_body) ?enc False [DataFrame ()] (Ok () = (Ok () :: (unit, unit) result)) = (?wire, True)"
    by code_simp
  from send_body_exact [OF list_writer_laws list_writer_patient run wire, of quiet_env "([], [1, 0, 2])"] small_full_body_reliable
  show ?thesis by (auto simp: is_ok_iff)
qed

end
