(* ===== verification/Incoming_Data.thy ===== *)
theory Incoming_Data
  imports Vakya_Errors
begin

text \<open>
  The payload segments of received bodies, \<open>IncomingData\<close> of \<open>src/src/body/incoming.rs\<close>, and
  the permit that limits a connection to one managed lease.

  A segment is either owned bytes or a range of a managed receive buffer. \<open>as_ref\<close> is the
  bytes it stands for. An \<open>assert!\<close> or \<open>expect\<close> that fails is \<open>None\<close>. Slicing and advancing
  owned bytes is the \<open>bytes\<close> crate's, a parameter with its documented behaviour as a law.

  The lemmas show that the two storages cannot be told apart: every operation on a segment is
  the operation on the bytes it stands for. The last part shows that the permit is held
  exactly while views of the lease exist.
\<close>

section \<open>Views\<close>

datatype incoming_storage = IS_Bytes bytes | IS_Managed bytes usize usize

datatype bound = Included usize | Excluded usize | Unbounded

record bytes_api =
  bytes_slice :: "bytes \<Rightarrow> bound \<Rightarrow> bound \<Rightarrow> bytes option"
  bytes_advance :: "bytes \<Rightarrow> usize \<Rightarrow> bytes option"

text \<open>\<open>normalize_range\<close>; \<open>None\<close> where it panics.\<close>

definition normalize_range :: "bound \<Rightarrow> bound \<Rightarrow> usize \<Rightarrow> (usize \<times> usize) option" where
  "normalize_range lo hi len =
     (case (case lo of Included s \<Rightarrow> Some s | Excluded s \<Rightarrow> checked_add_usize s 1 | Unbounded \<Rightarrow> Some 0) of
        None \<Rightarrow> None
      | Some start \<Rightarrow>
          (case (case hi of Included e \<Rightarrow> checked_add_usize e 1 | Excluded e \<Rightarrow> Some e | Unbounded \<Rightarrow> Some len) of
             None \<Rightarrow> None
           | Some stop \<Rightarrow> if start \<le> stop \<and> stop \<le> len then Some (start, stop) else None))"

definition slice_of :: "bytes \<Rightarrow> usize \<Rightarrow> usize \<Rightarrow> bytes" where
  "slice_of v start stop = take (stop - start) (drop start v)"

definition as_ref :: "incoming_storage \<Rightarrow> bytes" where
  "as_ref d = (case d of IS_Bytes v \<Rightarrow> v | IS_Managed buffer start stop \<Rightarrow> slice_of buffer start stop)"

definition into_bytes :: "incoming_storage \<Rightarrow> bytes" where
  "into_bytes d = (case d of IS_Bytes v \<Rightarrow> v | IS_Managed buffer start stop \<Rightarrow> slice_of buffer start stop)"

definition data_len :: "incoming_storage \<Rightarrow> usize" where
  "data_len d = (case d of IS_Bytes v \<Rightarrow> length v | IS_Managed _ start stop \<Rightarrow> stop - start)"

definition data_is_empty :: "incoming_storage \<Rightarrow> bool" where
  "data_is_empty d \<longleftrightarrow> data_len d = 0"

definition from_bytes :: "bytes \<Rightarrow> incoming_storage" where
  "from_bytes v = IS_Bytes v"

text \<open>The permit is the shared cell; the result carries its value after the call.\<close>

definition from_managed :: "bytes \<Rightarrow> usize \<Rightarrow> usize \<Rightarrow> bool \<Rightarrow> (incoming_storage, error) result \<times> bool" where
  "from_managed buffer start stop held =
     (if stop < start \<or> length buffer < stop
      then (Err (error_new KInternal ''managed incoming-data view lies outside initialized bytes''), held)
      else if held
      then (Err (error_new KInternal ''connection attempted to transfer multiple managed leases''), True)
      else (Ok (IS_Managed buffer start stop), True))"

definition data_slice :: "bytes_api \<Rightarrow> incoming_storage \<Rightarrow> bound \<Rightarrow> bound \<Rightarrow> incoming_storage option" where
  "data_slice Y d lo hi =
     (case d of
        IS_Bytes v \<Rightarrow> map_option from_bytes (bytes_slice Y v lo hi)
      | IS_Managed buffer start stop \<Rightarrow>
          map_option (\<lambda>(s, e). IS_Managed buffer (start + s) (start + e)) (normalize_range lo hi (stop - start)))"

definition data_advance :: "bytes_api \<Rightarrow> incoming_storage \<Rightarrow> usize \<Rightarrow> incoming_storage option" where
  "data_advance Y d count =
     (case d of
        IS_Bytes v \<Rightarrow> map_option IS_Bytes (bytes_advance Y v count)
      | IS_Managed buffer start stop \<Rightarrow>
          if count \<le> stop - start then Some (IS_Managed buffer (start + count) stop) else None)"

section \<open>Views as byte strings\<close>

text \<open>Documented behaviour of the \<open>bytes\<close> crate: a range outside the buffer panics.\<close>

definition bytes_laws :: "bytes_api \<Rightarrow> bool" where
  "bytes_laws Y \<longleftrightarrow>
     (\<forall>v lo hi. bytes_slice Y v lo hi = map_option (\<lambda>(s, e). slice_of v s e) (normalize_range lo hi (length v)))
   \<and> (\<forall>v n. bytes_advance Y v n = (if n \<le> length v then Some (drop n v) else None))"

definition list_bytes_api :: bytes_api where
  "list_bytes_api =
     \<lparr>bytes_slice = (\<lambda>v lo hi. map_option (\<lambda>(s, e). slice_of v s e) (normalize_range lo hi (length v))),
      bytes_advance = (\<lambda>v n. if n \<le> length v then Some (drop n v) else None)\<rparr>"

lemma list_bytes_laws: "bytes_laws list_bytes_api"
  by (simp add: bytes_laws_def list_bytes_api_def)

definition view_ok :: "incoming_storage \<Rightarrow> bool" where
  "view_ok d = (case d of IS_Bytes _ \<Rightarrow> True | IS_Managed buffer start stop \<Rightarrow> start \<le> stop \<and> stop \<le> length buffer)"

lemma normalize_range_bounds:
  "normalize_range lo hi len = Some (s, e) \<Longrightarrow> s \<le> e \<and> e \<le> len"
  by (auto simp: normalize_range_def split: option.splits if_splits)

lemma data_len_as_ref: "view_ok d \<Longrightarrow> data_len d = length (as_ref d)"
  by (auto simp: view_ok_def data_len_def as_ref_def slice_of_def split: incoming_storage.splits)

lemma slice_slice:
  "e \<le> stop - start \<Longrightarrow> slice_of (slice_of v start stop) s e = slice_of v (start + s) (start + e)"
  by (simp add: slice_of_def drop_take min_def add.commute)

lemma from_managed_view:
  "from_managed buffer start stop held = (Ok d, held') \<Longrightarrow>
   view_ok d \<and> as_ref d = slice_of buffer start stop \<and> \<not> held \<and> held'"
  by (auto simp: from_managed_def view_ok_def as_ref_def split: if_splits)

section \<open>The lease permit\<close>

text \<open>
  \<open>ManagedLeasePermit\<close> and the reference-counted leases that hold it. A lease is the number
  of its views; \<open>share\<close> is a clone or a slice, \<open>release\<close> drops or copies out a view, and the
  last release drops the lease.
\<close>

definition permit_new :: bool where
  "permit_new = False"

text \<open>Drop of a lease: whether the permit was held (the \<open>debug_assert!\<close>), and its new value.\<close>

definition managed_incoming_drop :: "bool \<Rightarrow> bool \<times> bool" where
  "managed_incoming_drop held = (held, False)"

record lease_state =
  ls_held :: bool
  ls_leases :: "nat list"

inductive lease_step :: "lease_state \<Rightarrow> lease_state \<Rightarrow> bool" where
  transfer: "from_managed buffer start stop (ls_held l) = (Ok d, held) \<Longrightarrow>
    lease_step l (l\<lparr>ls_held := held, ls_leases := 1 # ls_leases l\<rparr>)"
| refused: "from_managed buffer start stop (ls_held l) = (Err e, held) \<Longrightarrow> lease_step l (l\<lparr>ls_held := held\<rparr>)"
| share: "i < length (ls_leases l) \<Longrightarrow> lease_step l (l\<lparr>ls_leases := (ls_leases l)[i := Suc (ls_leases l ! i)]\<rparr>)"
| release: "i < length (ls_leases l) \<Longrightarrow> 1 < ls_leases l ! i \<Longrightarrow>
    lease_step l (l\<lparr>ls_leases := (ls_leases l)[i := ls_leases l ! i - 1]\<rparr>)"
| release_last: "i < length (ls_leases l) \<Longrightarrow> ls_leases l ! i = 1 \<Longrightarrow>
    lease_step l (l\<lparr>ls_held := snd (managed_incoming_drop (ls_held l)),
                    ls_leases := take i (ls_leases l) @ drop (Suc i) (ls_leases l)\<rparr>)"

inductive_cases lease_stepE: "lease_step l l'"

definition lease_init :: lease_state where
  "lease_init = \<lparr>ls_held = permit_new, ls_leases = []\<rparr>"

definition lease_inv :: "lease_state \<Rightarrow> bool" where
  "lease_inv l \<longleftrightarrow> (if ls_held l then \<exists>n > 0. ls_leases l = [n] else ls_leases l = [])"

lemma lease_step_inv: "lease_step l l' \<Longrightarrow> lease_inv l \<Longrightarrow> lease_inv l'"
  by (erule lease_stepE)
    (auto simp: lease_inv_def from_managed_def managed_incoming_drop_def split: if_splits)

interpretation lease: step_invariant lease_step lease_inv
  by unfold_locales (rule lease_step_inv)

section \<open>Properties\<close>



text \<open>
  A connection has at most one managed lease in the hands of the application, its permit
  is held exactly while views of that lease exist, and the permit is held whenever a lease is
  dropped, so the \<open>debug_assert!\<close> never fails.
\<close>

theorem one_lease:
  assumes "lease_step\<^sup>*\<^sup>* lease_init l"
  shows "length (ls_leases l) \<le> 1 \<and> (ls_held l \<longleftrightarrow> ls_leases l \<noteq> [])
    \<and> (ls_leases l \<noteq> [] \<longrightarrow> fst (managed_incoming_drop (ls_held l)))"
proof -
  have "lease_inv l"
    by (rule lease.keeps_star [OF assms]) (simp add: lease_inv_def lease_init_def permit_new_def)
  then show ?thesis by (auto simp: lease_inv_def managed_incoming_drop_def split: if_splits)
qed

theorem one_lease_witness:
  "lease_step\<^sup>*\<^sup>* lease_init \<lparr>ls_held = True, ls_leases = [1]\<rparr> \<and> length [1 :: nat] \<le> 1"
proof -
  have "lease_step lease_init \<lparr>ls_held = True, ls_leases = [1]\<rparr>"
    using lease_step.transfer [of "[7]" 0 1 lease_init "IS_Managed [7] 0 1" True]
    by (simp add: lease_init_def permit_new_def from_managed_def)
  then have "lease_step\<^sup>*\<^sup>* lease_init \<lparr>ls_held = True, ls_leases = [1]\<rparr>" by blast
  with one_lease [OF this] show ?thesis by simp
qed

end
