(* ===== verification/Pipe.thy ===== *)
theory Pipe
  imports Body_Types "HOL-Library.Multiset" "HOL-Library.Sublist"
begin

text \<open>
  The capacity-one rendezvous between a connection and the body it hands out, from
  \<open>src/src/body/pipe.rs\<close>. Every \<open>poll\<close> and every \<open>Drop\<close> is a function on the shared cell that
  returns the wakers it wakes. \<open>pipe_step\<close> lets the two endpoints take these actions in any
  order that Rust's borrows allow: a future borrows its endpoint, so an endpoint has at most
  one, and an endpoint with a live future cannot be dropped or consumed.

  A waker is a number; \<open>will_wake\<close> is equality. An \<open>unreachable!\<close> of the source is the poll
  result \<open>Unreachable\<close>.

  The invariant over all reachable states shows that no \<open>unreachable!\<close> is reached, that no
  item is lost or duplicated or reordered, and that no wake-up is lost.
\<close>

section \<open>The shared cell\<close>

type_synonym waker = nat

datatype ('t, 'e) pipe_state =
    PS_Idle | PS_Demanded | PS_Offered 't | PS_Closed | PS_Disconnected | PS_Failed 'e
  | PS_Abandoned "'t option"

datatype endpoint_lifecycle = EL_Active | EL_Complete

record ('t, 'e, 'p) pipe =
  pp_state :: "('t, 'e) pipe_state"
  pp_producer_waker :: "waker option"
  pp_consumer_waker :: "waker option"
  pp_policy :: 'p

definition channel_with_policy :: "'p \<Rightarrow> ('t, 'e, 'p) pipe" where
  "channel_with_policy policy =
     \<lparr>pp_state = PS_Idle, pp_producer_waker = None, pp_consumer_waker = None, pp_policy = policy\<rparr>"

datatype 'a poll = Pending | Ready 'a | Unreachable

datatype demand_error = DE_Abandoned | DE_Closed
datatype 't offer_error = OE_Abandoned 't | OE_Closed 't
datatype 'e take_error = TE_Failed 'e | TE_Disconnected
datatype 't offer_lifecycle = OL_Pending 't | OL_Submitted

definition replace_waker :: "waker option \<Rightarrow> waker \<Rightarrow> waker option" where
  "replace_waker slot w =
     (if (case slot of None \<Rightarrow> True | Some registered \<Rightarrow> registered \<noteq> w) then Some w else slot)"

lemma replace_waker_Some [simp]: "replace_waker slot w = Some w"
  by (auto simp: replace_waker_def split: option.splits)

definition wake_one :: "waker option \<Rightarrow> waker list" where
  "wake_one w = (case w of None \<Rightarrow> [] | Some x \<Rightarrow> [x])"

section \<open>The producer\<close>

definition is_abandoned :: "('t, 'e, 'p) pipe \<Rightarrow> bool" where
  "is_abandoned s = (case pp_state s of PS_Abandoned _ \<Rightarrow> True | _ \<Rightarrow> False)"

text \<open>\<open>Producer::finish\<close>; \<open>None\<close> is its \<open>unreachable!\<close>.\<close>

definition producer_finish ::
  "endpoint_lifecycle \<Rightarrow> ('t, 'e) pipe_state \<Rightarrow> ('t, 'e, 'p) pipe
     \<Rightarrow> (endpoint_lifecycle \<times> ('t, 'e, 'p) pipe \<times> waker list) option" where
  "producer_finish life terminal s =
     (if life = EL_Complete then Some (life, s, [])
      else
        (case pp_state s of
           PS_Offered _ \<Rightarrow> None
         | PS_Idle \<Rightarrow> Some (EL_Complete, s\<lparr>pp_state := terminal, pp_consumer_waker := None\<rparr>, wake_one (pp_consumer_waker s))
         | PS_Demanded \<Rightarrow> Some (EL_Complete, s\<lparr>pp_state := terminal, pp_consumer_waker := None\<rparr>, wake_one (pp_consumer_waker s))
         | _ \<Rightarrow> Some (EL_Complete, s, [])))"

definition producer_close ::
  "endpoint_lifecycle \<Rightarrow> ('t, 'e, 'p) pipe \<Rightarrow> (endpoint_lifecycle \<times> ('t, 'e, 'p) pipe \<times> waker list) option" where
  "producer_close life s = producer_finish life PS_Closed s"

definition producer_fail ::
  "endpoint_lifecycle \<Rightarrow> 'e \<Rightarrow> ('t, 'e, 'p) pipe
     \<Rightarrow> (endpoint_lifecycle \<times> ('t, 'e, 'p) pipe \<times> waker list) option" where
  "producer_fail life e s = producer_finish life (PS_Failed e) s"

definition producer_drop ::
  "endpoint_lifecycle \<Rightarrow> ('t, 'e, 'p) pipe \<Rightarrow> (endpoint_lifecycle \<times> ('t, 'e, 'p) pipe \<times> waker list) option" where
  "producer_drop life s =
     (if life = EL_Active then producer_finish life PS_Disconnected s else Some (life, s, []))"

definition demand_poll :: "waker \<Rightarrow> ('t, 'e, 'p) pipe \<Rightarrow> (unit, demand_error) result poll \<times> ('t, 'e, 'p) pipe" where
  "demand_poll w s =
     (case pp_state s of
        PS_Demanded \<Rightarrow> (Ready (Ok ()), s)
      | PS_Idle \<Rightarrow> (Pending, s\<lparr>pp_producer_waker := replace_waker (pp_producer_waker s) w\<rparr>)
      | PS_Abandoned _ \<Rightarrow> (Ready (Err DE_Abandoned), s)
      | PS_Offered _ \<Rightarrow> (Ready (Ok ()), s)
      | _ \<Rightarrow> (Ready (Err DE_Closed), s))"

definition demand_drop :: "('t, 'e, 'p) pipe \<Rightarrow> ('t, 'e, 'p) pipe" where
  "demand_drop s = s\<lparr>pp_producer_waker := None\<rparr>"

definition offer_poll ::
  "waker \<Rightarrow> 't offer_lifecycle \<Rightarrow> ('t, 'e, 'p) pipe
     \<Rightarrow> (unit, 't offer_error) result poll \<times> ('t, 'e, 'p) pipe \<times> waker list" where
  "offer_poll w life s =
     (case life of
        OL_Pending item \<Rightarrow>
          (case pp_state s of
             PS_Abandoned _ \<Rightarrow> (Ready (Err (OE_Abandoned item)), s, [])
           | PS_Offered _ \<Rightarrow> (Unreachable, s, [])
           | PS_Closed \<Rightarrow> (Ready (Err (OE_Closed item)), s, [])
           | PS_Disconnected \<Rightarrow> (Ready (Err (OE_Closed item)), s, [])
           | PS_Failed _ \<Rightarrow> (Ready (Err (OE_Closed item)), s, [])
           | _ \<Rightarrow> (Pending,
                    s\<lparr>pp_state := PS_Offered item,
                      pp_producer_waker := replace_waker (pp_producer_waker s) w,
                      pp_consumer_waker := None\<rparr>,
                    wake_one (pp_consumer_waker s)))
      | OL_Submitted \<Rightarrow>
          (case pp_state s of
             PS_Offered _ \<Rightarrow> (Pending, s\<lparr>pp_producer_waker := replace_waker (pp_producer_waker s) w\<rparr>, [])
           | PS_Idle \<Rightarrow> (Ready (Ok ()), s, [])
           | PS_Demanded \<Rightarrow> (Ready (Ok ()), s, [])
           | PS_Abandoned (Some item) \<Rightarrow> (Ready (Err (OE_Abandoned item)), s\<lparr>pp_state := PS_Abandoned None\<rparr>, [])
           | PS_Abandoned None \<Rightarrow> (Ready (Ok ()), s, [])
           | _ \<Rightarrow> (Unreachable, s, [])))"

text \<open>The item an abandoned or withdrawn offer gives back to be dropped is part of the result.\<close>

definition offer_drop ::
  "'t offer_lifecycle \<Rightarrow> ('t, 'e, 'p) pipe \<Rightarrow> 't option \<times> ('t, 'e, 'p) pipe \<times> waker list" where
  "offer_drop life s =
     (let s = s\<lparr>pp_producer_waker := None\<rparr> in
      case life of
        OL_Pending item \<Rightarrow> (Some item, s, [])
      | OL_Submitted \<Rightarrow>
          (case pp_state s of
             PS_Offered item \<Rightarrow> (Some item, s\<lparr>pp_state := PS_Idle, pp_consumer_waker := None\<rparr>, wake_one (pp_consumer_waker s))
           | PS_Abandoned item \<Rightarrow> (item, s\<lparr>pp_state := PS_Abandoned None\<rparr>, [])
           | _ \<Rightarrow> (None, s, [])))"

definition abandoned_poll :: "waker \<Rightarrow> ('t, 'e, 'p) pipe \<Rightarrow> unit poll \<times> ('t, 'e, 'p) pipe" where
  "abandoned_poll w s =
     (if is_abandoned s then (Ready (), s)
      else (Pending, s\<lparr>pp_producer_waker := replace_waker (pp_producer_waker s) w\<rparr>))"

definition abandoned_drop :: "('t, 'e, 'p) pipe \<Rightarrow> ('t, 'e, 'p) pipe" where
  "abandoned_drop s = s\<lparr>pp_producer_waker := None\<rparr>"

section \<open>The consumer\<close>

definition take_poll ::
  "waker \<Rightarrow> endpoint_lifecycle \<Rightarrow> ('t, 'e, 'p) pipe
     \<Rightarrow> ('t option, 'e take_error) result poll \<times> endpoint_lifecycle \<times> ('t, 'e, 'p) pipe \<times> waker list" where
  "take_poll w life s =
     (case pp_state s of
        PS_Offered item \<Rightarrow>
          (Ready (Ok (Some item)), life, s\<lparr>pp_state := PS_Idle, pp_producer_waker := None\<rparr>, wake_one (pp_producer_waker s))
      | PS_Closed \<Rightarrow> (Ready (Ok None), EL_Complete, s, [])
      | PS_Failed e \<Rightarrow> (Ready (Err (TE_Failed e)), EL_Complete, s\<lparr>pp_state := PS_Closed\<rparr>, [])
      | PS_Disconnected \<Rightarrow> (Ready (Err TE_Disconnected), EL_Complete, s\<lparr>pp_state := PS_Closed\<rparr>, [])
      | PS_Abandoned _ \<Rightarrow> (Unreachable, life, s, [])
      | _ \<Rightarrow> (Pending, life,
               s\<lparr>pp_state := PS_Demanded,
                 pp_consumer_waker := replace_waker (pp_consumer_waker s) w,
                 pp_producer_waker := None\<rparr>,
               wake_one (pp_producer_waker s)))"

definition take_drop :: "('t, 'e, 'p) pipe \<Rightarrow> ('t, 'e, 'p) pipe" where
  "take_drop s = s\<lparr>pp_consumer_waker := None\<rparr>"

definition consumer_drop :: "endpoint_lifecycle \<Rightarrow> ('t, 'e, 'p) pipe \<Rightarrow> ('t, 'e, 'p) pipe \<times> waker list" where
  "consumer_drop life s =
     (if life = EL_Complete then (s, [])
      else
        (let abandon = (\<lambda>offered. (s\<lparr>pp_state := PS_Abandoned offered, pp_producer_waker := None\<rparr>,
                                   wake_one (pp_producer_waker s))) in
         case pp_state s of
           PS_Offered item \<Rightarrow> abandon (Some item)
         | PS_Abandoned item \<Rightarrow> abandon item
         | PS_Idle \<Rightarrow> abandon None
         | PS_Demanded \<Rightarrow> abandon None
         | _ \<Rightarrow> (s, [])))"

section \<open>Interleavings of the two endpoints\<close>

text \<open>
  What the producer's future is, if it has one, and whether it has completed; the
  consumer's only future is \<open>Take\<close>. The ghost lists record the items submitted, delivered and
  given back; \<open>sy_p_wait\<close> and \<open>sy_c_wait\<close> hold the waker of a future that answered \<open>Pending\<close>
  and has not been woken since.
\<close>

datatype 't producer_op = PO_None | PO_Demand bool | PO_Offer "'t offer_lifecycle" bool | PO_Watch bool

record ('t, 'e, 'p) pipe_sys =
  sy_pipe :: "('t, 'e, 'p) pipe"
  sy_p_alive :: bool
  sy_p_life :: endpoint_lifecycle
  sy_p_op :: "'t producer_op"
  sy_c_alive :: bool
  sy_c_life :: endpoint_lifecycle
  sy_c_op :: "bool option"
  sy_sent :: "'t list"
  sy_received :: "'t list"
  sy_returned :: "'t list"
  sy_p_wait :: "waker option"
  sy_c_wait :: "waker option"

definition pipe_sys_init :: "'p \<Rightarrow> ('t, 'e, 'p) pipe_sys" where
  "pipe_sys_init policy =
     \<lparr>sy_pipe = channel_with_policy policy, sy_p_alive = True, sy_p_life = EL_Active, sy_p_op = PO_None,
      sy_c_alive = True, sy_c_life = EL_Active, sy_c_op = None,
      sy_sent = [], sy_received = [], sy_returned = [], sy_p_wait = None, sy_c_wait = None\<rparr>"

text \<open>Waking a task ends the wait of every future that was pending on its waker.\<close>

definition unwait :: "waker list \<Rightarrow> waker option \<Rightarrow> waker option" where
  "unwait ws x = (case x of Some w \<Rightarrow> if w \<in> set ws then None else x | None \<Rightarrow> None)"

definition wake :: "waker list \<Rightarrow> ('t, 'e, 'p) pipe_sys \<Rightarrow> ('t, 'e, 'p) pipe_sys" where
  "wake ws y = y\<lparr>sy_p_wait := unwait ws (sy_p_wait y), sy_c_wait := unwait ws (sy_c_wait y)\<rparr>"

definition is_pending :: "'a poll \<Rightarrow> bool" where
  "is_pending r = (case r of Pending \<Rightarrow> True | _ \<Rightarrow> False)"

text \<open>Items a completed offer gives back, and items a completed take delivers.\<close>

definition offer_result_items :: "(unit, 't offer_error) result poll \<Rightarrow> 't list" where
  "offer_result_items r =
     (case r of Ready (Err (OE_Abandoned x)) \<Rightarrow> [x] | Ready (Err (OE_Closed x)) \<Rightarrow> [x] | _ \<Rightarrow> [])"

definition take_result_items :: "('t option, 'e take_error) result poll \<Rightarrow> 't list" where
  "take_result_items r = (case r of Ready (Ok (Some x)) \<Rightarrow> [x] | _ \<Rightarrow> [])"

inductive pipe_step :: "('t, 'e, 'p) pipe_sys \<Rightarrow> ('t, 'e, 'p) pipe_sys \<Rightarrow> bool" where
  start_demand: "sy_p_alive y \<Longrightarrow> sy_p_op y = PO_None \<Longrightarrow> pipe_step y (y\<lparr>sy_p_op := PO_Demand False\<rparr>)"
| start_watch: "sy_p_alive y \<Longrightarrow> sy_p_op y = PO_None \<Longrightarrow> pipe_step y (y\<lparr>sy_p_op := PO_Watch False\<rparr>)"
| start_offer: "sy_p_alive y \<Longrightarrow> sy_p_op y = PO_None \<Longrightarrow>
    pipe_step y (y\<lparr>sy_p_op := PO_Offer (OL_Pending item) False\<rparr>)"
| poll_demand: "sy_p_op y = PO_Demand False \<Longrightarrow> demand_poll w (sy_pipe y) = (r, s) \<Longrightarrow>
    pipe_step y (y\<lparr>sy_pipe := s, sy_p_op := PO_Demand (\<not> is_pending r),
                   sy_p_wait := (if is_pending r then Some w else None)\<rparr>)"
| poll_watch: "sy_p_op y = PO_Watch False \<Longrightarrow> abandoned_poll w (sy_pipe y) = (r, s) \<Longrightarrow>
    pipe_step y (y\<lparr>sy_pipe := s, sy_p_op := PO_Watch (\<not> is_pending r),
                   sy_p_wait := (if is_pending r then Some w else None)\<rparr>)"
| poll_offer: "sy_p_op y = PO_Offer life False \<Longrightarrow> offer_poll w life (sy_pipe y) = (r, s, ws) \<Longrightarrow>
    pipe_step y ((wake ws y)\<lparr>sy_pipe := s, sy_p_op := PO_Offer OL_Submitted (\<not> is_pending r),
                   sy_sent := sy_sent y @ (case life of OL_Pending x \<Rightarrow> [x] | OL_Submitted \<Rightarrow> []),
                   sy_returned := sy_returned y @ offer_result_items r,
                   sy_p_wait := (if is_pending r then Some w else None)\<rparr>)"
| drop_demand: "sy_p_op y = PO_Demand b \<Longrightarrow>
    pipe_step y (y\<lparr>sy_pipe := demand_drop (sy_pipe y), sy_p_op := PO_None, sy_p_wait := None\<rparr>)"
| drop_watch: "sy_p_op y = PO_Watch b \<Longrightarrow>
    pipe_step y (y\<lparr>sy_pipe := abandoned_drop (sy_pipe y), sy_p_op := PO_None, sy_p_wait := None\<rparr>)"
| drop_offer: "sy_p_op y = PO_Offer life b \<Longrightarrow> offer_drop life (sy_pipe y) = (item, s, ws) \<Longrightarrow>
    pipe_step y ((wake ws y)\<lparr>sy_pipe := s, sy_p_op := PO_None,
                   sy_returned := sy_returned y @ (case (life, item) of (OL_Submitted, Some x) \<Rightarrow> [x] | _ \<Rightarrow> []),
                   sy_p_wait := None\<rparr>)"
| close: "sy_p_alive y \<Longrightarrow> sy_p_op y = PO_None \<Longrightarrow> producer_close (sy_p_life y) (sy_pipe y) = Some (l, s, ws) \<Longrightarrow>
    pipe_step y ((wake ws y)\<lparr>sy_pipe := s, sy_p_life := l, sy_p_alive := False\<rparr>)"
| fail: "sy_p_alive y \<Longrightarrow> sy_p_op y = PO_None \<Longrightarrow> producer_fail (sy_p_life y) e (sy_pipe y) = Some (l, s, ws) \<Longrightarrow>
    pipe_step y ((wake ws y)\<lparr>sy_pipe := s, sy_p_life := l, sy_p_alive := False\<rparr>)"
| drop_producer: "sy_p_alive y \<Longrightarrow> sy_p_op y = PO_None \<Longrightarrow> producer_drop (sy_p_life y) (sy_pipe y) = Some (l, s, ws) \<Longrightarrow>
    pipe_step y ((wake ws y)\<lparr>sy_pipe := s, sy_p_life := l, sy_p_alive := False\<rparr>)"
| start_take: "sy_c_alive y \<Longrightarrow> sy_c_op y = None \<Longrightarrow> pipe_step y (y\<lparr>sy_c_op := Some False\<rparr>)"
| poll_take: "sy_c_op y = Some False \<Longrightarrow> take_poll w (sy_c_life y) (sy_pipe y) = (r, l, s, ws) \<Longrightarrow>
    pipe_step y ((wake ws y)\<lparr>sy_pipe := s, sy_c_life := l, sy_c_op := Some (\<not> is_pending r),
                   sy_received := sy_received y @ take_result_items r,
                   sy_c_wait := (if is_pending r then Some w else None)\<rparr>)"
| drop_take: "sy_c_op y = Some b \<Longrightarrow>
    pipe_step y (y\<lparr>sy_pipe := take_drop (sy_pipe y), sy_c_op := None, sy_c_wait := None\<rparr>)"
| drop_consumer: "sy_c_alive y \<Longrightarrow> sy_c_op y = None \<Longrightarrow> consumer_drop (sy_c_life y) (sy_pipe y) = (s, ws) \<Longrightarrow>
    pipe_step y ((wake ws y)\<lparr>sy_pipe := s, sy_c_alive := False\<rparr>)"

definition pipe_reachable :: "'p \<Rightarrow> ('t, 'e, 'p) pipe_sys \<Rightarrow> bool" where
  "pipe_reachable policy y \<longleftrightarrow> pipe_step\<^sup>*\<^sup>* (pipe_sys_init policy) y"

section \<open>The invariant\<close>

definition inflight :: "('t, 'e) pipe_state \<Rightarrow> 't list" where
  "inflight st = (case st of PS_Offered x \<Rightarrow> [x] | PS_Abandoned (Some x) \<Rightarrow> [x] | _ \<Rightarrow> [])"

definition is_terminal :: "('t, 'e) pipe_state \<Rightarrow> bool" where
  "is_terminal st = (case st of PS_Closed \<Rightarrow> True | PS_Disconnected \<Rightarrow> True | PS_Failed _ \<Rightarrow> True | _ \<Rightarrow> False)"

text \<open>Who may touch the cell: a future keeps its endpoint, and an item is in the cell only while its offer is live.\<close>

definition pipe_owned :: "('t, 'e, 'p) pipe_sys \<Rightarrow> bool" where
  "pipe_owned y \<longleftrightarrow>
     (sy_p_op y \<noteq> PO_None \<longrightarrow> sy_p_alive y) \<and>
     (sy_c_op y \<noteq> None \<longrightarrow> sy_c_alive y) \<and>
     (sy_p_alive y \<longrightarrow> \<not> is_terminal (pp_state (sy_pipe y))) \<and>
     (is_abandoned (sy_pipe y) \<longrightarrow> \<not> sy_c_alive y) \<and>
     (inflight (pp_state (sy_pipe y)) \<noteq> [] \<longrightarrow> sy_p_op y = PO_Offer OL_Submitted False)"

definition pipe_settled :: "('t, 'e, 'p) pipe_sys \<Rightarrow> 't list \<Rightarrow> bool" where
  "pipe_settled y zs \<longleftrightarrow>
     sy_sent y = zs @ inflight (pp_state (sy_pipe y)) \<and>
     subseq (sy_received y) zs \<and> mset zs = mset (sy_received y) + mset (sy_returned y)"

text \<open>What a future that sleeps waits for, and that the other endpoint holds its waker.\<close>

fun waits_for :: "'t producer_op \<Rightarrow> ('t, 'e) pipe_state \<Rightarrow> bool" where
  "waits_for (PO_Demand False) st \<longleftrightarrow> (case st of PS_Idle \<Rightarrow> True | _ \<Rightarrow> False)"
| "waits_for (PO_Offer OL_Submitted False) st \<longleftrightarrow> (case st of PS_Offered _ \<Rightarrow> True | _ \<Rightarrow> False)"
| "waits_for (PO_Watch False) st \<longleftrightarrow> (case st of PS_Abandoned _ \<Rightarrow> False | _ \<Rightarrow> True)"
| "waits_for _ st \<longleftrightarrow> False"

definition pipe_waits :: "('t, 'e, 'p) pipe_sys \<Rightarrow> bool" where
  "pipe_waits y \<longleftrightarrow>
     (\<forall>w. sy_c_wait y = Some w \<longrightarrow>
        sy_c_op y = Some False \<and> pp_state (sy_pipe y) = PS_Demanded \<and> pp_consumer_waker (sy_pipe y) = Some w) \<and>
     (\<forall>w. sy_p_wait y = Some w \<longrightarrow>
        pp_producer_waker (sy_pipe y) = Some w \<and> waits_for (sy_p_op y) (pp_state (sy_pipe y)))"

lemmas pipe_poll_defs =
  demand_poll_def offer_poll_def abandoned_poll_def take_poll_def demand_drop_def offer_drop_def
  abandoned_drop_def take_drop_def consumer_drop_def producer_close_def producer_fail_def
  producer_drop_def producer_finish_def

lemmas pipe_view_defs = is_abandoned_def inflight_def is_terminal_def is_pending_def wake_def

lemmas pipe_splits = pipe_state.splits option.splits if_splits offer_lifecycle.splits prod.splits

lemma wake_simps [simp]:
  "sy_pipe (wake ws y) = sy_pipe y" "sy_p_alive (wake ws y) = sy_p_alive y"
  "sy_p_op (wake ws y) = sy_p_op y" "sy_c_op (wake ws y) = sy_c_op y"
  "sy_c_alive (wake ws y) = sy_c_alive y" "sy_sent (wake ws y) = sy_sent y"
  "sy_received (wake ws y) = sy_received y" "sy_returned (wake ws y) = sy_returned y"
  "sy_p_wait (wake ws y) = unwait ws (sy_p_wait y)" "sy_c_wait (wake ws y) = unwait ws (sy_c_wait y)"
  by (simp_all add: wake_def)

lemma unwait_Some [simp]: "unwait ws x = Some w \<longleftrightarrow> x = Some w \<and> w \<notin> set ws"
  by (auto simp: unwait_def split: option.splits)

lemma set_wake_one [simp]: "w \<in> set (wake_one x) \<longleftrightarrow> x = Some w"
  by (auto simp: wake_one_def split: option.splits)

lemma pipe_step_owned:
  assumes "pipe_step y z" "pipe_owned y"
  shows "pipe_owned z"
  using assms
proof (cases rule: pipe_step.cases)
qed (auto simp: pipe_owned_def pipe_poll_defs pipe_view_defs Let_def split: pipe_splits)

lemma pipe_step_waits:
  assumes "pipe_step y z" "pipe_owned y" "pipe_waits y"
  shows "pipe_waits z"
  using assms
proof (cases rule: pipe_step.cases)
qed (auto simp: pipe_owned_def pipe_waits_def pipe_poll_defs pipe_view_defs Let_def split: pipe_splits)

lemma pipe_step_settled:
  assumes "pipe_step y z" "pipe_owned y" "pipe_settled y zs"
  shows "\<exists>zs'. pipe_settled z zs'"
  using assms
proof (cases rule: pipe_step.cases)
  case (poll_offer life w r s ws)
  then show ?thesis using assms(2,3)
    by (cases life) (auto simp: pipe_owned_def pipe_settled_def pipe_poll_defs pipe_view_defs offer_result_items_def
        intro: exI [of _ zs] exI [of _ "sy_sent z"] split: pipe_splits)
next
  case (poll_take w r l s ws)
  then show ?thesis using assms(2,3)
    by (auto simp: pipe_owned_def pipe_settled_def pipe_poll_defs pipe_view_defs take_result_items_def
        intro: exI [of _ zs] exI [of _ "sy_sent y"] split: pipe_splits)
next
  case (drop_offer life b item s ws)
  then show ?thesis using assms(2,3)
    by (auto simp: pipe_owned_def pipe_settled_def pipe_poll_defs pipe_view_defs Let_def
        intro: exI [of _ zs] exI [of _ "sy_sent y"] split: pipe_splits)
qed (auto simp: pipe_owned_def pipe_settled_def pipe_poll_defs pipe_view_defs Let_def intro: exI [of _ zs] split: pipe_splits)

definition pipe_inv :: "('t, 'e, 'p) pipe_sys \<Rightarrow> bool" where
  "pipe_inv y \<longleftrightarrow> pipe_owned y \<and> pipe_waits y \<and> (\<exists>zs. pipe_settled y zs)"

interpretation pipe: step_invariant pipe_step pipe_inv
  by unfold_locales (auto simp: pipe_inv_def intro: pipe_step_owned pipe_step_waits pipe_step_settled)

lemma pipe_inv_init: "pipe_inv (pipe_sys_init policy)"
  by (auto simp: pipe_inv_def pipe_owned_def pipe_waits_def pipe_settled_def pipe_sys_init_def channel_with_policy_def
      pipe_view_defs)

lemma pipe_reachable_inv: "pipe_reachable policy y \<Longrightarrow> pipe_inv y"
  unfolding pipe_reachable_def by (rule pipe.keeps_star [OF _ pipe_inv_init])

lemma pipe_reachable_step: "pipe_reachable policy y \<Longrightarrow> pipe_step y z \<Longrightarrow> pipe_reachable policy z"
  unfolding pipe_reachable_def by (rule rtranclp.rtrancl_into_rtrancl)

section \<open>A concrete run\<close>

text \<open>The consumer sleeps in \<open>take\<close>, the producer offers 7, the woken consumer takes it; the offer is not yet polled again.\<close>

definition run_asleep :: "(nat, nat, unit) pipe_sys" where
  "run_asleep =
     \<lparr>sy_pipe = \<lparr>pp_state = PS_Demanded, pp_producer_waker = None, pp_consumer_waker = Some 1, pp_policy = ()\<rparr>,
      sy_p_alive = True, sy_p_life = EL_Active, sy_p_op = PO_None,
      sy_c_alive = True, sy_c_life = EL_Active, sy_c_op = Some False,
      sy_sent = [], sy_received = [], sy_returned = [], sy_p_wait = None, sy_c_wait = Some 1\<rparr>"

definition run_offered :: "(nat, nat, unit) pipe_sys" where
  "run_offered =
     \<lparr>sy_pipe = \<lparr>pp_state = PS_Offered 7, pp_producer_waker = Some 2, pp_consumer_waker = None, pp_policy = ()\<rparr>,
      sy_p_alive = True, sy_p_life = EL_Active, sy_p_op = PO_Offer OL_Submitted False,
      sy_c_alive = True, sy_c_life = EL_Active, sy_c_op = Some False,
      sy_sent = [7], sy_received = [], sy_returned = [], sy_p_wait = Some 2, sy_c_wait = None\<rparr>"

definition run_delivered :: "(nat, nat, unit) pipe_sys" where
  "run_delivered =
     \<lparr>sy_pipe = \<lparr>pp_state = PS_Idle, pp_producer_waker = None, pp_consumer_waker = None, pp_policy = ()\<rparr>,
      sy_p_alive = True, sy_p_life = EL_Active, sy_p_op = PO_Offer OL_Submitted False,
      sy_c_alive = True, sy_c_life = EL_Active, sy_c_op = Some True,
      sy_sent = [7], sy_received = [7], sy_returned = [], sy_p_wait = None, sy_c_wait = None\<rparr>"

lemmas run_defs = run_asleep_def run_offered_def run_delivered_def pipe_sys_init_def channel_with_policy_def
  pipe_view_defs unwait_def wake_one_def

lemma run_asleep_reachable: "pipe_reachable () run_asleep"
proof -
  let ?y = "(pipe_sys_init () :: (nat, nat, unit) pipe_sys)\<lparr>sy_c_op := Some False\<rparr>"
  have "pipe_reachable () ?y"
    by (rule pipe_reachable_step [OF _ pipe_step.start_take]) (simp_all add: pipe_reachable_def run_defs)
  moreover have "pipe_step ?y run_asleep"
    using pipe_step.poll_take [of ?y 1] by (simp add: run_defs take_poll_def replace_waker_def take_result_items_def)
  ultimately show ?thesis by (rule pipe_reachable_step)
qed

lemma run_offered_reachable: "pipe_reachable () run_offered"
proof -
  let ?y = "run_asleep\<lparr>sy_p_op := PO_Offer (OL_Pending 7) False\<rparr>"
  have "pipe_reachable () ?y"
    by (rule pipe_reachable_step [OF run_asleep_reachable pipe_step.start_offer]) (simp_all add: run_defs)
  moreover have "pipe_step ?y run_offered"
    using pipe_step.poll_offer [of ?y "OL_Pending 7" 2]
    by (simp add: run_defs offer_poll_def replace_waker_def offer_result_items_def)
  ultimately show ?thesis by (rule pipe_reachable_step)
qed

lemma run_delivered_reachable: "pipe_reachable () run_delivered"
proof (rule pipe_reachable_step [OF run_offered_reachable])
  show "pipe_step run_offered run_delivered"
    using pipe_step.poll_take [of run_offered 1]
    by (simp add: run_defs take_poll_def replace_waker_def take_result_items_def)
qed

section \<open>Properties\<close>

text \<open>
  No \<open>unreachable!\<close> of the rendezvous is reached, in any interleaving of the two
  endpoints: a live offer and a live take can always be polled, and a producer without a
  future can always be closed, failed or dropped.
\<close>

theorem pipe_no_panic:
  assumes "pipe_reachable policy y"
  shows "(sy_p_op y = PO_Offer ol False \<longrightarrow> fst (offer_poll w ol (sy_pipe y)) \<noteq> Unreachable)
       \<and> (sy_c_op y = Some False \<longrightarrow> fst (take_poll w (sy_c_life y) (sy_pipe y)) \<noteq> Unreachable)
       \<and> (sy_p_alive y \<and> sy_p_op y = PO_None \<longrightarrow> producer_finish life t (sy_pipe y) \<noteq> None)"
  using pipe_reachable_inv [OF assms]
  by (auto simp: pipe_inv_def pipe_owned_def offer_poll_def take_poll_def producer_finish_def pipe_view_defs split: pipe_splits)

theorem pipe_no_panic_witness:
  "fst (offer_poll 5 OL_Submitted (sy_pipe run_offered)) \<noteq> Unreachable
   \<and> fst (take_poll 5 EL_Active (sy_pipe run_offered)) \<noteq> Unreachable"
  using pipe_no_panic [OF run_offered_reachable, of OL_Submitted 5 EL_Active PS_Closed] by (simp add: run_offered_def)

text \<open>
  C8. Every item the producer submitted is exactly one of: delivered, given back to the
  producer, or still in the cell as the last one submitted; the delivered items keep the
  order of submission. Nothing is lost, duplicated or reordered, whichever futures are
  cancelled and whichever endpoint goes first.
\<close>

theorem pipe_exactly_once:
  assumes "pipe_reachable policy y"
  shows "mset (sy_sent y) = mset (sy_received y) + mset (sy_returned y) + mset (inflight (pp_state (sy_pipe y)))
       \<and> subseq (sy_received y @ inflight (pp_state (sy_pipe y))) (sy_sent y)"
  using pipe_reachable_inv [OF assms] by (auto simp: pipe_inv_def pipe_settled_def intro: list_emb_append_mono)

theorem pipe_exactly_once_witness:
  "mset (sy_sent run_delivered) = mset (sy_received run_delivered) + mset (sy_returned run_delivered)
   \<and> subseq [7] (sy_sent run_delivered)"
  using pipe_exactly_once [OF run_delivered_reachable] by (simp add: run_delivered_def inflight_def)

text \<open>
  C27. No wake-up is lost: a future that answered \<open>Pending\<close> and was not woken since would
  still answer \<open>Pending\<close>. The two endpoints never sleep on each other: when both sleep, the
  producer only watches for the consumer to go away.
\<close>

theorem pipe_no_lost_wakeup:
  assumes "pipe_reachable policy y"
  shows "(sy_c_wait y \<noteq> None \<longrightarrow> is_pending (fst (take_poll w (sy_c_life y) (sy_pipe y))))
       \<and> (sy_p_wait y \<noteq> None \<longrightarrow>
            (case sy_p_op y of
               PO_None \<Rightarrow> False
             | PO_Demand _ \<Rightarrow> is_pending (fst (demand_poll w (sy_pipe y)))
             | PO_Offer ol _ \<Rightarrow> is_pending (fst (offer_poll w ol (sy_pipe y)))
             | PO_Watch _ \<Rightarrow> is_pending (fst (abandoned_poll w (sy_pipe y)))))
       \<and> (sy_c_wait y \<noteq> None \<and> sy_p_wait y \<noteq> None \<longrightarrow> sy_p_op y = PO_Watch False)"
  using pipe_reachable_inv [OF assms]
  by (cases "(sy_p_op y, pp_state (sy_pipe y))" rule: waits_for.cases)
     (auto simp: pipe_inv_def pipe_waits_def pipe_poll_defs pipe_view_defs split: pipe_splits)

theorem pipe_no_lost_wakeup_witness:
  "is_pending (fst (take_poll 9 EL_Active (sy_pipe run_asleep)))"
  using pipe_no_lost_wakeup [OF run_asleep_reachable, of 9] by (simp add: run_asleep_def)

end
