(* ===== verification/Body_Adapters.thy ===== *)
theory Body_Adapters
  imports Body
begin

text \<open>
  The body adapters: \<open>Limited\<close> (\<open>src/src/body/limited.rs\<close>), \<open>ExactLength\<close>
  (\<open>src/src/body/exact_length.rs\<close>), \<open>MapData\<close> (\<open>src/src/body/map_data.rs\<close>), \<open>Either\<close>,
  \<open>MapError\<close>, \<open>InspectFrame\<close>, \<open>MapFrame\<close> and \<open>WithTrailers\<close> (\<open>src/src/body/combinator.rs\<close>), and
  the stream conversions of \<open>src/src/body/stream.rs\<close>.

  An adapter is a function from the implementation of its source to an implementation.
  \<open>FnMut\<close> closures are state-passing functions. \<open>Limited\<close> and \<open>ExactLength\<close> enforce
  their bounds against every source, also one that breaks the contract of the trait.
\<close>

section \<open>Limited\<close>

record 's limited_state =
  li_body :: "'s option"
  li_limit :: u64
  li_remaining :: u64
  li_done :: bool

datatype 'e limit_error = LE_Source 'e | LE_LimitExceeded u64

definition limited_new :: "'s \<Rightarrow> u64 \<Rightarrow> 's limited_state" where
  "limited_new body max_bytes = \<lparr>li_body = Some body, li_limit = max_bytes, li_remaining = max_bytes, li_done = False\<rparr>"

definition limited_recycle :: "('s, 'd, 'h, 'e) body_impl \<Rightarrow> 'd \<Rightarrow> 's limited_state \<Rightarrow> 's limited_state" where
  "limited_recycle B d s = (case li_body s of Some b \<Rightarrow> s\<lparr>li_body := Some (recycle B d b)\<rparr> | None \<Rightarrow> s)"

text \<open>The length of a frame that fits what remains.\<close>

definition accepted :: "bytes \<Rightarrow> u64 \<Rightarrow> u64 option" where
  "accepted data remaining =
     (case u64_try_from (length data) of Some n \<Rightarrow> if n \<le> remaining then Some n else None | None \<Rightarrow> None)"

definition limited_next ::
  "('s, 'd, 'h, 'e) body_impl \<Rightarrow> 's limited_state \<Rightarrow> ((('d, 'h) frame option, 'e limit_error) result \<times> 's limited_state) option" where
  "limited_next B s =
     (if li_done s then Some (Ok None, s)
      else
        (case li_body s of
           None \<Rightarrow> None
         | Some b \<Rightarrow>
             (case next_frame B b of
                None \<Rightarrow> None
              | Some (Err e, b') \<Rightarrow> Some (Err (LE_Source e), s\<lparr>li_body := Some b', li_done := True\<rparr>)
              | Some (Ok None, b') \<Rightarrow> Some (Ok None, s\<lparr>li_body := Some b', li_done := True\<rparr>)
              | Some (Ok (Some f), b') \<Rightarrow>
                  (let s = s\<lparr>li_body := Some b'\<rparr> in
                   case data_ref f of
                     None \<Rightarrow> Some (Ok (Some f), s)
                   | Some data \<Rightarrow>
                       (case accepted (frame_bytes B data) (li_remaining s) of
                          None \<Rightarrow>
                            (let s = (case into_data f of Ok d \<Rightarrow> limited_recycle B d s | Err _ \<Rightarrow> s) in
                             Some (Err (LE_LimitExceeded (li_limit s)), s\<lparr>li_done := True, li_body := None\<rparr>))
                        | Some bytes \<Rightarrow> Some (Ok (Some f), s\<lparr>li_remaining := li_remaining s - bytes\<rparr>))))))"

definition limited_size_hint :: "('s, 'd, 'h, 'e) body_impl \<Rightarrow> 's limited_state \<Rightarrow> size_hint option" where
  "limited_size_hint B s =
     (if li_done s then Some (with_exact 0)
      else
        (case li_body s of
           None \<Rightarrow> None
         | Some b \<Rightarrow>
             (case size_hint_of B b of
                None \<Rightarrow> None
              | Some hint \<Rightarrow>
                  (case with_bounds (if sh_lower hint \<le> li_remaining s then sh_lower hint else 0)
                          (Some (min (case sh_upper hint of Some u \<Rightarrow> u | None \<Rightarrow> li_remaining s) (li_remaining s))) of
                     Ok h \<Rightarrow> Some h
                   | Err _ \<Rightarrow> None))))"

definition limited_trailer_hint :: "('s, 'd, 'h, 'e) body_impl \<Rightarrow> 's limited_state \<Rightarrow> trailer_hint option" where
  "limited_trailer_hint B s =
     (if li_done s then Some TH_None
      else (case li_body s of None \<Rightarrow> None | Some b \<Rightarrow> trailer_hint_of B b))"

definition limited :: "('s, 'd, 'h, 'e) body_impl \<Rightarrow> ('s limited_state, 'd, 'h, 'e limit_error) body_impl" where
  "limited B =
     \<lparr>next_frame = limited_next B, size_hint_of = limited_size_hint B, trailer_hint_of = limited_trailer_hint B,
      is_end_stream = li_done, recycle = limited_recycle B, frame_bytes = frame_bytes B\<rparr>"

section \<open>ExactLength\<close>

record 's exact_state =
  el_body :: "'s option"
  el_remaining :: u64
  el_trailers :: trailer_hint
  el_saw_trailers :: bool
  el_done :: bool

datatype 'e exact_length_error =
    EE_Source 'e | EE_TooShort u64 | EE_TooLong u64 usize
  | EE_UnexpectedTrailers | EE_RepeatedTrailers | EE_DataAfterTrailers

definition exact_length_new :: "'s \<Rightarrow> u64 \<Rightarrow> trailer_hint \<Rightarrow> 's exact_state" where
  "exact_length_new body bytes hint =
     \<lparr>el_body = Some body, el_remaining = bytes, el_trailers = hint, el_saw_trailers = False, el_done = False\<rparr>"

definition exact_recycle :: "('s, 'd, 'h, 'e) body_impl \<Rightarrow> 'd \<Rightarrow> 's exact_state \<Rightarrow> 's exact_state" where
  "exact_recycle B d s = (case el_body s of Some b \<Rightarrow> s\<lparr>el_body := Some (recycle B d b)\<rparr> | None \<Rightarrow> s)"

text \<open>The check of one frame: a violation, or the state after the frame.\<close>

definition exact_check ::
  "('s, 'd, 'h, 'e) body_impl \<Rightarrow> ('d, 'h) frame \<Rightarrow> 's exact_state \<Rightarrow> ('s exact_state, 'e exact_length_error) result" where
  "exact_check B f s =
     (case f of
        DataFrame data \<Rightarrow>
          (if el_saw_trailers s then Err EE_DataAfterTrailers
           else
             (case accepted (frame_bytes B data) (el_remaining s) of
                Some bytes \<Rightarrow> Ok (s\<lparr>el_remaining := el_remaining s - bytes\<rparr>)
              | None \<Rightarrow> Err (EE_TooLong (el_remaining s) (length (frame_bytes B data)))))
      | TrailersFrame _ \<Rightarrow>
          (if el_saw_trailers s then Err EE_RepeatedTrailers
           else if el_trailers s = TH_None then Err EE_UnexpectedTrailers
           else Ok (s\<lparr>el_saw_trailers := True\<rparr>)))"

definition exact_next ::
  "('s, 'd, 'h, 'e) body_impl \<Rightarrow> 's exact_state
     \<Rightarrow> ((('d, 'h) frame option, 'e exact_length_error) result \<times> 's exact_state) option" where
  "exact_next B s =
     (if el_done s then Some (Ok None, s)
      else
        (case el_body s of
           None \<Rightarrow> None
         | Some b \<Rightarrow>
             (case next_frame B b of
                None \<Rightarrow> None
              | Some (Err e, b') \<Rightarrow> Some (Err (EE_Source e), s\<lparr>el_body := Some b', el_done := True\<rparr>)
              | Some (Ok None, b') \<Rightarrow>
                  (let s = s\<lparr>el_body := Some b', el_done := True\<rparr> in
                   if el_remaining s \<noteq> 0
                   then Some (Err (EE_TooShort (el_remaining s)), s\<lparr>el_body := None\<rparr>)
                   else Some (Ok None, s))
              | Some (Ok (Some f), b') \<Rightarrow>
                  (let s = s\<lparr>el_body := Some b'\<rparr> in
                   case exact_check B f s of
                     Err e \<Rightarrow>
                       (let s = (case f of DataFrame data \<Rightarrow> exact_recycle B data s | TrailersFrame _ \<Rightarrow> s) in
                        Some (Err e, s\<lparr>el_done := True, el_body := None\<rparr>))
                   | Ok s \<Rightarrow> Some (Ok (Some f), s)))))"

definition exact_length :: "('s, 'd, 'h, 'e) body_impl \<Rightarrow> ('s exact_state, 'd, 'h, 'e exact_length_error) body_impl" where
  "exact_length B =
     \<lparr>next_frame = exact_next B,
      size_hint_of = (\<lambda>s. Some (with_exact (if el_done s then 0 else el_remaining s))),
      trailer_hint_of = (\<lambda>s. Some (if el_done s \<or> el_saw_trailers s then TH_None else el_trailers s)),
      is_end_stream = el_done, recycle = exact_recycle B, frame_bytes = frame_bytes B\<rparr>"

section \<open>Mapping adapters\<close>

text \<open>A wrapper with a terminal flag, as \<open>MapData\<close>, \<open>MapFrame\<close> and \<open>StreamBody\<close> have it.\<close>

record ('s, 'f) mapped_state =
  ma_body :: 's
  ma_map :: 'f
  ma_done :: bool

definition map_data_next ::
  "('s, 'd, 'h, 'e) body_impl \<Rightarrow> ('f \<Rightarrow> 'd \<Rightarrow> 'c \<times> 'f) \<Rightarrow> ('s, 'f) mapped_state
     \<Rightarrow> ((('c, 'h) frame option, 'e) result \<times> ('s, 'f) mapped_state) option" where
  "map_data_next B g s =
     (if ma_done s then Some (Ok None, s)
      else
        (case next_frame B (ma_body s) of
           None \<Rightarrow> None
         | Some (Ok (Some (DataFrame d)), b) \<Rightarrow>
             (case g (ma_map s) d of (c, m) \<Rightarrow> Some (Ok (Some (DataFrame c)), s\<lparr>ma_body := b, ma_map := m\<rparr>))
         | Some (Ok (Some (TrailersFrame t)), b) \<Rightarrow> Some (Ok (Some (TrailersFrame t)), s\<lparr>ma_body := b\<rparr>)
         | Some (Ok None, b) \<Rightarrow> Some (Ok None, s\<lparr>ma_body := b, ma_done := True\<rparr>)
         | Some (Err e, b) \<Rightarrow> Some (Err e, s\<lparr>ma_body := b, ma_done := True\<rparr>)))"

definition map_data ::
  "('s, 'd, 'h, 'e) body_impl \<Rightarrow> ('f \<Rightarrow> 'd \<Rightarrow> 'c \<times> 'f) \<Rightarrow> ('c \<Rightarrow> bytes)
     \<Rightarrow> (('s, 'f) mapped_state, 'c, 'h, 'e) body_impl" where
  "map_data B g init =
     \<lparr>next_frame = map_data_next B g,
      size_hint_of = (\<lambda>s. Some (if ma_done s then with_exact 0 else size_hint_new)),
      trailer_hint_of = (\<lambda>s. if ma_done s then Some TH_None else trailer_hint_of B (ma_body s)),
      is_end_stream = (\<lambda>s. ma_done s \<or> is_end_stream B (ma_body s)),
      recycle = default_recycle, frame_bytes = init\<rparr>"

definition map_frame_next ::
  "('s, 'd, 'h, 'e) body_impl \<Rightarrow> ('f \<Rightarrow> ('d, 'h) frame \<Rightarrow> ('c, 'h) frame \<times> 'f) \<Rightarrow> ('s, 'f) mapped_state
     \<Rightarrow> ((('c, 'h) frame option, 'e) result \<times> ('s, 'f) mapped_state) option" where
  "map_frame_next B g s =
     (if ma_done s then Some (Ok None, s)
      else
        (case next_frame B (ma_body s) of
           None \<Rightarrow> None
         | Some (Ok (Some f), b) \<Rightarrow> (case g (ma_map s) f of (c, m) \<Rightarrow> Some (Ok (Some c), s\<lparr>ma_body := b, ma_map := m\<rparr>))
         | Some (Ok None, b) \<Rightarrow> Some (Ok None, s\<lparr>ma_body := b, ma_done := True\<rparr>)
         | Some (Err e, b) \<Rightarrow> Some (Err e, s\<lparr>ma_body := b, ma_done := True\<rparr>)))"

definition map_frame ::
  "('s, 'd, 'h, 'e) body_impl \<Rightarrow> ('f \<Rightarrow> ('d, 'h) frame \<Rightarrow> ('c, 'h) frame \<times> 'f) \<Rightarrow> ('c \<Rightarrow> bytes)
     \<Rightarrow> (('s, 'f) mapped_state, 'c, 'h, 'e) body_impl" where
  "map_frame B g init =
     \<lparr>next_frame = map_frame_next B g,
      size_hint_of = (\<lambda>s. Some (if ma_done s then with_exact 0 else size_hint_new)),
      trailer_hint_of = (\<lambda>s. Some (if ma_done s then TH_None else TH_MayHave)),
      is_end_stream = ma_done, recycle = default_recycle, frame_bytes = init\<rparr>"

definition map_error ::
  "('s, 'd, 'h, 'e) body_impl \<Rightarrow> ('f \<Rightarrow> 'e \<Rightarrow> 'c \<times> 'f) \<Rightarrow> ('s \<times> 'f, 'd, 'h, 'c) body_impl" where
  "map_error B g =
     \<lparr>next_frame = (\<lambda>(s, m). case next_frame B s of
          None \<Rightarrow> None
        | Some (Ok f, s') \<Rightarrow> Some (Ok f, (s', m))
        | Some (Err e, s') \<Rightarrow> (case g m e of (c, m') \<Rightarrow> Some (Err c, (s', m')))),
      size_hint_of = (\<lambda>(s, m). size_hint_of B s), trailer_hint_of = (\<lambda>(s, m). trailer_hint_of B s),
      is_end_stream = (\<lambda>(s, m). is_end_stream B s), recycle = (\<lambda>d (s, m). (recycle B d s, m)),
      frame_bytes = frame_bytes B\<rparr>"

definition inspect_frame ::
  "('s, 'd, 'h, 'e) body_impl \<Rightarrow> ('f \<Rightarrow> ('d, 'h) frame \<Rightarrow> 'f) \<Rightarrow> ('s \<times> 'f, 'd, 'h, 'e) body_impl" where
  "inspect_frame B g =
     \<lparr>next_frame = (\<lambda>(s, m). case next_frame B s of
          None \<Rightarrow> None
        | Some (Err e, s') \<Rightarrow> Some (Err e, (s', m))
        | Some (Ok (Some f), s') \<Rightarrow> Some (Ok (Some f), (s', g m f))
        | Some (Ok None, s') \<Rightarrow> Some (Ok None, (s', m))),
      size_hint_of = (\<lambda>(s, m). size_hint_of B s), trailer_hint_of = (\<lambda>(s, m). trailer_hint_of B s),
      is_end_stream = (\<lambda>(s, m). is_end_stream B s), recycle = (\<lambda>d (s, m). (recycle B d s, m)),
      frame_bytes = frame_bytes B\<rparr>"

section \<open>Either\<close>

definition map_opt_frame :: "('d \<Rightarrow> 'c) \<Rightarrow> ('d, 'h) frame option \<Rightarrow> ('c, 'h) frame option" where
  "map_opt_frame g f = map_option (frame_map_data g) f"

definition map_ok :: "('a \<Rightarrow> 'b) \<Rightarrow> ('a, 'e) result \<Rightarrow> ('b, 'e) result" where
  "map_ok g r = and_then r (\<lambda>x. Ok (g x))"

definition either_next ::
  "('s, 'd, 'h, 'e) body_impl \<Rightarrow> ('t, 'c, 'h, 'f) body_impl \<Rightarrow> 's + 't
     \<Rightarrow> ((('d + 'c, 'h) frame option, 'e + 'f) result \<times> ('s + 't)) option" where
  "either_next A B s =
     (case s of
        Inl a \<Rightarrow> map_option (\<lambda>(r, a'). (map_err Inl (map_ok (map_opt_frame Inl) r), Inl a')) (next_frame A a)
      | Inr b \<Rightarrow> map_option (\<lambda>(r, b'). (map_err Inr (map_ok (map_opt_frame Inr) r), Inr b')) (next_frame B b))"

definition either_recycle ::
  "('s, 'd, 'h, 'e) body_impl \<Rightarrow> ('t, 'c, 'h, 'f) body_impl \<Rightarrow> 'd + 'c \<Rightarrow> 's + 't \<Rightarrow> 's + 't" where
  "either_recycle A B data s =
     (case (s, data) of
        (Inl a, Inl d) \<Rightarrow> Inl (recycle A d a)
      | (Inr b, Inr c) \<Rightarrow> Inr (recycle B c b)
      | _ \<Rightarrow> s)"

definition either_body ::
  "('s, 'd, 'h, 'e) body_impl \<Rightarrow> ('t, 'c, 'h, 'f) body_impl \<Rightarrow> ('s + 't, 'd + 'c, 'h, 'e + 'f) body_impl" where
  "either_body A B =
     \<lparr>next_frame = either_next A B,
      size_hint_of = (\<lambda>s. case s of Inl a \<Rightarrow> size_hint_of A a | Inr b \<Rightarrow> size_hint_of B b),
      trailer_hint_of = (\<lambda>s. case s of Inl a \<Rightarrow> trailer_hint_of A a | Inr b \<Rightarrow> trailer_hint_of B b),
      is_end_stream = (\<lambda>s. case s of Inl a \<Rightarrow> is_end_stream A a | Inr b \<Rightarrow> is_end_stream B b),
      recycle = either_recycle A B,
      frame_bytes = (\<lambda>d. case d of Inl x \<Rightarrow> frame_bytes A x | Inr y \<Rightarrow> frame_bytes B y)\<rparr>"

section \<open>WithTrailers\<close>

record ('s, 'h) with_trailers_state =
  wt_body :: 's
  wt_pending :: "'h option"
  wt_done :: bool

definition with_trailers_new :: "'s \<Rightarrow> 'h \<Rightarrow> ('s, 'h) with_trailers_state" where
  "with_trailers_new body trailers = \<lparr>wt_body = body, wt_pending = Some trailers, wt_done = False\<rparr>"

text \<open>
  The merge loop over the owned iterator of a header map, which names a field only at its
  first value; \<open>None\<close> is the \<open>expect\<close> on a missing name.
\<close>

fun append_fields ::
  "('h, 'u) http_api \<Rightarrow> header_name option \<Rightarrow> (header_name option \<times> bytes) list \<Rightarrow> 'h \<Rightarrow> 'h option" where
  "append_fields A name [] trailers = Some trailers"
| "append_fields A name ((next_name, value) # rest) trailers =
     (let name = (if next_name \<noteq> None then next_name else name) in
      case name of
        None \<Rightarrow> None
      | Some k \<Rightarrow> append_fields A name rest (hm_append A trailers k value))"

definition with_trailers_next ::
  "('h, 'u) http_api \<Rightarrow> ('h \<Rightarrow> (header_name option \<times> bytes) list) \<Rightarrow> ('s, 'd, 'h, 'e) body_impl
     \<Rightarrow> ('s, 'h) with_trailers_state
     \<Rightarrow> ((('d, 'h) frame option, 'e) result \<times> ('s, 'h) with_trailers_state) option" where
  "with_trailers_next A into_iter B s =
     (if wt_done s then Some (Ok None, s)
      else
        (case next_frame B (wt_body s) of
           None \<Rightarrow> None
         | Some (Ok (Some f), b) \<Rightarrow>
             (let s = s\<lparr>wt_body := b\<rparr> in
              case (f, wt_pending s) of
                (TrailersFrame trailers, Some pending) \<Rightarrow>
                  (case append_fields A None (into_iter pending) trailers of
                     None \<Rightarrow> None
                   | Some trailers \<Rightarrow> Some (Ok (Some (TrailersFrame trailers)), s\<lparr>wt_pending := None\<rparr>))
              | _ \<Rightarrow> Some (Ok (Some f), s))
         | Some (Ok None, b) \<Rightarrow>
             Some (Ok (map_option TrailersFrame (wt_pending s)),
                   s\<lparr>wt_body := b, wt_done := True, wt_pending := None\<rparr>)
         | Some (Err e, b) \<Rightarrow> Some (Err e, s\<lparr>wt_body := b, wt_done := True, wt_pending := None\<rparr>)))"

definition with_trailers ::
  "('h, 'u) http_api \<Rightarrow> ('h \<Rightarrow> (header_name option \<times> bytes) list) \<Rightarrow> ('s, 'd, 'h, 'e) body_impl
     \<Rightarrow> (('s, 'h) with_trailers_state, 'd, 'h, 'e) body_impl" where
  "with_trailers A into_iter B =
     \<lparr>next_frame = with_trailers_next A into_iter B,
      size_hint_of = (\<lambda>s. if wt_done s then Some (with_exact 0) else size_hint_of B (wt_body s)),
      trailer_hint_of = (\<lambda>s. if wt_done s then Some TH_None
                             else if wt_pending s \<noteq> None then Some TH_MayHave
                             else trailer_hint_of B (wt_body s)),
      is_end_stream = wt_done, recycle = (\<lambda>d s. s\<lparr>wt_body := recycle B d (wt_body s)\<rparr>),
      frame_bytes = frame_bytes B\<rparr>"

section \<open>Streams\<close>

text \<open>A stream is the function of its \<open>next\<close>; \<open>transpose\<close> swaps the option and the result.\<close>

definition transpose_item :: "('a, 'e) result option \<Rightarrow> ('a option, 'e) result" where
  "transpose_item x = (case x of None \<Rightarrow> Ok None | Some (Ok a) \<Rightarrow> Ok (Some a) | Some (Err e) \<Rightarrow> Err e)"

definition transpose_result :: "('a option, 'e) result \<Rightarrow> ('a, 'e) result option" where
  "transpose_result r = (case r of Ok None \<Rightarrow> None | Ok (Some a) \<Rightarrow> Some (Ok a) | Err e \<Rightarrow> Some (Err e))"

definition stream_body_next ::
  "('s \<Rightarrow> ((('d, 'h) frame, 'e) result option \<times> 's) option) \<Rightarrow> 's \<times> bool
     \<Rightarrow> ((('d, 'h) frame option, 'e) result \<times> ('s \<times> bool)) option" where
  "stream_body_next next s =
     (case s of (stream, finished) \<Rightarrow>
        if finished then Some (Ok None, s)
        else
          (case next stream of
             None \<Rightarrow> None
           | Some (item, stream') \<Rightarrow>
               (let r = transpose_item item in Some (r, (stream', finished \<or> \<not> is_frame r)))))"

definition stream_body ::
  "('s \<Rightarrow> ((('d, 'h) frame, 'e) result option \<times> 's) option) \<Rightarrow> ('d \<Rightarrow> bytes) \<Rightarrow> ('s \<times> bool, 'd, 'h, 'e) body_impl" where
  "stream_body next init =
     \<lparr>next_frame = stream_body_next next,
      size_hint_of = (\<lambda>s. Some (if snd s then with_exact 0 else size_hint_new)),
      trailer_hint_of = (\<lambda>s. Some (if snd s then TH_None else TH_MayHave)),
      is_end_stream = snd, recycle = default_recycle, frame_bytes = init\<rparr>"

definition body_stream_next ::
  "('s, 'd, 'h, 'e) body_impl \<Rightarrow> 's \<times> bool \<Rightarrow> ((('d, 'h) frame, 'e) result option \<times> ('s \<times> bool)) option" where
  "body_stream_next B s =
     (case s of (body, finished) \<Rightarrow>
        if finished then Some (None, s)
        else
          (case next_frame B body of
             None \<Rightarrow> None
           | Some (r, body') \<Rightarrow> Some (transpose_result r, (body', finished \<or> \<not> is_frame r))))"

text \<open>The loop that skips trailers; a source that never stops sending them keeps it running.\<close>

partial_function (option) body_data_stream_next ::
  "('s, 'd, 'h, 'e) body_impl \<Rightarrow> 's \<times> bool \<Rightarrow> (('d, 'e) result option \<times> ('s \<times> bool)) option" where
  "body_data_stream_next B s =
     (case body_stream_next B s of
        None \<Rightarrow> None
      | Some (None, s') \<Rightarrow> Some (None, s')
      | Some (Some (Ok (DataFrame d)), s') \<Rightarrow> Some (Some (Ok d), s')
      | Some (Some (Ok (TrailersFrame _)), s') \<Rightarrow> body_data_stream_next B s'
      | Some (Some (Err e), s') \<Rightarrow> Some (Some (Err e), s'))"

end
