(* ===== verification/Body_Adapter_Laws.thy ===== *)
theory Body_Adapter_Laws
  imports Body_Adapters
begin

text \<open>
  What the body adapters guarantee. \<open>Limited\<close> cuts any source at the first frame that goes
  over its limit and is transparent below it; \<open>ExactLength\<close> ends cleanly exactly on the
  sources that keep its promise; both keep the contract of the trait over any source that
  does not panic. \<open>WithTrailers\<close> adds its fields once. Turning a body into a stream and back
  changes nothing.
\<close>

lemma accepted_Some: "accepted d r = Some n \<longleftrightarrow> unat n = length d \<and> length d \<le> unat r"
proof -
  have "accepted d r = Some n \<longleftrightarrow> u64_try_from (length d) = Some n \<and> n \<le> r"
    by (auto simp: accepted_def split: option.splits)
  then show ?thesis by (auto simp: u64_try_from_Some word_le_nat_alt)
qed

lemma accepted_None: "accepted d r = None \<longleftrightarrow> unat r < length d"
proof (cases "u64_try_from (length d)")
  case None
  then have "18446744073709551616 \<le> length d" by (simp add: u64_try_from_def split: if_splits)
  with None unat_u64_bound [of r] show ?thesis by (simp add: accepted_def)
next
  case (Some w)
  moreover from Some have "unat w = length d" using u64_try_from_Some by blast
  ultimately show ?thesis by (simp add: accepted_def word_le_nat_alt not_le)
qed

lemma accepted_cases:
  obtains "unat r < length d" "accepted d r = None"
  | n where "length d \<le> unat r" "accepted d r = Some n" "unat (r - n) = unat r - length d"
proof (cases "accepted d r")
  case None
  then show ?thesis using that(1) by (simp add: accepted_None)
next
  case (Some n)
  then have "unat n = length d" "length d \<le> unat r" by (simp_all add: accepted_Some)
  moreover from this have "unat (r - n) = unat r - length d" by (simp add: unat_u64_sub word_le_nat_alt)
  ultimately show ?thesis using that(2) Some by blast
qed

section \<open>Limited\<close>

definition limited_inv :: "('s \<Rightarrow> bool) \<Rightarrow> 's limited_state \<Rightarrow> bool" where
  "limited_inv P s \<longleftrightarrow> (li_body s = None \<longrightarrow> li_done s) \<and> (\<forall>b. li_body s = Some b \<longrightarrow> P b)"

lemma limited_run:
  assumes "run_body n B b = (fs, r, t)" "run_body n (limited B) s = (gs, q, s')"
    and "li_body s = Some b" "\<not> li_done s"
  shows "if length (payload (frame_bytes B) fs) \<le> unat (li_remaining s)
     then gs = fs \<and> q = map_option (map_err LE_Source) r
     else \<exists>k < length fs. gs = take k fs \<and> q = Some (Err (LE_LimitExceeded (li_limit s)))
       \<and> length (payload (frame_bytes B) (take k fs)) \<le> unat (li_remaining s)
       \<and> unat (li_remaining s) < length (payload (frame_bytes B) (take (Suc k) fs))"
  using assms
proof (induction n arbitrary: b fs s gs)
  case (Suc n)
  show ?case
  proof (cases fs)
    case Nil
    with Suc.prems show ?thesis
      by (auto simp: limited_def limited_next_def split: option.splits result.splits prod.splits)
  next
    case (Cons f hs)
    with Suc.prems(1) obtain c where c: "next_frame B b = Some (Ok (Some f), c)" "run_body n B c = (hs, r, t)"
      by (auto split: option.splits result.splits prod.splits)
    show ?thesis
    proof (cases f)
      case (TrailersFrame x)
      let ?s = "s\<lparr>li_body := Some c\<rparr>"
      from c Suc.prems TrailersFrame obtain gs' where
        "run_body n (limited B) ?s = (gs', q, s')" "gs = f # gs'"
        by (auto simp: limited_def limited_next_def data_ref_def split: prod.splits)
      with Suc.IH [OF c(2) this(1)] Suc.prems(4) TrailersFrame Cons show ?thesis
        by (auto intro: exI [of _ "Suc k" for k] split: if_splits)
    next
      case (DataFrame d)
      show ?thesis
      proof (cases rule: accepted_cases [of "li_remaining s" "frame_bytes B d"])
        case 1
        with c Suc.prems DataFrame Cons show ?thesis
          by (auto simp: limited_def limited_next_def data_ref_def into_data_def limited_recycle_def
              intro: exI [of _ 0])
      next
        case (2 m)
        let ?s = "s\<lparr>li_body := Some c, li_remaining := li_remaining s - m\<rparr>"
        from 2 c Suc.prems DataFrame obtain gs' where
          "run_body n (limited B) ?s = (gs', q, s')" "gs = f # gs'"
          by (auto simp: limited_def limited_next_def data_ref_def split: prod.splits)
        with Suc.IH [OF c(2) this(1)] Suc.prems(4) DataFrame Cons 2 show ?thesis
          by (auto intro: exI [of _ "Suc k" for k] split: if_splits)
      qed
    qed
  qed
qed simp

lemma limited_contract:
  assumes "body_source B P"
  shows "body_contract (limited B) (limited_inv P)"
proof -
  note src = body_source.returns [OF assms] body_source.size_hint_returns [OF assms]
    body_source.trailer_hint_returns [OF assms] body_source.recycles [OF assms]
  have active: "\<exists>b. li_body s = Some b \<and> P b" if "limited_inv P s" "\<not> li_done s" for s
    using that by (cases "li_body s") (auto simp: limited_inv_def)
  show ?thesis
  proof
    fix s assume inv: "limited_inv P s"
    show "\<exists>r s'. next_frame (limited B) s = Some (r, s') \<and> limited_inv P s'"
    proof (cases "li_done s")
      case False
      obtain b r c where "li_body s = Some b" "next_frame B b = Some (r, c)" "P c"
        using active [OF inv False] src(1) by blast
      with False src(4) show ?thesis
        by (auto simp: limited_def limited_next_def limited_inv_def limited_recycle_def Let_def
            split: option.splits result.splits frame.splits)
    qed (use inv in \<open>simp add: limited_def limited_next_def\<close>)
    show "\<exists>h. size_hint_of (limited B) s = Some h \<and> (\<forall>u. sh_upper h = Some u \<longrightarrow> sh_lower h \<le> u)"
    proof (cases "li_done s")
      case False
      obtain b h where "li_body s = Some b" "size_hint_of B b = Some h"
        "\<forall>u. sh_upper h = Some u \<longrightarrow> sh_lower h \<le> u"
        using active [OF inv False] src(2) by blast
      with False show ?thesis
        by (auto simp: limited_def limited_size_hint_def with_bounds_def not_less min_def
            split: option.splits result.splits if_splits)
    qed (simp add: limited_def limited_size_hint_def with_exact_def)
    show "trailer_hint_of (limited B) s \<noteq> None"
      using active [OF inv] src(3) by (auto simp: limited_def limited_trailer_hint_def)
    show "limited_inv P (recycle (limited B) d s)" for d
      using inv src(4) by (auto simp: limited_def limited_recycle_def limited_inv_def split: option.splits)
  qed (auto simp: limited_def limited_next_def Let_def split: option.splits result.splits if_splits prod.splits)
qed

section \<open>ExactLength\<close>

interpretation exact: sized_body "exact_length B" "\<lambda>_. True" for B
proof
  fix s d s' h h'
  assume *: "next_frame (exact_length B) s = Some (Ok (Some (DataFrame d)), s')"
    "size_hint_of (exact_length B) s = Some h" "size_hint_of (exact_length B) s' = Some h'"
  then obtain n where "el_remaining s' = el_remaining s - n" "accepted (frame_bytes B d) (el_remaining s) = Some n"
      "\<not> el_done s" "\<not> el_done s'"
    by (auto simp: exact_length_def exact_next_def exact_check_def Let_def
        split: option.splits result.splits if_splits prod.splits frame.splits)
  with *(2,3) show "unat (sh_lower h) \<le> length (frame_bytes (exact_length B) d) + unat (sh_lower h') \<and>
      (\<forall>u. sh_upper h = Some u \<longrightarrow> (\<exists>u'. sh_upper h' = Some u' \<and> length (frame_bytes (exact_length B) d) + unat u' \<le> unat u))"
    by (cases rule: accepted_cases [of "el_remaining s" "frame_bytes B d"]) (auto simp: exact_length_def with_exact_def)
qed (auto simp: exact_length_def exact_next_def exact_check_def with_exact_def Let_def
      split: option.splits result.splits if_splits prod.splits frame.splits)

interpretation exact: ordered_body "exact_length B" "\<lambda>_. True" for B
  by unfold_locales
    (auto simp: exact_length_def exact_next_def exact_check_def Let_def
      split: option.splits result.splits if_splits prod.splits frame.splits)

lemma exact_complete:
  assumes "run_body n (exact_length B) s = (fs, Some (Ok ()), s')" "el_body s = Some b" "\<not> el_done s"
  shows "\<exists>t. run_body n B b = (fs, Some (Ok ()), t)"
  using assms
proof (induction n arbitrary: s b fs)
  case (Suc n)
  obtain r c where c: "next_frame B b = Some (r, c)"
    using Suc.prems by (auto simp: exact_length_def exact_next_def split: option.splits)
  show ?case
  proof (cases fs)
    case Nil
    with Suc.prems c show ?thesis
      by (auto simp: exact_length_def exact_next_def Let_def split: option.splits result.splits if_splits prod.splits)
  next
    case (Cons f gs)
    obtain s1 where "next_frame (exact_length B) s = Some (Ok (Some f), s1)"
      "run_body n (exact_length B) s1 = (gs, Some (Ok ()), s')"
      using Suc.prems(1) Cons by (auto split: option.splits result.splits prod.splits)
    moreover from this(1) c Suc.prems(2,3) have "r = Ok (Some f)" "el_body s1 = Some c" "\<not> el_done s1"
      by (auto simp: exact_length_def exact_next_def exact_check_def Let_def
          split: option.splits result.splits if_splits prod.splits frame.splits)
    ultimately show ?thesis using Suc.IH c Cons by fastforce
  qed
qed simp

lemma exact_transparent:
  assumes "run_body n B b = (fs, Some (Ok ()), t)" "el_body s = Some b" "\<not> el_done s"
    and "length (payload (frame_bytes B) fs) = unat (el_remaining s)" "trailers_last fs"
    and "el_saw_trailers s \<Longrightarrow> fs = []" "el_trailers s = TH_None \<Longrightarrow> \<not> has_trailers fs"
  shows "\<exists>s'. run_body n (exact_length B) s = (fs, Some (Ok ()), s')"
  using assms
proof (induction n arbitrary: s b fs)
  case (Suc n)
  show ?case
  proof (cases fs)
    case Nil
    with Suc.prems show ?thesis
      by (auto simp: exact_length_def exact_next_def Let_def unat_eq_zero
          split: option.splits result.splits if_splits prod.splits)
  next
    case (Cons f gs)
    with Suc.prems(1) obtain c where c: "next_frame B b = Some (Ok (Some f), c)" "run_body n B c = (gs, Some (Ok ()), t)"
      by (auto split: option.splits result.splits prod.splits)
    have "\<exists>s1. exact_check B f (s\<lparr>el_body := Some c\<rparr>) = Ok s1 \<and> el_body s1 = Some c \<and> \<not> el_done s1
        \<and> length (payload (frame_bytes B) gs) = unat (el_remaining s1)
        \<and> (el_saw_trailers s1 \<longrightarrow> gs = []) \<and> el_trailers s1 = el_trailers s"
    proof (cases f)
      case (DataFrame d)
      then show ?thesis using Suc.prems(3-7) Cons
        by (cases rule: accepted_cases [of "el_remaining s" "frame_bytes B d"]) (auto simp: exact_check_def)
    next
      case (TrailersFrame x)
      then show ?thesis using Suc.prems(3-7) Cons by (auto simp: exact_check_def)
    qed
    then obtain s1 where s1: "exact_check B f (s\<lparr>el_body := Some c\<rparr>) = Ok s1" "el_body s1 = Some c" "\<not> el_done s1"
      "length (payload (frame_bytes B) gs) = unat (el_remaining s1)" "el_saw_trailers s1 \<Longrightarrow> gs = []"
      "el_trailers s1 = el_trailers s" by auto
    moreover have "trailers_last gs" "el_trailers s1 = TH_None \<Longrightarrow> \<not> has_trailers gs"
      using Suc.prems(5,7) Cons s1(6) by (cases f; simp)+
    ultimately obtain s' where "run_body n (exact_length B) s1 = (gs, Some (Ok ()), s')"
      using Suc.IH [OF c(2)] by blast
    with c(1) s1(1) Suc.prems(2,3) Cons show ?thesis by (simp add: exact_length_def exact_next_def)
  qed
qed simp

definition exact_inv :: "('s \<Rightarrow> bool) \<Rightarrow> 's exact_state \<Rightarrow> bool" where
  "exact_inv P s \<longleftrightarrow> (el_body s = None \<longrightarrow> el_done s) \<and> (\<forall>b. el_body s = Some b \<longrightarrow> P b)"

lemma exact_contract:
  assumes "body_source B P"
  shows "body_contract (exact_length B) (exact_inv P)"
proof
  fix s assume inv: "exact_inv P s"
  show "\<exists>r s'. next_frame (exact_length B) s = Some (r, s') \<and> exact_inv P s'"
  proof (cases "el_done s")
    case False
    with inv obtain b where "el_body s = Some b" "P b" by (cases "el_body s") (auto simp: exact_inv_def)
    moreover from this body_source.returns [OF assms] obtain r c where "next_frame B b = Some (r, c)" "P c" by blast
    ultimately show ?thesis using False body_source.recycles [OF assms]
      by (auto simp: exact_length_def exact_next_def exact_inv_def exact_check_def exact_recycle_def Let_def
          split: option.splits result.splits frame.splits)
  qed (use inv in \<open>simp add: exact_length_def exact_next_def\<close>)
  show "exact_inv P (recycle (exact_length B) d s)" for d
    using inv body_source.recycles [OF assms]
    by (auto simp: exact_length_def exact_recycle_def exact_inv_def split: option.splits)
qed (auto simp: exact_length_def exact_next_def exact_check_def with_exact_def Let_def
      split: option.splits result.splits if_splits prod.splits frame.splits)

section \<open>WithTrailers\<close>

text \<open>
  The documentation of the owned iterator of a header map: the first value of a field
  carries its name and later values of the same field none; every value is visited.
\<close>

fun resolve_names :: "header_name option \<Rightarrow> (header_name option \<times> bytes) list \<Rightarrow> (header_name \<times> bytes) list option" where
  "resolve_names name [] = Some []"
| "resolve_names name ((next_name, v) # rest) =
     (case (if next_name = None then name else next_name) of
        None \<Rightarrow> None
      | Some k \<Rightarrow> map_option (Cons (k, v)) (resolve_names (Some k) rest))"

definition into_iter_law :: "('h, 'u) http_api \<Rightarrow> ('h \<Rightarrow> (header_name option \<times> bytes) list) \<Rightarrow> bool" where
  "into_iter_law A it \<longleftrightarrow>
     (\<forall>h. \<exists>xs. resolve_names None (it h) = Some xs \<and> (\<forall>k. map snd (filter (\<lambda>x. fst x = k) xs) = hm_get_all A h k))"

lemma append_fields_resolved:
  assumes "header_map_laws A" "resolve_names name items = Some xs"
  shows "\<exists>m. append_fields A name items h = Some m
     \<and> (\<forall>k. hm_get_all A m k = hm_get_all A h k @ map snd (filter (\<lambda>x. fst x = k) xs))"
  using assms(2)
proof (induction items arbitrary: name h xs)
  case (Cons item items)
  obtain nn v where item: "item = (nn, v)" by fastforce
  with Cons.prems obtain k ys where k: "(if nn = None then name else nn) = Some k"
    and ys: "resolve_names (Some k) items = Some ys" "xs = (k, v) # ys"
    by (auto split: option.splits if_splits)
  have "append_fields A name (item # items) h = append_fields A (Some k) items (hm_append A h k v)"
    using k item by (auto simp: Let_def split: if_splits option.splits)
  with Cons.IH [OF ys(1), of "hm_append A h k v"] ys(2) show ?case
    by (auto simp: header_map_lawsD [OF assms(1)])
qed simp

fun frame_trailers :: "('d, 'h) frame list \<Rightarrow> 'h option" where
  "frame_trailers [] = None"
| "frame_trailers (DataFrame d # fs) = frame_trailers fs"
| "frame_trailers (TrailersFrame t # fs) = Some t"

lemma with_trailers_run:
  assumes "header_map_laws A" "into_iter_law A it"
    and "run_body n B b = (fs, Some (Ok ()), t)" "trailers_last fs"
    and "wt_body s = b" "wt_pending s = Some p" "\<not> wt_done s"
  shows "\<exists>gs m s'. run_body (Suc n) (with_trailers A it B) s = (gs @ [TrailersFrame m], Some (Ok ()), s')
     \<and> gs = filter (\<lambda>f. trailers_ref f = None) fs
     \<and> (\<forall>k. hm_get_all A m k = (case frame_trailers fs of None \<Rightarrow> [] | Some t \<Rightarrow> hm_get_all A t k) @ hm_get_all A p k)"
  using assms(3-7)
proof (induction n arbitrary: b fs s)
  case (Suc n)
  show ?case
  proof (cases fs)
    case Nil
    with Suc.prems have "next_frame B b = Some (Ok None, t)"
      by (auto split: option.splits result.splits prod.splits)
    with Suc.prems Nil show ?thesis by (auto simp: with_trailers_def with_trailers_next_def)
  next
    case (Cons f hs)
    with Suc.prems(1) obtain c where c: "next_frame B b = Some (Ok (Some f), c)" "run_body n B c = (hs, Some (Ok ()), t)"
      by (auto split: option.splits result.splits prod.splits)
    show ?thesis
    proof (cases f)
      case (DataFrame d)
      with Suc.IH [OF c(2), of "s\<lparr>wt_body := c\<rparr>"] Suc.prems Cons c(1) show ?thesis
        by (auto simp: with_trailers_def with_trailers_next_def trailers_ref_def simp del: run_body.simps)
          (auto simp: with_trailers_next_def)
    next
      case (TrailersFrame x)
      obtain xs where "resolve_names None (it p) = Some xs" "\<forall>k. map snd (filter (\<lambda>x. fst x = k) xs) = hm_get_all A p k"
        using assms(2) by (auto simp: into_iter_law_def)
      with append_fields_resolved [OF assms(1) this(1), of x] obtain m where
        m: "append_fields A None (it p) x = Some m" "\<forall>k. hm_get_all A m k = hm_get_all A x k @ hm_get_all A p k"
        by auto
      from TrailersFrame Suc.prems(2) Cons have "hs = []" by simp
      with c(2) have "next_frame B c = Some (Ok None, t)"
        by (cases n) (auto split: option.splits result.splits prod.splits)
      with m TrailersFrame Suc.prems Cons \<open>hs = []\<close> c(1) show ?thesis
        by (auto simp: with_trailers_def with_trailers_next_def trailers_ref_def)
    qed
  qed
qed simp

section \<open>Streams\<close>

lemma transpose_inverse [simp]: "transpose_item (transpose_result r) = r"
  by (auto simp: transpose_item_def transpose_result_def split: result.splits option.splits)

lemma stream_of_body_run:
  "run_body n B b = (fs, r, t) \<Longrightarrow>
   \<exists>s'. run_body n (stream_body (body_stream_next B) init) ((b, False), False) = (fs, r, s')"
proof (induction n arbitrary: b fs)
  case (Suc n)
  show ?case
  proof (cases "next_frame B b")
    case None
    with Suc.prems show ?thesis by (auto simp: stream_body_def stream_body_next_def body_stream_next_def)
  next
    case (Some x)
    obtain q c where x: "x = (q, c)" by fastforce
    show ?thesis
    proof (cases "is_frame q")
      case True
      then obtain f where "q = Ok (Some f)" by (auto simp: is_frame_def split: result.splits option.splits)
      with Suc.prems Some x obtain gs where gs: "run_body n B c = (gs, r, t)" "fs = f # gs"
        by (auto split: prod.splits)
      from Suc.IH [OF gs(1)] gs(2) Some x \<open>q = Ok (Some f)\<close> show ?thesis
        by (auto simp: stream_body_def stream_body_next_def body_stream_next_def)
    next
      case False
      with Suc.prems Some x show ?thesis
        by (auto simp: stream_body_def stream_body_next_def body_stream_next_def is_frame_def
            split: result.splits option.splits)
    qed
  qed
qed (auto intro: exI [of _ False])

fun pull_items :: "nat \<Rightarrow> ('s, 'd, 'h, 'e) body_impl \<Rightarrow> 's \<times> bool \<Rightarrow> (('d, 'e) result option list \<times> ('s \<times> bool)) option" where
  "pull_items 0 B s = Some ([], s)"
| "pull_items (Suc n) B s =
     (case body_data_stream_next B s of
        None \<Rightarrow> None
      | Some (item, s') \<Rightarrow> map_option (\<lambda>(items, t). (item # items, t)) (pull_items n B s'))"

definition data_frames :: "('d, 'h) frame list \<Rightarrow> 'd list" where
  "data_frames fs = concat (map (\<lambda>f. case f of DataFrame d \<Rightarrow> [d] | TrailersFrame _ \<Rightarrow> []) fs)"

definition end_item :: "(unit, 'e) result \<Rightarrow> ('d, 'e) result option" where
  "end_item r = (case r of Ok _ \<Rightarrow> None | Err e \<Rightarrow> Some (Err e))"

lemma pull_items_run:
  "run_body n B b = (fs, Some r, t) \<Longrightarrow>
   pull_items (Suc (length (data_frames fs))) B (b, False)
     = Some (map (\<lambda>d. Some (Ok d)) (data_frames fs) @ [end_item r], (t, True))"
proof (induction n arbitrary: b fs)
  case (Suc n)
  note next_call = body_data_stream_next.simps [of B "(b, False)"]
  show ?case
  proof (cases fs)
    case Nil
    with Suc.prems show ?thesis
      by (auto simp: next_call data_frames_def end_item_def body_stream_next_def transpose_result_def
          split: option.splits result.splits prod.splits)
  next
    case (Cons f gs)
    with Suc.prems obtain c where c: "next_frame B b = Some (Ok (Some f), c)" "run_body n B c = (gs, Some r, t)"
      by (auto split: option.splits result.splits prod.splits)
    from c(1) have "body_stream_next B (b, False) = Some (Some (Ok f), (c, False))"
      by (simp add: body_stream_next_def transpose_result_def)
    with Suc.IH [OF c(2)] Cons show ?thesis by (cases f) (auto simp: next_call data_frames_def)
  qed
qed simp

section \<open>Properties\<close>

text \<open>
  \<open>Limited\<close> over any source. While the payload fits the limit, the adapter yields the
  source's frames and its result; otherwise it yields the frames before the first one that
  goes over the limit, whole and unchanged, and then the limit error.
\<close>

theorem limited_cuts:
  assumes "run_body n B b = (fs, r, t)" "run_body n (limited B) (limited_new b lim) = (gs, q, s')"
  shows "if length (payload (frame_bytes B) fs) \<le> unat lim
     then gs = fs \<and> q = map_option (map_err LE_Source) r
     else \<exists>k < length fs. gs = take k fs \<and> q = Some (Err (LE_LimitExceeded lim))
       \<and> length (payload (frame_bytes B) (take k fs)) \<le> unat lim
       \<and> unat lim < length (payload (frame_bytes B) (take (Suc k) fs))"
proof -
  have "li_body (limited_new b lim) = Some b" "\<not> li_done (limited_new b lim)" by (simp_all add: limited_new_def)
  from limited_run [OF assms this] show ?thesis by (simp add: limited_new_def cong: if_cong)
qed

text \<open>A source that yields the given frames and then the given result.\<close>

definition frames_body :: "((bytes, alist) frame list, bytes, alist, nat) body_impl" where
  "frames_body = \<lparr>next_frame = (\<lambda>fs. case fs of [] \<Rightarrow> Some (Ok None, []) | f # gs \<Rightarrow> Some (Ok (Some f), gs)),
     size_hint_of = default_size_hint, trailer_hint_of = default_trailer_hint, is_end_stream = default_is_end_stream,
     recycle = default_recycle, frame_bytes = (\<lambda>b. b)\<rparr>"

theorem limited_cuts_witness:
  "fst (run_body 5 (limited frames_body) (limited_new [DataFrame [1, 2], DataFrame [3, 4, 5]] 4)) = [DataFrame [1, 2]]"
proof -
  let ?b = "[DataFrame [1, 2], DataFrame [3, 4, 5]] :: (bytes, alist) frame list"
  let ?run = "run_body 5 (limited frames_body) (limited_new ?b 4)"
  have src: "run_body 5 frames_body ?b = (?b, Some (Ok ()), [])" by code_simp
  obtain gs q s' where run: "?run = (gs, q, s')" by (cases ?run)
  have "\<not> length (payload (frame_bytes frames_body) ?b) \<le> unat (4 :: u64)" by (simp add: frames_body_def)
  with limited_cuts [OF src run] obtain k where
    "k < Suc (Suc 0)" "gs = take k ?b" "4 < length (payload (frame_bytes frames_body) (take (Suc k) ?b))"
    by (auto split: if_splits)
  with run show ?thesis by (auto simp: less_Suc_eq frames_body_def)
qed

text \<open>
  C38. \<open>ExactLength\<close> ends cleanly exactly on the sources that keep its promise: the source
  ends cleanly, its payload has the promised length, and trailers come at most once, last and
  only when they were allowed. The frames are then those of the source.
\<close>

theorem exact_length_enforced:
  "(\<exists>s'. run_body n (exact_length B) (exact_length_new b len hint) = (fs, Some (Ok ()), s')) \<longleftrightarrow>
   (\<exists>t. run_body n B b = (fs, Some (Ok ()), t)) \<and> length (payload (frame_bytes B) fs) = unat len
     \<and> trailers_last fs \<and> \<not> (hint = TH_None \<and> has_trailers fs)"
  (is "?exact \<longleftrightarrow> ?source")
proof
  let ?s = "exact_length_new b len hint"
  assume ?exact
  then obtain s' where run: "run_body n (exact_length B) ?s = (fs, Some (Ok ()), s')" by blast
  have "size_hint_of (exact_length B) ?s = Some (with_exact len)" by (simp add: exact_length_def exact_length_new_def)
  with exact.run_upper [OF _ run this] exact.run_lower [OF _ run this] exact.run_ordered [OF _ run]
    exact_complete [OF run]
  show ?source by (auto simp: exact_length_def with_exact_def exact_length_new_def)
next
  assume ?source
  then show ?exact using exact_transparent [of n B b fs _ "exact_length_new b len hint"]
    by (auto simp: exact_length_new_def)
qed

text \<open>
  A body with added trailers yields the data frames of its source and then exactly one
  trailers frame, in which every field has the source's trailer values followed by the added
  ones.
\<close>

theorem with_trailers_appended:
  assumes "header_map_laws A" "into_iter_law A it"
    and "run_body n B b = (fs, Some (Ok ()), t)" "trailers_last fs"
  shows "\<exists>gs m s'. run_body (Suc n) (with_trailers A it B) (with_trailers_new b p) = (gs @ [TrailersFrame m], Some (Ok ()), s')
     \<and> gs = filter (\<lambda>f. trailers_ref f = None) fs
     \<and> (\<forall>k. hm_get_all A m k = (case frame_trailers fs of None \<Rightarrow> [] | Some t \<Rightarrow> hm_get_all A t k) @ hm_get_all A p k)"
  by (rule with_trailers_run [OF assms]) (simp_all add: with_trailers_new_def)

text \<open>The owned iterator of the association list: a field is named at its first value.\<close>

definition alist_group :: "alist \<Rightarrow> header_name \<Rightarrow> (header_name option \<times> bytes) list" where
  "alist_group h k = (case alist_get_all h k of [] \<Rightarrow> [] | v # vs \<Rightarrow> (Some k, v) # map (Pair None) vs)"

definition alist_into_iter :: "alist \<Rightarrow> (header_name option \<times> bytes) list" where
  "alist_into_iter h = concat (map (alist_group h) (remdups (map fst h)))"

lemma resolve_unnamed: "resolve_names (Some k) (map (Pair None) vs @ rest)
    = map_option (\<lambda>xs. map (Pair k) vs @ xs) (resolve_names (Some k) rest)"
  by (induction vs) (auto simp: option.map_comp comp_def option.map_id0 option.map_ident)

lemma resolve_groups:
  "resolve_names name (concat (map (alist_group h) ks)) = Some (concat (map (\<lambda>k. map (Pair k) (alist_get_all h k)) ks))"
  by (induction ks arbitrary: name)
    (auto simp: alist_group_def resolve_unnamed option.map_comp comp_def split: list.splits)

lemma filter_groups:
  "distinct ks \<Longrightarrow> map snd (filter (\<lambda>x. fst x = k) (concat (map (\<lambda>k. map (Pair k) (g k)) ks))) = (if k \<in> set ks then g k else [])"
  by (induction ks) (auto simp: filter_map comp_def filter_empty_conv)

lemma alist_into_iter_law: "into_iter_law alist_http alist_into_iter"
proof -
  have "alist_get_all h k = []" if "k \<notin> fst ` set h" for h :: alist and k
    using that by (auto simp: alist_get_all_def filter_empty_conv)
  then show ?thesis
    by (auto simp: into_iter_law_def alist_into_iter_def resolve_groups filter_groups alist_http_def)
qed

theorem with_trailers_appended_witness:
  "\<exists>gs m s'. run_body 4 (with_trailers alist_http alist_into_iter frames_body)
       (with_trailers_new [DataFrame [1], TrailersFrame [(''a'', [2])]] [(''a'', [3]), (''a'', [4])])
     = (gs @ [TrailersFrame m], Some (Ok ()), s') \<and> alist_get_all m ''a'' = [[2], [3], [4]]"
proof -
  let ?b = "[DataFrame [1], TrailersFrame [(''a'', [2])]] :: (bytes, alist) frame list"
  let ?p = "[(''a'', [3]), (''a'', [4])] :: alist"
  have "run_body 3 frames_body ?b = (?b, Some (Ok ()), [])" "trailers_last ?b" by code_simp+
  from with_trailers_appended [OF alist_http_laws alist_into_iter_law this, of ?p]
  obtain gs m s' where
    run: "run_body (Suc 3) (with_trailers alist_http alist_into_iter frames_body) (with_trailers_new ?b ?p)
       = (gs @ [TrailersFrame m], Some (Ok ()), s')"
    and m: "\<forall>k. hm_get_all alist_http m k
       = (case frame_trailers ?b of None \<Rightarrow> [] | Some t \<Rightarrow> hm_get_all alist_http t k) @ hm_get_all alist_http ?p k"
    by blast
  have "hm_get_all alist_http = alist_get_all" by (simp add: alist_http_def)
  with m have "alist_get_all m ''a'' = [[2], [3], [4]]" by (simp add: alist_get_all_def)
  moreover have "Suc 3 = (4 :: nat)" by simp
  ultimately show ?thesis using run by metis
qed

text \<open>
  A body turned into a frame stream and back yields the same frames and the same result.
\<close>

theorem body_stream_roundtrip:
  assumes "run_body n B b = (fs, r, t)"
  shows "\<exists>s'. run_body n (stream_body (body_stream_next B) (frame_bytes B)) ((b, False), False) = (fs, r, s')"
  by (rule stream_of_body_run [OF assms])

theorem body_stream_roundtrip_witness:
  "\<exists>s'. run_body 3 (stream_body (body_stream_next frames_body) (\<lambda>b. b)) (([DataFrame [9]], False), False)
     = ([DataFrame [9]], Some (Ok ()), s')"
proof -
  have "run_body 3 frames_body [DataFrame [9]] = ([DataFrame [9]], Some (Ok ()), [])" by code_simp
  from body_stream_roundtrip [OF this] show ?thesis by (simp add: frames_body_def)
qed

text \<open>
  The data stream of a body that ends returns from every call: it yields the data
  frames in order, skipping trailers, and then the end or the error of the body.
\<close>

theorem data_stream_returns:
  assumes "run_body n B b = (fs, Some r, t)"
  shows "pull_items (Suc (length (data_frames fs))) B (b, False)
     = Some (map (\<lambda>d. Some (Ok d)) (data_frames fs) @ [end_item r], (t, True))"
  by (rule pull_items_run [OF assms])

theorem data_stream_returns_witness:
  "pull_items 2 frames_body ([DataFrame [9], TrailersFrame []], False) = Some ([Some (Ok [9]), None], ([], True))"
proof -
  have "run_body 3 frames_body [DataFrame [9], TrailersFrame []] = ([DataFrame [9], TrailersFrame []], Some (Ok ()), [])"
    by code_simp
  from data_stream_returns [OF this] show ?thesis by (simp add: data_frames_def end_item_def numeral_2_eq_2)
qed

end
