(* ===== verification/Incoming.thy ===== *)
theory Incoming
  imports Incoming_Data Pipe Body_Adapter_Laws
begin

text \<open>
  The body received from a connection, \<open>Incoming\<close> of \<open>src/src/body/incoming.rs\<close>, and the drain
  budget its two endpoints share.

  The consumer endpoint is a parameter: \<open>ct_take\<close> is one completed \<open>consumer.take().await\<close>
  and \<open>ct_drain_budget\<close> stores the budget in the shared policy. The rendezvous behind them is
  the theory \<open>Pipe\<close>.

  The lemmas show that a received body keeps the contract of the trait whatever the
  connection delivers: the payload stays within the declared size, trailers come once and
  last, and an end before the declared length is an error.
\<close>

section \<open>The drain budget\<close>

type_synonym drain_policy = "(u64 \<times> u64) option"

definition charge_drain :: "usize \<Rightarrow> usize \<Rightarrow> drain_policy \<Rightarrow> (unit, limit_kind) result \<times> drain_policy" where
  "charge_drain bytes pay policy =
     (case policy of
        None \<Rightarrow> (Ok (), policy)
      | Some (wire, data) \<Rightarrow>
          (case checked_sub data (word_of_nat pay) of
             None \<Rightarrow> (Err DrainPayload, policy)
           | Some data' \<Rightarrow>
               (case checked_sub wire (word_of_nat bytes) of
                  None \<Rightarrow> (Err DrainWire, policy)
                | Some wire' \<Rightarrow> (Ok (), Some (wire', data')))))"

definition drain_budget :: "u64 \<Rightarrow> u64 \<Rightarrow> drain_policy" where
  "drain_budget bytes wire_allowance = Some (saturating_add bytes wire_allowance, bytes)"

record drain_config =
  dc_timeout_secs :: nat
  dc_wire_allowance :: u64

definition drain_config_default :: drain_config where
  "drain_config_default = \<lparr>dc_timeout_secs = 5, dc_wire_allowance = 64 * 1024\<rparr>"

section \<open>Incoming\<close>

record 'c incoming =
  in_consumer :: "'c option"
  in_size :: size_hint
  in_trailers :: trailer_hint
  in_trailers_seen :: bool
  in_drain :: drain_config

record ('c, 'h) consumer_api =
  ct_take :: "'c \<Rightarrow> ((incoming_storage, 'h) frame option, error take_error) result \<times> 'c"
  ct_drain_budget :: "u64 \<Rightarrow> u64 \<Rightarrow> 'c \<Rightarrow> 'c"

definition incoming_empty :: "'c incoming" where
  "incoming_empty =
     \<lparr>in_consumer = None, in_size = with_exact 0, in_trailers = TH_None, in_trailers_seen = False,
      in_drain = drain_config_default\<rparr>"

definition incoming_channel :: "'c \<Rightarrow> size_hint \<Rightarrow> trailer_hint \<Rightarrow> 'c incoming" where
  "incoming_channel consumer size_hint hint =
     \<lparr>in_consumer = Some consumer, in_size = size_hint, in_trailers = hint, in_trailers_seen = False,
      in_drain = drain_config_default\<rparr>"

definition with_drain_config :: "'c incoming \<Rightarrow> drain_config \<Rightarrow> 'c incoming" where
  "with_drain_config i config = i\<lparr>in_drain := config\<rparr>"

definition incoming_finish :: "'c incoming \<Rightarrow> 'c incoming" where
  "incoming_finish i = i\<lparr>in_consumer := None, in_size := with_exact 0, in_trailers := TH_None\<rparr>"

definition observe :: "'c incoming \<Rightarrow> (incoming_storage, 'h) frame \<Rightarrow> ('c incoming, error) result" where
  "observe i f =
     (case f of
        DataFrame d \<Rightarrow>
          (let n = word_of_nat (data_len d) :: u64 in
           if in_trailers_seen i \<or> (case sh_upper (in_size i) of None \<Rightarrow> False | Some upper \<Rightarrow> upper < n)
           then Err (error_new KInvalidMessage ''received body violated its framing metadata'')
           else
             and_then (with_bounds (saturating_sub (sh_lower (in_size i)) n) (map_option (\<lambda>upper. upper - n) (sh_upper (in_size i))))
               (\<lambda>size'. Ok (i\<lparr>in_size := size'\<rparr>)))
      | TrailersFrame _ \<Rightarrow>
          (if in_trailers i = TH_None \<or> in_trailers_seen i \<or> sh_lower (in_size i) \<noteq> 0
           then Err (error_new KInvalidMessage ''received trailers violated body framing'')
           else Ok (i\<lparr>in_trailers_seen := True, in_trailers := TH_None, in_size := with_exact 0\<rparr>)))"

text \<open>What one outcome of the rendezvous means for the body.\<close>

definition incoming_result ::
  "((incoming_storage, 'h) frame option, error take_error) result \<Rightarrow> 'c incoming
     \<Rightarrow> ((incoming_storage, 'h) frame option, error) result \<times> 'c incoming" where
  "incoming_result taken i =
     (case taken of
        Ok (Some f) \<Rightarrow> (case observe i f of Ok i' \<Rightarrow> (Ok (Some f), i') | Err e \<Rightarrow> (Err e, i))
      | Ok None \<Rightarrow>
          (if sh_lower (in_size i) \<noteq> 0
           then (Err (error_new KInvalidMessage ''received body ended before its declared length''), i)
           else (Ok None, i))
      | Err (TE_Failed e) \<Rightarrow> (Err e, i)
      | Err TE_Disconnected \<Rightarrow>
          (Err (with_detail (error_new KClosed ''incoming body driver ended without framing completion'') DriverLost), i))"

definition incoming_next ::
  "('c, 'h) consumer_api \<Rightarrow> 'c incoming
     \<Rightarrow> ((incoming_storage, 'h) frame option, error) result \<times> 'c incoming" where
  "incoming_next C i =
     (case in_consumer i of
        None \<Rightarrow> (Ok None, i)
      | Some c \<Rightarrow>
          (case ct_take C c of
             (taken, c') \<Rightarrow>
               (case incoming_result taken (i\<lparr>in_consumer := Some c'\<rparr>) of
                  (r, i') \<Rightarrow> (r, if is_frame r then i' else incoming_finish i'))))"

definition incoming_body :: "('c, 'h) consumer_api \<Rightarrow> ('c incoming, incoming_storage, 'h, error) body_impl" where
  "incoming_body C =
     \<lparr>next_frame = (\<lambda>i. Some (incoming_next C i)), size_hint_of = (\<lambda>i. Some (in_size i)), trailer_hint_of = (\<lambda>i. Some (in_trailers i)),
      is_end_stream = (\<lambda>i. in_consumer i = None), recycle = default_recycle, frame_bytes = as_ref\<rparr>"

text \<open>
  \<open>Incoming::drain\<close>. The deadline is a parameter: \<open>None\<close> when adding the timeout to the clock
  overflows, \<open>Some n\<close> when it passes after \<open>n\<close> completed waits for a frame.
\<close>

fun drain_loop :: "('c, 'h) consumer_api \<Rightarrow> nat \<Rightarrow> u64 \<Rightarrow> 'c incoming \<Rightarrow> (unit, error) result" where
  "drain_loop C 0 remaining i =
     Err (with_detail (error_new KTimeout ''body drain deadline exceeded'') (DTimeout PDrain))"
| "drain_loop C (Suc n) remaining i =
     (case incoming_next C i of
        (Err e, i') \<Rightarrow> Err e
      | (Ok None, i') \<Rightarrow> Ok ()
      | (Ok (Some f), i') \<Rightarrow>
          (case into_data f of
             Ok d \<Rightarrow>
               (case checked_sub remaining (word_of_nat (data_len d)) of
                  None \<Rightarrow> Err (with_detail (error_new KLimit ''body drain payload limit exceeded'') (IncomingLimit DrainPayload))
                | Some remaining' \<Rightarrow> drain_loop C n remaining' i')
           | Err _ \<Rightarrow> drain_loop C n remaining i'))"

definition incoming_drain :: "('c, 'h) consumer_api \<Rightarrow> nat option \<Rightarrow> u64 \<Rightarrow> 'c incoming \<Rightarrow> (unit, error) result" where
  "incoming_drain C deadline max_payload_bytes i =
     (let i = (case in_consumer i of
                 Some c \<Rightarrow> i\<lparr>in_consumer := Some (ct_drain_budget C max_payload_bytes (dc_wire_allowance (in_drain i)) c)\<rparr>
               | None \<Rightarrow> i) in
      case deadline of
        None \<Rightarrow> Err (error_new KLocalMessage ''invalid drain timeout duration'')
      | Some n \<Rightarrow> drain_loop C n max_payload_bytes i)"

section \<open>Lemmas\<close>

text \<open>What the connection puts into the rendezvous: views inside their buffers, of \<open>usize\<close> length.\<close>

definition views_ok :: "('c, 'h) consumer_api \<Rightarrow> bool" where
  "views_ok C \<longleftrightarrow> (\<forall>c d c'. ct_take C c = (Ok (Some (DataFrame d)), c') \<longrightarrow> view_ok d \<and> data_len d \<le> USIZE_MAX)"

definition incoming_inv :: "'c incoming \<Rightarrow> bool" where
  "incoming_inv i \<longleftrightarrow> (in_trailers_seen i \<longrightarrow> in_size i = with_exact 0 \<and> in_trailers i = TH_None)
     \<and> (in_consumer i = None \<longrightarrow> in_size i = with_exact 0)
     \<and> (\<forall>u. sh_upper (in_size i) = Some u \<longrightarrow> sh_lower (in_size i) \<le> u)"

lemma observe_data:
  assumes "observe i (DataFrame d) = Ok i'" "data_len d \<le> USIZE_MAX"
  shows "i' = i\<lparr>in_size := in_size i'\<rparr> \<and> \<not> in_trailers_seen i
    \<and> unat (sh_lower (in_size i')) = unat (sh_lower (in_size i)) - data_len d
    \<and> (case sh_upper (in_size i) of
         None \<Rightarrow> sh_upper (in_size i') = None
       | Some u \<Rightarrow> \<exists>u'. sh_upper (in_size i') = Some u' \<and> unat u = data_len d + unat u')
    \<and> (\<forall>u. sh_upper (in_size i') = Some u \<longrightarrow> sh_lower (in_size i') \<le> u)"
proof -
  have "unat (word_of_nat (data_len d) :: u64) = data_len d" using assms(2) by (intro unat_of_usize) simp
  then show ?thesis using assms(1)
    by (auto simp: observe_def Let_def with_bounds_Ok unat_saturating_sub not_less word_le_nat_alt unat_u64_sub
        split: if_splits option.splits)
qed

lemma observe_trailers:
  "observe i (TrailersFrame t) = Ok i' \<Longrightarrow>
   sh_lower (in_size i) = 0 \<and> in_trailers i \<noteq> TH_None \<and> \<not> in_trailers_seen i \<and>
   i' = i\<lparr>in_trailers_seen := True, in_trailers := TH_None, in_size := with_exact 0\<rparr>"
  by (auto simp: observe_def split: if_splits)

text \<open>The cases of one call.\<close>

lemma incoming_next_frame:
  assumes "incoming_next C i = (Ok (Some f), i')"
  obtains c c' where "in_consumer i = Some c" "ct_take C c = (Ok (Some f), c')"
    "observe (i\<lparr>in_consumer := Some c'\<rparr>) f = Ok i'"
  using assms that
  by (auto simp: incoming_next_def incoming_result_def split: option.splits result.splits prod.splits take_error.splits if_splits)

lemma incoming_next_stop:
  assumes "incoming_next C i = (r, i')" "\<not> is_frame r" "incoming_inv i"
  shows "in_consumer i' = None \<and> incoming_inv i' \<and> (r = Ok None \<longrightarrow> sh_lower (in_size i) = 0)"
proof (cases "in_consumer i")
  case None
  with assms show ?thesis by (auto simp: incoming_next_def incoming_inv_def with_exact_def)
next
  case (Some c)
  obtain taken c' where "ct_take C c = (taken, c')" by fastforce
  with Some assms(1,2) obtain j where j: "incoming_result taken (i\<lparr>in_consumer := Some c'\<rparr>) = (r, j)" "i' = incoming_finish j"
    by (auto simp: incoming_next_def split: prod.splits)
  then have "in_consumer i' = None \<and> incoming_inv i'" by (simp add: incoming_finish_def incoming_inv_def with_exact_def)
  moreover have "r = Ok None \<Longrightarrow> sh_lower (in_size i) = 0"
    using j(1) by (auto simp: incoming_result_def split: option.splits result.splits take_error.splits if_splits)
  ultimately show ?thesis by blast
qed

lemma observe_inv:
  assumes "observe i f = Ok i'" "incoming_inv i" "in_consumer i \<noteq> None"
  shows "incoming_inv i' \<and> in_consumer i' = in_consumer i"
  using assms by (auto simp: observe_def incoming_inv_def with_bounds_Ok with_exact_def Let_def split: frame.splits if_splits)

lemma incoming_next_inv:
  assumes "incoming_next C i = (r, i')" "incoming_inv i"
  shows "incoming_inv i'"
proof (cases "is_frame r")
  case True
  with assms(1) obtain f where "incoming_next C i = (Ok (Some f), i')"
    by (auto simp: is_frame_def split: result.splits option.splits)
  then obtain c c' where c: "in_consumer i = Some c" "observe (i\<lparr>in_consumer := Some c'\<rparr>) f = Ok i'"
    by (rule incoming_next_frame)
  have "incoming_inv (i\<lparr>in_consumer := Some c'\<rparr>)" using assms(2) by (simp add: incoming_inv_def)
  from observe_inv [OF c(2) this] show ?thesis by simp
qed (use incoming_next_stop [OF assms(1) _ assms(2)] in blast)

interpretation incoming: body_contract "incoming_body C" incoming_inv for C :: "('c, 'h) consumer_api"
proof
  fix i :: "'c incoming" assume inv: "incoming_inv i"
  show "\<exists>r i'. next_frame (incoming_body C) i = Some (r, i') \<and> incoming_inv i'"
    using incoming_next_inv [OF _ inv] by (cases "incoming_next C i") (auto simp: incoming_body_def)
  show "\<exists>t. next_frame (incoming_body C) i' = Some (Ok None, t)"
    if "next_frame (incoming_body C) i = Some (r, i')" "\<not> is_frame r" for r i'
    using incoming_next_stop [OF _ that(2) inv] that(1) by (auto simp: incoming_body_def incoming_next_def)
qed (auto simp: incoming_body_def incoming_inv_def incoming_next_def default_recycle_def)

interpretation incoming: ordered_body "incoming_body C" incoming_inv for C :: "('c, 'h) consumer_api"
proof
  fix i i' t :: "'c incoming" and f r
  assume inv: "incoming_inv i" and first: "next_frame (incoming_body C) i = Some (Ok (Some (TrailersFrame f)), i')"
    and second: "next_frame (incoming_body C) i' = Some (r, t)"
  from first have "in_trailers_seen i'"
    by (auto simp: incoming_body_def elim!: incoming_next_frame dest!: observe_trailers)
  then show "\<not> is_frame r" using second
    by (auto simp: incoming_body_def is_frame_def observe_def elim!: incoming_next_frame split: result.splits option.splits frame.splits if_splits)
next
  show "next_frame (incoming_body C) i \<noteq> Some (Ok (Some (TrailersFrame f)), i')"
    if "trailer_hint_of (incoming_body C) i = Some TH_None" for i f i'
    using that by (auto simp: incoming_body_def elim!: incoming_next_frame dest!: observe_trailers)
next
  show "trailer_hint_of (incoming_body C) i' = Some TH_None"
    if "next_frame (incoming_body C) i = Some (Ok (Some (DataFrame d)), i')" "trailer_hint_of (incoming_body C) i = Some TH_None" for i d i'
    using that by (auto simp: incoming_body_def observe_def Let_def elim!: incoming_next_frame split: if_splits)
qed

lemma incoming_sized:
  fixes C :: "('c, 'h) consumer_api"
  assumes "views_ok C"
  shows "sized_body (incoming_body C) incoming_inv"
proof
  fix i i' :: "'c incoming" and d h h'
  assume "next_frame (incoming_body C) i = Some (Ok (Some (DataFrame d)), i')"
    and h: "size_hint_of (incoming_body C) i = Some h" "size_hint_of (incoming_body C) i' = Some h'"
  then obtain c c' where c: "ct_take C c = (Ok (Some (DataFrame d)), c')"
    and obs: "observe (i\<lparr>in_consumer := Some c'\<rparr>) (DataFrame d :: (_, 'h) frame) = Ok i'"
    by (auto simp: incoming_body_def elim!: incoming_next_frame)
  from c assms have "view_ok d" "data_len d \<le> USIZE_MAX" by (auto simp: views_ok_def)
  with observe_data [OF obs] h have "data_len d = length (as_ref d)" "unat (sh_lower h') = unat (sh_lower h) - data_len d"
    "case sh_upper h of None \<Rightarrow> sh_upper h' = None | Some u \<Rightarrow> \<exists>u'. sh_upper h' = Some u' \<and> unat u = data_len d + unat u'"
    by (auto simp: incoming_body_def data_len_as_ref split: option.splits)
  then show "unat (sh_lower h) \<le> length (frame_bytes (incoming_body C) d) + unat (sh_lower h') \<and>
      (\<forall>u. sh_upper h = Some u \<longrightarrow> (\<exists>u'. sh_upper h' = Some u' \<and> length (frame_bytes (incoming_body C) d) + unat u' \<le> unat u))"
    by (auto simp: incoming_body_def)
next
  fix i i' :: "'c incoming" and f h h'
  assume "next_frame (incoming_body C) i = Some (Ok (Some (TrailersFrame f)), i')"
    and h: "size_hint_of (incoming_body C) i = Some h" "size_hint_of (incoming_body C) i' = Some h'"
  then show "unat (sh_lower h) \<le> unat (sh_lower h') \<and> (\<forall>u. sh_upper h = Some u \<longrightarrow> (\<exists>u'. sh_upper h' = Some u' \<and> u' \<le> u))"
    by (auto simp: incoming_body_def with_exact_def elim!: incoming_next_frame dest!: observe_trailers)
next
  fix i i' :: "'c incoming" and h
  assume "incoming_inv i" "next_frame (incoming_body C) i = Some (Ok None, i')" "size_hint_of (incoming_body C) i = Some h"
  then show "sh_lower h = 0" using incoming_next_stop [of C i "Ok None" i'] by (auto simp: incoming_body_def)
qed (use incoming_next_inv in \<open>auto simp: incoming_body_def\<close>)

lemma drain_loop_run:
  assumes "views_ok C"
  shows "drain_loop C n remaining i = Ok () \<longleftrightarrow>
    (\<exists>fs t. run_body n (incoming_body C) i = (fs, Some (Ok ()), t) \<and> length (payload as_ref fs) \<le> unat remaining)"
proof (induction n arbitrary: remaining i)
  case (Suc n)
  obtain r i' where r: "incoming_next C i = (r, i')" by fastforce
  show ?case
  proof (cases "is_frame r")
    case False
    with r show ?thesis by (auto simp: incoming_body_def is_frame_def split: result.splits option.splits)
  next
    case True
    then obtain f where f: "r = Ok (Some f)" by (auto simp: is_frame_def split: result.splits option.splits)
    show ?thesis
    proof (cases f)
      case (TrailersFrame t)
      with r f Suc.IH show ?thesis by (auto simp: incoming_body_def into_data_def split: prod.splits)
    next
      case (DataFrame d)
      with r f obtain c c' where "ct_take C c = (Ok (Some (DataFrame d)), c')" by (auto elim: incoming_next_frame)
      with assms have "view_ok d" and d: "data_len d \<le> USIZE_MAX" unfolding views_ok_def by blast+
      then have len: "data_len d = length (as_ref d)" by (simp add: data_len_as_ref)
      have w: "unat (word_of_nat (data_len d) :: u64) = data_len d" using d by (intro unat_of_usize) simp
      show ?thesis
      proof (cases "checked_sub remaining (word_of_nat (data_len d))")
        case None
        then have "unat remaining < data_len d" using w
          by (auto simp: checked_sub_def word_le_nat_alt split: if_splits)
        with None r f DataFrame len show ?thesis by (auto simp: incoming_body_def into_data_def split: prod.splits)
      next
        case (Some remaining')
        then have "unat remaining = data_len d + unat remaining'" using w by (simp add: checked_sub_Some)
        with Some r f DataFrame len Suc.IH [of remaining' i'] show ?thesis
          by (auto simp: incoming_body_def into_data_def split: prod.splits)
      qed
    qed
  qed
qed simp

fun charge_all :: "(usize \<times> usize) list \<Rightarrow> drain_policy \<Rightarrow> (unit, limit_kind) result \<times> drain_policy" where
  "charge_all [] policy = (Ok (), policy)"
| "charge_all ((bytes, pay) # rest) policy =
     (case charge_drain bytes pay policy of
        (Ok _, policy') \<Rightarrow> charge_all rest policy'
      | (Err e, policy') \<Rightarrow> (Err e, policy'))"

lemma charge_all_bounds:
  assumes "charge_all cs (Some (wire, data)) = (Ok (), policy)" "list_all (\<lambda>(b, p). b \<le> USIZE_MAX \<and> p \<le> USIZE_MAX) cs"
  shows "sum_list (map fst cs) \<le> unat wire \<and> sum_list (map snd cs) \<le> unat data"
  using assms
proof (induction cs arbitrary: wire data)
  case (Cons c cs)
  obtain b p where c: "c = (b, p)" by fastforce
  with Cons.prems(2) have w: "unat (word_of_nat b :: u64) = b" "unat (word_of_nat p :: u64) = p"
    by (auto intro: unat_of_usize)
  from c Cons.prems(1) obtain wire' data' where
    "checked_sub data (word_of_nat p) = Some data'" "checked_sub wire (word_of_nat b) = Some wire'"
    and rest: "charge_all cs (Some (wire', data')) = (Ok (), policy)"
    by (auto simp: charge_drain_def split: option.splits)
  then have "unat data = p + unat data'" "unat wire = b + unat wire'" using w by (simp_all add: checked_sub_Some)
  with Cons.IH [OF rest] Cons.prems(2) c show ?case by auto
qed simp

section \<open>Properties\<close>

text \<open>
  A received body keeps its promises whatever the connection delivers: the data it yields
  never exceeds the declared upper bound, a clean end comes only after the declared lower
  bound, trailers come at most once, last and only when they were announced, and after the
  end or an error every later call reports the end.
\<close>

theorem incoming_keeps_contract:
  assumes "views_ok C" and "\<forall>u. sh_upper hint = Some u \<longrightarrow> sh_lower hint \<le> u"
    and "run_body n (incoming_body C) (incoming_channel c hint th) = (fs, r, t)"
  shows "(\<forall>u. sh_upper hint = Some u \<longrightarrow> length (payload as_ref fs) \<le> unat u)
    \<and> (r = Some (Ok ()) \<longrightarrow> unat (sh_lower hint) \<le> length (payload as_ref fs))
    \<and> trailers_last fs \<and> (th = TH_None \<longrightarrow> \<not> has_trailers fs)
    \<and> (r \<noteq> None \<longrightarrow> (\<exists>t'. incoming_next C t = (Ok None, t')))"
proof -
  let ?i = "incoming_channel c hint th"
  have inv: "incoming_inv ?i" using assms(2) by (simp add: incoming_inv_def incoming_channel_def)
  have h: "size_hint_of (incoming_body C) ?i = Some hint" "trailer_hint_of (incoming_body C) ?i = Some th"
    "frame_bytes (incoming_body C) = as_ref"
    by (simp_all add: incoming_body_def incoming_channel_def)
  have last: "\<exists>t'. incoming_next C t = (Ok None, t')" if "r = Some q" for q
    using incoming.stays_ended [OF inv assms(3) [unfolded that]] by (simp add: incoming_body_def)
  show ?thesis
    using sized_body.run_upper [OF incoming_sized [OF assms(1)] inv assms(3) h(1)]
      sized_body.run_lower [OF incoming_sized [OF assms(1)] inv _ h(1), of n fs t] assms(3)
      incoming.run_ordered [OF inv assms(3)] last h
    by auto
qed

text \<open>A connection that delivers the given outcomes and then disconnects.\<close>

definition listed_consumer ::
  "(((incoming_storage, alist) frame option, error take_error) result list, alist) consumer_api" where
  "listed_consumer =
     \<lparr>ct_take = (\<lambda>c. case c of [] \<Rightarrow> (Err TE_Disconnected, [])
        | x # c' \<Rightarrow> (case x of Ok (Some (DataFrame d)) \<Rightarrow> if view_ok d \<and> data_len d \<le> USIZE_MAX then (x, c') else (Ok None, c')
                    | _ \<Rightarrow> (x, c'))),
      ct_drain_budget = (\<lambda>_ _ c. c)\<rparr>"

lemma listed_views_ok: "views_ok listed_consumer"
  by (auto simp: views_ok_def listed_consumer_def split: list.splits result.splits option.splits frame.splits if_splits)

theorem incoming_keeps_contract_witness:
  "fst (run_body 3 (incoming_body listed_consumer)
      (incoming_channel [Ok (Some (DataFrame (IS_Bytes [1, 2]))), Ok (Some (DataFrame (IS_Bytes [3, 4])))] (with_exact 3) TH_None))
    = [DataFrame (IS_Bytes [1, 2])]
   \<and> length (payload as_ref [DataFrame (IS_Bytes [1, 2]) :: (_, alist) frame]) \<le> 3"
proof -
  let ?i = "incoming_channel [Ok (Some (DataFrame (IS_Bytes [1, 2]))), Ok (Some (DataFrame (IS_Bytes [3, 4])))] (with_exact 3) TH_None"
  let ?run = "run_body 3 (incoming_body listed_consumer) ?i"
  have frames: "fst ?run = [DataFrame (IS_Bytes [1, 2])]" by code_simp
  obtain r t where "?run = ([DataFrame (IS_Bytes [1, 2])], r, t)" using frames by (cases ?run) auto
  from incoming_keeps_contract [OF listed_views_ok _ this] frames show ?thesis by (simp add: with_exact_def)
qed

text \<open>
  Draining a received body succeeds exactly when the body ends cleanly before the
  deadline with a payload within the given limit.
\<close>

theorem drain_exact:
  assumes "views_ok C"
  shows "incoming_drain C (Some n) limit i = Ok () \<longleftrightarrow>
    (\<exists>fs t. run_body n (incoming_body C)
         (i\<lparr>in_consumer := map_option (ct_drain_budget C limit (dc_wire_allowance (in_drain i))) (in_consumer i)\<rparr>)
       = (fs, Some (Ok ()), t) \<and> length (payload as_ref fs) \<le> unat limit)"
proof -
  let ?i = "i\<lparr>in_consumer := map_option (ct_drain_budget C limit (dc_wire_allowance (in_drain i))) (in_consumer i)\<rparr>"
  have "incoming_drain C (Some n) limit i = drain_loop C n limit ?i"
    by (cases i; cases "in_consumer i") (simp_all add: incoming_drain_def)
  with drain_loop_run [OF assms] show ?thesis by simp
qed

theorem drain_exact_witness:
  "incoming_drain listed_consumer (Some 3) 5
     (incoming_channel [Ok (Some (DataFrame (IS_Bytes [1, 2]))), Ok None] (with_exact 2) TH_None) = Ok ()"
proof (rule iffD2 [OF drain_exact [OF listed_views_ok]], intro exI conjI)
  let ?i = "incoming_channel [Ok (Some (DataFrame (IS_Bytes [1, 2]))), Ok None] (with_exact 2) TH_None"
  show "run_body 3 (incoming_body listed_consumer)
      (?i\<lparr>in_consumer := map_option (ct_drain_budget listed_consumer 5 (dc_wire_allowance (in_drain ?i))) (in_consumer ?i)\<rparr>)
      = ([DataFrame (IS_Bytes [1, 2])], Some (Ok ()), incoming_finish (?i\<lparr>in_consumer := Some []\<rparr>))" by code_simp
  show "length (payload as_ref [DataFrame (IS_Bytes [1, 2]) :: (_, alist) frame]) \<le> unat (5 :: u64)" by code_simp
qed

text \<open>
  Once a consumer drains its body, the framing bytes the connection may still read for it
  are bounded: all accepted charges together stay within the payload limit, and their wire
  bytes within the payload limit plus the allowance.
\<close>

theorem drain_charges_bounded:
  assumes "charge_all cs (drain_budget limit allowance) = (Ok (), policy)"
    and "list_all (\<lambda>(b, p). b \<le> USIZE_MAX \<and> p \<le> USIZE_MAX) cs"
  shows "sum_list (map snd cs) \<le> unat limit \<and> sum_list (map fst cs) \<le> unat limit + unat allowance"
proof -
  have "unat (saturating_add limit allowance) \<le> unat limit + unat allowance" by (simp add: unat_saturating_add)
  with charge_all_bounds [OF assms [unfolded drain_budget_def]] show ?thesis by linarith
qed

theorem drain_charges_bounded_witness:
  "\<exists>policy. charge_all [(10, 4), (7, 6)] (drain_budget 10 8) = (Ok (), policy) \<and> (10 :: nat) + 7 \<le> 10 + 8"
proof -
  have run: "charge_all [(10, 4), (7, 6)] (drain_budget 10 8) = (Ok (), Some (1, 0))" by code_simp
  show ?thesis using drain_charges_bounded [OF run] run by simp
qed

end
