(* ===== verification/Config.thy ===== *)
theory Config
  imports Head_Scan Encode Incoming
begin

text \<open>
  Protocol configuration (\<open>src/src/proto/h1/config.rs\<close>) and the deadlines it sets
  (\<open>src/src/io/deadline.rs\<close>).

  Durations are numbers of seconds. Whether the clock can represent a deadline that far away
  is a parameter \<open>now\<close>: the current instant and the largest one. A constructor that would
  panic on a zero limit gives \<open>None\<close>; the lemmas show that no setter reaches it, and that the
  settings stay valid through every sequence of calls, failed ones included.
\<close>

section \<open>Deadlines\<close>

record clock =
  ck_now :: nat
  ck_max :: nat

definition deadline_after :: "clock \<Rightarrow> nat option \<Rightarrow> (nat option, io_error) result" where
  "deadline_after c timeout =
     (case timeout of
        None \<Rightarrow> Ok None
      | Some d \<Rightarrow>
          if ck_now c + d \<le> ck_max c then Ok (Some (ck_now c + d))
          else Err \<lparr>io_kind = InvalidInput, io_deadline = None, io_rustls = False, io_canceled = False\<rparr>)"

definition configured_after :: "clock \<Rightarrow> nat option \<Rightarrow> (nat option, error) result" where
  "configured_after c timeout =
     map_err (\<lambda>e. with_source KLocalMessage ''invalid timeout duration'' (FromIo e)) (deadline_after c timeout)"

text \<open>\<open>timed\<close>: an elapsed deadline replaces success and cancellation, never another failure.\<close>

definition timed :: "('a, io_error) result \<Rightarrow> bool \<Rightarrow> timeout_phase \<Rightarrow> ('a, io_error) result" where
  "timed r elapsed phase =
     (if elapsed \<and> (case r of Ok _ \<Rightarrow> True | Err e \<Rightarrow> io_canceled e)
      then Err \<lparr>io_kind = TimedOut, io_deadline = Some phase, io_rustls = False, io_canceled = False\<rparr>
      else r)"

text \<open>
  \<open>settle\<close>: with no deadline the operation just runs; otherwise the result is that of the
  operation, which is awaited also after the deadline cancelled it. The argument is what the
  race showed: the operation's own result, or its result after cancellation.
\<close>

datatype 'a race_end = OperationFirst 'a | DeadlineFirst 'a

definition settle :: "nat option \<Rightarrow> 'a race_end \<Rightarrow> 'a \<times> bool" where
  "settle deadline raced =
     (case (deadline, raced) of
        (Some _, DeadlineFirst r) \<Rightarrow> (r, True)
      | (Some _, OperationFirst r) \<Rightarrow> (r, False)
      | (None, DeadlineFirst r) \<Rightarrow> (r, False)
      | (None, OperationFirst r) \<Rightarrow> (r, False))"

text \<open>One operation of the deadline-guarded write half.\<close>

definition guarded_write :: "clock \<Rightarrow> nat option \<Rightarrow> timeout_phase \<Rightarrow> ('a, io_error) result race_end \<Rightarrow> ('a, io_error) result" where
  "guarded_write c timeout phase raced =
     and_then (deadline_after c timeout) (\<lambda>deadline.
       case settle deadline raced of (r, elapsed) \<Rightarrow> timed r elapsed phase)"

section \<open>Configuration\<close>

record config =
  cf_head :: head_limits
  cf_decode :: decode_limits
  cf_encode :: encode_config
  cf_max_informational :: usize
  cf_preserve_header_case :: bool

definition config_default :: config where
  "config_default =
     \<lparr>cf_head = \<lparr>hl_max_bytes = 64 * 1024, hl_max_headers = 100\<rparr>, cf_decode = decode_limits_default,
      cf_encode = \<lparr>ec_max_head_bytes = 64 * 1024, ec_max_trailer_bytes = 16 * 1024, ec_title_case_headers = False\<rparr>,
      cf_max_informational = 16, cf_preserve_header_case = False\<rparr>"

text \<open>A setter returns \<open>None\<close> where it panics.\<close>

definition incoming_head_limits :: "config \<Rightarrow> usize \<Rightarrow> usize \<Rightarrow> (config, error) result option" where
  "incoming_head_limits c bytes headers =
     (if bytes = 0 \<or> headers = 0 then Some (Err (error_new KLocalMessage ''head limits must be nonzero''))
      else map_option (\<lambda>l. Ok (c\<lparr>cf_head := l\<rparr>)) (head_limits_new bytes headers))"

definition incoming_framing_limits :: "config \<Rightarrow> usize \<Rightarrow> usize \<Rightarrow> usize \<Rightarrow> (config, error) result option" where
  "incoming_framing_limits c chunk_line trailer_bytes trailers =
     (if chunk_line = 0 \<or> trailer_bytes = 0 \<or> trailers = 0
      then Some (Err (error_new KLocalMessage ''body framing limits must be nonzero''))
      else map_option (\<lambda>l. Ok (c\<lparr>cf_decode := l\<rparr>)) (with_framing_limits (cf_decode c) chunk_line trailer_bytes trailers))"

definition incoming_chunk_extension_limit :: "config \<Rightarrow> usize \<Rightarrow> config" where
  "incoming_chunk_extension_limit c bytes = c\<lparr>cf_decode := with_chunk_extension_limit (cf_decode c) bytes\<rparr>"

definition nonzero :: "usize \<Rightarrow> (unit, error) result" where
  "nonzero bytes = (if bytes = 0 then Err (error_new KLocalMessage ''output limit must be nonzero'') else Ok ())"

definition outgoing_head_limit :: "config \<Rightarrow> usize \<Rightarrow> (config, error) result" where
  "outgoing_head_limit c bytes =
     and_then (nonzero bytes) (\<lambda>_. Ok (c\<lparr>cf_encode := cf_encode c\<lparr>ec_max_head_bytes := bytes\<rparr>\<rparr>))"

definition outgoing_trailer_limit :: "config \<Rightarrow> usize \<Rightarrow> (config, error) result" where
  "outgoing_trailer_limit c bytes =
     and_then (nonzero bytes) (\<lambda>_. Ok (c\<lparr>cf_encode := cf_encode c\<lparr>ec_max_trailer_bytes := bytes\<rparr>\<rparr>))"

definition title_case_headers :: "config \<Rightarrow> bool \<Rightarrow> config" where
  "title_case_headers c enabled = c\<lparr>cf_encode := cf_encode c\<lparr>ec_title_case_headers := enabled\<rparr>\<rparr>"

record connection_settings =
  st_protocol :: config
  st_drain :: drain_config
  st_head_timeout :: "nat option"
  st_body_progress_timeout :: "nat option"
  st_write_progress_timeout :: "nat option"
  st_preferred_read :: usize
  st_max_retained :: usize

definition settings_default :: connection_settings where
  "settings_default =
     \<lparr>st_protocol = config_default, st_drain = drain_config_default, st_head_timeout = None,
      st_body_progress_timeout = None, st_write_progress_timeout = None,
      st_preferred_read = 16 * 1024, st_max_retained = 128 * 1024\<rparr>"

definition assign_deadline :: "clock \<Rightarrow> nat option \<Rightarrow> (nat option \<Rightarrow> 'a) \<Rightarrow> ('a, error) result" where
  "assign_deadline c timeout assign = and_then (configured_after c timeout) (\<lambda>_. Ok (assign timeout))"

definition set_head_timeout :: "clock \<Rightarrow> connection_settings \<Rightarrow> nat option \<Rightarrow> (connection_settings, error) result" where
  "set_head_timeout c s timeout = assign_deadline c timeout (\<lambda>t. s\<lparr>st_head_timeout := t\<rparr>)"

definition set_body_progress_timeout :: "clock \<Rightarrow> connection_settings \<Rightarrow> nat option \<Rightarrow> (connection_settings, error) result" where
  "set_body_progress_timeout c s timeout = assign_deadline c timeout (\<lambda>t. s\<lparr>st_body_progress_timeout := t\<rparr>)"

definition set_write_progress_timeout :: "clock \<Rightarrow> connection_settings \<Rightarrow> nat option \<Rightarrow> (connection_settings, error) result" where
  "set_write_progress_timeout c s timeout = assign_deadline c timeout (\<lambda>t. s\<lparr>st_write_progress_timeout := t\<rparr>)"

definition set_drain_timeout :: "clock \<Rightarrow> connection_settings \<Rightarrow> nat \<Rightarrow> (connection_settings, error) result" where
  "set_drain_timeout c s timeout =
     and_then (configured_after c (Some timeout)) (\<lambda>_. Ok (s\<lparr>st_drain := st_drain s\<lparr>dc_timeout_secs := timeout\<rparr>\<rparr>))"

definition set_read_buffer_limits :: "connection_settings \<Rightarrow> usize \<Rightarrow> usize \<Rightarrow> (connection_settings, error) result" where
  "set_read_buffer_limits s preferred retained =
     (if preferred = 0 \<or> retained < preferred
      then Err (error_new KLocalMessage ''receive limits must be nonzero and ordered'')
      else Ok (s\<lparr>st_preferred_read := preferred, st_max_retained := retained\<rparr>))"

section \<open>Valid settings\<close>

definition settings_ok :: "connection_settings \<Rightarrow> bool" where
  "settings_ok s \<longleftrightarrow>
     0 < hl_max_bytes (cf_head (st_protocol s)) \<and> 0 < hl_max_headers (cf_head (st_protocol s))
   \<and> 0 < max_chunk_line_bytes (cf_decode (st_protocol s)) \<and> 0 < max_trailer_bytes (cf_decode (st_protocol s))
   \<and> 0 < max_trailers (cf_decode (st_protocol s))
   \<and> 0 < ec_max_head_bytes (cf_encode (st_protocol s)) \<and> 0 < ec_max_trailer_bytes (cf_encode (st_protocol s))
   \<and> 0 < st_preferred_read s \<and> st_preferred_read s \<le> st_max_retained s"

datatype setting =
    SetHeadLimits usize usize | SetFramingLimits usize usize usize | SetChunkExtensionLimit usize
  | SetOutgoingHead usize | SetOutgoingTrailer usize | SetTitleCase bool
  | SetHeadTimeout "nat option" | SetBodyTimeout "nat option" | SetWriteTimeout "nat option"
  | SetDrainTimeout nat | SetReadBuffer usize usize

definition on_protocol :: "connection_settings \<Rightarrow> (config, error) result \<Rightarrow> (connection_settings, error) result" where
  "on_protocol s r = and_then r (\<lambda>c. Ok (s\<lparr>st_protocol := c\<rparr>))"

fun apply_setting :: "clock \<Rightarrow> setting \<Rightarrow> connection_settings \<Rightarrow> (connection_settings, error) result option" where
  "apply_setting c (SetHeadLimits b h) s = map_option (on_protocol s) (incoming_head_limits (st_protocol s) b h)"
| "apply_setting c (SetFramingLimits l b n) s = map_option (on_protocol s) (incoming_framing_limits (st_protocol s) l b n)"
| "apply_setting c (SetChunkExtensionLimit b) s = Some (Ok (s\<lparr>st_protocol := incoming_chunk_extension_limit (st_protocol s) b\<rparr>))"
| "apply_setting c (SetOutgoingHead b) s = Some (on_protocol s (outgoing_head_limit (st_protocol s) b))"
| "apply_setting c (SetOutgoingTrailer b) s = Some (on_protocol s (outgoing_trailer_limit (st_protocol s) b))"
| "apply_setting c (SetTitleCase b) s = Some (Ok (s\<lparr>st_protocol := title_case_headers (st_protocol s) b\<rparr>))"
| "apply_setting c (SetHeadTimeout t) s = Some (set_head_timeout c s t)"
| "apply_setting c (SetBodyTimeout t) s = Some (set_body_progress_timeout c s t)"
| "apply_setting c (SetWriteTimeout t) s = Some (set_write_progress_timeout c s t)"
| "apply_setting c (SetDrainTimeout t) s = Some (set_drain_timeout c s t)"
| "apply_setting c (SetReadBuffer p r) s = Some (set_read_buffer_limits s p r)"

text \<open>A failed call leaves the settings as they were.\<close>

fun apply_settings :: "(clock \<times> setting) list \<Rightarrow> connection_settings \<Rightarrow> connection_settings option" where
  "apply_settings [] s = Some s"
| "apply_settings ((c, x) # xs) s =
     (case apply_setting c x s of
        None \<Rightarrow> None
      | Some (Ok s') \<Rightarrow> apply_settings xs s'
      | Some (Err _) \<Rightarrow> apply_settings xs s)"

lemmas setting_defs = incoming_head_limits_def incoming_framing_limits_def incoming_chunk_extension_limit_def
  nonzero_def outgoing_head_limit_def outgoing_trailer_limit_def title_case_headers_def
  assign_deadline_def set_head_timeout_def set_body_progress_timeout_def set_write_progress_timeout_def
  set_drain_timeout_def set_read_buffer_limits_def on_protocol_def head_limits_new_def decode_limits_new_def
  with_framing_limits_def with_chunk_extension_limit_def

lemma apply_setting_returns: "apply_setting c x s \<noteq> None"
  by (cases x) (auto simp: setting_defs)

lemma apply_setting_ok: "apply_setting c x s = Some (Ok s') \<Longrightarrow> settings_ok s \<Longrightarrow> settings_ok s'"
  by (cases x) (auto simp: setting_defs settings_ok_def split: if_splits)

lemma apply_settings_ok: "settings_ok s \<Longrightarrow> \<exists>s'. apply_settings xs s = Some s' \<and> settings_ok s'"
proof (induction xs arbitrary: s)
  case (Cons x xs)
  obtain c y where x: "x = (c, y)" by fastforce
  obtain r where r: "apply_setting c y s = Some r" using apply_setting_returns by blast
  show ?case
  proof (cases r)
    case (Ok s')
    with Cons x r apply_setting_ok show ?thesis by auto
  qed (use Cons x r in auto)
qed simp

section \<open>Properties\<close>

text \<open>
  However a connection is configured, starting from the defaults and with any sequence of
  setter calls of which some may be refused, no setter panics and the settings stay valid:
  every limit of heads, framing and output is nonzero and the receive limits are ordered.
\<close>

theorem settings_stay_valid: "\<exists>s. apply_settings xs settings_default = Some s \<and> settings_ok s"
  by (rule apply_settings_ok)
    (simp add: settings_ok_def settings_default_def config_default_def decode_limits_default_def)

text \<open>
  A deadline never hides a real failure and never invents one: a guarded operation reports
  a timeout exactly when its deadline passed and the operation itself succeeded late or was
  cancelled; every other result is the operation's own.
\<close>

theorem deadline_keeps_failures:
  assumes "deadline_after c timeout = Ok deadline"
  shows "guarded_write c timeout phase raced =
    (case raced of
       DeadlineFirst r \<Rightarrow>
         (if timeout \<noteq> None \<and> (case r of Ok _ \<Rightarrow> True | Err e \<Rightarrow> io_canceled e)
          then Err \<lparr>io_kind = TimedOut, io_deadline = Some phase, io_rustls = False, io_canceled = False\<rparr> else r)
     | OperationFirst r \<Rightarrow> r)"
  using assms by (cases timeout; cases raced) (auto simp: guarded_write_def settle_def timed_def deadline_after_def split: if_splits)

theorem deadline_keeps_failures_witness:
  "guarded_write \<lparr>ck_now = 3, ck_max = 100\<rparr> (Some 5) PWriteProgress (DeadlineFirst (Ok (4 :: nat)))
     = Err \<lparr>io_kind = TimedOut, io_deadline = Some PWriteProgress, io_rustls = False, io_canceled = False\<rparr>"
proof -
  have d: "deadline_after \<lparr>ck_now = 3, ck_max = 100\<rparr> (Some 5) = Ok (Some 8)" by (simp add: deadline_after_def)
  show ?thesis by (subst deadline_keeps_failures [OF d]) simp
qed

end
