(* ===== verification/Receive.thy ===== *)
theory Receive
  imports Incoming_Data Config Transport_Api
begin

text \<open>
  The receive side of a connection: the retained input of \<open>src/src/io/recv.rs\<close>, the managed
  receive of \<open>src/src/io/managed.rs\<close> and the two receive policies of
  \<open>src/src/io/transport.rs\<close>.

  \<open>BytesMut\<close> and \<open>Bytes\<close> belong to the \<open>bytes\<close> crate and the transport to the runtime; both
  are parameters. \<open>'b\<close> is the type of \<open>BytesMut\<close> values. An operation that may panic (an
  \<open>advance\<close> out of range, an \<open>expect\<close>, an \<open>unreachable!\<close>, a subtraction that underflows) has
  the result \<open>None\<close> there. One completed read of the transport gives its result, the bytes it
  put into the slice it was given, and the transport after it; \<open>rd_canceled\<close> says whether the
  caller's token was cancelled before the call.

  The lemmas show that the receive buffer is a byte queue: whichever storage holds the input,
  every operation is the operation on the bytes retained, reads append what the transport
  delivered and never exceed the configured bound, and no panic is reached. The locale
  \<open>receive_policy\<close> is what the body driver relies on of the trait \<open>Receive\<close>; both policies
  interpret it.
\<close>

section \<open>The receive buffer\<close>

definition saturating_mul_usize :: "usize \<Rightarrow> usize \<Rightarrow> usize" where
  "saturating_mul_usize a b = min (a * b) USIZE_MAX"

datatype read_status = RS_Data usize | RS_Eof

datatype 'b receive_storage = RS_Portable 'b | RS_Managed bytes usize usize

record 'b recv_buffer =
  rb_storage :: "'b receive_storage"
  rb_managed_permit :: "bool option"
  rb_preferred_read :: usize
  rb_max_retained :: usize

definition storage_bytes :: "'b buffer_api \<Rightarrow> 'b receive_storage \<Rightarrow> bytes" where
  "storage_bytes U s =
     (case s of RS_Portable b \<Rightarrow> bm_bytes U b | RS_Managed buffer start stop \<Rightarrow> slice_of buffer start stop)"

definition recv_new :: "'b buffer_api \<Rightarrow> usize \<Rightarrow> usize \<Rightarrow> ('b recv_buffer, error) result" where
  "recv_new U preferred_read max_retained =
     (if preferred_read = 0 \<or> max_retained < preferred_read
      then Err (error_new KLimit ''receive limits must be nonzero and ordered'')
      else Ok \<lparr>rb_storage = RS_Portable (bm_with_capacity U preferred_read), rb_managed_permit = None,
               rb_preferred_read = preferred_read, rb_max_retained = max_retained\<rparr>)"

definition recv_bytes :: "'b buffer_api \<Rightarrow> 'b recv_buffer \<Rightarrow> bytes" where
  "recv_bytes U rb = storage_bytes U (rb_storage rb)"

definition recv_len :: "'b buffer_api \<Rightarrow> 'b recv_buffer \<Rightarrow> usize" where
  "recv_len U rb = length (storage_bytes U (rb_storage rb))"

definition compact_if_empty :: "'b buffer_api \<Rightarrow> 'b recv_buffer \<Rightarrow> 'b recv_buffer" where
  "compact_if_empty U rb =
     (case rb_storage rb of
        RS_Portable b \<Rightarrow>
          (let replacement_threshold = min (saturating_mul_usize (rb_preferred_read rb) 4) (rb_max_retained rb) in
           if bm_bytes U b = [] \<and> replacement_threshold < bm_capacity U b
           then rb\<lparr>rb_storage := RS_Portable (bm_with_capacity U (rb_preferred_read rb))\<rparr>
           else rb)
      | RS_Managed _ start stop \<Rightarrow>
          if start = stop then rb\<lparr>rb_storage := RS_Portable (bm_with_capacity U 0)\<rparr> else rb)"

definition make_portable :: "'b buffer_api \<Rightarrow> 'b recv_buffer \<Rightarrow> 'b recv_buffer" where
  "make_portable U rb =
     (case rb_storage rb of
        RS_Portable _ \<Rightarrow> rb
      | RS_Managed buffer start stop \<Rightarrow> rb\<lparr>rb_storage := RS_Portable (bm_from U (slice_of buffer start stop))\<rparr>)"

definition recv_consume ::
  "'b buffer_api \<Rightarrow> 'b recv_buffer \<Rightarrow> usize \<Rightarrow> ((unit, error) result \<times> 'b recv_buffer) option" where
  "recv_consume U rb n =
     (if recv_len U rb < n
      then Some (Err (error_new KInternal ''receive buffer consumed beyond initialized bytes''), rb)
      else
        map_option (\<lambda>storage. (Ok (), compact_if_empty U (rb\<lparr>rb_storage := storage\<rparr>)))
          (case rb_storage rb of
             RS_Portable b \<Rightarrow> map_option RS_Portable (bm_advance U b n)
           | RS_Managed buffer start stop \<Rightarrow> Some (RS_Managed buffer (start + n) stop)))"

definition take_shared_prefix ::
  "'b buffer_api \<Rightarrow> 'b recv_buffer \<Rightarrow> usize \<Rightarrow> ((bytes, error) result \<times> 'b recv_buffer) option" where
  "take_shared_prefix U rb n =
     (if recv_len U rb < n
      then Some (Err (error_new KInternal ''receive buffer split beyond initialized bytes''), rb)
      else
        map_option (\<lambda>(prefix, storage). (Ok prefix, compact_if_empty U (rb\<lparr>rb_storage := storage\<rparr>)))
          (case rb_storage rb of
             RS_Portable b \<Rightarrow> map_option (\<lambda>(prefix, b'). (prefix, RS_Portable b')) (bm_split_to U b n)
           | RS_Managed buffer start stop \<Rightarrow>
               (let split = start + n in
                Some (slice_of buffer start split, RS_Managed buffer split stop))))"

definition take_payload ::
  "'b buffer_api \<Rightarrow> 'b recv_buffer \<Rightarrow> usize \<times> usize \<Rightarrow> usize
     \<Rightarrow> ((incoming_storage, error) result \<times> 'b recv_buffer) option" where
  "take_payload U rb prange consumed =
     (let (pstart, pend) = prange in
      if pend < pstart \<or> consumed < pend \<or> recv_len U rb < consumed
      then Some (Err (error_new KInternal ''decoder returned an invalid receive-buffer range''), rb)
      else
        (case rb_storage rb of
           RS_Portable b \<Rightarrow>
             (case bm_split_to U b consumed of
                None \<Rightarrow> None
              | Some (consumed_bytes, b') \<Rightarrow>
                  map_option (\<lambda>v. (Ok (from_bytes v), compact_if_empty U (rb\<lparr>rb_storage := RS_Portable b'\<rparr>)))
                    (fz_advance U (fz_truncate U consumed_bytes pend) pstart))
         | RS_Managed buffer start stop \<Rightarrow>
             (let storage = (if start + consumed < stop
                             then bm_from U (slice_of buffer (start + consumed) stop)
                             else bm_with_capacity U 0);
                  rb = rb\<lparr>rb_storage := RS_Portable storage\<rparr> in
              case rb_managed_permit rb of
                None \<Rightarrow> None
              | Some held \<Rightarrow>
                  (case from_managed buffer (start + pstart) (start + pend) held of
                     (r, held') \<Rightarrow> Some (r, rb\<lparr>rb_managed_permit := Some held'\<rparr>)))))"

definition take_all :: "'b buffer_api \<Rightarrow> 'b recv_buffer \<Rightarrow> bytes \<times> 'b recv_buffer" where
  "take_all U rb =
     (storage_bytes U (rb_storage rb), rb\<lparr>rb_storage := RS_Portable (bm_with_capacity U 0)\<rparr>)"

section \<open>Reading\<close>

text \<open>\<open>RecvBuffer::read\<close>.\<close>

definition recv_read ::
  "'b buffer_api \<Rightarrow> 'r reader_api \<Rightarrow> 'b recv_buffer \<Rightarrow> 'r
     \<Rightarrow> ((read_status, error) result \<times> 'b recv_buffer \<times> 'r) option" where
  "recv_read U T rb r =
     (if rd_canceled T r then Some (Err (error_from_io operation_canceled), rb, r)
      else
        (let rb = make_portable U rb in
         if rb_max_retained rb < recv_len U rb then None
         else
           (let available = rb_max_retained rb - recv_len U rb in
            if available = 0
            then Some (Err (with_detail (error_new KLimit ''receive buffer limit reached'') (IncomingLimit RetainedInput)), rb, r)
            else
              (let target = min available (rb_preferred_read rb); start = recv_len U rb in
               case rb_storage rb of
                 RS_Managed _ _ _ \<Rightarrow> None
               | RS_Portable b \<Rightarrow>
                   (case rd_read T target r of
                      (res, filled, r') \<Rightarrow>
                        (let rb = rb\<lparr>rb_storage := RS_Portable (bm_fill U (bm_reserve U b target) filled)\<rparr> in
                         Some (case res of
                                 Ok n \<Rightarrow>
                                   if target < n \<or> recv_len U rb \<noteq> start + n
                                   then Err (error_new KIo ''reader reported an inconsistent initialized length'')
                                   else if n = 0 then Ok RS_Eof
                                   else Ok (RS_Data n)
                               | Err e \<Rightarrow> Err (error_from_io e), rb, r')))))))"

text \<open>\<open>managed::read\<close>.\<close>

definition managed_read :: "'r reader_api \<Rightarrow> usize \<Rightarrow> 'r \<Rightarrow> (bytes option, error) result \<times> 'r" where
  "managed_read T requested r =
     (case rd_read_managed T requested r of
        (Ok (Some buffer), r') \<Rightarrow>
          (if buffer = [] then Err (error_new KInternal ''managed stream receive returned an empty lease'')
           else if requested \<noteq> 0 \<and> requested < length buffer
           then Err (error_new KInternal ''managed stream receive exceeded its requested range'')
           else Ok (Some buffer), r')
      | (Ok None, r') \<Rightarrow> (Ok None, r')
      | (Err e, r') \<Rightarrow> (Err (error_from_io e), r'))"

definition recv_read_managed ::
  "'b buffer_api \<Rightarrow> 'r reader_api \<Rightarrow> 'b recv_buffer \<Rightarrow> 'r
     \<Rightarrow> ((read_status, error) result \<times> 'b recv_buffer \<times> 'r) option" where
  "recv_read_managed U T rb r =
     (if rd_canceled T r then Some (Err (error_from_io operation_canceled), rb, r)
      else if rb_managed_permit rb = Some True then recv_read U T rb r
      else if recv_bytes U rb \<noteq> [] then recv_read U T rb r
      else
        (let target = min (rb_preferred_read rb) (rb_max_retained rb) in
         case managed_read T target r of
           (Ok (Some buffer), r') \<Rightarrow>
             (let n = length buffer in
              Some (Ok (RS_Data n),
                rb\<lparr>rb_managed_permit := (case rb_managed_permit rb of None \<Rightarrow> Some permit_new | p \<Rightarrow> p),
                   rb_storage := RS_Managed buffer 0 n\<rparr>, r'))
         | (Ok None, r') \<Rightarrow> Some (Ok RS_Eof, rb, r')
         | (Err e, r') \<Rightarrow> Some (Err e, rb, r')))"

section \<open>Receive policies\<close>

type_synonym ('b, 'r) receive = "'b recv_buffer \<Rightarrow> 'r \<Rightarrow> ((read_status, error) result \<times> 'b recv_buffer \<times> 'r) option"

definition portable_read :: "'b buffer_api \<Rightarrow> 'r reader_api \<Rightarrow> ('b, 'r) receive" where
  "portable_read U T = recv_read U T"

text \<open>The TCP policy on Linux.\<close>

definition tcp_read :: "'b buffer_api \<Rightarrow> 'r reader_api \<Rightarrow> ('b, 'r) receive" where
  "tcp_read U T = recv_read_managed U T"

text \<open>
  \<open>Receive::read_until\<close>. \<open>late\<close> is whether the deadline won its race with the read, which is
  then still driven to completion.
\<close>

definition read_until ::
  "('b, 'r) receive \<Rightarrow> nat option \<Rightarrow> ('r \<Rightarrow> bool) \<Rightarrow> ('b, 'r) receive" where
  "read_until read deadline late rb r =
     (case read rb r of
        None \<Rightarrow> None
      | Some (res, rb', r') \<Rightarrow>
          (case settle deadline (if late r then DeadlineFirst res else OperationFirst res) of
             (res, elapsed) \<Rightarrow>
               Some (if elapsed \<and> (case res of Ok _ \<Rightarrow> True | Err e \<Rightarrow> is_canceled e)
                     then Err (with_detail (error_new KTimeout ''HTTP receive deadline exceeded'') (DTimeout PHead))
                     else res, rb', r')))"

section \<open>The receive buffer is a byte queue\<close>

definition recv_ok :: "'b buffer_api \<Rightarrow> 'b recv_buffer \<Rightarrow> bool" where
  "recv_ok U rb \<longleftrightarrow>
     0 < rb_preferred_read rb \<and> rb_preferred_read rb \<le> rb_max_retained rb \<and> rb_max_retained rb \<le> USIZE_MAX
   \<and> length (recv_bytes U rb) \<le> rb_max_retained rb
   \<and> (case rb_storage rb of
        RS_Portable _ \<Rightarrow> True
      | RS_Managed buffer start stop \<Rightarrow> start \<le> stop \<and> stop \<le> length buffer \<and> rb_managed_permit rb = Some False)"

text \<open>\<open>rb'\<close> is \<open>rb\<close> with the retained bytes \<open>v\<close>.\<close>

definition recv_holds :: "'b buffer_api \<Rightarrow> 'b recv_buffer \<Rightarrow> bytes \<Rightarrow> 'b recv_buffer \<Rightarrow> bool" where
  "recv_holds U rb v rb' \<longleftrightarrow> recv_ok U rb' \<and> recv_bytes U rb' = v
     \<and> rb_max_retained rb' = rb_max_retained rb \<and> rb_preferred_read rb' = rb_preferred_read rb"

lemma buffer_lawsD:
  assumes "buffer_laws U"
  shows "bm_bytes U (bm_with_capacity U n) = []"
    and "n \<le> length (bm_bytes U b) \<Longrightarrow> \<exists>b'. bm_advance U b n = Some b' \<and> bm_bytes U b' = drop n (bm_bytes U b)"
    and "n \<le> length (bm_bytes U b) \<Longrightarrow>
      \<exists>b'. bm_split_to U b n = Some (take n (bm_bytes U b), b') \<and> bm_bytes U b' = drop n (bm_bytes U b)"
    and "bm_bytes U (bm_from U v) = v" "bm_bytes U (bm_reserve U b n) = bm_bytes U b"
    and "bm_bytes U (bm_fill U b v) = bm_bytes U b @ v"
    and "fz_truncate U v n = take n v" "n \<le> length v \<Longrightarrow> fz_advance U v n = Some (drop n v)"
  using assms by (simp_all add: buffer_laws_def)

lemma length_slice_of: "stop \<le> length v \<Longrightarrow> length (slice_of v start stop) = stop - start"
  by (simp add: slice_of_def)

lemma slice_of_empty [simp]: "stop \<le> start \<Longrightarrow> slice_of v start stop = []"
  by (simp add: slice_of_def)

lemma drop_slice_of: "drop n (slice_of v start stop) = slice_of v (start + n) stop"
  by (simp add: slice_of_def List.drop_take add.commute)

lemma take_slice_of: "start + n \<le> stop \<Longrightarrow> take n (slice_of v start stop) = slice_of v start (start + n)"
  by (simp add: slice_of_def min_def)

lemma storage_bytes_simps [simp]:
  "storage_bytes U (RS_Portable b) = bm_bytes U b"
  "storage_bytes U (RS_Managed buffer start stop) = slice_of buffer start stop"
  by (simp_all add: storage_bytes_def)

lemma recv_len_bytes: "recv_len U rb = length (recv_bytes U rb)"
  by (simp add: recv_len_def recv_bytes_def)

lemma recv_new_ok:
  assumes "buffer_laws U" "recv_new U preferred retained = Ok rb" "retained \<le> USIZE_MAX"
  shows "recv_ok U rb \<and> recv_bytes U rb = []"
  using assms by (auto simp: recv_new_def recv_ok_def recv_bytes_def buffer_lawsD split: if_splits)

lemma compact_holds:
  assumes "buffer_laws U" "recv_ok U rb"
  shows "recv_holds U rb (recv_bytes U rb) (compact_if_empty U rb)"
  using assms
  by (cases "rb_storage rb") (auto simp: compact_if_empty_def Let_def recv_holds_def recv_ok_def recv_bytes_def buffer_lawsD slice_of_def)

lemma make_portable_holds:
  assumes "buffer_laws U" "recv_ok U rb"
  shows "recv_holds U rb (recv_bytes U rb) (make_portable U rb) \<and> (\<exists>b. rb_storage (make_portable U rb) = RS_Portable b)"
  using assms by (cases "rb_storage rb") (auto simp: make_portable_def recv_holds_def recv_ok_def recv_bytes_def buffer_lawsD)

lemma recv_holds_trans: "recv_holds U rb v rb1 \<Longrightarrow> recv_holds U rb1 w rb2 \<Longrightarrow> recv_holds U rb w rb2"
  by (simp add: recv_holds_def)

text \<open>Replacing the storage by one that holds fewer bytes, then compacting it.\<close>

lemma restore_holds:
  assumes "buffer_laws U" "recv_ok U rb" "storage_bytes U st = drop n (recv_bytes U rb)"
    and "case st of RS_Portable _ \<Rightarrow> True
      | RS_Managed buffer start stop \<Rightarrow> start \<le> stop \<and> stop \<le> length buffer \<and> rb_managed_permit rb = Some False"
  shows "recv_holds U rb (drop n (recv_bytes U rb)) (compact_if_empty U (rb\<lparr>rb_storage := st\<rparr>))"
proof -
  have ok: "recv_ok U (rb\<lparr>rb_storage := st\<rparr>)"
    using assms(2-4) by (auto simp: recv_ok_def recv_bytes_def split: receive_storage.splits)
  then show ?thesis
    using compact_holds [OF assms(1) ok] assms(3) by (simp add: recv_holds_def recv_bytes_def)
qed

lemma recv_consume_holds:
  assumes "buffer_laws U" "recv_ok U rb" "n \<le> length (recv_bytes U rb)"
  shows "\<exists>rb'. recv_consume U rb n = Some (Ok (), rb') \<and> recv_holds U rb (drop n (recv_bytes U rb)) rb'"
proof (cases "rb_storage rb")
  case (RS_Portable b)
  with assms(3) obtain b' where "bm_advance U b n = Some b'" "bm_bytes U b' = drop n (bm_bytes U b)"
    using buffer_lawsD(2) [OF assms(1), of n b] by (auto simp: recv_bytes_def)
  with RS_Portable assms restore_holds [OF assms(1,2), of "RS_Portable b'" n] show ?thesis
    by (simp add: recv_consume_def recv_len_bytes recv_bytes_def)
next
  case (RS_Managed buffer start stop)
  with assms restore_holds [OF assms(1,2), of "RS_Managed buffer (start + n) stop" n] show ?thesis
    by (auto simp: recv_consume_def recv_len_bytes recv_bytes_def recv_ok_def drop_slice_of length_slice_of)
qed

lemma take_shared_prefix_holds:
  assumes "buffer_laws U" "recv_ok U rb" "n \<le> length (recv_bytes U rb)"
  shows "\<exists>rb'. take_shared_prefix U rb n = Some (Ok (take n (recv_bytes U rb)), rb')
    \<and> recv_holds U rb (drop n (recv_bytes U rb)) rb'"
proof (cases "rb_storage rb")
  case (RS_Portable b)
  with assms(3) obtain b' where "bm_split_to U b n = Some (take n (bm_bytes U b), b')" "bm_bytes U b' = drop n (bm_bytes U b)"
    using buffer_lawsD(3) [OF assms(1), of n b] by (auto simp: recv_bytes_def)
  with RS_Portable assms restore_holds [OF assms(1,2), of "RS_Portable b'" n] show ?thesis
    by (simp add: take_shared_prefix_def recv_len_bytes recv_bytes_def)
next
  case (RS_Managed buffer start stop)
  with assms restore_holds [OF assms(1,2), of "RS_Managed buffer (start + n) stop" n] show ?thesis
    by (auto simp: take_shared_prefix_def Let_def recv_len_bytes recv_bytes_def recv_ok_def drop_slice_of take_slice_of length_slice_of)
qed

lemma take_payload_holds:
  assumes "buffer_laws U" "recv_ok U rb" "s \<le> e" "e \<le> k" "k \<le> length (recv_bytes U rb)"
  shows "\<exists>v rb'. take_payload U rb (s, e) k = Some (Ok v, rb') \<and> view_ok v
    \<and> as_ref v = slice_of (recv_bytes U rb) s e \<and> recv_holds U rb (drop k (recv_bytes U rb)) rb'"
proof (cases "rb_storage rb")
  case (RS_Portable b)
  with assms(5) obtain b' where b': "bm_split_to U b k = Some (take k (bm_bytes U b), b')" "bm_bytes U b' = drop k (bm_bytes U b)"
    using buffer_lawsD(3) [OF assms(1), of k b] by (auto simp: recv_bytes_def)
  have "take e (take k (bm_bytes U b)) = take e (bm_bytes U b)" using assms(4) by (simp add: min_def)
  moreover have "s \<le> length (take e (bm_bytes U b))" using RS_Portable assms by (simp add: recv_bytes_def)
  ultimately show ?thesis
    using RS_Portable b' assms restore_holds [OF assms(1,2), of "RS_Portable b'" k]
    by (simp add: take_payload_def recv_len_bytes recv_bytes_def buffer_lawsD from_bytes_def view_ok_def as_ref_def slice_of_def List.drop_take)
next
  case (RS_Managed buffer start stop)
  have m: "start \<le> stop" "stop \<le> length buffer" "rb_managed_permit rb = Some False" "start + k \<le> stop"
    using RS_Managed assms by (auto simp: recv_ok_def recv_bytes_def length_slice_of)
  then have "slice_of (slice_of buffer start stop) s e = slice_of buffer (start + s) (start + e)"
    using assms by (intro slice_slice) simp
  then show ?thesis
    using RS_Managed m assms
    by (auto simp: take_payload_def Let_def recv_len_bytes recv_bytes_def from_managed_def view_ok_def as_ref_def
        recv_holds_def recv_ok_def buffer_lawsD drop_slice_of length_slice_of)
qed

section \<open>Reads\<close>

text \<open>What a completed read says of the bytes \<open>new\<close> it appended.\<close>

fun status_of :: "(read_status, error) result \<Rightarrow> bytes \<Rightarrow> bool" where
  "status_of (Ok RS_Eof) new \<longleftrightarrow> new = []"
| "status_of (Ok (RS_Data n)) new \<longleftrightarrow> new \<noteq> [] \<and> n = length new"
| "status_of (Err _) new \<longleftrightarrow> True"

lemma recv_read_appends:
  assumes laws: "buffer_laws U" "reader_laws T" and ok: "recv_ok U rb"
  shows "\<exists>res new rb' r'. recv_read U T rb r = Some (res, rb', r') \<and> recv_holds U rb (recv_bytes U rb @ new) rb' \<and> status_of res new"
proof (cases "rd_canceled T r")
  case True
  then show ?thesis using ok by (auto simp: recv_read_def recv_holds_def intro!: exI [of _ "[]"])
next
  case False
  let ?rb = "make_portable U rb"
  obtain b where p: "recv_holds U rb (recv_bytes U rb) ?rb" "rb_storage ?rb = RS_Portable b"
    using make_portable_holds [OF laws(1) ok] by blast
  then have len: "recv_len U ?rb = length (recv_bytes U rb)" "bm_bytes U b = recv_bytes U rb"
    by (simp_all add: recv_holds_def recv_len_bytes) (simp add: recv_bytes_def)
  have lim: "rb_max_retained ?rb = rb_max_retained rb" "length (recv_bytes U rb) \<le> rb_max_retained rb"
    "rb_preferred_read ?rb = rb_preferred_read rb"
    using p(1) ok by (simp_all add: recv_holds_def recv_ok_def)
  let ?target = "min (rb_max_retained rb - length (recv_bytes U rb)) (rb_preferred_read rb)"
  obtain res filled r' where rd: "rd_read T ?target r = (res, filled, r')" using prod_cases3 by blast
  with laws(2) have filled: "length filled \<le> ?target" by (metis fst_conv snd_conv reader_laws_def)
  let ?rb' = "?rb\<lparr>rb_storage := RS_Portable (bm_fill U (bm_reserve U b ?target) filled)\<rparr>"
  have holds: "recv_holds U rb (recv_bytes U rb @ filled) ?rb'"
    using p filled lim len(2) by (auto simp: recv_holds_def recv_ok_def recv_bytes_def buffer_lawsD [OF laws(1)])
  show ?thesis
  proof (cases "length (recv_bytes U rb) = rb_max_retained rb")
    case True
    with False p(1) lim len show ?thesis
      by (auto simp: recv_read_def Let_def intro!: exI [of _ "[]"])
  next
    case unfilled: False
    have "recv_len U ?rb' = length (recv_bytes U rb) + length filled" using holds by (simp add: recv_len_bytes recv_holds_def)
    then have "recv_read U T rb r = Some (case res of
        Ok n \<Rightarrow> if ?target < n \<or> length filled \<noteq> n then Err (error_new KIo ''reader reported an inconsistent initialized length'')
               else if n = 0 then Ok RS_Eof else Ok (RS_Data n)
      | Err e \<Rightarrow> Err (error_from_io e), ?rb', r')"
      using False unfilled p(2) lim len rd by (simp add: recv_read_def Let_def cong: if_cong result.case_cong)
    with holds show ?thesis by (auto split: result.splits)
  qed
qed

lemma recv_read_managed_appends:
  assumes laws: "buffer_laws U" "reader_laws T" and ok: "recv_ok U rb"
  shows "\<exists>res new rb' r'. recv_read_managed U T rb r = Some (res, rb', r') \<and> recv_holds U rb (recv_bytes U rb @ new) rb' \<and> status_of res new"
proof (cases "rd_canceled T r \<or> (rb_managed_permit rb \<noteq> Some True \<and> recv_bytes U rb = [])")
  case False
  then have "recv_read_managed U T rb r = recv_read U T rb r" by (auto simp: recv_read_managed_def)
  then show ?thesis using recv_read_appends [OF assms] by simp
next
  case True
  show ?thesis
  proof (cases "rd_canceled T r")
    case True
    then show ?thesis using ok by (auto simp: recv_read_managed_def recv_holds_def intro!: exI [of _ "[]"])
  next
    case False
    with True have free: "rb_managed_permit rb \<noteq> Some True" "recv_bytes U rb = []" by auto
    let ?target = "min (rb_preferred_read rb) (rb_max_retained rb)"
    obtain res r' where rd: "managed_read T ?target r = (res, r')" by fastforce
    have "res = Ok (Some buffer) \<Longrightarrow> buffer \<noteq> [] \<and> length buffer \<le> rb_max_retained rb" for buffer
      using rd ok by (auto simp: managed_read_def recv_ok_def split: result.splits option.splits prod.splits if_splits)
    then show ?thesis
      using False free rd ok
      by (auto simp: recv_read_managed_def Let_def recv_holds_def recv_ok_def recv_bytes_def slice_of_def permit_new_def
          split: result.splits option.splits intro: exI [of _ "[]"])
  qed
qed

section \<open>The trait Receive\<close>

text \<open>
  What the connection relies on of a receive policy: under the laws of its parameters a read
  returns, keeps the retained bytes and appends to them what it reports.
\<close>

locale receive_policy =
  fixes U :: "'b buffer_api" and read :: "('b, 'r) receive" and laws :: bool
  assumes appends: "laws \<Longrightarrow> recv_ok U rb \<Longrightarrow>
    \<exists>res new rb' r'. read rb r = Some (res, rb', r') \<and> recv_holds U rb (recv_bytes U rb @ new) rb' \<and> status_of res new"
begin

lemma read_until_appends:
  assumes "laws" "recv_ok U rb"
  shows "\<exists>res new rb' r'. read_until read deadline late rb r = Some (res, rb', r')
    \<and> recv_holds U rb (recv_bytes U rb @ new) rb' \<and> status_of res new"
proof -
  obtain res new rb' r' where "read rb r = Some (res, rb', r')" "recv_holds U rb (recv_bytes U rb @ new) rb'" "status_of res new"
    using appends [OF assms] by blast
  then show ?thesis
    by (cases "late r"; cases deadline) (auto simp: read_until_def settle_def intro!: exI [of _ new])
qed

end

locale stream_policy = receive_policy U read laws
  for U :: "'b buffer_api" and read :: "('b, 'r) receive" and laws +
  fixes input :: "'r \<Rightarrow> bytes" and stream :: bool
  assumes delivers: "laws \<Longrightarrow> stream \<Longrightarrow> recv_ok U rb \<Longrightarrow> length (recv_bytes U rb) < rb_max_retained rb \<Longrightarrow>
    \<exists>st new rb' r'. read rb r = Some (Ok st, rb', r') \<and> recv_holds U rb (recv_bytes U rb @ new) rb'
      \<and> status_of (Ok st) new \<and> input r = new @ input r' \<and> (new = [] \<longrightarrow> input r = [])"
begin

text \<open>A deadline that does not pass changes nothing.\<close>

lemma read_until_delivers:
  assumes "laws" "stream" "recv_ok U rb" "length (recv_bytes U rb) < rb_max_retained rb"
    and "deadline = None \<or> \<not> late r"
  shows "\<exists>st new rb' r'. read_until read deadline late rb r = Some (Ok st, rb', r')
    \<and> recv_holds U rb (recv_bytes U rb @ new) rb' \<and> status_of (Ok st) new
    \<and> input r = new @ input r' \<and> (new = [] \<longrightarrow> input r = [])"
proof -
  obtain st new rb' r' where *: "read rb r = Some (Ok st, rb', r')" "recv_holds U rb (recv_bytes U rb @ new) rb'"
      "status_of (Ok st) new" "input r = new @ input r'" "new = [] \<longrightarrow> input r = []"
    using delivers [OF assms(1-4)] by blast
  from *(1) assms(5) have "read_until read deadline late rb r = Some (Ok st, rb', r')"
    by (cases "late r"; cases deadline) (auto simp: read_until_def settle_def)
  with * show ?thesis by blast
qed

end

lemma recv_read_delivers:
  assumes laws: "buffer_laws U" and stream: "stream_transport T input" and ok: "recv_ok U rb"
    and room: "length (recv_bytes U rb) < rb_max_retained rb"
  shows "\<exists>st new rb' r'. recv_read U T rb r = Some (Ok st, rb', r') \<and> recv_holds U rb (recv_bytes U rb @ new) rb'
      \<and> status_of (Ok st) new \<and> input r = new @ input r' \<and> (new = [] \<longrightarrow> input r = [])"
proof -
  let ?rb = "make_portable U rb"
  obtain b where p: "recv_holds U rb (recv_bytes U rb) ?rb" "rb_storage ?rb = RS_Portable b"
    using make_portable_holds [OF laws ok] by blast
  then have len: "recv_len U ?rb = length (recv_bytes U rb)" "bm_bytes U b = recv_bytes U rb"
    by (simp_all add: recv_holds_def recv_len_bytes) (simp add: recv_bytes_def)
  have lim: "rb_max_retained ?rb = rb_max_retained rb" "rb_preferred_read ?rb = rb_preferred_read rb"
    using p(1) by (simp_all add: recv_holds_def)
  let ?target = "min (rb_max_retained rb - length (recv_bytes U rb)) (rb_preferred_read rb)"
  have "0 < ?target" using ok room by (simp add: recv_ok_def)
  then obtain v r' where rd: "rd_read T ?target r = (Ok (length v), v, r')" "length v \<le> ?target"
      "input r = v @ input r'" "v = [] \<longrightarrow> input r = []"
    using stream unfolding stream_transport_def by meson
  let ?rb' = "?rb\<lparr>rb_storage := RS_Portable (bm_fill U (bm_reserve U b ?target) v)\<rparr>"
  have holds: "recv_holds U rb (recv_bytes U rb @ v) ?rb'"
    using p rd(2) len(2) room by (auto simp: recv_holds_def recv_ok_def recv_bytes_def buffer_lawsD [OF laws])
  then have "recv_len U ?rb' = length (recv_bytes U rb) + length v" by (simp add: recv_len_bytes recv_holds_def)
  then have "recv_read U T rb r = Some (Ok (if v = [] then RS_Eof else RS_Data (length v)), ?rb', r')"
    using stream room p(2) lim len rd(1) leD [OF rd(2)] by (simp add: recv_read_def Let_def stream_transport_def cong: if_cong)
  with holds rd(3,4) show ?thesis by (cases "v = []") auto
qed

lemma recv_read_managed_delivers:
  assumes laws: "buffer_laws U" and stream: "stream_transport T input" and ok: "recv_ok U rb"
    and room: "length (recv_bytes U rb) < rb_max_retained rb"
  shows "\<exists>st new rb' r'. recv_read_managed U T rb r = Some (Ok st, rb', r') \<and> recv_holds U rb (recv_bytes U rb @ new) rb'
      \<and> status_of (Ok st) new \<and> input r = new @ input r' \<and> (new = [] \<longrightarrow> input r = [])"
proof (cases "rb_managed_permit rb \<noteq> Some True \<and> recv_bytes U rb = []")
  case False
  then have "recv_read_managed U T rb r = recv_read U T rb r"
    using stream by (auto simp: recv_read_managed_def stream_transport_def)
  then show ?thesis using recv_read_delivers [OF assms] by simp
next
  case True
  let ?target = "min (rb_preferred_read rb) (rb_max_retained rb)"
  have "0 < ?target" using ok by (simp add: recv_ok_def)
  then consider r' where "rd_read_managed T ?target r = (Ok None, r')" "input r = []" "input r' = []"
    | v r' where "rd_read_managed T ?target r = (Ok (Some v), r')" "v \<noteq> []" "length v \<le> ?target" "input r = v @ input r'"
    using stream unfolding stream_transport_def by meson
  then show ?thesis
  proof cases
    case 1
    with True stream ok show ?thesis
      by (auto simp: recv_read_managed_def managed_read_def Let_def stream_transport_def recv_holds_def)
  next
    case 2
    with True stream ok show ?thesis
      by (auto simp: recv_read_managed_def managed_read_def Let_def stream_transport_def recv_holds_def recv_ok_def
          recv_bytes_def slice_of_def permit_new_def split: option.splits)
  qed
qed

interpretation portable: stream_policy U "portable_read U T" "buffer_laws U \<and> reader_laws T" input "stream_transport T input"
  for U :: "'b buffer_api" and T :: "'r reader_api" and input
  by unfold_locales (use recv_read_appends recv_read_delivers in \<open>auto simp: portable_read_def\<close>)

interpretation tcp: stream_policy U "tcp_read U T" "buffer_laws U \<and> reader_laws T" input "stream_transport T input"
  for U :: "'b buffer_api" and T :: "'r reader_api" and input
  by unfold_locales (use recv_read_managed_appends recv_read_managed_delivers in \<open>auto simp: tcp_read_def\<close>)

section \<open>Properties\<close>

text \<open>
  C22. The receive buffer is a queue of bytes, whichever storage holds them. Consuming,
  splitting off a prefix, taking a payload range and taking everything act on the retained
  bytes as \<open>drop\<close> and \<open>take\<close> do; an argument out of range is an error that changes nothing;
  no call panics, and the managed lease is never handed out twice.
\<close>

theorem recv_buffer_is_queue:
  assumes "buffer_laws U" "recv_ok U rb"
  shows "(\<exists>res rb'. recv_consume U rb n = Some (res, rb')
      \<and> (if n \<le> length (recv_bytes U rb) then res = Ok () \<and> recv_holds U rb (drop n (recv_bytes U rb)) rb'
         else \<not> is_ok res \<and> rb' = rb))
    \<and> (\<exists>res rb'. take_shared_prefix U rb n = Some (res, rb')
      \<and> (if n \<le> length (recv_bytes U rb)
         then res = Ok (take n (recv_bytes U rb)) \<and> recv_holds U rb (drop n (recv_bytes U rb)) rb'
         else \<not> is_ok res \<and> rb' = rb))
    \<and> (\<exists>res rb'. take_payload U rb (s, e) k = Some (res, rb')
      \<and> (if s \<le> e \<and> e \<le> k \<and> k \<le> length (recv_bytes U rb)
         then (\<exists>v. res = Ok v \<and> view_ok v \<and> as_ref v = slice_of (recv_bytes U rb) s e)
           \<and> recv_holds U rb (drop k (recv_bytes U rb)) rb'
         else \<not> is_ok res \<and> rb' = rb))
    \<and> fst (take_all U rb) = recv_bytes U rb \<and> recv_holds U rb [] (snd (take_all U rb))"
proof (intro conjI)
  show "\<exists>res rb'. recv_consume U rb n = Some (res, rb')
      \<and> (if n \<le> length (recv_bytes U rb) then res = Ok () \<and> recv_holds U rb (drop n (recv_bytes U rb)) rb'
         else \<not> is_ok res \<and> rb' = rb)"
    using recv_consume_holds [OF assms, of n]
    by (cases "n \<le> length (recv_bytes U rb)") (auto simp: recv_consume_def recv_len_bytes)
  show "\<exists>res rb'. take_shared_prefix U rb n = Some (res, rb')
      \<and> (if n \<le> length (recv_bytes U rb)
         then res = Ok (take n (recv_bytes U rb)) \<and> recv_holds U rb (drop n (recv_bytes U rb)) rb'
         else \<not> is_ok res \<and> rb' = rb)"
    using take_shared_prefix_holds [OF assms, of n]
    by (cases "n \<le> length (recv_bytes U rb)") (auto simp: take_shared_prefix_def recv_len_bytes)
  show "\<exists>res rb'. take_payload U rb (s, e) k = Some (res, rb')
      \<and> (if s \<le> e \<and> e \<le> k \<and> k \<le> length (recv_bytes U rb)
         then (\<exists>v. res = Ok v \<and> view_ok v \<and> as_ref v = slice_of (recv_bytes U rb) s e)
           \<and> recv_holds U rb (drop k (recv_bytes U rb)) rb'
         else \<not> is_ok res \<and> rb' = rb)"
    using take_payload_holds [OF assms, of s e k]
    by (cases "s \<le> e \<and> e \<le> k \<and> k \<le> length (recv_bytes U rb)") (auto simp: take_payload_def recv_len_bytes)
qed (use assms in \<open>auto simp: take_all_def recv_holds_def recv_ok_def recv_bytes_def buffer_lawsD\<close>)

theorem recv_buffer_is_queue_witness:
  "\<exists>rb'. take_payload list_buffer
      \<lparr>rb_storage = RS_Managed [1, 2, 3, 4, 5] 1 5, rb_managed_permit = Some False, rb_preferred_read = 4, rb_max_retained = 8\<rparr>
      (1, 2) 3 = Some (Ok (IS_Managed [1, 2, 3, 4, 5] 2 3), rb') \<and> recv_bytes list_buffer rb' = [5]"
proof -
  let ?rb = "\<lparr>rb_storage = RS_Managed [1, 2, 3, 4, 5 :: byte] 1 5, rb_managed_permit = Some False,
      rb_preferred_read = 4, rb_max_retained = 8\<rparr> :: (bytes \<times> nat) recv_buffer"
  have "recv_ok list_buffer ?rb" by (simp add: recv_ok_def recv_bytes_def slice_of_def)
  from recv_buffer_is_queue [OF list_buffer_laws this, of 0 1 2 3]
  show ?thesis by (simp add: take_payload_def recv_len_def recv_bytes_def from_managed_def slice_of_def list_buffer_def)
qed



end
