(* ===== verification/Body_Receive.thy ===== *)
theory Body_Receive
  imports Receive Loops Incoming Decode_Stream
begin

text \<open>
  The receiving half of \<open>src/src/proto/h1/body_io.rs\<close>: the driver that decodes what a
  connection received and hands it, frame by frame and on demand, to the body of the
  application.

  The producer endpoint of the rendezvous is a parameter: one completed wait on it gives its
  result, or \<open>None\<close> when the caller's token was cancelled first, and the endpoint after it.
  The rendezvous behind it is the theory \<open>Pipe\<close>. The receive policy and the clock come from the
  connection. The buffer, the decoder and the drain budget are the models of their theories.

  The lemmas show that no round of the driver panics or meets an inconsistency between the
  decoder and the buffer whatever the two sides do, and that with a consumer that keeps asking
  the driver returns and hands over exactly what the decoder reads from the whole stream.
\<close>

section \<open>The body of a message\<close>

text \<open>\<open>incoming\<close>: the two endpoints, or only an empty body where nothing can arrive.\<close>

definition incoming_for :: "'p \<times> 'c \<Rightarrow> body_mode \<Rightarrow> 'p option \<times> 'c incoming" where
  "incoming_for channel mode =
     (case mode of
        BM_None \<Rightarrow> (None, incoming_empty)
      | BM_Fixed len \<Rightarrow>
          if len = 0 then (None, incoming_empty)
          else (Some (fst channel), incoming_channel (snd channel) (with_exact len) TH_None)
      | BM_Chunked \<Rightarrow> (Some (fst channel), incoming_channel (snd channel) size_hint_new TH_MayHave)
      | BM_UntilEof \<Rightarrow> (Some (fst channel), incoming_channel (snd channel) size_hint_new TH_None))"

section \<open>The driver\<close>

datatype receive_end = RE_Complete | RE_Abandoned | RE_Failed error

type_synonym 'h in_frame = "(incoming_storage, 'h) frame"

record ('p, 'h) producer_api =
  pd_demand :: "'p \<Rightarrow> (unit, demand_error) result option \<times> 'p"
  pd_offer :: "'h in_frame \<Rightarrow> 'p \<Rightarrow> (unit, 'h in_frame offer_error) result option \<times> 'p"
  pd_policy :: "'p \<Rightarrow> drain_policy"
  pd_set_policy :: "drain_policy \<Rightarrow> 'p \<Rightarrow> 'p"
  pd_watch :: "'p \<Rightarrow> 'p"
  pd_is_abandoned :: "'p \<Rightarrow> bool"
  pd_close :: "'p \<Rightarrow> 'p"
  pd_fail :: "error \<Rightarrow> 'p \<Rightarrow> 'p"
  pd_drop :: "'p \<Rightarrow> 'p"

record ('b, 'r) receive_env =
  rc_read :: "('b, 'r) receive"
  rc_late :: "'r \<Rightarrow> bool"
  rc_clock :: "'r \<Rightarrow> clock"
  rc_timeout :: "nat option"

record ('b, 'p, 'r) receive_state =
  rv_buffer :: "'b recv_buffer"
  rv_decoder :: body_decoder
  rv_producer :: 'p
  rv_eof :: bool
  rv_reader :: 'r

text \<open>\<open>ReceiveEnd::fail\<close>: the body and the driver get the two halves of the error.\<close>

definition receive_fail ::
  "('p, 'h) producer_api \<Rightarrow> error \<Rightarrow> ('b, 'p, 'r) receive_state \<Rightarrow> receive_end \<times> ('b, 'p, 'r) receive_state" where
  "receive_fail G e st =
     (case error_split e of
        (incoming, driver) \<Rightarrow> (RE_Failed driver, st\<lparr>rv_producer := pd_fail G incoming (rv_producer st)\<rparr>))"

definition receive_abandon ::
  "('p, 'h) producer_api \<Rightarrow> ('b, 'p, 'r) receive_state \<Rightarrow> receive_end \<times> ('b, 'p, 'r) receive_state" where
  "receive_abandon G st = (RE_Abandoned, st\<lparr>rv_producer := pd_drop G (rv_producer st)\<rparr>)"

definition receive_complete ::
  "('p, 'h) producer_api \<Rightarrow> ('b, 'p, 'r) receive_state \<Rightarrow> receive_end \<times> ('b, 'p, 'r) receive_state" where
  "receive_complete G st = (RE_Complete, st\<lparr>rv_producer := pd_close G (rv_producer st)\<rparr>)"

text \<open>
  \<open>read_or_abandoned\<close>: the read is driven to completion also when abandonment wins the race,
  so only its own outcome counts; \<open>pd_watch\<close> is the endpoint when it has settled.
\<close>

definition body_progress :: "error \<Rightarrow> error" where
  "body_progress e =
     (if err_detail e = Some (DTimeout PHead) then with_detail e (DTimeout PBodyProgress) else e)"

definition read_or_abandoned ::
  "('b, 'r) receive_env \<Rightarrow> ('b, 'r) receive" where
  "read_or_abandoned X rb r =
     (case configured_after (rc_clock X r) (rc_timeout X) of
        Err e \<Rightarrow> Some (Err e, rb, r)
      | Ok deadline \<Rightarrow>
          map_option (\<lambda>(res, rb', r'). (map_err body_progress res, rb', r'))
            (read_until (rc_read X) deadline (rc_late X) rb r))"

definition outcome_consumed :: "'h decode_outcome \<Rightarrow> usize" where
  "outcome_consumed out =
     (case out of NeedMore k \<Rightarrow> k | Data _ k \<Rightarrow> k | Trailers _ k \<Rightarrow> k | End k \<Rightarrow> k)"

definition outcome_payload :: "'h decode_outcome \<Rightarrow> usize" where
  "outcome_payload out = (case out of Data (s, e) _ \<Rightarrow> e - s | _ \<Rightarrow> 0)"

text \<open>The branch of \<open>NeedMore\<close>: one more read, unless the consumer is gone.\<close>

definition receive_read ::
  "('p, 'h) producer_api \<Rightarrow> ('b, 'r) receive_env \<Rightarrow> ('b, 'p, 'r) receive_state
     \<Rightarrow> (('b, 'p, 'r) receive_state + (receive_end \<times> ('b, 'p, 'r) receive_state)) option" where
  "receive_read G X st =
     (case read_or_abandoned X (rv_buffer st) (rv_reader st) of
        None \<Rightarrow> None
      | Some (res, rb, r) \<Rightarrow>
          (let st = st\<lparr>rv_buffer := rb, rv_reader := r, rv_producer := pd_watch G (rv_producer st)\<rparr> in
           if pd_is_abandoned G (rv_producer st) then Some (Inr (receive_abandon G st))
           else
             (case res of
                Ok RS_Eof \<Rightarrow> Some (Inl (st\<lparr>rv_eof := True\<rparr>))
              | Ok (RS_Data _) \<Rightarrow> Some (Inl st)
              | Err e \<Rightarrow> Some (Inr (receive_fail G e st)))))"

text \<open>Handing a frame to the consumer.\<close>

definition receive_offer ::
  "('p, 'h) producer_api \<Rightarrow> 'h in_frame \<Rightarrow> ('b, 'p, 'r) receive_state
     \<Rightarrow> ('b, 'p, 'r) receive_state + (receive_end \<times> ('b, 'p, 'r) receive_state)" where
  "receive_offer G f st =
     (case pd_offer G f (rv_producer st) of
        (Some (Ok _), p) \<Rightarrow> Inl (st\<lparr>rv_producer := p\<rparr>)
      | (Some (Err (OE_Abandoned _)), p) \<Rightarrow> Inr (receive_abandon G (st\<lparr>rv_producer := p\<rparr>))
      | (Some (Err (OE_Closed _)), p) \<Rightarrow>
          Inr (RE_Failed (error_new KClosed ''body handoff closed''), st\<lparr>rv_producer := pd_drop G p\<rparr>)
      | (None, p) \<Rightarrow> Inr (receive_fail G (error_from_io operation_canceled) (st\<lparr>rv_producer := p\<rparr>)))"

definition receive_outcome ::
  "'b buffer_api \<Rightarrow> ('p, 'h) producer_api \<Rightarrow> ('b, 'r) receive_env \<Rightarrow> 'h decode_outcome \<Rightarrow> ('b, 'p, 'r) receive_state
     \<Rightarrow> (('b, 'p, 'r) receive_state + (receive_end \<times> ('b, 'p, 'r) receive_state)) option" where
  "receive_outcome U G X out st =
     (case out of
        NeedMore consumed \<Rightarrow>
          (case recv_consume U (rv_buffer st) consumed of
             None \<Rightarrow> None
           | Some (Err e, rb) \<Rightarrow> Some (Inr (receive_fail G e (st\<lparr>rv_buffer := rb\<rparr>)))
           | Some (Ok _, rb) \<Rightarrow> receive_read G X (st\<lparr>rv_buffer := rb\<rparr>))
      | Data span consumed \<Rightarrow>
          (case take_payload U (rv_buffer st) span consumed of
             None \<Rightarrow> None
           | Some (Err e, rb) \<Rightarrow> Some (Inr (receive_fail G e (st\<lparr>rv_buffer := rb\<rparr>)))
           | Some (Ok d, rb) \<Rightarrow> Some (receive_offer G (DataFrame d) (st\<lparr>rv_buffer := rb\<rparr>)))
      | Trailers trailers consumed \<Rightarrow>
          (case recv_consume U (rv_buffer st) consumed of
             None \<Rightarrow> None
           | Some (Err e, rb) \<Rightarrow> Some (Inr (receive_fail G e (st\<lparr>rv_buffer := rb\<rparr>)))
           | Some (Ok _, rb) \<Rightarrow> Some (receive_offer G (TrailersFrame trailers) (st\<lparr>rv_buffer := rb\<rparr>)))
      | End consumed \<Rightarrow>
          (case recv_consume U (rv_buffer st) consumed of
             None \<Rightarrow> None
           | Some (Err e, rb) \<Rightarrow> Some (Inr (receive_fail G e (st\<lparr>rv_buffer := rb\<rparr>)))
           | Some (Ok _, rb) \<Rightarrow> Some (Inr (receive_complete G (st\<lparr>rv_buffer := rb\<rparr>)))))"

text \<open>One round of the loop of \<open>receive_body_configured\<close>.\<close>

definition receive_round ::
  "httparse_api \<Rightarrow> ('h, 'u) http_api \<Rightarrow> 'b buffer_api \<Rightarrow> ('p, 'h) producer_api \<Rightarrow> ('b, 'r) receive_env \<Rightarrow> ('b, 'p, 'r) receive_state
     \<Rightarrow> (('b, 'p, 'r) receive_state + (receive_end \<times> ('b, 'p, 'r) receive_state)) option" where
  "receive_round P A U G X st =
     (if is_complete (rv_decoder st) then Some (Inr (receive_complete G st))
      else
        (case pd_demand G (rv_producer st) of
           (None, p) \<Rightarrow> Some (Inr (receive_fail G (error_from_io operation_canceled) (st\<lparr>rv_producer := p\<rparr>)))
         | (Some (Err _), p) \<Rightarrow> Some (Inr (receive_abandon G (st\<lparr>rv_producer := p\<rparr>)))
         | (Some (Ok _), p) \<Rightarrow>
             (case decode P A (rv_decoder st) (recv_bytes U (rv_buffer st)) (rv_eof st) of
                (Err e, d) \<Rightarrow> Some (Inr (receive_fail G (error_from_decode e) (st\<lparr>rv_producer := p, rv_decoder := d\<rparr>)))
              | (Ok out, d) \<Rightarrow>
                  (case charge_drain (outcome_consumed out) (outcome_payload out) (pd_policy G p) of
                     (Err limit, _) \<Rightarrow>
                       Some (Inr (receive_fail G
                         (with_detail (error_new KLimit ''body drain payload or wire limit exceeded'') (IncomingLimit limit))
                         (st\<lparr>rv_producer := p, rv_decoder := d\<rparr>)))
                   | (Ok _, policy) \<Rightarrow>
                       receive_outcome U G X out (st\<lparr>rv_producer := pd_set_policy G policy p, rv_decoder := d\<rparr>)))))"

definition receive_body ::
  "httparse_api \<Rightarrow> ('h, 'u) http_api \<Rightarrow> 'b buffer_api \<Rightarrow> ('p, 'h) producer_api \<Rightarrow> ('b, 'r) receive_env
     \<Rightarrow> 'r \<Rightarrow> 'b recv_buffer \<Rightarrow> body_decoder \<Rightarrow> 'p \<Rightarrow> (receive_end \<times> ('b, 'p, 'r) receive_state) option" where
  "receive_body P A U G X r rb d p =
     iterate (receive_round P A U G X)
       \<lparr>rv_buffer = rb, rv_decoder = d, rv_producer = p, rv_eof = False, rv_reader = r\<rparr>"

section \<open>The decoder and the end of the stream\<close>

text \<open>What a decoder that asks for more leaves in the buffer fits its own limits.\<close>

definition leftover_bound :: "body_decoder \<Rightarrow> nat" where
  "leftover_bound d = max 1 (max (max_chunk_line_bytes (limits d)) (max_trailer_bytes (limits d)))"

lemma chunk_line_loop_incomplete:
  "chunk_line_loop d input i = (Ok (None, s), d') \<Longrightarrow> length input \<le> max_chunk_line_bytes (limits d) \<and> d' = d"
proof (induction d input i rule: chunk_line_loop.induct)
  case (1 d input i)
  then show ?case
    by (subst (asm) (2) chunk_line_loop.simps) (auto simp: Let_def split: if_splits result.splits prod.splits)
qed

lemma decode_leftover:
  assumes "decode P A d buf eof = (Ok (NeedMore c), d')"
  shows "length buf - c \<le> leftover_bound d \<and> \<not> eof"
proof -
  have "decode_chunked P A d st buf eof k = (Ok (NeedMore c), d') \<Longrightarrow>
      length buf - c \<le> leftover_bound d \<and> \<not> eof" for st k
  proof (induction P A d st buf eof k rule: decode_chunked.induct)
    case (1 P A d st buf eof k)
    note unfolded = "1.prems" [unfolded decode_chunked.simps [of P A d st buf eof k]]
    show ?case
    proof (cases st)
      case (CS_Size n)
      obtain r d1 where line: "decoder_parse_chunk_line d (drop k buf) n = (r, d1)" by fastforce
      have "limits d1 = limits d" using parse_chunk_line_frame [OF line] by auto
      then have "leftover_bound d1 = leftover_bound d" by (simp add: leftover_bound_def)
      note bound = this
      consider (err) e where "r = Err e" | (open_line) m where "r = Ok (None, m)" | (size_line) sz k1 m where "r = Ok (Some (sz, k1), m)"
        by (metis option.exhaust result.exhaust surj_pair)
      then show ?thesis
      proof cases
        case err
        with unfolded CS_Size line show ?thesis by (simp add: decoder_fail_def)
      next
        case open_line
        then have "length (drop k buf) \<le> max_chunk_line_bytes (limits d)"
          using chunk_line_loop_incomplete line by (metis decoder_parse_chunk_line_def)
        with unfolded CS_Size line open_line show ?thesis by (auto simp: decoder_fail_def leftover_bound_def split: if_splits)
      next
        case size_line
        with unfolded CS_Size line have "decode_chunked P A d1 (if sz = 0 then CS_Trailers 0 else CS_Data sz) buf eof (k + k1)
            = (Ok (NeedMore c), d')" by simp
        with "1.IH"(1) [OF CS_Size line [symmetric] size_line, of "Some (sz, k1)" m "(sz, k1)" sz k1] bound show ?thesis by simp
      qed
    next
      case (CS_Data r)
      with unfolded show ?thesis by (auto simp: Let_def decoder_fail_def split: if_splits)
    next
      case CS_DataCrlf
      with unfolded "1.IH"(2) [OF CS_DataCrlf refl] show ?thesis
        by (auto simp: Let_def decoder_fail_def leftover_bound_def split: if_splits)
    next
      case (CS_Trailers n)
      with unfolded show ?thesis
        by (auto simp: decode_trailers_def trailer_end_def Let_def decoder_fail_def leftover_bound_def
            split: result.splits option.splits if_splits)
    qed
  qed
  then show ?thesis using assms
    by (auto simp: decode_def Let_def decoder_fail_def split: decoder_state.splits if_splits)
qed

section \<open>A round and the rest of the run\<close>

text \<open>Two runs give the application the same: payload, end and unread rest, or a failure.\<close>

definition agrees :: "bytes \<times> ('h, 'e) run_end \<times> 'd \<times> bytes \<Rightarrow> bytes \<times> ('h, 'e) run_end \<times> 'd \<times> bytes \<Rightarrow> bool" where
  "agrees x y \<longleftrightarrow>
     (case (x, y) of
        ((p, f, _, l), (p', f', _, l')) \<Rightarrow> (p = p' \<and> f = f' \<and> l = l') \<or> (\<exists>e e'. f = Failed e \<and> f' = Failed e'))"

lemma agrees_refl [simp]: "agrees x x"
  by (auto simp: agrees_def split: prod.splits)

lemma agrees_trans [trans]: "agrees x y \<Longrightarrow> agrees y z \<Longrightarrow> agrees x z"
  by (auto simp: agrees_def split: prod.splits)

lemma agrees_sym: "agrees x y \<Longrightarrow> agrees y x"
  by (auto simp: agrees_def split: prod.splits)

lemma agrees_with_payload: "agrees x y \<Longrightarrow> agrees (with_payload p x) (with_payload p y)"
  by (auto simp: agrees_def with_payload_def split: prod.splits)

lemma drain_after_data:
  assumes step: "decode P A d buf eof = (Ok (Data (s, e) k), d1)" and ok: "decoder_ok P d buf" and eof: "eof \<longrightarrow> extra = []"
  shows "agrees (drain (decode P A) d (buf @ extra) True)
    (with_payload (slice_of buf s e) (drain (decode P A) d1 (drop k buf @ extra) True))"
proof -
  have within: "s < e" "k = e" "e \<le> length buf" "decoder_ok P d1 (drop k buf)" using body.data_within [OF step ok] by auto
  then have one: "drain (decode P A) d buf eof = with_payload (slice_of buf s e) (drain (decode P A) d1 (drop k buf) eof)"
    using drain_data [of "decode P A", OF step] by (simp add: slice_of_def)
  show ?thesis
  proof (cases eof)
    case True
    with one eof show ?thesis by simp
  next
    case False
    obtain q f d' l where q: "drain (decode P A) d1 (drop k buf) False = (q, f, d', l)" by (metis prod_cases4)
    with one False have all: "drain (decode P A) d buf False = (slice_of buf s e @ q, f, d', l)" by simp
    note whole = body.drain_append [OF all ok, of extra True] and rest = body.drain_append [OF q within(4), of extra True]
    show ?thesis
    proof (cases f)
      case More
      with whole rest show ?thesis by simp
    next
      case (Ended t)
      with whole rest show ?thesis by simp
    next
      case (Failed x)
      with whole rest obtain p2 e2 d2 l2 p3 e3 d3 l3 where "drain (decode P A) d (buf @ extra) True = (p2, Failed e2, d2, l2)"
        "drain (decode P A) d1 (drop k buf @ extra) True = (p3, Failed e3, d3, l3)" by blast
      then show ?thesis by (simp add: agrees_def)
    qed (use body.drain_progress [OF q within(4)] in simp)
  qed
qed

lemma decode_chunked_trailers_done:
  "decode_chunked P A d st buf eof c = (Ok (Trailers h k), d') \<Longrightarrow> dstate d' = DS_Done"
proof (induction P A d st buf eof c rule: decode_chunked.induct)
  case (1 P A d st buf eof c)
  note unfolded = "1.prems" [unfolded decode_chunked.simps [of P A d st buf eof c]]
  show ?case
  proof (cases st)
    case (CS_Size n)
    with unfolded "1.IH"(1) [OF CS_Size] show ?thesis
      by (auto simp: decoder_fail_def split: result.splits prod.splits option.splits if_splits)
  next
    case (CS_Data r)
    with unfolded show ?thesis by (auto simp: Let_def decoder_fail_def split: if_splits)
  next
    case CS_DataCrlf
    with unfolded "1.IH"(2) [OF CS_DataCrlf refl] show ?thesis by (auto simp: Let_def decoder_fail_def split: if_splits)
  next
    case (CS_Trailers n)
    with unfolded show ?thesis
      by (auto simp: decode_trailers_def Let_def decoder_fail_def split: result.splits option.splits if_splits)
  qed
qed

lemma drain_after_trailers:
  assumes step: "decode P A d buf eof = (Ok (Trailers h k), d1)" and ok: "decoder_ok P d buf" and eof: "eof \<longrightarrow> extra = []"
  shows "drain (decode P A) d (buf @ extra) True = ([], Ended (Some h), d1, drop k buf @ extra) \<and> is_complete d1"
proof -
  have "dstate d1 = DS_Done"
    using step by (auto simp: decode_def Let_def decoder_fail_def dest!: decode_chunked_trailers_done split: decoder_state.splits if_splits)
  moreover have "decode P A d (buf @ extra) True = (Ok (Trailers h k), d1) \<and> k \<le> length buf"
    using body.trailers_stop [of P A d buf h k d1 extra True] decode_within [OF step] step ok eof
    by (cases eof) (auto simp: decoder_ok_def)
  ultimately show ?thesis by (auto simp: drain.simps [of "decode P A" d "buf @ extra" True] is_complete_def)
qed

lemma drain_after_end:
  assumes step: "decode P A d buf eof = (Ok (End k), d1)" and ok: "decoder_ok P d buf" and eof: "eof \<longrightarrow> extra = []"
  shows "drain (decode P A) d (buf @ extra) True = ([], Ended None, d1, drop k buf @ extra)"
proof -
  have "decode P A d (buf @ extra) True = (Ok (End k), d1) \<and> k \<le> length buf"
    using body.end_stop [of P A d buf k d1 extra True] decode_within [OF step] step ok eof
    by (cases eof) (auto simp: decoder_ok_def)
  then show ?thesis by (auto simp: drain.simps [of "decode P A" d "buf @ extra" True])
qed

lemma drain_after_error:
  assumes step: "decode P A d buf eof = (Err x, d1)" and ok: "decoder_ok P d buf" and eof: "eof \<longrightarrow> extra = []"
  shows "\<exists>p e d2 l. drain (decode P A) d (buf @ extra) True = (p, Failed e, d2, l)"
proof -
  have "\<exists>y. fst (decode P A d (buf @ extra) True) = Err y"
    using body.err_more [of P A d buf x d1 extra True] step ok eof by (cases eof) auto
  then obtain y d2 where "decode P A d (buf @ extra) True = (Err y, d2)" by (metis prod.collapse)
  then show ?thesis by (simp add: drain.simps [of "decode P A" d "buf @ extra" True])
qed

lemma drain_complete: "is_complete d \<Longrightarrow> \<exists>d'. drain (decode P A) d buf eof = ([], Ended None, d', buf)"
  by (auto simp: is_complete_def drain.simps [of "decode P A" d buf eof] decode_def)

section \<open>Rounds\<close>

text \<open>
  The buffer serves every outcome the decoder can report: the branches in which it refuses a
  range are not taken.
\<close>

fun served ::
  "'b buffer_api \<Rightarrow> ('p, 'h) producer_api \<Rightarrow> ('b, 'r) receive_env \<Rightarrow> 'h decode_outcome \<Rightarrow> ('b, 'p, 'r) receive_state \<Rightarrow> 'b recv_buffer
     \<Rightarrow> bool" where
  "served U G X (NeedMore k) st rb \<longleftrightarrow> receive_outcome U G X (NeedMore k) st = receive_read G X (st\<lparr>rv_buffer := rb\<rparr>)"
| "served U G X (Data (s, e) k) st rb \<longleftrightarrow>
     (\<exists>v. receive_outcome U G X (Data (s, e) k) st = Some (receive_offer G (DataFrame v) (st\<lparr>rv_buffer := rb\<rparr>))
        \<and> view_ok v \<and> as_ref v = slice_of (recv_bytes U (rv_buffer st)) s e)"
| "served U G X (Trailers h k) st rb \<longleftrightarrow>
     receive_outcome U G X (Trailers h k) st = Some (receive_offer G (TrailersFrame h) (st\<lparr>rv_buffer := rb\<rparr>))"
| "served U G X (End k) st rb \<longleftrightarrow>
     receive_outcome U G X (End k) st = Some (Inr (receive_complete G (st\<lparr>rv_buffer := rb\<rparr>)))"

lemma receive_outcome_holds:
  assumes "buffer_laws U" "recv_ok U (rv_buffer st)" "outcome_within 0 (length (recv_bytes U (rv_buffer st))) out"
  shows "\<exists>rb. recv_holds U (rv_buffer st) (drop (outcome_consumed out) (recv_bytes U (rv_buffer st))) rb \<and> served U G X out st rb"
proof (cases "\<exists>s e k. out = Data (s, e) k")
  case True
  then obtain s e k where out: "out = Data (s, e) k" by blast
  with assms(3) take_payload_holds [OF assms(1,2), of s e k] obtain v rb where
    "take_payload U (rv_buffer st) (s, e) k = Some (Ok v, rb)" "view_ok v" "as_ref v = slice_of (recv_bytes U (rv_buffer st)) s e"
    "recv_holds U (rv_buffer st) (drop k (recv_bytes U (rv_buffer st))) rb" by auto
  then show ?thesis by (auto simp: out receive_outcome_def outcome_consumed_def)
next
  case False
  then have "outcome_consumed out \<le> length (recv_bytes U (rv_buffer st))"
    using assms(3) by (cases out) (auto simp: outcome_consumed_def)
  with recv_consume_holds [OF assms(1,2)] obtain rb where
    "recv_consume U (rv_buffer st) (outcome_consumed out) = Some (Ok (), rb)"
    "recv_holds U (rv_buffer st) (drop (outcome_consumed out) (recv_bytes U (rv_buffer st))) rb" by blast
  with False show ?thesis by (cases out) (auto simp: receive_outcome_def outcome_consumed_def)
qed

definition receive_inv :: "httparse_api \<Rightarrow> 'b buffer_api \<Rightarrow> ('b, 'p, 'r) receive_state \<Rightarrow> bool" where
  "receive_inv P U st \<longleftrightarrow> recv_ok U (rv_buffer st) \<and> decoder_ok P (rv_decoder st) (recv_bytes U (rv_buffer st))"

text \<open>What a round may leave: a state the next round can start from, or a buffer to keep.\<close>

definition round_ok ::
  "httparse_api \<Rightarrow> 'b buffer_api \<Rightarrow> ('b, 'p, 'r) receive_state + (receive_end \<times> ('b, 'p, 'r) receive_state) \<Rightarrow> bool" where
  "round_ok P U x = (case x of Inl st \<Rightarrow> receive_inv P U st | Inr (_, st) \<Rightarrow> recv_ok U (rv_buffer st))"

lemmas receive_ends = receive_fail_def receive_abandon_def receive_complete_def

lemma receive_ends_buffer [simp]:
  "rv_buffer (snd (receive_fail G e st)) = rv_buffer st" "rv_buffer (snd (receive_abandon G st)) = rv_buffer st"
  "rv_buffer (snd (receive_complete G st)) = rv_buffer st"
  by (simp_all add: receive_ends split: prod.splits)

lemma round_stops [simp]:
  "round_ok P U (Inr (receive_fail G e st)) \<longleftrightarrow> recv_ok U (rv_buffer st)"
  "round_ok P U (Inr (receive_abandon G st)) \<longleftrightarrow> recv_ok U (rv_buffer st)"
  "round_ok P U (Inr (receive_complete G st)) \<longleftrightarrow> recv_ok U (rv_buffer st)"
  by (simp_all add: round_ok_def receive_ends split: prod.splits)

lemma receive_offer_ok:
  assumes "receive_inv P U st"
  shows "round_ok P U (receive_offer G f st)"
  using assms
  by (auto simp: receive_offer_def round_ok_def receive_inv_def receive_ends split: prod.splits option.splits result.splits offer_error.splits)

lemma read_or_abandoned_appends:
  assumes "receive_policy U (rc_read X) laws" "laws" "recv_ok U rb"
  shows "\<exists>res new rb' r'. read_or_abandoned X rb r = Some (res, rb', r') \<and> recv_holds U rb (recv_bytes U rb @ new) rb'"
proof (cases "configured_after (rc_clock X r) (rc_timeout X)")
  case (Ok deadline)
  with receive_policy.read_until_appends [OF assms, of deadline "rc_late X" r] show ?thesis
    by (auto simp: read_or_abandoned_def)
next
  case (Err e)
  with assms(3) show ?thesis by (auto simp: read_or_abandoned_def recv_holds_def intro!: exI [of _ "[]"])
qed

lemma receive_read_ok:
  assumes "receive_policy U (rc_read X) laws" "laws" "recv_ok U (rv_buffer st)"
    and "\<And>new. decoder_ok P (rv_decoder st) (recv_bytes U (rv_buffer st) @ new)"
  shows "\<exists>x. receive_read G X st = Some x \<and> round_ok P U x"
proof -
  obtain res new rb r where read: "read_or_abandoned X (rv_buffer st) (rv_reader st) = Some (res, rb, r)"
    "recv_holds U (rv_buffer st) (recv_bytes U (rv_buffer st) @ new) rb"
    using read_or_abandoned_appends [OF assms(1-3)] by blast
  then have "recv_ok U rb" "decoder_ok P (rv_decoder st) (recv_bytes U rb)" using assms(4) [of new] by (simp_all add: recv_holds_def)
  with read(1) show ?thesis
    by (auto simp: receive_read_def round_ok_def receive_inv_def receive_ends Let_def split: prod.splits result.splits read_status.splits)
qed

lemma decoder_ok_outcome:
  assumes "decode P A d buf eof = (Ok out, d1)" "decoder_ok P d buf" "\<nexists>k. out = End k"
  shows "(case out of NeedMore k \<Rightarrow> \<forall>new. decoder_ok P d1 (drop k buf @ new) | _ \<Rightarrow> decoder_ok P d1 (drop (outcome_consumed out) buf))"
proof (cases out)
  case (NeedMore k)
  with assms decode_leftover body.need_more [of P A d buf k d1] show ?thesis by fastforce
next
  case (Data span k)
  with assms body.data_within [of P A d buf eof "fst span" "snd span" k d1] show ?thesis by (auto simp: outcome_consumed_def)
next
  case (Trailers h k)
  have "dstate d1 = DS_Done"
    using assms(1) Trailers by (auto simp: decode_def Let_def decoder_fail_def dest!: decode_chunked_trailers_done split: decoder_state.splits if_splits)
  then show ?thesis using decoder_ok_next [OF assms(1,2)] Trailers by (simp add: resumable_def)
qed (use assms(3) in simp)

lemma receive_round_ok:
  assumes "receive_policy U (rc_read X) laws" "laws" "buffer_laws U" "receive_inv P U st"
  shows "\<exists>x. receive_round P A U G X st = Some x \<and> round_ok P U x"
proof -
  let ?buf = "recv_bytes U (rv_buffer st)"
  obtain dem p where dem: "pd_demand G (rv_producer st) = (dem, p)" by fastforce
  obtain r d1 where dec: "decode P A (rv_decoder st) ?buf (rv_eof st) = (r, d1)" by fastforce
  have ok: "recv_ok U (rv_buffer st)" "decoder_ok P (rv_decoder st) ?buf" using assms(4) by (simp_all add: receive_inv_def)
  have "\<exists>x. receive_outcome U G X out (st\<lparr>rv_producer := q, rv_decoder := d1\<rparr>) = Some x \<and> round_ok P U x"
    if out: "r = Ok out" for out q
  proof -
    let ?st = "st\<lparr>rv_producer := q, rv_decoder := d1\<rparr>"
    have "outcome_within 0 (length (recv_bytes U (rv_buffer ?st))) out"
      using decode_within [OF dec [unfolded out]] ok(2) by (simp add: decoder_ok_def)
    with receive_outcome_holds [OF assms(3), of ?st out G X] ok(1) obtain rb where
      rb: "recv_holds U (rv_buffer st) (drop (outcome_consumed out) ?buf) rb" "served U G X out ?st rb"
      by auto
    show ?thesis
    proof (cases "\<exists>k. out = End k")
      case True
      then show ?thesis using rb by (auto simp: recv_holds_def)
    next
      case False
      note next_ok = decoder_ok_outcome [OF dec [unfolded out] ok(2) False]
      show ?thesis
      proof (cases out)
        case (NeedMore k)
        then show ?thesis using rb next_ok receive_read_ok [OF assms(1,2), of "?st\<lparr>rv_buffer := rb\<rparr>" P G]
          by (simp add: recv_holds_def outcome_consumed_def)
      qed (use rb next_ok receive_offer_ok [of P U "?st\<lparr>rv_buffer := rb\<rparr>" G] False in \<open>auto simp: recv_holds_def receive_inv_def split: prod.splits\<close>)
    qed
  qed
  then show ?thesis
    using dem dec ok(1)
    by (cases dem; cases r)
      (auto simp: receive_round_def Let_def split: result.splits prod.splits)
qed

section \<open>A consumer that keeps asking\<close>

text \<open>
  A consumer that asks for every frame and takes it, and has set no drain budget; \<open>log\<close> is what
  it has taken.
\<close>

definition willing :: "('p, 'h) producer_api \<Rightarrow> ('p \<Rightarrow> 'h in_frame list) \<Rightarrow> bool" where
  "willing G log \<longleftrightarrow>
     (\<forall>p. \<exists>p'. pd_demand G p = (Some (Ok ()), p') \<and> log p' = log p)
   \<and> (\<forall>f p. \<exists>p'. pd_offer G f p = (Some (Ok ()), p') \<and> log p' = log p @ [f])
   \<and> (\<forall>p. pd_policy G p = None)
   \<and> (\<forall>x p. log (pd_set_policy G x p) = log p)
   \<and> (\<forall>p. log (pd_watch G p) = log p \<and> \<not> pd_is_abandoned G (pd_watch G p))
   \<and> (\<forall>p. log (pd_close G p) = log p)"

text \<open>A connection that reads on a transport without failures and misses no deadline.\<close>

definition punctual :: "('b, 'r) receive_env \<Rightarrow> bool" where
  "punctual X \<longleftrightarrow>
     (\<forall>r. \<exists>deadline. configured_after (rc_clock X r) (rc_timeout X) = Ok deadline \<and> (deadline = None \<or> \<not> rc_late X r))"

fun trailers_frames :: "'h option \<Rightarrow> 'h in_frame list" where
  "trailers_frames None = []"
| "trailers_frames (Some h) = [TrailersFrame h]"

text \<open>
  The state of a run that will agree with \<open>target\<close>: what was taken so far and what the
  decoder still makes of the buffer and the rest of the stream.
\<close>

definition rest_of_run ::
  "httparse_api \<Rightarrow> ('h, 'u) http_api \<Rightarrow> body_decoder \<Rightarrow> bytes \<Rightarrow> 'h option
     \<Rightarrow> bytes \<times> ('h, decode_error) run_end \<times> body_decoder \<times> bytes" where
  "rest_of_run P A d v t =
     (case t of None \<Rightarrow> drain (decode P A) d v True | Some h \<Rightarrow> ([], Ended (Some h), d, v))"

definition on_course where
  "on_course P A U log taken input target st \<longleftrightarrow>
     receive_inv P U st \<and> (rv_eof st \<longrightarrow> input (rv_reader st) = [])
   \<and> leftover_bound (rv_decoder st) < rb_max_retained (rv_buffer st)
   \<and> (\<exists>ds t. log (rv_producer st) = taken @ ds @ trailers_frames t \<and> \<not> has_trailers ds
        \<and> (t \<noteq> None \<longrightarrow> is_complete (rv_decoder st))
        \<and> agrees (with_payload (payload as_ref ds)
             (rest_of_run P A (rv_decoder st) (recv_bytes U (rv_buffer st) @ input (rv_reader st)) t)) target)"

definition received where
  "received U log taken input target out \<longleftrightarrow>
     recv_ok U (rv_buffer (snd out))
   \<and> (case target of
        (pay, Ended t, _, left) \<Rightarrow>
          fst out = RE_Complete
        \<and> (\<exists>ds. log (rv_producer (snd out)) = taken @ ds @ trailers_frames t \<and> \<not> has_trailers ds \<and> payload as_ref ds = pay)
        \<and> recv_bytes U (rv_buffer (snd out)) @ input (rv_reader (snd out)) = left
      | (_, Failed _, _, _) \<Rightarrow> \<exists>e. fst out = RE_Failed e
      | _ \<Rightarrow> False)"

definition receive_order where
  "receive_order U input =
     inv_image (less_than <*lex*> less_than <*lex*> less_than)
       (\<lambda>st. (length (input (rv_reader st)) + (if rv_eof st then 0 else 1), length (recv_bytes U (rv_buffer st)),
              if is_complete (rv_decoder st) then 0 else 1 :: nat))"

lemma wf_receive_order: "wf (receive_order U input)"
  unfolding receive_order_def by auto

lemma agrees_Ended:
  "agrees (p, Ended t, d, l) target \<Longrightarrow> \<exists>d'. target = (p, Ended t, d', l)"
  by (cases target) (auto simp: agrees_def)

lemma agrees_Failed:
  "agrees (p, Failed e, d, l) target \<Longrightarrow> \<exists>p' e' d' l'. target = (p', Failed e', d', l')"
  by (cases target) (auto simp: agrees_def)

text \<open>A finished decoder: the driver closes the body.\<close>

lemma course_complete:
  assumes course: "on_course P A U log taken input target st" and fin: "is_complete (rv_decoder st)" and will: "willing G log"
  shows "received U log taken input target (receive_complete G st)"
proof -
  let ?v = "recv_bytes U (rv_buffer st) @ input (rv_reader st)"
  obtain ds t where log: "log (rv_producer st) = taken @ ds @ trailers_frames t" "\<not> has_trailers ds"
    and agree: "agrees (with_payload (payload as_ref ds) (rest_of_run P A (rv_decoder st) ?v t)) target"
    using course by (auto simp: on_course_def)
  obtain d' where "rest_of_run P A (rv_decoder st) ?v t = ([], Ended t, d', ?v)"
    using drain_complete [OF fin, of P A ?v True] by (cases t) (auto simp: rest_of_run_def)
  with agree obtain d2 where "target = (payload as_ref ds, Ended t, d2, ?v)" using agrees_Ended by fastforce
  with log course will show ?thesis
    by (auto simp: received_def receive_complete_def on_course_def receive_inv_def willing_def)
qed

text \<open>A running decoder has handed over no trailers; the driver asks it for the next outcome.\<close>

lemma course_running:
  assumes "on_course P A U log taken input target st" "\<not> is_complete (rv_decoder st)"
  obtains ds where "log (rv_producer st) = taken @ ds" "\<not> has_trailers ds"
    "agrees (with_payload (payload as_ref ds)
       (drain (decode P A) (rv_decoder st) (recv_bytes U (rv_buffer st) @ input (rv_reader st)) True)) target"
  using assms by (auto simp: on_course_def rest_of_run_def)

lemma receive_round_decoded:
  assumes will: "willing G log" and run: "\<not> is_complete (rv_decoder st)"
    and dec: "decode P A (rv_decoder st) (recv_bytes U (rv_buffer st)) (rv_eof st) = (Ok out, d1)"
  shows "\<exists>p. log p = log (rv_producer st)
    \<and> receive_round P A U G X st = receive_outcome U G X out (st\<lparr>rv_producer := p, rv_decoder := d1\<rparr>)"
proof -
  obtain q where "pd_demand G (rv_producer st) = (Some (Ok ()), q)" "log q = log (rv_producer st)"
    using will unfolding willing_def by blast
  moreover have "charge_drain m n (pd_policy G q) = (Ok (), None)" for m n
    using will by (simp add: willing_def charge_drain_def)
  moreover have "log (pd_set_policy G None q) = log q" using will by (simp add: willing_def)
  ultimately show ?thesis using run dec by (auto simp: receive_round_def intro!: exI [of _ "pd_set_policy G None q"])
qed

lemma receive_offer_taken:
  assumes "willing G log"
  shows "\<exists>p. receive_offer G f st = Inl (st\<lparr>rv_producer := p\<rparr>) \<and> log p = log (rv_producer st) @ [f]"
proof -
  obtain p where "pd_offer G f (rv_producer st) = (Some (Ok ()), p)" "log p = log (rv_producer st) @ [f]"
    using assms unfolding willing_def by blast
  then show ?thesis by (auto simp: receive_offer_def)
qed

lemma payload_snoc: "payload init (ds @ [DataFrame d]) = payload init ds @ init d"
  by (simp add: payload_def)

lemma has_trailers_snoc: "has_trailers (ds @ [DataFrame d]) \<longleftrightarrow> has_trailers ds"
  by (simp add: has_trailers_def)

lemma leftover_bound_decode:
  "decode P A d buf eof = (r, d1) \<Longrightarrow> decoder_ok P d buf \<Longrightarrow> leftover_bound d1 = leftover_bound d"
  using decode_inv [of P A d buf eof r d1] by (simp add: decoder_ok_def leftover_bound_def)

text \<open>What a successful outcome of a running decoder leads to.\<close>

lemma course_outcome:
  assumes course: "on_course P A U log taken input target st" and run: "\<not> is_complete (rv_decoder st)"
    and will: "willing G log" and laws: "buffer_laws U"
    and dec: "decode P A (rv_decoder st) (recv_bytes U (rv_buffer st)) (rv_eof st) = (Ok out, d1)"
  obtains p rb where "log p = log (rv_producer st)"
    "receive_round P A U G X st = receive_outcome U G X out (st\<lparr>rv_producer := p, rv_decoder := d1\<rparr>)"
    "recv_holds U (rv_buffer st) (drop (outcome_consumed out) (recv_bytes U (rv_buffer st))) rb"
    "served U G X out (st\<lparr>rv_producer := p, rv_decoder := d1\<rparr>) rb"
    "leftover_bound d1 < rb_max_retained rb"
proof -
  obtain p where p: "log p = log (rv_producer st)"
    "receive_round P A U G X st = receive_outcome U G X out (st\<lparr>rv_producer := p, rv_decoder := d1\<rparr>)"
    using receive_round_decoded [OF will run dec] by blast
  have inv: "recv_ok U (rv_buffer st)" "decoder_ok P (rv_decoder st) (recv_bytes U (rv_buffer st))"
    using course by (simp_all add: on_course_def receive_inv_def)
  then have "outcome_within 0 (length (recv_bytes U (rv_buffer st))) out"
    using decode_within [OF dec] by (simp add: decoder_ok_def)
  then obtain rb where rb: "recv_holds U (rv_buffer st) (drop (outcome_consumed out) (recv_bytes U (rv_buffer st))) rb"
    "served U G X out (st\<lparr>rv_producer := p, rv_decoder := d1\<rparr>) rb"
    using receive_outcome_holds [OF laws, of "st\<lparr>rv_producer := p, rv_decoder := d1\<rparr>" out G X] inv(1) by auto
  moreover have "leftover_bound d1 < rb_max_retained rb"
    using leftover_bound_decode [OF dec inv(2)] course rb(1) by (simp add: on_course_def recv_holds_def)
  ultimately show ?thesis using that p by blast
qed

lemma course_data:
  assumes course: "on_course P A U log taken input target st" and run: "\<not> is_complete (rv_decoder st)"
    and will: "willing G log" and laws: "buffer_laws U"
    and dec: "decode P A (rv_decoder st) (recv_bytes U (rv_buffer st)) (rv_eof st) = (Ok (Data (s, e) k), d1)"
  shows "\<exists>st'. receive_round P A U G X st = Some (Inl st') \<and> on_course P A U log taken input target st'
    \<and> (st', st) \<in> receive_order U input"
proof -
  let ?buf = "recv_bytes U (rv_buffer st)" and ?in = "input (rv_reader st)"
  obtain p rb where p: "log p = log (rv_producer st)"
    "receive_round P A U G X st = receive_outcome U G X (Data (s, e) k) (st\<lparr>rv_producer := p, rv_decoder := d1\<rparr>)"
    and rb: "recv_holds U (rv_buffer st) (drop k ?buf) rb" "served U G X (Data (s, e) k) (st\<lparr>rv_producer := p, rv_decoder := d1\<rparr>) rb"
      "leftover_bound d1 < rb_max_retained rb"
    by (rule course_outcome [OF course run will laws dec, where X = X]) (auto simp: outcome_consumed_def)
  then obtain v where v: "receive_round P A U G X st = Some (receive_offer G (DataFrame v) (st\<lparr>rv_producer := p, rv_decoder := d1, rv_buffer := rb\<rparr>))"
    "as_ref v = slice_of ?buf s e" by auto
  obtain q where q: "receive_round P A U G X st = Some (Inl (st\<lparr>rv_decoder := d1, rv_buffer := rb, rv_producer := q\<rparr>))"
    "log q = log p @ [DataFrame v]"
    using receive_offer_taken [OF will, of "DataFrame v" "st\<lparr>rv_producer := p, rv_decoder := d1, rv_buffer := rb\<rparr>"] v(1) by auto
  let ?st = "st\<lparr>rv_decoder := d1, rv_buffer := rb, rv_producer := q\<rparr>"
  have ok: "decoder_ok P (rv_decoder st) ?buf" "rv_eof st \<longrightarrow> ?in = []"
    using course by (simp_all add: on_course_def receive_inv_def)
  have within: "s < e" "k = e" "e \<le> length ?buf" "decoder_ok P d1 (drop k ?buf)" using body.data_within [OF dec ok(1)] by auto
  obtain ds where ds: "log (rv_producer st) = taken @ ds" "\<not> has_trailers ds"
    "agrees (with_payload (payload as_ref ds) (drain (decode P A) (rv_decoder st) (?buf @ ?in) True)) target"
    by (rule course_running [OF course run])
  have "agrees (with_payload (payload as_ref (ds @ [DataFrame v])) (drain (decode P A) d1 (drop k ?buf @ ?in) True)) target"
    using agrees_trans [OF agrees_with_payload [OF agrees_sym [OF drain_after_data [OF dec ok]], of "payload as_ref ds"] ds(3)] v(2)
    by (simp add: payload_snoc)
  moreover have "log q = taken @ (ds @ [DataFrame v]) @ trailers_frames None" using q(2) p(1) ds(1) by simp
  ultimately have "on_course P A U log taken input target ?st"
    unfolding on_course_def rest_of_run_def using rb(1,3) within(4) ok(2) ds(2)
    by (auto simp: receive_inv_def recv_holds_def has_trailers_snoc intro!: exI [of _ "ds @ [DataFrame v]"] exI [of _ None])
  moreover have "(?st, st) \<in> receive_order U input"
    using rb(1) within(1-3) by (auto simp: receive_order_def recv_holds_def)
  ultimately show ?thesis using q(1) by blast
qed

lemma course_trailers:
  assumes course: "on_course P A U log taken input target st" and run: "\<not> is_complete (rv_decoder st)"
    and will: "willing G log" and laws: "buffer_laws U"
    and dec: "decode P A (rv_decoder st) (recv_bytes U (rv_buffer st)) (rv_eof st) = (Ok (Trailers h k), d1)"
  shows "\<exists>st'. receive_round P A U G X st = Some (Inl st') \<and> on_course P A U log taken input target st'
    \<and> (st', st) \<in> receive_order U input"
proof -
  let ?buf = "recv_bytes U (rv_buffer st)" and ?in = "input (rv_reader st)"
  obtain p rb where p: "log p = log (rv_producer st)"
    "receive_round P A U G X st = receive_outcome U G X (Trailers h k) (st\<lparr>rv_producer := p, rv_decoder := d1\<rparr>)"
    and rb: "recv_holds U (rv_buffer st) (drop k ?buf) rb" "served U G X (Trailers h k) (st\<lparr>rv_producer := p, rv_decoder := d1\<rparr>) rb"
      "leftover_bound d1 < rb_max_retained rb"
    by (rule course_outcome [OF course run will laws dec, where X = X]) (auto simp: outcome_consumed_def)
  obtain q where q: "receive_round P A U G X st = Some (Inl (st\<lparr>rv_decoder := d1, rv_buffer := rb, rv_producer := q\<rparr>))"
    "log q = log p @ [TrailersFrame h]"
    using receive_offer_taken [OF will, of "TrailersFrame h" "st\<lparr>rv_producer := p, rv_decoder := d1, rv_buffer := rb\<rparr>"] p(2) rb(2) by auto
  let ?st = "st\<lparr>rv_decoder := d1, rv_buffer := rb, rv_producer := q\<rparr>"
  have ok: "decoder_ok P (rv_decoder st) ?buf" "rv_eof st \<longrightarrow> ?in = []"
    using course by (simp_all add: on_course_def receive_inv_def)
  note last = drain_after_trailers [OF dec ok]
  obtain ds where ds: "log (rv_producer st) = taken @ ds" "\<not> has_trailers ds"
    "agrees (with_payload (payload as_ref ds) (drain (decode P A) (rv_decoder st) (?buf @ ?in) True)) target"
    by (rule course_running [OF course run])
  have "decoder_ok P d1 (drop k ?buf)" using decoder_ok_outcome [OF dec ok(1)] by (simp add: outcome_consumed_def)
  moreover have "agrees (with_payload (payload as_ref ds) (rest_of_run P A d1 (drop k ?buf @ ?in) (Some h))) target"
    using ds(3) last by (simp add: rest_of_run_def)
  moreover have "log q = taken @ ds @ trailers_frames (Some h)" using q(2) p(1) ds(1) by simp
  ultimately have "on_course P A U log taken input target ?st"
    unfolding on_course_def using rb(1,3) ok(2) ds(2) last
    by (auto simp: receive_inv_def recv_holds_def intro!: exI [of _ ds] exI [of _ "Some h"])
  moreover have "(?st, st) \<in> receive_order U input"
    using rb(1) last run by (cases "k = 0 \<or> ?buf = []") (auto simp: receive_order_def recv_holds_def)
  ultimately show ?thesis using q(1) by blast
qed

lemma read_or_abandoned_delivers:
  assumes "stream_policy U (rc_read X) laws input stream" "laws" "stream" "punctual X" "recv_ok U rb"
    and "length (recv_bytes U rb) < rb_max_retained rb"
  shows "\<exists>status new rb' r'. read_or_abandoned X rb r = Some (Ok status, rb', r') \<and> recv_holds U rb (recv_bytes U rb @ new) rb'
    \<and> status_of (Ok status) new \<and> input r = new @ input r' \<and> (new = [] \<longrightarrow> input r = [])"
proof -
  obtain deadline where "configured_after (rc_clock X r) (rc_timeout X) = Ok deadline" "deadline = None \<or> \<not> rc_late X r"
    using assms(4) unfolding punctual_def by blast
  with stream_policy.read_until_delivers [OF assms(1-3,5,6), of deadline "rc_late X" r] show ?thesis
    by (auto simp: read_or_abandoned_def)
qed

lemma course_more:
  assumes course: "on_course P A U log taken input target st" and run: "\<not> is_complete (rv_decoder st)"
    and will: "willing G log" and laws: "buffer_laws U"
    and stream: "stream_policy U (rc_read X) laws input stream" "laws" "stream" "punctual X"
    and dec: "decode P A (rv_decoder st) (recv_bytes U (rv_buffer st)) (rv_eof st) = (Ok (NeedMore k), d1)"
  shows "\<exists>st'. receive_round P A U G X st = Some (Inl st') \<and> on_course P A U log taken input target st'
    \<and> (st', st) \<in> receive_order U input"
proof -
  let ?buf = "recv_bytes U (rv_buffer st)" and ?in = "input (rv_reader st)"
  obtain p rb where p: "log p = log (rv_producer st)"
    "receive_round P A U G X st = receive_outcome U G X (NeedMore k) (st\<lparr>rv_producer := p, rv_decoder := d1\<rparr>)"
    and rb: "recv_holds U (rv_buffer st) (drop k ?buf) rb" "served U G X (NeedMore k) (st\<lparr>rv_producer := p, rv_decoder := d1\<rparr>) rb"
      "leftover_bound d1 < rb_max_retained rb"
    by (rule course_outcome [OF course run will laws dec, where X = X]) (auto simp: outcome_consumed_def)
  have ok: "decoder_ok P (rv_decoder st) ?buf" using course by (simp add: on_course_def receive_inv_def)
  have open_eof: "\<not> rv_eof st" and small: "length (drop k ?buf) \<le> leftover_bound (rv_decoder st)"
    using decode_leftover [OF dec] by simp_all
  then have "length (recv_bytes U rb) < rb_max_retained rb"
    using rb(1) course by (simp add: on_course_def recv_holds_def)
  then obtain status new rb' r' where read: "read_or_abandoned X rb (rv_reader st) = Some (Ok status, rb', r')"
    "recv_holds U rb (recv_bytes U rb @ new) rb'" "status_of (Ok status) new" "?in = new @ input r'" "new = [] \<longrightarrow> ?in = []"
    using read_or_abandoned_delivers [OF stream _ , of rb "rv_reader st"] rb(1) [unfolded recv_holds_def] by blast
  let ?st = "st\<lparr>rv_decoder := d1, rv_buffer := rb', rv_reader := r', rv_producer := pd_watch G p, rv_eof := status = RS_Eof\<rparr>"
  have watch: "log (pd_watch G p) = log p" "\<not> pd_is_abandoned G (pd_watch G p)" using will by (simp_all add: willing_def)
  then have rnd: "receive_round P A U G X st = Some (Inl ?st)"
    using p(2) rb(2) read(1) open_eof by (cases status) (simp_all add: receive_read_def Let_def)
  obtain ds where ds: "log (rv_producer st) = taken @ ds" "\<not> has_trailers ds"
    "agrees (with_payload (payload as_ref ds) (drain (decode P A) (rv_decoder st) (?buf @ ?in) True)) target"
    by (rule course_running [OF course run])
  have step: "decode P A (rv_decoder st) ?buf False = (Ok (NeedMore k), d1)" using dec open_eof by simp
  have "drain (decode P A) (rv_decoder st) (?buf @ ?in) True = drain (decode P A) d1 ((drop k ?buf @ new) @ input r') True"
    using body.drain_shift [OF step ok, of ?in True] read(4) by simp
  moreover have "decoder_ok P d1 (drop k ?buf @ new)" using body.need_more [OF step ok] by blast
  moreover have "recv_bytes U rb' = drop k ?buf @ new" "recv_ok U rb'" "rb_max_retained rb' = rb_max_retained rb"
    using read(2) rb(1) by (simp_all add: recv_holds_def)
  moreover have "status = RS_Eof \<longrightarrow> input r' = []" using read(3-5) by (cases status) auto
  ultimately have "on_course P A U log taken input target ?st"
    using ds rb(3) watch(1) p(1)
    by (auto simp: on_course_def rest_of_run_def receive_inv_def intro!: exI [of _ ds] exI [of _ None])
  moreover have "(?st, st) \<in> receive_order U input"
    using open_eof read(3-5) by (cases status) (auto simp: receive_order_def)
  ultimately show ?thesis using rnd by blast
qed

lemma course_round:
  assumes course: "on_course P A U log taken input target st" and will: "willing G log" and laws: "buffer_laws U"
    and stream: "stream_policy U (rc_read X) laws input stream" "laws" "stream" "punctual X"
  shows "(\<exists>st'. receive_round P A U G X st = Some (Inl st') \<and> on_course P A U log taken input target st'
      \<and> (st', st) \<in> receive_order U input)
    \<or> (\<exists>out. receive_round P A U G X st = Some (Inr out) \<and> received U log taken input target out)"
proof (cases "is_complete (rv_decoder st)")
  case True
  then show ?thesis using course_complete [OF course True will] by (auto simp: receive_round_def)
next
  case False
  let ?buf = "recv_bytes U (rv_buffer st)" and ?in = "input (rv_reader st)"
  have ok: "decoder_ok P (rv_decoder st) ?buf" "rv_eof st \<longrightarrow> ?in = []" "recv_ok U (rv_buffer st)"
    using course by (simp_all add: on_course_def receive_inv_def)
  obtain ds where ds: "log (rv_producer st) = taken @ ds" "\<not> has_trailers ds"
    "agrees (with_payload (payload as_ref ds) (drain (decode P A) (rv_decoder st) (?buf @ ?in) True)) target"
    by (rule course_running [OF course False])
  obtain r d1 where dec: "decode P A (rv_decoder st) ?buf (rv_eof st) = (r, d1)" by fastforce
  consider (err) e where "r = Err e" | (more) k where "r = Ok (NeedMore k)" | (data) s e k where "r = Ok (Data (s, e) k)"
    | (trailers) h k where "r = Ok (Trailers h k)" | (fin) k where "r = Ok (End k)"
    by (metis decode_outcome.exhaust result.exhaust surj_pair)
  then show ?thesis
  proof cases
    case err
    obtain q where "pd_demand G (rv_producer st) = (Some (Ok ()), q)" using will unfolding willing_def by blast
    then have "receive_round P A U G X st
        = Some (Inr (receive_fail G (error_from_decode e) (st\<lparr>rv_producer := q, rv_decoder := d1\<rparr>)))"
      using dec err False by (simp add: receive_round_def)
    moreover obtain x y z w where "drain (decode P A) (rv_decoder st) (?buf @ ?in) True = (x, Failed y, z, w)"
      using drain_after_error [OF dec [unfolded err] ok(1,2)] by blast
    then have "\<exists>p' e' d' l'. target = (p', Failed e', d', l')" using ds(3) by (auto dest: agrees_Failed)
    ultimately show ?thesis using ok(3) by (auto simp: received_def receive_fail_def split: prod.splits)
  next
    case fin
    obtain p rb where p: "log p = log (rv_producer st)"
      "receive_round P A U G X st = receive_outcome U G X (End k) (st\<lparr>rv_producer := p, rv_decoder := d1\<rparr>)"
      and rb: "recv_holds U (rv_buffer st) (drop k ?buf) rb" "served U G X (End k) (st\<lparr>rv_producer := p, rv_decoder := d1\<rparr>) rb"
      by (rule course_outcome [OF course False will laws dec [unfolded fin], where X = X]) (auto simp: outcome_consumed_def)
    have "\<exists>d'. target = (payload as_ref ds, Ended None, d', drop k ?buf @ ?in)"
      using ds(3) drain_after_end [OF dec [unfolded fin] ok(1,2)] agrees_Ended by fastforce
    then have "received U log taken input target (receive_complete G (st\<lparr>rv_producer := p, rv_decoder := d1, rv_buffer := rb\<rparr>))"
      using rb(1) p(1) ds will by (auto simp: received_def receive_complete_def recv_holds_def willing_def)
    then show ?thesis using p(2) rb(2) by auto
  qed (use course_more [OF course False will laws stream] course_data [OF course False will laws]
      course_trailers [OF course False will laws] dec in blast)+
qed

section \<open>Properties\<close>

lemma receive_body_received:
  assumes "willing G log" "buffer_laws U" "stream_policy U (rc_read X) laws input stream" "laws" "stream" "punctual X"
    and "recv_ok U rb" "decoder_ok P d (recv_bytes U rb)" "leftover_bound d < rb_max_retained rb"
  shows "\<exists>out. receive_body P A U G X r rb d p = Some out
    \<and> received U log (log p) input (drain (decode P A) d (recv_bytes U rb @ input r) True) out"
  unfolding receive_body_def
proof (rule iterate_returns [OF wf_receive_order [of U input]])
  let ?target = "drain (decode P A) d (recv_bytes U rb @ input r) True"
  show "on_course P A U log (log p) input ?target
      \<lparr>rv_buffer = rb, rv_decoder = d, rv_producer = p, rv_eof = False, rv_reader = r\<rparr>"
    using assms(7-9) by (auto simp: on_course_def receive_inv_def rest_of_run_def intro!: exI [of _ "[]"] exI [of _ None])
  show "(\<exists>s'. receive_round P A U G X s = Some (Inl s') \<and> on_course P A U log (log p) input ?target s' \<and> (s', s) \<in> receive_order U input)
      \<or> (\<exists>a. receive_round P A U G X s = Some (Inr a) \<and> received U log (log p) input ?target a)"
    if "on_course P A U log (log p) input ?target s" for s
    by (rule course_round [OF that assms(1-6)])
qed

text \<open>What the driver relies on of either policy of the library.\<close>

lemma policies:
  assumes "read = portable_read U T \<or> read = tcp_read U T"
  shows "stream_policy U read (buffer_laws U \<and> reader_laws T) input (stream_transport T input)"
    and "receive_policy U read (buffer_laws U \<and> reader_laws T)"
  using assms portable.stream_policy_axioms tcp.stream_policy_axioms portable.receive_policy_axioms tcp.receive_policy_axioms
  by metis+

text \<open>
  C19. Receiving a body hands over exactly what the decoder reads. When a peer sends a stream
  and closes, and the application keeps taking frames, the driver returns, on either receive
  policy and whatever pieces the stream arrives in. If decoding the whole stream ends the
  body, the driver reports completion, the frames it handed over carry that payload in order,
  then the trailers if the framing has them, and what follows the body is still unread. If
  decoding fails, so does the driver.
\<close>

theorem receive_body_exact:
  assumes "buffer_laws U" "reader_laws T" "parse_headers_law P" "stream_transport T input"
    and "rc_read X = portable_read U T \<or> rc_read X = tcp_read U T" "punctual X" "willing G log"
    and "recv_ok U rb" "leftover_bound (decoder_with_limits mode l) < rb_max_retained rb"
    and "drain (decode P A) (decoder_with_limits mode l) (recv_bytes U rb @ input r) True = (pay, fin, d', left)"
  shows "\<exists>end st. receive_body P A U G X r rb (decoder_with_limits mode l) p = Some (end, st)
    \<and> (case fin of
         Ended t \<Rightarrow> end = RE_Complete \<and> recv_bytes U (rv_buffer st) @ input (rv_reader st) = left
           \<and> (\<exists>ds. log (rv_producer st) = log p @ ds @ trailers_frames t \<and> \<not> has_trailers ds \<and> payload as_ref ds = pay)
       | Failed _ \<Rightarrow> \<exists>e. end = RE_Failed e
       | _ \<Rightarrow> False)"
proof -
  note stream = policies(1) [OF assms(5)]
  obtain out where out: "receive_body P A U G X r rb (decoder_with_limits mode l) p = Some out"
    "received U log (log p) input (pay, fin, d', left) out"
    using receive_body_received [OF assms(7,1) stream _ assms(4,6,8) decoder_ok_new [OF assms(3)] assms(9), of A r p] assms(1,2,10)
    by auto
  then show ?thesis
    by (cases out; cases fin) (simp_all add: received_def)
qed

text \<open>An application that takes every frame, and a connection without deadlines.\<close>

definition list_producer :: "('h in_frame list, 'h) producer_api" where
  "list_producer =
     \<lparr>pd_demand = (\<lambda>p. (Some (Ok ()), p)), pd_offer = (\<lambda>f p. (Some (Ok ()), p @ [f])), pd_policy = (\<lambda>_. None),
      pd_set_policy = (\<lambda>_ p. p), pd_watch = (\<lambda>p. p), pd_is_abandoned = (\<lambda>_. False), pd_close = (\<lambda>p. p),
      pd_fail = (\<lambda>_ p. p), pd_drop = (\<lambda>p. p)\<rparr>"

lemma list_producer_willing: "willing list_producer (\<lambda>p. p)"
  by (simp add: willing_def list_producer_def)

definition list_receive_env :: "(bytes \<times> nat, bytes) receive_env" where
  "list_receive_env =
     \<lparr>rc_read = tcp_read list_buffer list_reader, rc_late = (\<lambda>_. False), rc_clock = (\<lambda>_. \<lparr>ck_now = 0, ck_max = 100\<rparr>), rc_timeout = Some 10\<rparr>"

lemma list_receive_env_punctual: "punctual list_receive_env"
  by (simp add: punctual_def list_receive_env_def configured_after_def deadline_after_def)

theorem receive_body_exact_witness:
  "\<exists>st. receive_body empty_httparse alist_http list_buffer list_producer list_receive_env
      [98, 99, CR, LF, 48, CR, LF, CR, LF, 71]
      \<lparr>rb_storage = RS_Portable ([51, CR, LF, 97], 8), rb_managed_permit = None, rb_preferred_read = 4, rb_max_retained = 100000\<rparr>
      (decoder_with_limits BM_Chunked decode_limits_default) [] = Some (RE_Complete, st)
    \<and> recv_bytes list_buffer (rv_buffer st) @ rv_reader st = [71]
    \<and> (\<exists>ds. rv_producer st = ds @ [TrailersFrame []] \<and> payload as_ref ds = [97, 98, 99])"
proof -
  let ?d = "decoder_with_limits BM_Chunked decode_limits_default"
  let ?rb = "\<lparr>rb_storage = RS_Portable ([51, CR, LF, 97 :: byte], 8 :: nat), rb_managed_permit = None,
      rb_preferred_read = 4, rb_max_retained = 100000\<rparr>"
  let ?r = "[98, 99, CR, LF, 48, CR, LF, CR, LF, 71]"
  have read: "rc_read list_receive_env = portable_read list_buffer list_reader \<or> rc_read list_receive_env = tcp_read list_buffer list_reader"
    by (simp add: list_receive_env_def)
  have ok: "recv_ok list_buffer ?rb" by (simp add: recv_ok_def recv_bytes_def list_buffer_def)
  have room: "leftover_bound ?d < rb_max_retained ?rb" by code_simp
  have bytes: "recv_bytes list_buffer ?rb @ ?r = [51, CR, LF, 97, 98, 99, CR, LF, 48, CR, LF, CR, LF, 71]"
    by (simp add: recv_bytes_def list_buffer_def)
  have "(case drain (decode empty_httparse alist_http) ?d (recv_bytes list_buffer ?rb @ ?r) True of (p, f, _, l) \<Rightarrow> (p, f, l))
      = ([97, 98, 99], Ended (Some []), [71])"
    unfolding bytes by code_simp
  then obtain d' where run: "drain (decode empty_httparse alist_http) ?d (recv_bytes list_buffer ?rb @ ?r) True
      = ([97, 98, 99], Ended (Some []), d', [71])"
    by (auto split: prod.splits)
  from receive_body_exact [OF list_buffer_laws list_reader_laws empty_httparse_law list_reader_stream read
      list_receive_env_punctual list_producer_willing ok room run, of "[]"]
  show ?thesis by auto
qed



end
