(* ===== verification/Body_Transfer.thy ===== *)
theory Body_Transfer
  imports Roundtrip Body_Send Body_Receive
begin

text \<open>
  The two body drivers at the two ends of a connection: what one sends is what the other hands
  to its application.
\<close>

section \<open>Bodies of data frames\<close>

lemma wire_of_frames:
  "encode_frames enc (map init ds) = (Ok frames, enc1) \<Longrightarrow> encoder_finish enc1 = (Ok tail, enc') \<Longrightarrow>
     wire_of A M init enc False (map DataFrame ds) True = (frames @ tail, True)"
proof (induction ds arbitrary: enc frames)
  case (Cons d ds)
  then obtain f enc2 rest where "encoder_data enc (length (init d)) = (Ok f, enc2)"
    "encode_frames enc2 (map init ds) = (Ok rest, enc1)" "frames = as_init (df_prefix f) @ init d @ df_suffix f @ rest"
    by (auto split: prod.splits result.splits)
  with Cons.IH Cons.prems(2) show ?case by simp
qed simp

lemma wire_of_body:
  assumes "encode_body enc (map init ds) = (Ok wire, enc')"
  shows "wire_of A M init enc False (map DataFrame ds) True = (wire, True)"
  using assms by (auto elim!: encode_body_Ok dest: wire_of_frames)

text \<open>A reliable transport carries the whole encoded body.\<close>

lemma send_body_complete:
  assumes "writer_laws W sent" "patient W patience" "reliable_send E W B"
    and "run_body n (recycling B) s = (map DataFrame ds, Some (Ok ()), t)"
    and "encode_body enc (map (frame_bytes B) ds) = (Ok wire, enc')"
  shows "\<exists>stats st. send_body A M E W B w s enc = Some (Ok stats, st) \<and> sent (sd_writer st) = sent w @ wire"
proof -
  have "wire_of A M (frame_bytes B) enc False (map DataFrame ds) (Ok () = Ok ()) = (wire, True)"
    using wire_of_body [OF assms(5)] by simp
  from send_body_sends [OF assms(1,2,4) this, of E w] assms(3) show ?thesis by (auto simp: is_ok_iff)
qed

section \<open>Properties\<close>

text \<open>A concrete connection: an eager writer, and a reader that has received nothing yet.\<close>

definition fresh_buffer :: "(bytes \<times> nat) recv_buffer" where
  "fresh_buffer =
     \<lparr>rb_storage = RS_Portable ([], 8), rb_managed_permit = None, rb_preferred_read = 4, rb_max_retained = 100000\<rparr>"

lemma fresh_buffer_ok: "recv_ok list_buffer fresh_buffer" "recv_bytes list_buffer fresh_buffer = []"
  by (simp_all add: recv_ok_def recv_bytes_def list_buffer_def fresh_buffer_def)

lemma small_body_run:
  "run_body 2 (recycling small_full_body) (FS_Ready ()) = (map DataFrame [()], Some (Ok ()), FS_Done)"
  by (simp add: numeral_2_eq_2 recycling_def small_full_body_def full_body_def full_next_def default_recycle_def)

lemma list_env_policy:
  "rc_read list_receive_env = portable_read list_buffer list_reader \<or> rc_read list_receive_env = tcp_read list_buffer list_reader"
  by (simp add: list_receive_env_def)

lemmas concrete_ends = list_writer_laws list_writer_patient small_full_body_reliable list_buffer_laws list_reader_laws
  list_reader_stream list_env_policy list_receive_env_punctual list_producer_willing fresh_buffer_ok(1)

text \<open>
  C3. A body crosses the connection. The sending driver takes a body of data frames that its
  chunked encoder accepts and writes it; the receiving driver of the peer, whose transport
  delivers those bytes and then any later ones in any pieces and on either receive policy,
  hands its application the same payload, then the empty trailers, reports completion, and
  leaves the later bytes for the next message.
\<close>

theorem chunked_body_transfer:
  assumes "parse_headers_law P" "header_map_laws A" "hm_try_with_capacity A 0 = Some h"
    and "18 \<le> max_chunk_line_bytes l" "2 \<le> max_trailer_bytes l"
    and "writer_laws W sent" "patient W patience" "reliable_send E W B"
    and "buffer_laws U" "reader_laws T" "stream_transport T input"
    and "rc_read X = portable_read U T \<or> rc_read X = tcp_read U T" "punctual X" "willing G log"
    and "recv_ok U rb" "leftover_bound (decoder_with_limits BM_Chunked l) < rb_max_retained rb"
    and "run_body n (recycling B) s = (map DataFrame ds, Some (Ok ()), t)"
    and "body_encoder_new BM_Chunked md config = Ok enc"
    and "encode_body enc (map (frame_bytes B) ds) = (Ok wire, enc')"
  shows "\<exists>stats st. send_body A M E W B w s enc = Some (Ok stats, st)
    \<and> (sent w @ recv_bytes U rb @ input r = sent (sd_writer st) @ later \<longrightarrow>
        (\<exists>st'. receive_body P A U G X r rb (decoder_with_limits BM_Chunked l) p = Some (RE_Complete, st')
          \<and> (\<exists>fs. log (rv_producer st') = log p @ fs @ [TrailersFrame h] \<and> \<not> has_trailers fs
               \<and> payload as_ref fs = concat (map (frame_bytes B) ds))
          \<and> recv_bytes U (rv_buffer st') @ input (rv_reader st') = later))"
proof -
  obtain stats st where st: "send_body A M E W B w s enc = Some (Ok stats, st)" "sent (sd_writer st) = sent w @ wire"
    using send_body_complete [OF assms(6-8,17,19), of A M w] by blast
  have "\<exists>st'. receive_body P A U G X r rb (decoder_with_limits BM_Chunked l) p = Some (RE_Complete, st')
      \<and> (\<exists>fs. log (rv_producer st') = log p @ fs @ [TrailersFrame h] \<and> \<not> has_trailers fs
           \<and> payload as_ref fs = concat (map (frame_bytes B) ds))
      \<and> recv_bytes U (rv_buffer st') @ input (rv_reader st') = later"
    if "sent w @ recv_bytes U rb @ input r = sent (sd_writer st) @ later"
  proof -
    have "recv_bytes U rb @ input r = wire @ later" using that st(2) by simp
    then obtain d' where "drain (decode P A) (decoder_with_limits BM_Chunked l) (recv_bytes U rb @ input r) True
        = (concat (map (frame_bytes B) ds), Ended (Some h), d', later)"
      using drain_encoded_chunked [OF assms(1-5,18,19), of later True] by auto
    moreover obtain out where "receive_body P A U G X r rb (decoder_with_limits BM_Chunked l) p = Some out"
      "received U log (log p) input (drain (decode P A) (decoder_with_limits BM_Chunked l) (recv_bytes U rb @ input r) True) out"
      using receive_body_received [OF assms(14,9) policies(1) [OF assms(12)] _ assms(11,13,15) decoder_ok_new [OF assms(1)] assms(16), of A r p]
        assms(9,10) by blast
    ultimately show ?thesis by (cases out) (auto simp: received_def)
  qed
  with st(1) show ?thesis by blast
qed

theorem chunked_body_transfer_witness:
  "\<exists>st'. receive_body empty_httparse alist_http list_buffer list_producer list_receive_env
      [50, CR, LF, 97, 98, CR, LF, 48, CR, LF, CR, LF, 71] fresh_buffer
      (decoder_with_limits BM_Chunked decode_limits_default) [] = Some (RE_Complete, st')
    \<and> (\<exists>fs. rv_producer st' = fs @ [TrailersFrame []] \<and> payload as_ref fs = [97, 98])
    \<and> recv_bytes list_buffer (rv_buffer st') @ rv_reader st' = [71]"
proof -
  let ?md = "\<lparr>md_size = size_hint_new, md_trailers = TH_MayHave\<rparr>"
  let ?enc = "\<lparr>be_state = BS_Chunked, be_max_trailer_bytes = 100, be_title_case_headers = True,
      be_remaining_lower = 0, be_remaining_upper = None, be_trailers = TH_MayHave\<rparr>"
  let ?wire = "[50, CR, LF, 97, 98, CR, LF, 48, CR, LF, CR, LF]"
  have new: "body_encoder_new BM_Chunked ?md sample_config = Ok ?enc" by code_simp
  have "fst (encode_body ?enc (map (frame_bytes small_full_body) [()])) = Ok ?wire" by code_simp
  then obtain enc' where enc: "encode_body ?enc (map (frame_bytes small_full_body) [()]) = (Ok ?wire, enc')" by (metis prod.collapse)
  have cap: "hm_try_with_capacity alist_http 0 = Some []" by (simp add: alist_http_def)
  have limits: "18 \<le> max_chunk_line_bytes decode_limits_default" "2 \<le> max_trailer_bytes decode_limits_default"
    "leftover_bound (decoder_with_limits BM_Chunked decode_limits_default) < rb_max_retained fresh_buffer"
    by code_simp+
  have sent: "fst (sd_writer st) = ?wire" if "send_body alist_http (\<lambda>_ _. True) quiet_env list_writer small_full_body ([], []) (FS_Ready ()) ?enc = Some (Ok stats, st)"
      for stats st
    using that send_body_complete [OF concrete_ends(1-3) small_body_run enc, of alist_http "\<lambda>_ _. True" "([], [])"] by simp
  from chunked_body_transfer [OF empty_httparse_law alist_http_laws cap limits(1,2) concrete_ends limits(3) small_body_run new enc,
      where M = "\<lambda>_ _. True" and w = "([], [])" and r = "?wire @ [71]" and later = "[71]" and p = "[]"]
  show ?thesis
  proof (elim exE conjE impE, goal_cases)
    case (1 stats st)
    then show ?case using sent fresh_buffer_ok(2) by simp
  next
    case (2 stats st st' fs)
    then show ?case by (intro exI [of _ st']) (auto simp: small_full_body_def full_body_def)
  qed
qed

text \<open>
  So does a body of known length: the receiving driver hands over exactly the payload that
  was sent under the Content-Length, without trailers, and leaves every later byte unread.
\<close>

theorem fixed_body_transfer:
  assumes "parse_headers_law P"
    and "writer_laws W sent" "patient W patience" "reliable_send E W B"
    and "buffer_laws U" "reader_laws T" "stream_transport T input"
    and "rc_read X = portable_read U T \<or> rc_read X = tcp_read U T" "punctual X" "willing G log"
    and "recv_ok U rb" "leftover_bound (decoder_with_limits (BM_Fixed n) l) < rb_max_retained rb"
    and "run_body k (recycling B) s = (map DataFrame ds, Some (Ok ()), t)"
    and "body_encoder_new (BM_Fixed n) md config = Ok enc"
    and "encode_body enc (map (frame_bytes B) ds) = (Ok wire, enc')"
  shows "\<exists>stats st. send_body A M E W B w s enc = Some (Ok stats, st)
    \<and> (sent w @ recv_bytes U rb @ input r = sent (sd_writer st) @ later \<longrightarrow>
        (\<exists>st'. receive_body P A U G X r rb (decoder_with_limits (BM_Fixed n) l) p = Some (RE_Complete, st')
          \<and> (\<exists>fs. log (rv_producer st') = log p @ fs \<and> \<not> has_trailers fs \<and> payload as_ref fs = concat (map (frame_bytes B) ds))
          \<and> recv_bytes U (rv_buffer st') @ input (rv_reader st') = later))"
proof -
  obtain stats st where st: "send_body A M E W B w s enc = Some (Ok stats, st)" "sent (sd_writer st) = sent w @ wire"
    using send_body_complete [OF assms(2-4,13,15), of A M w] by blast
  have "\<exists>st'. receive_body P A U G X r rb (decoder_with_limits (BM_Fixed n) l) p = Some (RE_Complete, st')
      \<and> (\<exists>fs. log (rv_producer st') = log p @ fs \<and> \<not> has_trailers fs \<and> payload as_ref fs = concat (map (frame_bytes B) ds))
      \<and> recv_bytes U (rv_buffer st') @ input (rv_reader st') = later"
    if "sent w @ recv_bytes U rb @ input r = sent (sd_writer st) @ later"
  proof -
    have "recv_bytes U rb @ input r = wire @ later" using that st(2) by simp
    then obtain d' where "drain (decode P A) (decoder_with_limits (BM_Fixed n) l) (recv_bytes U rb @ input r) True
        = (concat (map (frame_bytes B) ds), Ended None, d', later)"
      using drain_encoded_fixed [OF assms(14,15), of P A l later True] by auto
    moreover obtain out where "receive_body P A U G X r rb (decoder_with_limits (BM_Fixed n) l) p = Some out"
      "received U log (log p) input (drain (decode P A) (decoder_with_limits (BM_Fixed n) l) (recv_bytes U rb @ input r) True) out"
      using receive_body_received [OF assms(10,5) policies(1) [OF assms(8)] _ assms(7,9,11) decoder_ok_new [OF assms(1)] assms(12), of A r p]
        assms(5,6) by blast
    ultimately show ?thesis by (cases out) (auto simp: received_def)
  qed
  with st(1) show ?thesis by blast
qed

theorem fixed_body_transfer_witness:
  "\<exists>st'. receive_body empty_httparse alist_http list_buffer list_producer list_receive_env
      [97, 98, 71] fresh_buffer (decoder_with_limits (BM_Fixed 2) decode_limits_default) [] = Some (RE_Complete, st')
    \<and> payload as_ref (rv_producer st') = [97, 98] \<and> recv_bytes list_buffer (rv_buffer st') @ rv_reader st' = [71]"
proof -
  let ?md = "\<lparr>md_size = with_exact 2, md_trailers = TH_None\<rparr>"
  let ?enc = "\<lparr>be_state = BS_Fixed, be_max_trailer_bytes = 100, be_title_case_headers = True,
      be_remaining_lower = 2, be_remaining_upper = Some 2, be_trailers = TH_None\<rparr>"
  have new: "body_encoder_new (BM_Fixed 2) ?md sample_config = Ok ?enc" by code_simp
  have "fst (encode_body ?enc (map (frame_bytes small_full_body) [()])) = Ok [97, 98]" by code_simp
  then obtain enc' where enc: "encode_body ?enc (map (frame_bytes small_full_body) [()]) = (Ok [97, 98], enc')" by (metis prod.collapse)
  have room: "leftover_bound (decoder_with_limits (BM_Fixed 2) decode_limits_default) < rb_max_retained fresh_buffer"
    by code_simp
  have sent: "fst (sd_writer st) = [97, 98]" if "send_body alist_http (\<lambda>_ _. True) quiet_env list_writer small_full_body ([], []) (FS_Ready ()) ?enc = Some (Ok stats, st)"
      for stats st
    using that send_body_complete [OF concrete_ends(1-3) small_body_run enc, of alist_http "\<lambda>_ _. True" "([], [])"] by simp
  from fixed_body_transfer [OF empty_httparse_law concrete_ends room small_body_run new enc,
      where A = alist_http and M = "\<lambda>_ _. True" and w = "([], [])" and r = "[97, 98, 71]" and later = "[71]" and p = "[]"]
  show ?thesis
  proof (elim exE conjE impE, goal_cases)
    case (1 stats st)
    then show ?case using sent fresh_buffer_ok(2) by simp
  next
    case (2 stats st st' fs)
    then show ?case by (intro exI [of _ st']) (auto simp: small_full_body_def full_body_def)
  qed
qed

end
