(* ===== verification/Exchange.thy ===== *)
theory Exchange
  imports Head_Validate
begin

text \<open>
  The message policy of one exchange, from \<open>src/src/proto/h1/exchange.rs\<close>: which response
  heads may follow which, when the connection may be reused, and when it is handed over to
  another protocol.

  A run is the sequence of events a driver reports to the policy: heads received (client),
  heads sent (server), and decisions to close. The lemmas follow the policy through a whole
  run, so that its verdict at the end is explained by the heads of the exchange.
\<close>

section \<open>Definitions\<close>

datatype activity_end = AE_Complete | AE_Retired

datatype response_phase = AwaitingHead | RP_Final | RP_Upgrade upgrade_kind

datatype head_action = HA_Informational | HA_Final | HA_Upgrade upgrade_kind

datatype exchange_outcome = EO_Reusable | EO_Close | EO_Handoff upgrade_kind

record exchange_policy =
  xp_phase :: response_phase
  xp_persistence :: persistence
  xp_method :: http_method
  xp_upgrade :: "upgrade_kind option"
  xp_offered_protocols :: "bytes list"
  xp_informational :: usize
  xp_max_informational :: usize

definition exchange_policy_new :: "('h, 'u) http_api \<Rightarrow> ('h, 'u) validated_request_head \<Rightarrow> usize \<Rightarrow> exchange_policy" where
  "exchange_policy_new A req max_informational =
     \<lparr>xp_phase = AwaitingHead, xp_persistence = vreq_persistence req, xp_method = req_method (vreq_head req),
      xp_upgrade = vreq_upgrade req,
      xp_offered_protocols =
        (if vreq_upgrade req = Some Protocol then hm_get_all A (req_headers (vreq_head req)) UPGRADE else []),
      xp_informational = 0, xp_max_informational = max_informational\<rparr>"

text \<open>The check of a chosen upgrade against the request.\<close>

definition upgrade_refused :: "('h, 'u) http_api \<Rightarrow> exchange_policy \<Rightarrow> upgrade_kind \<Rightarrow> 'h \<Rightarrow> bool" where
  "upgrade_refused A p upgrade headers \<longleftrightarrow>
     xp_upgrade p \<noteq> Some upgrade
     \<or> (upgrade = Protocol \<and> \<not> upgrade_protocols_match A (xp_offered_protocols p) headers)"

definition receive_head ::
  "('h, 'u) http_api \<Rightarrow> exchange_policy \<Rightarrow> 'h response_head
     \<Rightarrow> ('h validated_response_head \<times> head_action \<times> exchange_policy, error) result" where
  "receive_head A p head =
     (if xp_phase p \<noteq> AwaitingHead then Err (error_new KInvalidMessage ''response head after final response'')
      else
        and_then (map_err error_from_head (validate_response A head (xp_method p))) (\<lambda>head.
        case vresp_upgrade head of
          Some upgrade \<Rightarrow>
            if upgrade_refused A p upgrade (resp_headers (vresp_head head))
            then Err (error_new KUpgrade ''response did not match the requested upgrade'')
            else Ok (head, HA_Upgrade upgrade, p\<lparr>xp_phase := RP_Upgrade upgrade\<rparr>)
        | None \<Rightarrow>
            if status_is_informational A (resp_status (vresp_head head)) then
              (if xp_informational p = xp_max_informational p
               then Err (with_detail (error_new KLimit ''too many informational responses'') (IncomingLimit InformationalResponses))
               else Ok (head, HA_Informational, p\<lparr>xp_informational := xp_informational p + 1\<rparr>))
            else
              Ok (head, HA_Final,
                  p\<lparr>xp_phase := RP_Final,
                    xp_persistence := (if vresp_persistence head = Close then Close else xp_persistence p)\<rparr>)))"

definition sent_final :: "exchange_policy \<Rightarrow> persistence \<Rightarrow> (exchange_policy, error) result" where
  "sent_final p pers =
     (if xp_phase p \<noteq> AwaitingHead then Err (error_new KInternal ''invalid final response transition'')
      else Ok (p\<lparr>xp_phase := RP_Final, xp_persistence := (if pers = Close then Close else xp_persistence p)\<rparr>))"

definition sent_response ::
  "('h, 'u) http_api \<Rightarrow> exchange_policy \<Rightarrow> 'h validated_response_head \<Rightarrow> (exchange_policy, error) result" where
  "sent_response A p head =
     (case vresp_upgrade head of
        Some upgrade \<Rightarrow>
          if xp_phase p \<noteq> AwaitingHead \<or> upgrade_refused A p upgrade (resp_headers (vresp_head head))
          then Err (error_new KUpgrade ''response did not match the requested upgrade'')
          else Ok (p\<lparr>xp_phase := RP_Upgrade upgrade\<rparr>)
      | None \<Rightarrow> sent_final p (vresp_persistence head))"

definition close_after_exchange :: "exchange_policy \<Rightarrow> exchange_policy" where
  "close_after_exchange p = p\<lparr>xp_persistence := Close\<rparr>"

definition exchange_finish :: "exchange_policy \<Rightarrow> activity_end \<Rightarrow> activity_end \<Rightarrow> (exchange_outcome, error) result" where
  "exchange_finish p request response =
     (if request = AE_Retired \<or> response = AE_Retired then Ok EO_Close
      else
        (case xp_phase p of
           AwaitingHead \<Rightarrow> Err (error_new KInternal ''exchange completed without final head'')
         | RP_Upgrade kind \<Rightarrow> Ok (EO_Handoff kind)
         | RP_Final \<Rightarrow> Ok (case xp_persistence p of Reusable \<Rightarrow> EO_Reusable | Close \<Rightarrow> EO_Close)))"

section \<open>Runs of the policy\<close>

datatype 'h exchange_event =
    EV_Received "'h response_head" | EV_Sent "'h validated_response_head" | EV_Close

definition exchange_step ::
  "('h, 'u) http_api \<Rightarrow> exchange_policy \<Rightarrow> 'h exchange_event \<Rightarrow> (exchange_policy, error) result" where
  "exchange_step A p ev =
     (case ev of
        EV_Received head \<Rightarrow> and_then (receive_head A p head) (\<lambda>(_, _, p'). Ok p')
      | EV_Sent head \<Rightarrow> sent_response A p head
      | EV_Close \<Rightarrow> Ok (close_after_exchange p))"

fun exchange_run ::
  "('h, 'u) http_api \<Rightarrow> exchange_policy \<Rightarrow> 'h exchange_event list \<Rightarrow> (exchange_policy, error) result" where
  "exchange_run A p [] = Ok p"
| "exchange_run A p (ev # evs) = and_then (exchange_step A p ev) (\<lambda>p'. exchange_run A p' evs)"

text \<open>The head an event stands for, as validated against the request.\<close>

definition event_head :: "('h, 'u) http_api \<Rightarrow> http_method \<Rightarrow> 'h exchange_event \<Rightarrow> 'h validated_response_head option" where
  "event_head A m ev =
     (case ev of
        EV_Received head \<Rightarrow> (case validate_response A head m of Ok v \<Rightarrow> Some v | Err _ \<Rightarrow> None)
      | EV_Sent v \<Rightarrow> Some v
      | EV_Close \<Rightarrow> None)"

definition is_informational_event :: "('h, 'u) http_api \<Rightarrow> http_method \<Rightarrow> 'h exchange_event \<Rightarrow> bool" where
  "is_informational_event A m ev =
     (case ev of
        EV_Received head \<Rightarrow> vresp_upgrade (the (event_head A m ev)) = None \<and> status_is_informational A (resp_status head)
      | _ \<Rightarrow> False)"

definition deciding_heads :: "('h, 'u) http_api \<Rightarrow> http_method \<Rightarrow> 'h exchange_event list \<Rightarrow> 'h validated_response_head list" where
  "deciding_heads A m evs = map (\<lambda>ev. the (event_head A m ev)) (filter (\<lambda>ev. ev \<noteq> EV_Close \<and> \<not> is_informational_event A m ev) evs)"

text \<open>What the policy has recorded after the events \<open>evs\<close> of an exchange that started as \<open>p0\<close>.\<close>

definition exchange_inv ::
  "('h, 'u) http_api \<Rightarrow> exchange_policy \<Rightarrow> 'h exchange_event list \<Rightarrow> exchange_policy \<Rightarrow> bool" where
  "exchange_inv A p0 evs p \<longleftrightarrow>
     xp_method p = xp_method p0 \<and> xp_upgrade p = xp_upgrade p0 \<and> xp_offered_protocols p = xp_offered_protocols p0
   \<and> xp_max_informational p = xp_max_informational p0
   \<and> xp_informational p = length (filter (is_informational_event A (xp_method p0)) evs)
   \<and> xp_informational p \<le> xp_max_informational p
   \<and> (case deciding_heads A (xp_method p0) evs of
        [] \<Rightarrow> xp_phase p = AwaitingHead
      | [v] \<Rightarrow>
          (case vresp_upgrade v of
             None \<Rightarrow> xp_phase p = RP_Final
           | Some k \<Rightarrow> xp_phase p = RP_Upgrade k \<and> \<not> upgrade_refused A p0 k (resp_headers (vresp_head v)))
      | _ \<Rightarrow> False)
   \<and> (xp_persistence p = Reusable \<longleftrightarrow>
        xp_persistence p0 = Reusable \<and> EV_Close \<notin> set evs
        \<and> (\<forall>v \<in> set (deciding_heads A (xp_method p0) evs). vresp_upgrade v = None \<longrightarrow> vresp_persistence v = Reusable))"

lemma upgrade_refused_cong:
  "xp_upgrade p = xp_upgrade q \<Longrightarrow> xp_offered_protocols p = xp_offered_protocols q \<Longrightarrow>
   upgrade_refused A p k h \<longleftrightarrow> upgrade_refused A q k h"
  by (simp add: upgrade_refused_def)

lemma validate_response_head: "validate_response A head m = Ok v \<Longrightarrow> vresp_head v = head"
  by (auto simp: validate_response_def split: if_splits)

text \<open>The three ways an event moves the policy on.\<close>

lemma exchange_step_cases:
  assumes "exchange_step A p ev = Ok p'"
  obtains (close) "ev = EV_Close" "p' = p\<lparr>xp_persistence := Close\<rparr>"
  | (informational) "is_informational_event A (xp_method p) ev" "ev \<noteq> EV_Close"
      "xp_informational p \<noteq> xp_max_informational p" "p' = p\<lparr>xp_informational := xp_informational p + 1\<rparr>"
  | (upgrade) v k where "\<not> is_informational_event A (xp_method p) ev" "ev \<noteq> EV_Close" "xp_phase p = AwaitingHead"
      "event_head A (xp_method p) ev = Some v" "vresp_upgrade v = Some k"
      "\<not> upgrade_refused A p k (resp_headers (vresp_head v))" "p' = p\<lparr>xp_phase := RP_Upgrade k\<rparr>"
  | (final) v where "\<not> is_informational_event A (xp_method p) ev" "ev \<noteq> EV_Close" "xp_phase p = AwaitingHead"
      "event_head A (xp_method p) ev = Some v" "vresp_upgrade v = None"
      "p' = p\<lparr>xp_phase := RP_Final, xp_persistence := (if vresp_persistence v = Close then Close else xp_persistence p)\<rparr>"
proof (cases ev)
  case EV_Close
  with assms show ?thesis by (intro close) (simp_all add: exchange_step_def close_after_exchange_def)
next
  case (EV_Sent v)
  show ?thesis
  proof (cases "vresp_upgrade v")
    case None
    with EV_Sent assms show ?thesis
      by (intro final) (auto simp: exchange_step_def sent_response_def sent_final_def event_head_def is_informational_event_def split: if_splits)
  next
    case (Some k)
    with EV_Sent assms show ?thesis
      by (intro upgrade) (auto simp: exchange_step_def sent_response_def event_head_def is_informational_event_def split: if_splits)
  qed
next
  case (EV_Received head)
  with assms obtain v act where v: "validate_response A head (xp_method p) = Ok v" and phase: "xp_phase p = AwaitingHead"
    and rest: "receive_head A p head = Ok (v, act, p')"
    by (auto simp: exchange_step_def receive_head_def split: if_splits option.splits)
  note head = validate_response_head [OF v]
  have ev: "event_head A (xp_method p) ev = Some v" by (simp add: EV_Received event_head_def v)
  have info: "is_informational_event A (xp_method p) ev \<longleftrightarrow>
      vresp_upgrade v = None \<and> status_is_informational A (resp_status (vresp_head v))"
    using ev by (simp add: EV_Received is_informational_event_def head)
  show ?thesis
  proof (cases "vresp_upgrade v")
    case (Some k)
    with rest v phase ev info EV_Received show ?thesis
      by (intro upgrade) (auto simp: receive_head_def split: if_splits)
  next
    case None
    show ?thesis
    proof (cases "is_informational_event A (xp_method p) ev")
      case True
      with None rest v phase info EV_Received show ?thesis
        by (intro informational) (auto simp: receive_head_def split: if_splits)
    next
      case False
      with None rest v phase ev info EV_Received show ?thesis
        by (intro final) (auto simp: receive_head_def split: if_splits)
    qed
  qed
qed

lemma deciding_heads_snoc:
  "deciding_heads A m (evs @ [ev]) = deciding_heads A m evs @
     (if ev = EV_Close \<or> is_informational_event A m ev then [] else [the (event_head A m ev)])"
  by (simp add: deciding_heads_def)

lemma exchange_inv_awaiting:
  assumes "exchange_inv A p0 evs p" "xp_phase p = AwaitingHead"
  shows "deciding_heads A (xp_method p0) evs = []"
  using assms by (auto simp: exchange_inv_def split: list.splits option.splits)

lemma exchange_step_inv:
  assumes "exchange_inv A p0 evs p" "exchange_step A p ev = Ok p'"
  shows "exchange_inv A p0 (evs @ [ev]) p'"
proof -
  have m: "xp_method p = xp_method p0" using assms(1) by (simp add: exchange_inv_def)
  from assms(2) show ?thesis
  proof (cases rule: exchange_step_cases)
    case close
    then show ?thesis using assms(1)
      by (auto simp: exchange_inv_def deciding_heads_snoc is_informational_event_def split: list.splits option.splits)
  next
    case informational
    then show ?thesis using assms(1) unfolding m
      by (auto simp: exchange_inv_def deciding_heads_snoc split: list.splits option.splits)
  next
    case (upgrade v k)
    have "\<not> upgrade_refused A p0 k (resp_headers (vresp_head v))"
      using upgrade(6) assms(1) by (simp add: exchange_inv_def upgrade_refused_def)
    then show ?thesis using upgrade assms(1) exchange_inv_awaiting [OF assms(1) upgrade(3)] unfolding m
      by (auto simp: exchange_inv_def deciding_heads_snoc)
  next
    case (final v)
    then show ?thesis using assms(1) exchange_inv_awaiting [OF assms(1) final(3)] unfolding m
      by (auto simp: exchange_inv_def deciding_heads_snoc) (metis persistence.exhaust)+
  qed
qed

lemma exchange_run_inv:
  "exchange_run A p evs = Ok p' \<Longrightarrow> exchange_inv A p0 es p \<Longrightarrow> exchange_inv A p0 (es @ evs) p'"
proof (induction evs arbitrary: p es)
  case (Cons ev evs)
  then obtain q where q: "exchange_step A p ev = Ok q" "exchange_run A q evs = Ok p'" by auto
  from Cons.IH [OF q(2) exchange_step_inv [OF Cons.prems(2) q(1)]] show ?case by simp
qed simp

lemma exchange_inv_new:
  "exchange_inv A (exchange_policy_new A req n) [] (exchange_policy_new A req n)"
  by (simp add: exchange_inv_def deciding_heads_def exchange_policy_new_def)

section \<open>Properties\<close>

text \<open>
  C10. The verdict at the end of an exchange is justified by its heads, in both roles. The
  connection is reused only when both directions completed, the request and the one final
  response allow it, and no decision to close was made; it is handed over only for the
  upgrade the request asked for and, for a protocol, one that it offered; and no exchange
  accepts a second deciding head or more informational heads than allowed.
\<close>

theorem exchange_verdict:
  assumes "exchange_run A (exchange_policy_new A req n) evs = Ok p"
    and "exchange_finish p request response = Ok verdict"
  shows "(verdict = EO_Reusable \<longleftrightarrow>
       request = AE_Complete \<and> response = AE_Complete \<and> vreq_persistence req = Reusable \<and> EV_Close \<notin> set evs
       \<and> (\<exists>v. deciding_heads A (req_method (vreq_head req)) evs = [v] \<and> vresp_upgrade v = None \<and> vresp_persistence v = Reusable))
   \<and> (\<forall>k. verdict = EO_Handoff k \<longrightarrow>
       request = AE_Complete \<and> response = AE_Complete \<and> vreq_upgrade req = Some k
       \<and> (\<exists>v. deciding_heads A (req_method (vreq_head req)) evs = [v] \<and> vresp_upgrade v = Some k
            \<and> (k = Protocol \<longrightarrow> upgrade_protocols_match A (hm_get_all A (req_headers (vreq_head req)) UPGRADE) (resp_headers (vresp_head v)))))
   \<and> length (filter (is_informational_event A (req_method (vreq_head req))) evs) \<le> n
   \<and> length (deciding_heads A (req_method (vreq_head req)) evs) \<le> 1"
proof -
  let ?p0 = "exchange_policy_new A req n"
  have inv: "exchange_inv A ?p0 evs p" using exchange_run_inv [OF assms(1) exchange_inv_new] by simp
  have p0: "xp_method ?p0 = req_method (vreq_head req)" "xp_upgrade ?p0 = vreq_upgrade req" "xp_max_informational ?p0 = n"
    "xp_persistence ?p0 = vreq_persistence req"
    "vreq_upgrade req = Some Protocol \<Longrightarrow> xp_offered_protocols ?p0 = hm_get_all A (req_headers (vreq_head req)) UPGRADE"
    by (simp_all add: exchange_policy_new_def)
  have "length (filter (is_informational_event A (req_method (vreq_head req))) evs) \<le> n"
    using inv by (simp add: exchange_inv_def p0)
  moreover have "length (deciding_heads A (req_method (vreq_head req)) evs) \<le> 1"
    using inv by (auto simp: exchange_inv_def p0 split: list.splits)
  moreover have "verdict = EO_Reusable \<longleftrightarrow>
       request = AE_Complete \<and> response = AE_Complete \<and> vreq_persistence req = Reusable \<and> EV_Close \<notin> set evs
       \<and> (\<exists>v. deciding_heads A (req_method (vreq_head req)) evs = [v] \<and> vresp_upgrade v = None \<and> vresp_persistence v = Reusable)"
    using assms(2) inv
    by (cases request; cases response)
       (auto simp: exchange_finish_def exchange_inv_def p0 split: response_phase.splits persistence.splits list.splits option.splits if_splits)
  moreover have "\<forall>k. verdict = EO_Handoff k \<longrightarrow>
       request = AE_Complete \<and> response = AE_Complete \<and> vreq_upgrade req = Some k
       \<and> (\<exists>v. deciding_heads A (req_method (vreq_head req)) evs = [v] \<and> vresp_upgrade v = Some k
            \<and> (k = Protocol \<longrightarrow> upgrade_protocols_match A (hm_get_all A (req_headers (vreq_head req)) UPGRADE) (resp_headers (vresp_head v))))"
    using assms(2) inv p0(5)
    by (cases request; cases response)
       (auto simp: exchange_finish_def exchange_inv_def p0(1-4) upgrade_refused_def
         split: response_phase.splits persistence.splits list.splits option.splits if_splits)
  ultimately show ?thesis by blast
qed

text \<open>A request that keeps the connection, an informational head and a final head.\<close>

definition plain_request :: "(alist, bytes) validated_request_head" where
  "plain_request =
     \<lparr>vreq_head = \<lparr>req_method = ''GET'', req_target = bstr ''/'', req_version = HTTP_11,
        req_headers = [(HOST, bstr ''a'')], req_header_case = None\<rparr>,
      vreq_body = BM_None, vreq_persistence = Reusable, vreq_target_form = Origin, vreq_expectation = Expect_None,
      vreq_upgrade = None\<rparr>"

definition plain_events :: "alist exchange_event list" where
  "plain_events =
     [EV_Received \<lparr>resp_version = HTTP_11, resp_status = 100, resp_headers = [], resp_header_case = None\<rparr>,
      EV_Received \<lparr>resp_version = HTTP_11, resp_status = 200, resp_headers = [(CONTENT_LENGTH, bstr ''0'')], resp_header_case = None\<rparr>]"

theorem exchange_verdict_witness:
  "\<exists>p. exchange_run alist_http (exchange_policy_new alist_http plain_request 16) plain_events = Ok p
     \<and> exchange_finish p AE_Complete AE_Complete = Ok EO_Reusable
     \<and> length (deciding_heads alist_http ''GET'' plain_events) \<le> 1"
proof -
  let ?run = "exchange_run alist_http (exchange_policy_new alist_http plain_request 16) plain_events"
  have "(case ?run of Ok p \<Rightarrow> exchange_finish p AE_Complete AE_Complete = Ok EO_Reusable | Err _ \<Rightarrow> False)" by code_simp
  then obtain p where p: "?run = Ok p" "exchange_finish p AE_Complete AE_Complete = Ok EO_Reusable"
    by (cases ?run) auto
  have "req_method (vreq_head plain_request) = ''GET''" by (simp add: plain_request_def)
  with exchange_verdict [OF p] p show ?thesis by auto
qed

end
