(* ===== verification/Upgrade.thy ===== *)
theory Upgrade
  imports Pipe H1_Types Transport_Api
begin

text \<open>
  Transport ownership after a protocol switch or a CONNECT tunnel, from \<open>src/src/upgrade.rs\<close> and
  the boxed halves of \<open>src/src/upgrade/boxed.rs\<close>.

  A Rust type is a \<open>type_id\<close>, and a transport half carries the one it has: \<open>Bare\<close> is a concrete
  half, \<open>Boxed_Half\<close> the erased \<open>BoxedReadHalf\<close> or \<open>BoxedWriteHalf\<close> around another. The shared
  cell, every poll and every drop are functions; \<open>upgrade_step\<close> lets the application and the
  driver take them in any order. The invariant shows that the transport is always in exactly
  one place, that a delivered transport has the types its claim asked for, and that a sleeping
  claim is woken.

  Reads of an upgraded transport serve the bytes read ahead before the transport's own.
\<close>

section \<open>Transport halves and their types\<close>

datatype type_id = TI_Concrete nat | TI_Boxed

datatype 'x half = Bare nat 'x | Boxed_Half "'x half"

fun half_type :: "'x half \<Rightarrow> type_id" where
  "half_type (Bare t x) = TI_Concrete t"
| "half_type (Boxed_Half h) = TI_Boxed"

record ('r, 'w) upgraded =
  ug_reader :: "'r half"
  ug_writer :: "'w half"
  ug_read_ahead :: bytes
  ug_kind :: upgrade_kind

definition upgraded_new :: "'r half \<Rightarrow> 'w half \<Rightarrow> bytes \<Rightarrow> upgrade_kind \<Rightarrow> ('r, 'w) upgraded" where
  "upgraded_new r w read_ahead k =
     \<lparr>ug_reader = r, ug_writer = w, ug_read_ahead = read_ahead, ug_kind = k\<rparr>"

definition upgraded_into_parts :: "('r, 'w) upgraded \<Rightarrow> 'r half \<times> 'w half \<times> bytes \<times> upgrade_kind" where
  "upgraded_into_parts u = (ug_reader u, ug_writer u, ug_read_ahead u, ug_kind u)"

definition upgraded_types :: "('r, 'w) upgraded \<Rightarrow> type_id \<times> type_id" where
  "upgraded_types u = (half_type (ug_reader u), half_type (ug_writer u))"

definition upgraded_boxed :: "('r, 'w) upgraded \<Rightarrow> ('r, 'w) upgraded" where
  "upgraded_boxed u =
     (let (reader, writer, read_ahead, k) = upgraded_into_parts u in
      \<lparr>ug_reader = Boxed_Half reader, ug_writer = Boxed_Half writer, ug_read_ahead = read_ahead, ug_kind = k\<rparr>)"

text \<open>\<open>is\<close> and \<open>into_inner\<close> of a boxed half; \<open>recover\<close>'s \<open>unreachable!\<close> is \<open>None\<close>.\<close>

fun half_is :: "type_id \<Rightarrow> 'x half \<Rightarrow> bool" where
  "half_is t (Boxed_Half h) \<longleftrightarrow> half_type h = t"
| "half_is t (Bare _ _) \<longleftrightarrow> False"

fun half_into_inner :: "type_id \<Rightarrow> 'x half \<Rightarrow> 'x half option" where
  "half_into_inner t (Boxed_Half h) = (if half_type h = t then Some h else None)"
| "half_into_inner t (Bare _ _) = None"

text \<open>\<open>BoxedUpgraded::downcast\<close>; the outer \<open>None\<close> would be \<open>recover\<close>'s panic.\<close>

definition upgraded_downcast ::
  "type_id \<Rightarrow> type_id \<Rightarrow> ('r, 'w) upgraded \<Rightarrow> (('r, 'w) upgraded, ('r, 'w) upgraded) result option" where
  "upgraded_downcast tr tw u =
     (if \<not> half_is tr (ug_reader u) \<or> \<not> half_is tw (ug_writer u) then Some (Err u)
      else
        (let (reader, writer, read_ahead, k) = upgraded_into_parts u in
         Option.bind (half_into_inner tr reader) (\<lambda>r.
         Option.bind (half_into_inner tw writer) (\<lambda>w.
           Some (Ok \<lparr>ug_reader = r, ug_writer = w, ug_read_ahead = read_ahead, ug_kind = k\<rparr>)))))"

section \<open>The claim cell\<close>

datatype claim_target = CT_Typed type_id type_id | CT_Boxed

datatype claim_phase = CP_Unclaimed | CP_Claimed claim_target bool | CP_Closed

record ('r, 'w) upgrade_state =
  us_phase :: claim_phase
  us_result :: "(('r, 'w) upgraded, error) result option"
  us_waker :: "waker option"

definition upgrade_state_default :: "('r, 'w) upgrade_state" where
  "upgrade_state_default = \<lparr>us_phase = CP_Unclaimed, us_result = None, us_waker = None\<rparr>"

record on_upgrade =
  ou_shared :: bool
  ou_immediate :: "error option"
  ou_types :: "type_id \<times> type_id"

definition on_upgrade_failed :: "type_id \<times> type_id \<Rightarrow> error \<Rightarrow> on_upgrade" where
  "on_upgrade_failed ty e = \<lparr>ou_shared = False, ou_immediate = Some e, ou_types = ty\<rparr>"

definition claim_slot ::
  "claim_target \<Rightarrow> type_id \<times> type_id \<Rightarrow> ('r, 'w) upgrade_state \<Rightarrow> on_upgrade \<times> ('r, 'w) upgrade_state" where
  "claim_slot target ty s =
     (case us_phase s of
        CP_Unclaimed \<Rightarrow>
          (\<lparr>ou_shared = True, ou_immediate = None, ou_types = ty\<rparr>, s\<lparr>us_phase := CP_Claimed target True\<rparr>)
      | CP_Claimed _ _ \<Rightarrow> (on_upgrade_failed ty (error_new KUpgrade ''upgrade was already claimed''), s)
      | CP_Closed \<Rightarrow> (on_upgrade_failed ty (error_new KUpgrade ''upgrade claim is no longer available''), s))"

definition claim_typed ::
  "type_id \<Rightarrow> type_id \<Rightarrow> ('r, 'w) upgrade_state \<Rightarrow> on_upgrade \<times> ('r, 'w) upgrade_state" where
  "claim_typed tr tw = claim_slot (CT_Typed tr tw) (tr, tw)"

definition claim_boxed :: "('r, 'w) upgrade_state \<Rightarrow> on_upgrade \<times> ('r, 'w) upgrade_state" where
  "claim_boxed = claim_slot CT_Boxed (TI_Boxed, TI_Boxed)"

definition on_upgrade_poll ::
  "waker \<Rightarrow> on_upgrade \<Rightarrow> ('r, 'w) upgrade_state
     \<Rightarrow> (('r, 'w) upgraded, error) result poll \<times> on_upgrade \<times> ('r, 'w) upgrade_state" where
  "on_upgrade_poll w c s =
     (case ou_immediate c of
        Some e \<Rightarrow> (Ready (Err e), c\<lparr>ou_immediate := None\<rparr>, s)
      | None \<Rightarrow>
          (if \<not> ou_shared c then (Ready (Err (error_new KUpgrade ''upgrade future polled after completion'')), c, s)
           else
             (case us_result s of
                Some (Ok u) \<Rightarrow>
                  (Ready (if upgraded_types u = ou_types c then Ok u
                          else Err (error_new KUpgrade ''upgrade transport types do not match this future'')),
                   c\<lparr>ou_shared := False\<rparr>, s\<lparr>us_result := None\<rparr>)
              | Some (Err e) \<Rightarrow> (Ready (Err e), c\<lparr>ou_shared := False\<rparr>, s\<lparr>us_result := None\<rparr>)
              | None \<Rightarrow> (Pending, c, s\<lparr>us_waker := Some w\<rparr>))))"

text \<open>The result that is dropped with the claim is part of the answer.\<close>

definition on_upgrade_drop ::
  "on_upgrade \<Rightarrow> ('r, 'w) upgrade_state \<Rightarrow> (('r, 'w) upgraded, error) result option \<times> ('r, 'w) upgrade_state" where
  "on_upgrade_drop c s =
     (if ou_shared c
      then (us_result s,
            s\<lparr>us_phase := (case us_phase s of CP_Claimed target _ \<Rightarrow> CP_Claimed target False | p \<Rightarrow> p),
              us_result := None, us_waker := None\<rparr>)
      else (None, s))"

definition upgrade_fulfill ::
  "('r, 'w) upgraded \<Rightarrow> ('r, 'w) upgrade_state
     \<Rightarrow> (upgrade_kind, ('r, 'w) upgraded) result \<times> ('r, 'w) upgrade_state \<times> waker list" where
  "upgrade_fulfill u s =
     (let k = ug_kind u;
          actual = (case upgraded_types u of (tr, tw) \<Rightarrow> CT_Typed tr tw);
          s' = s\<lparr>us_phase := CP_Closed, us_waker := None\<rparr>;
          ws = wake_one (us_waker s) in
      case us_phase s of
        CP_Claimed target True \<Rightarrow>
          (if target = actual \<or> target = CT_Boxed
           then (Ok k, s'\<lparr>us_result := Some (Ok (if target = CT_Boxed then upgraded_boxed u else u))\<rparr>, ws)
           else (Err u,
                 s'\<lparr>us_result :=
                      Some (Err (error_new KUpgrade ''upgrade transport types do not match this connection''))\<rparr>, ws))
      | _ \<Rightarrow> (Err u, s', ws))"

definition pending_upgrade_drop ::
  "bool \<Rightarrow> ('r, 'w) upgrade_state \<Rightarrow> ('r, 'w) upgrade_state \<times> waker list" where
  "pending_upgrade_drop settled s =
     (if settled then (s, [])
      else
        (s\<lparr>us_phase := CP_Closed,
           us_result := (case us_phase s of
                           CP_Claimed _ True \<Rightarrow> Some (Err (error_new KUpgrade ''message did not complete an upgrade''))
                         | _ \<Rightarrow> us_result s),
           us_waker := None\<rparr>,
         wake_one (us_waker s)))"

section \<open>Interleavings of the application and the driver\<close>

text \<open>
  \<open>uy_claims\<close> are the claim futures alive, \<open>uy_live\<close> the one that shares the cell with the types
  it asked for, \<open>uy_pending\<close> whether the driver still holds its endpoint, and \<open>uy_wait\<close> the waker
  of a claim that answered \<open>Pending\<close> and has not been woken since. The ghosts record the transport
  the driver handed over and where it went: to a claim, back to the driver, or dropped with a
  claim.
\<close>

record ('r, 'w) upgrade_sys =
  uy_state :: "('r, 'w) upgrade_state"
  uy_claims :: "nat \<rightharpoonup> on_upgrade"
  uy_live :: "(nat \<times> type_id \<times> type_id) option"
  uy_pending :: bool
  uy_wait :: "waker option"
  uy_handed :: "('r, 'w) upgraded option"
  uy_delivered :: "('r, 'w) upgraded list"
  uy_returned :: "('r, 'w) upgraded list"
  uy_dropped :: "('r, 'w) upgraded list"

definition upgrade_init :: "('r, 'w) upgrade_sys" where
  "upgrade_init =
     \<lparr>uy_state = upgrade_state_default, uy_claims = Map.empty, uy_live = None, uy_pending = True, uy_wait = None,
      uy_handed = None, uy_delivered = [], uy_returned = [], uy_dropped = []\<rparr>"

definition delivered_by :: "(('r, 'w) upgraded, error) result poll \<Rightarrow> ('r, 'w) upgraded list" where
  "delivered_by r = (case r of Ready (Ok u) \<Rightarrow> [u] | _ \<Rightarrow> [])"

definition held :: "(('r, 'w) upgraded, error) result option \<Rightarrow> ('r, 'w) upgraded list" where
  "held r = (case r of Some (Ok u) \<Rightarrow> [u] | _ \<Rightarrow> [])"

text \<open>A new claim that got the cell, and a claim that no longer shares it.\<close>

definition made :: "nat \<Rightarrow> on_upgrade \<Rightarrow> ('r, 'w) upgrade_state \<Rightarrow> ('r, 'w) upgrade_sys \<Rightarrow> ('r, 'w) upgrade_sys" where
  "made i c s y =
     y\<lparr>uy_state := s, uy_claims := (uy_claims y)(i \<mapsto> c),
       uy_live := (if ou_shared c then Some (i, ou_types c) else uy_live y)\<rparr>"

inductive upgrade_step :: "('r, 'w) upgrade_sys \<Rightarrow> ('r, 'w) upgrade_sys \<Rightarrow> bool" where
  claim_typed: "uy_claims y i = None \<Longrightarrow> claim_typed tr tw (uy_state y) = (c, s) \<Longrightarrow> upgrade_step y (made i c s y)"
| claim_boxed: "uy_claims y i = None \<Longrightarrow> claim_boxed (uy_state y) = (c, s) \<Longrightarrow> upgrade_step y (made i c s y)"
| poll_claim: "uy_claims y i = Some c \<Longrightarrow> on_upgrade_poll w c (uy_state y) = (r, c', s) \<Longrightarrow>
    upgrade_step y (y\<lparr>uy_state := s, uy_claims := (uy_claims y)(i \<mapsto> c'),
      uy_live := (if ou_shared c \<and> \<not> ou_shared c' then None else uy_live y),
      uy_wait := (if is_pending r then Some w else uy_wait y),
      uy_delivered := uy_delivered y @ delivered_by r\<rparr>)"
| drop_claim: "uy_claims y i = Some c \<Longrightarrow> on_upgrade_drop c (uy_state y) = (gone, s) \<Longrightarrow>
    upgrade_step y (y\<lparr>uy_state := s, uy_claims := (uy_claims y)(i := None),
      uy_live := (if ou_shared c then None else uy_live y),
      uy_wait := (if ou_shared c then None else uy_wait y),
      uy_dropped := uy_dropped y @ held gone\<rparr>)"
| fulfill: "uy_pending y \<Longrightarrow> upgrade_fulfill u (uy_state y) = (r, s, ws) \<Longrightarrow>
    pending_upgrade_drop True s = (s', ws') \<Longrightarrow>
    upgrade_step y (y\<lparr>uy_state := s', uy_pending := False, uy_wait := unwait (ws @ ws') (uy_wait y),
      uy_handed := Some u, uy_returned := uy_returned y @ (case r of Err v \<Rightarrow> [v] | Ok _ \<Rightarrow> [])\<rparr>)"
| drop_pending: "uy_pending y \<Longrightarrow> pending_upgrade_drop False (uy_state y) = (s, ws) \<Longrightarrow>
    upgrade_step y (y\<lparr>uy_state := s, uy_pending := False, uy_wait := unwait ws (uy_wait y)\<rparr>)"

definition upgrade_reachable :: "('r, 'w) upgrade_sys \<Rightarrow> bool" where
  "upgrade_reachable y \<longleftrightarrow> upgrade_step\<^sup>*\<^sup>* upgrade_init y"

section \<open>The invariant\<close>

text \<open>Where the transport is: in the cell, with a claim, with the driver, or dropped.\<close>

definition transport_places :: "('r, 'w) upgrade_sys \<Rightarrow> ('r, 'w) upgraded list" where
  "transport_places y = held (us_result (uy_state y)) @ uy_delivered y @ uy_returned y @ uy_dropped y"

definition same_transport :: "('r, 'w) upgraded \<Rightarrow> ('r, 'w) upgraded \<Rightarrow> bool" where
  "same_transport u v \<longleftrightarrow> v = u \<or> v = upgraded_boxed u"

definition upgrade_places :: "('r, 'w) upgrade_sys \<Rightarrow> bool" where
  "upgrade_places y \<longleftrightarrow>
     (case uy_handed y of
        None \<Rightarrow> transport_places y = []
      | Some u \<Rightarrow> \<not> uy_pending y \<and> (\<exists>v. transport_places y = [v] \<and> same_transport u v))"

fun target_types :: "claim_target \<Rightarrow> type_id \<times> type_id" where
  "target_types (CT_Typed tr tw) = (tr, tw)"
| "target_types CT_Boxed = (TI_Boxed, TI_Boxed)"

text \<open>What the cell holds, given the claim that shares it and whether the driver's endpoint is alive.\<close>

definition cell_ok :: "('r, 'w) upgrade_state \<Rightarrow> (type_id \<times> type_id) option \<Rightarrow> bool \<Rightarrow> bool" where
  "cell_ok s live pending \<longleftrightarrow>
     (case us_phase s of
        CP_Unclaimed \<Rightarrow> pending \<and> live = None \<and> us_result s = None
      | CP_Claimed target alive \<Rightarrow>
          pending \<and> us_result s = None \<and> live = (if alive then Some (target_types target) else None)
      | CP_Closed \<Rightarrow>
          \<not> pending
        \<and> (case us_result s of
             None \<Rightarrow> live = None
           | Some (Ok u) \<Rightarrow> live = Some (upgraded_types u)
           | Some (Err e) \<Rightarrow> live \<noteq> None))"

definition claims_ok :: "(nat \<rightharpoonup> on_upgrade) \<Rightarrow> (nat \<times> type_id \<times> type_id) option \<Rightarrow> bool" where
  "claims_ok m live \<longleftrightarrow>
     (\<forall>i c. m i = Some c \<longrightarrow> ou_shared c \<longrightarrow> live = Some (i, ou_types c) \<and> ou_immediate c = None)
   \<and> (\<forall>i ty. live = Some (i, ty) \<longrightarrow> (\<exists>c. m i = Some c \<and> ou_shared c \<and> ou_types c = ty))"

definition upgrade_waits :: "('r, 'w) upgrade_sys \<Rightarrow> bool" where
  "upgrade_waits y \<longleftrightarrow>
     (\<forall>w. uy_wait y = Some w \<longrightarrow> us_waker (uy_state y) = Some w \<and> uy_pending y \<and> uy_live y \<noteq> None)"

definition upgrade_inv :: "('r, 'w) upgrade_sys \<Rightarrow> bool" where
  "upgrade_inv y \<longleftrightarrow>
     claims_ok (uy_claims y) (uy_live y) \<and> cell_ok (uy_state y) (map_option snd (uy_live y)) (uy_pending y) \<and> upgrade_waits y \<and> upgrade_places y"

lemma upgraded_boxed_simps [simp]:
  "upgraded_types (upgraded_boxed u) = (TI_Boxed, TI_Boxed)"
  "ug_read_ahead (upgraded_boxed u) = ug_read_ahead u" "ug_kind (upgraded_boxed u) = ug_kind u"
  by (simp_all add: upgraded_boxed_def upgraded_into_parts_def upgraded_types_def)

lemma upgrade_inv_init: "upgrade_inv upgrade_init"
  by (simp add: upgrade_inv_def cell_ok_def claims_ok_def upgrade_waits_def upgrade_places_def upgrade_init_def
      upgrade_state_default_def transport_places_def held_def)

lemma claims_ok_new:
  "claims_ok m None \<Longrightarrow> ou_shared c \<Longrightarrow> ou_immediate c = None \<Longrightarrow> ty = ou_types c \<Longrightarrow>
     claims_ok (m(i \<mapsto> c)) (Some (i, ty))"
  by (auto simp: claims_ok_def)

lemma claims_ok_unshared:
  assumes "claims_ok m live" "\<And>c. m i = Some c \<Longrightarrow> \<not> ou_shared c" "\<And>c. x = Some c \<Longrightarrow> \<not> ou_shared c"
  shows "claims_ok (m(i := x)) live"
  unfolding claims_ok_def
proof (intro conjI allI impI)
  fix j c assume "(m(i := x)) j = Some c" "ou_shared c"
  with assms(3) have "m j = Some c" by (cases "j = i") auto
  with assms(1) \<open>ou_shared c\<close> show "live = Some (j, ou_types c)" "ou_immediate c = None" by (auto simp: claims_ok_def)
next
  fix j ty assume "live = Some (j, ty)"
  with assms(1) obtain c where c: "m j = Some c" "ou_shared c" "ou_types c = ty"
    unfolding claims_ok_def by blast
  with assms(2) have "j \<noteq> i" by auto
  with c show "\<exists>c. (m(i := x)) j = Some c \<and> ou_shared c \<and> ou_types c = ty" by simp
qed

lemma claims_ok_release:
  assumes "claims_ok m live" "m i = Some c" "ou_shared c" "\<And>c. x = Some c \<Longrightarrow> \<not> ou_shared c"
  shows "claims_ok (m(i := x)) None"
proof -
  have "live = Some (i, ou_types c)" using assms(1-3) by (auto simp: claims_ok_def)
  then have "j = i" if "m j = Some c'" "ou_shared c'" for j c' using that assms(1) by (auto simp: claims_ok_def)
  with assms(4) show ?thesis by (auto simp: claims_ok_def)
qed

lemma claims_okD:
  "claims_ok m live \<Longrightarrow> m i = Some c \<Longrightarrow> ou_shared c \<Longrightarrow> live = Some (i, ou_types c)"
  "claims_ok m live \<Longrightarrow> m i = Some c \<Longrightarrow> ou_shared c \<Longrightarrow> ou_immediate c = None"
  by (auto simp: claims_ok_def)

lemma poll_unshared:
  "\<not> ou_shared c \<Longrightarrow> \<exists>e c'. on_upgrade_poll w c s = (Ready (Err e), c', s) \<and> \<not> ou_shared c'"
  by (auto simp: on_upgrade_poll_def split: option.splits)

lemma poll_waiting:
  "ou_shared c \<Longrightarrow> ou_immediate c = None \<Longrightarrow> us_result s = None \<Longrightarrow>
     on_upgrade_poll w c s = (Pending, c, s\<lparr>us_waker := Some w\<rparr>)"
  by (simp add: on_upgrade_poll_def)

lemma poll_resolved:
  "ou_shared c \<Longrightarrow> ou_immediate c = None \<Longrightarrow> us_result s = Some r \<Longrightarrow>
     (case r of Ok u \<Rightarrow> upgraded_types u = ou_types c | Err e \<Rightarrow> True) \<Longrightarrow>
     on_upgrade_poll w c s = (Ready r, c\<lparr>ou_shared := False\<rparr>, s\<lparr>us_result := None\<rparr>)"
  by (auto simp: on_upgrade_poll_def split: result.splits)

lemma claim_slot_cases:
  assumes "cell_ok s live p" "target_types target = ty"
  obtains (got) "claim_slot target ty s = (\<lparr>ou_shared = True, ou_immediate = None, ou_types = ty\<rparr>, s\<lparr>us_phase := CP_Claimed target True\<rparr>)"
      "live = None" "cell_ok (s\<lparr>us_phase := CP_Claimed target True\<rparr>) (Some ty) p"
  | (refused) e where "claim_slot target ty s = (on_upgrade_failed ty e, s)"
  using assms by (cases "us_phase s") (auto simp: claim_slot_def cell_ok_def)

lemma claim_inv:
  assumes "upgrade_inv y" "uy_claims y i = None" "claim_slot target ty (uy_state y) = (c, s)" "target_types target = ty"
  shows "upgrade_inv (made i c s y)"
proof -
  have cell: "cell_ok (uy_state y) (map_option snd (uy_live y)) (uy_pending y)"
    using assms(1) by (simp add: upgrade_inv_def)
  from cell assms(4) show ?thesis
  proof (cases rule: claim_slot_cases)
    case got
    then show ?thesis using assms
      by (auto simp: upgrade_inv_def made_def upgrade_waits_def upgrade_places_def transport_places_def
          intro!: claims_ok_new split: option.splits)
  next
    case (refused e)
    then show ?thesis using assms
      by (auto simp: upgrade_inv_def made_def upgrade_waits_def upgrade_places_def transport_places_def on_upgrade_failed_def
        intro!: claims_ok_unshared split: option.splits)
  qed
qed

lemma poll_inv:
  assumes "upgrade_inv y" "uy_claims y i = Some c" "on_upgrade_poll w c (uy_state y) = (r, c', s)"
  shows "upgrade_inv (y\<lparr>uy_state := s, uy_claims := (uy_claims y)(i \<mapsto> c'),
      uy_live := (if ou_shared c \<and> \<not> ou_shared c' then None else uy_live y),
      uy_wait := (if is_pending r then Some w else uy_wait y),
      uy_delivered := uy_delivered y @ delivered_by r\<rparr>)" (is "upgrade_inv ?z")
proof (cases "ou_shared c")
  case False
  then obtain e where "r = Ready (Err e)" "\<not> ou_shared c'" "s = uy_state y"
    using poll_unshared [OF False, of w "uy_state y"] assms(3) by auto
  then show ?thesis using assms False
    by (auto simp: upgrade_inv_def upgrade_waits_def upgrade_places_def transport_places_def delivered_by_def is_pending_def
        intro!: claims_ok_unshared split: option.splits)
next
  case True
  have live: "uy_live y = Some (i, ou_types c)" "ou_immediate c = None"
    using assms(1,2) True by (auto simp: upgrade_inv_def dest: claims_okD)
  show ?thesis
  proof (cases "us_result (uy_state y)")
    case None
    with poll_waiting [OF True live(2) None, of w] assms(3) have "r = Pending" "c' = c" "s = (uy_state y)\<lparr>us_waker := Some w\<rparr>"
      by auto
    then show ?thesis using assms(1,2) None live
      by (auto simp: upgrade_inv_def upgrade_waits_def upgrade_places_def transport_places_def delivered_by_def is_pending_def
          cell_ok_def fun_upd_idem split: option.splits claim_phase.splits if_splits)
  next
    case (Some a)
    have ok: "case a of Ok u \<Rightarrow> upgraded_types u = ou_types c | Err e \<Rightarrow> True" and closed: "us_phase (uy_state y) = CP_Closed" "\<not> uy_pending y"
      using assms(1) Some live by (auto simp: upgrade_inv_def cell_ok_def split: claim_phase.splits result.splits)
    with poll_resolved [OF True live(2) Some ok, of w] assms(3)
    have "r = Ready a" "c' = c\<lparr>ou_shared := False\<rparr>" "s = (uy_state y)\<lparr>us_result := None\<rparr>" by auto
    moreover have "claims_ok ((uy_claims y)(i \<mapsto> c\<lparr>ou_shared := False\<rparr>)) None"
      using assms(1,2) True by (auto simp: upgrade_inv_def intro: claims_ok_release)
    ultimately show ?thesis using assms(1) Some closed True
      by (auto simp: upgrade_inv_def upgrade_waits_def upgrade_places_def transport_places_def delivered_by_def is_pending_def
          held_def cell_ok_def split: option.splits result.splits)
  qed
qed

lemma drop_inv:
  assumes "upgrade_inv y" "uy_claims y i = Some c" "on_upgrade_drop c (uy_state y) = (gone, s)"
  shows "upgrade_inv (y\<lparr>uy_state := s, uy_claims := (uy_claims y)(i := None),
      uy_live := (if ou_shared c then None else uy_live y),
      uy_wait := (if ou_shared c then None else uy_wait y),
      uy_dropped := uy_dropped y @ held gone\<rparr>)"
proof (cases "ou_shared c")
  case False
  then show ?thesis using assms
    by (auto simp: upgrade_inv_def on_upgrade_drop_def upgrade_waits_def upgrade_places_def transport_places_def held_def
        intro!: claims_ok_unshared split: option.splits)
next
  case True
  have "claims_ok ((uy_claims y)(i := None)) None"
    using assms(1,2) True by (auto simp: upgrade_inv_def intro: claims_ok_release)
  then show ?thesis using assms True
    by (auto simp: upgrade_inv_def on_upgrade_drop_def upgrade_waits_def upgrade_places_def transport_places_def held_def
        cell_ok_def split: option.splits claim_phase.splits result.splits)
qed

lemma fulfill_inv:
  assumes "upgrade_inv y" "uy_pending y" "upgrade_fulfill u (uy_state y) = (r, s, ws)"
  shows "upgrade_inv (y\<lparr>uy_state := s, uy_pending := False, uy_wait := unwait ws (uy_wait y),
      uy_handed := Some u, uy_returned := uy_returned y @ (case r of Err v \<Rightarrow> [v] | Ok _ \<Rightarrow> [])\<rparr>)"
proof -
  have "uy_handed y = None" "us_result (uy_state y) = None" "us_phase (uy_state y) \<noteq> CP_Closed"
    using assms(1,2) by (auto simp: upgrade_inv_def upgrade_places_def cell_ok_def split: option.splits claim_phase.splits)
  then show ?thesis using assms
    by (cases "us_phase (uy_state y)")
      (auto simp: upgrade_inv_def upgrade_fulfill_def Let_def cell_ok_def upgrade_waits_def upgrade_places_def
        transport_places_def held_def same_transport_def split: if_splits prod.splits)
qed

lemma pending_drop_inv:
  assumes "upgrade_inv y" "uy_pending y" "pending_upgrade_drop False (uy_state y) = (s, ws)"
  shows "upgrade_inv (y\<lparr>uy_state := s, uy_pending := False, uy_wait := unwait ws (uy_wait y)\<rparr>)"
proof -
  have "uy_handed y = None" "us_result (uy_state y) = None" "us_phase (uy_state y) \<noteq> CP_Closed"
    using assms(1,2) by (auto simp: upgrade_inv_def upgrade_places_def cell_ok_def split: option.splits claim_phase.splits)
  then show ?thesis using assms
    by (cases "us_phase (uy_state y)")
      (auto simp: upgrade_inv_def pending_upgrade_drop_def cell_ok_def upgrade_waits_def upgrade_places_def
        transport_places_def held_def split: if_splits bool.splits)
qed

lemma upgrade_step_inv:
  assumes "upgrade_step y z" "upgrade_inv y"
  shows "upgrade_inv z"
  using assms
proof (cases rule: upgrade_step.cases)
  case (claim_typed i tr tw c s)
  then show ?thesis using claim_inv [OF assms(2), of i "CT_Typed tr tw" "(tr, tw)"] by (simp add: claim_typed_def)
next
  case (claim_boxed i c s)
  then show ?thesis using claim_inv [OF assms(2), of i CT_Boxed "(TI_Boxed, TI_Boxed)"] by (simp add: claim_boxed_def)
next
  case (fulfill u r s ws s' ws')
  then show ?thesis using fulfill_inv [OF assms(2)] by (simp add: pending_upgrade_drop_def)
qed (simp_all only: poll_inv [OF assms(2)] drop_inv [OF assms(2)] pending_drop_inv [OF assms(2)])

interpretation upgrade: step_invariant upgrade_step upgrade_inv
  by unfold_locales (rule upgrade_step_inv)

lemma upgrade_reachable_inv: "upgrade_reachable y \<Longrightarrow> upgrade_inv y"
  unfolding upgrade_reachable_def by (rule upgrade.keeps_star [OF _ upgrade_inv_init])

section \<open>Reads of an upgraded transport\<close>

text \<open>
  A read is given the room of its buffer and answers a result, the bytes it put there and the
  reader. \<open>read\<close> is the reader's own; \<open>(ahead, r)\<close> is an \<open>UpgradedReadHalf\<close>, or an \<open>Upgraded\<close> as
  far as its reads go.
\<close>

type_synonym 'r read_op = "usize \<Rightarrow> 'r \<Rightarrow> (usize, io_error) result \<times> bytes \<times> 'r"
type_synonym 'r readv_op = "usize list \<Rightarrow> 'r \<Rightarrow> (usize, io_error) result \<times> bytes list \<times> 'r"

definition upgraded_into_split :: "('r, 'w) upgraded \<Rightarrow> (bytes \<times> 'r half) \<times> 'w half" where
  "upgraded_into_split u = ((ug_read_ahead u, ug_reader u), ug_writer u)"

definition read_prefixed :: "'r read_op \<Rightarrow> (bytes \<times> 'r) read_op" where
  "read_prefixed read room half =
     (case half of (ahead, r) \<Rightarrow>
        if ahead = [] then (case read room r of (res, v, r') \<Rightarrow> (res, v, ahead, r'))
        else (let n = min room (length ahead) in (Ok n, take n ahead, drop n ahead, r)))"

text \<open>The loop over the slices of a vectored buffer: each is filled from the bytes read ahead, until they are used up.\<close>

fun fill_slices :: "bytes \<Rightarrow> usize \<Rightarrow> usize list \<Rightarrow> usize \<times> bytes list" where
  "fill_slices ahead n [] = (n, [])"
| "fill_slices ahead n (room # rooms) =
     (let k = min room (length ahead - n);
          piece = take k (drop n ahead) in
      if n + k = length ahead then (n + k, piece # map (\<lambda>_. []) rooms)
      else (case fill_slices ahead (n + k) rooms of (m, pieces) \<Rightarrow> (m, piece # pieces)))"

definition read_vectored_prefixed :: "'r readv_op \<Rightarrow> (bytes \<times> 'r) readv_op" where
  "read_vectored_prefixed readv rooms half =
     (case half of (ahead, r) \<Rightarrow>
        if ahead = [] then (case readv rooms r of (res, vs, r') \<Rightarrow> (res, vs, ahead, r'))
        else (case fill_slices ahead 0 rooms of (n, pieces) \<Rightarrow> (Ok n, pieces, drop n ahead, r)))"

text \<open>
  What a transport's reads promise: the bytes come from the input in order and fit the room,
  and the result counts them. A failed read takes none.
\<close>

definition reads_from :: "('r \<Rightarrow> bytes) \<Rightarrow> nat \<Rightarrow> 'r \<Rightarrow> (usize, io_error) result \<times> bytes \<times> 'r \<Rightarrow> bool" where
  "reads_from input room r res =
     (case res of (answer, v, r') \<Rightarrow>
        input r = v @ input r' \<and> length v \<le> room \<and> (case answer of Ok n \<Rightarrow> n = length v | Err e \<Rightarrow> v = []))"

definition flat_read :: "(usize, io_error) result \<times> bytes list \<times> 'r \<Rightarrow> (usize, io_error) result \<times> bytes \<times> 'r" where
  "flat_read res = (case res of (answer, vs, r) \<Rightarrow> (answer, concat vs, r))"

definition fits :: "bytes list \<Rightarrow> usize list \<Rightarrow> bool" where
  "fits vs rooms = list_all2 (\<lambda>v room. length v \<le> room) vs rooms"

definition read_laws :: "'r read_op \<Rightarrow> 'r readv_op \<Rightarrow> ('r \<Rightarrow> bytes) \<Rightarrow> bool" where
  "read_laws read readv input \<longleftrightarrow>
     (\<forall>room r. reads_from input room r (read room r))
   \<and> (\<forall>rooms r. reads_from input (sum_list rooms) r (flat_read (readv rooms r)) \<and> fits (fst (snd (readv rooms r))) rooms)"

text \<open>A program's reads, scalar and vectored, and all the bytes they gave it.\<close>

datatype read_request = RQ_Read usize | RQ_Vectored "usize list"

fun run_read :: "'r read_op \<Rightarrow> 'r readv_op \<Rightarrow> read_request \<Rightarrow> 'r \<Rightarrow> bytes \<times> 'r" where
  "run_read read readv (RQ_Read room) r = snd (read room r)"
| "run_read read readv (RQ_Vectored rooms) r = snd (flat_read (readv rooms r))"

fun run_reads :: "'r read_op \<Rightarrow> 'r readv_op \<Rightarrow> read_request list \<Rightarrow> 'r \<Rightarrow> bytes \<times> 'r" where
  "run_reads read readv [] r = ([], r)"
| "run_reads read readv (q # qs) r =
     (case run_read read readv q r of (v, r') \<Rightarrow> (case run_reads read readv qs r' of (vs, r'') \<Rightarrow> (v @ vs, r'')))"

lemma fits_empty: "fits (map (\<lambda>_. []) rooms) rooms"
  by (induction rooms) (auto simp: fits_def)

lemma fill_slices_spec:
  "n \<le> length ahead \<Longrightarrow> fill_slices ahead n rooms = (m, pieces) \<Longrightarrow>
     m = min (length ahead) (n + sum_list rooms) \<and> concat pieces = take (m - n) (drop n ahead) \<and> fits pieces rooms"
proof (induction ahead n rooms arbitrary: m pieces rule: fill_slices.induct)
  case (1 ahead n)
  then show ?case by (simp add: fits_def)
next
  case (2 ahead n room rooms)
  let ?k = "min room (length ahead - n)"
  show ?case
  proof (cases "n + ?k = length ahead")
    case True
    then show ?thesis using "2.prems" fits_empty [of rooms] by (auto simp: fits_def Let_def)
  next
    case False
    then obtain m' pieces' where rest: "fill_slices ahead (n + ?k) rooms = (m', pieces')" by fastforce
    then have res: "m = m'" "pieces = take ?k (drop n ahead) # pieces'" using "2.prems"(2) False by (auto simp: Let_def)
    have ih: "m' = min (length ahead) (n + ?k + sum_list rooms)" "concat pieces' = take (m' - (n + ?k)) (drop (n + ?k) ahead)"
      "fits pieces' rooms"
      using "2.IH" [OF refl refl False _ rest] "2.prems"(1) by auto
    have "?k = room" using False "2.prems"(1) by auto
    moreover have "m' - n = ?k + (m' - (n + ?k))" using ih(1) "2.prems"(1) by linarith
    then have "take (m' - n) (drop n ahead) = take ?k (drop n ahead) @ take (m' - (n + ?k)) (drop (n + ?k) ahead)"
      by (simp only: take_add drop_drop add.commute)
    ultimately show ?thesis using ih res by (auto simp: fits_def)
  qed
qed

lemma read_lawsD:
  assumes "read_laws read readv input"
  shows "reads_from input room r (read room r)"
    "reads_from input (sum_list rooms) r (flat_read (readv rooms r))" "fits (fst (snd (readv rooms r))) rooms"
  using assms by (simp_all add: read_laws_def)

text \<open>The upgraded reader keeps the promise, with the bytes read ahead in front of the input.\<close>

lemma prefixed_laws:
  assumes "read_laws read readv input"
  shows "read_laws (read_prefixed read) (read_vectored_prefixed readv) (\<lambda>(ahead, r). ahead @ input r)"
  unfolding read_laws_def
proof (intro conjI allI)
  fix room and half :: "bytes \<times> 'a"
  obtain ahead r where half: "half = (ahead, r)" by (cases half)
  show "reads_from (\<lambda>(ahead, r). ahead @ input r) room half (read_prefixed read room half)"
    using read_lawsD(1) [OF assms, of room r]
    by (cases "read room r") (auto simp: half read_prefixed_def reads_from_def Let_def)
next
  fix rooms and half :: "bytes \<times> 'a"
  obtain ahead r where half: "half = (ahead, r)" by (cases half)
  obtain n pieces where fill: "fill_slices ahead 0 rooms = (n, pieces)" by (cases "fill_slices ahead 0 rooms")
  obtain answer vs r' where own: "readv rooms r = (answer, vs, r')" by (cases "readv rooms r") auto
  show "reads_from (\<lambda>(ahead, r). ahead @ input r) (sum_list rooms) half (flat_read (read_vectored_prefixed readv rooms half))"
    using read_lawsD(2) [OF assms, of rooms r] fill_slices_spec [OF _ fill] own fill
    by (auto simp: half read_vectored_prefixed_def reads_from_def flat_read_def)
  show "fits (fst (snd (read_vectored_prefixed readv rooms half))) rooms"
    using read_lawsD(3) [OF assms, of rooms r] fill_slices_spec [OF _ fill] own fill
    by (auto simp: half read_vectored_prefixed_def)
qed

lemma reads_from_conserves: "reads_from input room r res \<Longrightarrow> snd res = (v, r') \<Longrightarrow> input r = v @ input r'"
  by (cases res) (auto simp: reads_from_def)

lemma run_read_conserves:
  "read_laws read readv input \<Longrightarrow> run_read read readv q r = (v, r') \<Longrightarrow> input r = v @ input r'"
  by (cases q) (auto dest: reads_from_conserves [OF read_lawsD(1)] reads_from_conserves [OF read_lawsD(2)])

lemma run_reads_conserves:
  assumes "read_laws read readv input"
  shows "run_reads read readv qs r = (v, r') \<Longrightarrow> input r = v @ input r'"
  by (induction qs arbitrary: r v) (auto split: prod.splits dest: run_read_conserves [OF assms])

lemma run_read_prefixed:
  "run_read (read_prefixed read) (read_vectored_prefixed readv) q (ahead, r) = (v, ahead', r') \<Longrightarrow>
     (if ahead = [] then ahead' = [] else r' = r)"
  by (cases q) (auto simp: read_prefixed_def read_vectored_prefixed_def flat_read_def Let_def split: prod.splits if_splits)

lemma run_reads_prefixed:
  "run_reads (read_prefixed read) (read_vectored_prefixed readv) qs (ahead, r) = (v, ahead', r') \<Longrightarrow>
     (if ahead = [] then ahead' = [] else r' = r \<or> ahead' = [])"
proof (induction qs arbitrary: ahead r v)
  case (Cons q qs)
  obtain u b x where one: "run_read (read_prefixed read) (read_vectored_prefixed readv) q (ahead, r) = (u, b, x)"
    by (cases "run_read (read_prefixed read) (read_vectored_prefixed readv) q (ahead, r)") auto
  obtain us where rest: "run_reads (read_prefixed read) (read_vectored_prefixed readv) qs (b, x) = (us, ahead', r')"
    using Cons.prems one by (auto split: prod.splits)
  show ?case using run_read_prefixed [OF one] Cons.IH [OF rest] by (auto split: if_splits)
qed auto

section \<open>A concrete run\<close>

text \<open>
  A boxed claim sleeps, the driver hands over a transport with one byte read ahead, and the woken
  claim takes it.
\<close>

definition demo_upgraded :: "(bytes, unit) upgraded" where
  "demo_upgraded = upgraded_new (Bare 1 [8, 9]) (Bare 2 ()) [7] Tunnel"

definition upgrade_asleep :: "(bytes, unit) upgrade_sys" where
  "upgrade_asleep =
     \<lparr>uy_state = \<lparr>us_phase = CP_Claimed CT_Boxed True, us_result = None, us_waker = Some 5\<rparr>,
      uy_claims = [0 \<mapsto> \<lparr>ou_shared = True, ou_immediate = None, ou_types = (TI_Boxed, TI_Boxed)\<rparr>],
      uy_live = Some (0, TI_Boxed, TI_Boxed), uy_pending = True, uy_wait = Some 5,
      uy_handed = None, uy_delivered = [], uy_returned = [], uy_dropped = []\<rparr>"

definition upgrade_handed :: "(bytes, unit) upgrade_sys" where
  "upgrade_handed =
     upgrade_asleep\<lparr>uy_state := \<lparr>us_phase = CP_Closed, us_result = Some (Ok (upgraded_boxed demo_upgraded)), us_waker = None\<rparr>,
       uy_pending := False, uy_wait := None, uy_handed := Some demo_upgraded\<rparr>"

definition upgrade_taken :: "(bytes, unit) upgrade_sys" where
  "upgrade_taken =
     upgrade_handed\<lparr>uy_state := \<lparr>us_phase = CP_Closed, us_result = None, us_waker = None\<rparr>,
       uy_claims := [0 \<mapsto> \<lparr>ou_shared = False, ou_immediate = None, ou_types = (TI_Boxed, TI_Boxed)\<rparr>],
       uy_live := None, uy_delivered := [upgraded_boxed demo_upgraded]\<rparr>"

lemma upgrade_asleep_reachable: "upgrade_reachable upgrade_asleep"
proof -
  let ?c = "\<lparr>ou_shared = True, ou_immediate = None, ou_types = (TI_Boxed, TI_Boxed)\<rparr>"
  let ?s = "\<lparr>us_phase = CP_Claimed CT_Boxed True, us_result = None, us_waker = None\<rparr>"
  have "upgrade_step upgrade_init (made 0 ?c ?s upgrade_init)"
    by (rule upgrade_step.claim_boxed)
      (simp_all add: upgrade_init_def claim_boxed_def claim_slot_def upgrade_state_default_def)
  moreover have "upgrade_step (made 0 ?c ?s upgrade_init) upgrade_asleep"
    using upgrade_step.poll_claim [of "made 0 ?c ?s upgrade_init" 0 ?c 5 Pending ?c "?s\<lparr>us_waker := Some 5\<rparr>"]
    by (simp add: made_def upgrade_init_def upgrade_asleep_def on_upgrade_poll_def delivered_by_def is_pending_def)
  ultimately show ?thesis unfolding upgrade_reachable_def by (meson rtranclp.simps)
qed

lemma upgrade_handed_reachable: "upgrade_reachable upgrade_handed"
proof -
  have "upgrade_step upgrade_asleep upgrade_handed"
    using upgrade_step.fulfill [of upgrade_asleep demo_upgraded "Ok Tunnel" "uy_state upgrade_handed" "[5]" "uy_state upgrade_handed" "[]"]
    by (simp add: upgrade_asleep_def upgrade_handed_def upgrade_fulfill_def pending_upgrade_drop_def demo_upgraded_def
        upgraded_new_def wake_one_def unwait_def split: prod.splits)
  then show ?thesis
    using upgrade_asleep_reachable unfolding upgrade_reachable_def by (meson rtranclp.simps)
qed

lemma upgrade_taken_reachable: "upgrade_reachable upgrade_taken"
proof -
  have "upgrade_step upgrade_handed upgrade_taken"
    using upgrade_step.poll_claim [of upgrade_handed 0 "\<lparr>ou_shared = True, ou_immediate = None, ou_types = (TI_Boxed, TI_Boxed)\<rparr>" 6
        "Ready (Ok (upgraded_boxed demo_upgraded))" "\<lparr>ou_shared = False, ou_immediate = None, ou_types = (TI_Boxed, TI_Boxed)\<rparr>"
        "uy_state upgrade_taken"]
    by (simp add: upgrade_asleep_def upgrade_handed_def upgrade_taken_def on_upgrade_poll_def delivered_by_def is_pending_def)
  then show ?thesis
    using upgrade_handed_reachable unfolding upgrade_reachable_def by (meson rtranclp.simps)
qed

section \<open>Properties\<close>

text \<open>
  C9. Whatever the application and the driver do, in any order, the transport handed over after
  an upgrade is in exactly one place (the cell, the claim that took it, back with the driver, or
  dropped with its claim), as it was or boxed, with its kind and its read-ahead bytes; before
  that there is none anywhere.
\<close>

theorem upgrade_exactly_once:
  assumes "upgrade_reachable y"
  shows "case uy_handed y of
       None \<Rightarrow> transport_places y = []
     | Some u \<Rightarrow> (\<exists>v. transport_places y = [v] \<and> same_transport u v \<and> ug_read_ahead v = ug_read_ahead u \<and> ug_kind v = ug_kind u)"
  using upgrade_reachable_inv [OF assms]
  by (auto simp: upgrade_inv_def upgrade_places_def same_transport_def split: option.splits)

theorem upgrade_exactly_once_witness:
  "\<exists>v. transport_places upgrade_taken = [v] \<and> ug_read_ahead v = [7] \<and> uy_delivered upgrade_taken = [v]"
  using upgrade_exactly_once [OF upgrade_taken_reachable]
  by (simp add: upgrade_taken_def upgrade_handed_def upgrade_asleep_def transport_places_def held_def demo_upgraded_def upgraded_new_def)

text \<open>
  C25. At most one claim shares the cell. While it sleeps the driver can still answer it and holds
  its waker; once the driver's endpoint is gone the claim is awake and its next poll resolves,
  to an error or to a transport of exactly the types it asked for.
\<close>

theorem upgrade_claim_resolves:
  assumes "upgrade_reachable y" "uy_claims y i = Some c" "ou_shared c"
  shows "(\<forall>j d. uy_claims y j = Some d \<and> ou_shared d \<longrightarrow> j = i)
    \<and> (\<forall>w. uy_wait y = Some w \<longrightarrow> uy_pending y \<and> us_waker (uy_state y) = Some w)
    \<and> (\<not> uy_pending y \<longrightarrow>
         (\<exists>r. fst (on_upgrade_poll w c (uy_state y)) = Ready r \<and> (\<forall>u. r = Ok u \<longrightarrow> upgraded_types u = ou_types c)))"
proof -
  have ok: "upgrade_inv y" using assms(1) by (rule upgrade_reachable_inv)
  then have live: "uy_live y = Some (i, ou_types c)" "ou_immediate c = None"
    using assms(2,3) by (auto simp: upgrade_inv_def dest: claims_okD)
  have "fst (on_upgrade_poll w c (uy_state y)) = Ready r \<and> (\<forall>u. r = Ok u \<longrightarrow> upgraded_types u = ou_types c)"
    if "\<not> uy_pending y" "us_result (uy_state y) = Some r" for r
    using that ok live assms(3) poll_resolved [OF assms(3) live(2) that(2), of w]
    by (auto simp: upgrade_inv_def cell_ok_def split: claim_phase.splits result.splits)
  moreover have "us_result (uy_state y) \<noteq> None" if "\<not> uy_pending y"
    using that ok live by (auto simp: upgrade_inv_def cell_ok_def split: claim_phase.splits option.splits)
  ultimately show ?thesis using ok live
    by (auto simp: upgrade_inv_def upgrade_waits_def dest: claims_okD(1))
qed

theorem upgrade_claim_resolves_witness:
  "\<exists>r. fst (on_upgrade_poll 6 (the (uy_claims upgrade_handed 0)) (uy_state upgrade_handed)) = Ready r"
  using upgrade_claim_resolves [OF upgrade_handed_reachable, of 0 "the (uy_claims upgrade_handed 0)" 6]
  by (auto simp: upgrade_handed_def upgrade_asleep_def)

text \<open>
  C26. Whatever reads a program makes on an upgraded transport, scalar or vectored and of any
  sizes, it gets the bytes read ahead and then the transport's input, each once and in order,
  and the transport itself is not read before the bytes read ahead are used up.
\<close>

theorem upgraded_reads_in_order:
  assumes "read_laws read readv input"
    and "run_reads (read_prefixed read) (read_vectored_prefixed readv) qs (ahead, r) = (v, ahead', r')"
  shows "ahead @ input r = v @ ahead' @ input r' \<and> (r' = r \<or> ahead' = [])"
  using run_reads_conserves [OF prefixed_laws [OF assms(1)] assms(2)] run_reads_prefixed [OF assms(2)]
  by (auto split: if_splits)

text \<open>A reader on its remaining input, with both kinds of read.\<close>

definition list_read :: "bytes read_op" where
  "list_read room r = (Ok (length (take room r)), take room r, drop room r)"

definition list_readv :: "bytes readv_op" where
  "list_readv rooms r = (case fill_slices r 0 rooms of (n, vs) \<Rightarrow> (Ok n, vs, drop n r))"

lemma list_read_laws: "read_laws list_read list_readv (\<lambda>r. r)"
  unfolding read_laws_def
proof (intro conjI allI)
  fix rooms r
  obtain n vs where "fill_slices r 0 rooms = (n, vs)" by (cases "fill_slices r 0 rooms")
  then show "reads_from (\<lambda>r. r) (sum_list rooms) r (flat_read (list_readv rooms r))" "fits (fst (snd (list_readv rooms r))) rooms"
    using fill_slices_spec [of 0 r rooms n vs] by (auto simp: list_readv_def flat_read_def reads_from_def)
qed (simp add: reads_from_def list_read_def)

theorem upgraded_reads_in_order_witness:
  "run_reads (read_prefixed list_read) (read_vectored_prefixed list_readv) [RQ_Read 1, RQ_Vectored [1, 4], RQ_Read 2] ([1, 2, 3], [4, 5, 6])
     = ([1, 2, 3, 4, 5], [], [6])
   \<and> [1, 2, 3] @ [4, 5, 6] = [1, 2, 3, 4, 5] @ [] @ [6 :: 8 word]"
proof -
  have run: "run_reads (read_prefixed list_read) (read_vectored_prefixed list_readv) [RQ_Read 1, RQ_Vectored [1, 4], RQ_Read 2]
      ([1, 2, 3], [4, 5, 6]) = ([1, 2, 3, 4, 5], [], [6])"
    by code_simp
  with upgraded_reads_in_order [OF list_read_laws run] show ?thesis by blast
qed

text \<open>
  Boxing a transport loses nothing: asking the boxed one for the types it was made from gives
  the original back, and asking for any other types gives the boxed one back unchanged.
\<close>

theorem boxed_downcast_roundtrip:
  "upgraded_downcast tr tw (upgraded_boxed u) =
     Some (if upgraded_types u = (tr, tw) then Ok u else Err (upgraded_boxed u))"
  by (auto simp: upgraded_downcast_def upgraded_boxed_def upgraded_into_parts_def upgraded_types_def)

end
