(* ===== verification/Response_Control.thy ===== *)
theory Response_Control
  imports Upgrade Loops
begin

text \<open>
  What a client keeps of an accepted request: the settlement receipt of
  \<open>src/src/client/completion.rs\<close>, and the upload control, the Continue permission and the response
  observation of \<open>src/src/client/response.rs\<close>.

  The control cell is shared by the driver, the receipt, the upload-control handles and the pending
  response; every operation and every drop is a function on it, and \<open>control_step\<close> takes them in
  any order. The invariant shows that the receipt resolves with the one published result, that
  neither a receipt nor a wait for Continue sleeps when it could proceed, and how abort and
  cancellation are related. The observation of responses polls the rendezvous of \<open>Pipe\<close>.
\<close>

section \<open>Settled exchanges\<close>

datatype close_reason = CR_MessagePolicy | CR_ApplicationClosure | CR_BodyAbandonment | CR_UploadAbort | CR_Shutdown

datatype settlement = ST_Reusable | ST_Closed close_reason | ST_Upgraded upgrade_kind

record completion_state =
  cs_taken :: bool
  cs_abandoned :: bool
  cs_result :: "(settlement, error) result option"
  cs_waker :: "waker option"

definition completion_default :: completion_state where
  "completion_default = \<lparr>cs_taken = False, cs_abandoned = False, cs_result = None, cs_waker = None\<rparr>"

text \<open>A receipt is its \<open>finished\<close> flag.\<close>

definition completion_take :: "completion_state \<Rightarrow> bool option \<times> completion_state" where
  "completion_take s = (if cs_taken s then (None, s) else (Some False, s\<lparr>cs_taken := True\<rparr>))"

definition completion_poll ::
  "waker \<Rightarrow> bool \<Rightarrow> completion_state \<Rightarrow> (settlement, error) result poll \<times> bool \<times> completion_state" where
  "completion_poll w finished s =
     (if finished then (Unreachable, finished, s)
      else
        (case cs_result s of
           Some r \<Rightarrow> (Ready r, True, s\<lparr>cs_result := None, cs_waker := None\<rparr>)
         | None \<Rightarrow> (Pending, finished, s\<lparr>cs_waker := Some w\<rparr>)))"

definition completion_drop :: "completion_state \<Rightarrow> completion_state" where
  "completion_drop s = s\<lparr>cs_abandoned := True, cs_result := None, cs_waker := None\<rparr>"

definition completion_publish :: "(settlement, error) result \<Rightarrow> completion_state \<Rightarrow> completion_state \<times> waker list" where
  "completion_publish r s =
     (s\<lparr>cs_result := (if cs_abandoned s then cs_result s else Some r), cs_waker := None\<rparr>, wake_one (cs_waker s))"

text \<open>A guard is whether it still holds the control; \<open>finish\<close> consumes it and then drops it empty.\<close>

definition driver_lost :: error where
  "driver_lost = with_detail (error_new KClosed ''exchange driver dropped'') DriverLost"

definition guard_drop :: "bool \<Rightarrow> completion_state \<Rightarrow> completion_state \<times> waker list" where
  "guard_drop armed s = (if armed then completion_publish (Err driver_lost) s else (s, []))"

definition guard_finish :: "(settlement, error) result \<Rightarrow> completion_state \<Rightarrow> completion_state \<times> waker list" where
  "guard_finish r s =
     (case completion_publish r s of (s', ws) \<Rightarrow> (case guard_drop False s' of (s'', ws') \<Rightarrow> (s'', ws @ ws')))"

section \<open>The control of an exchange\<close>

text \<open>A cancellation source is whether it was cancelled. The upgrade cell of the control is the one of \<open>Upgrade\<close>.\<close>

record control =
  ct_upload :: bool
  ct_exchange :: bool
  ct_upload_complete :: bool
  ct_aborted :: bool
  ct_continue_allowed :: bool
  ct_continue_waker :: "waker option"
  ct_completion :: completion_state

definition control_fresh :: control where
  "control_fresh =
     \<lparr>ct_upload = False, ct_exchange = False, ct_upload_complete = False, ct_aborted = False,
      ct_continue_allowed = False, ct_continue_waker = None, ct_completion = completion_default\<rparr>"

definition allow_continue :: "control \<Rightarrow> control \<times> waker list" where
  "allow_continue k =
     (k\<lparr>ct_continue_allowed := True, ct_continue_waker := None\<rparr>, wake_one (ct_continue_waker k))"

definition wait_continue_poll :: "waker \<Rightarrow> control \<Rightarrow> unit poll \<times> control" where
  "wait_continue_poll w k =
     (if ct_continue_allowed k then (Ready (), k) else (Pending, k\<lparr>ct_continue_waker := Some w\<rparr>))"

definition wait_continue_drop :: "control \<Rightarrow> control" where
  "wait_continue_drop k = k\<lparr>ct_continue_waker := None\<rparr>"

definition control_cancel :: "control \<Rightarrow> control" where
  "control_cancel k = k\<lparr>ct_upload := True, ct_exchange := True\<rparr>"

definition upload_abort :: "control \<Rightarrow> control" where
  "upload_abort k = (if ct_upload_complete k then k else k\<lparr>ct_upload := True, ct_aborted := True\<rparr>)"

section \<open>Observing the response\<close>

datatype ('i, 'f) response_event = EV_Informational 'i | EV_Final 'f

record pending_response =
  pr_delivered :: bool
  pr_finished :: bool

definition pending_fresh :: pending_response where
  "pending_fresh = \<lparr>pr_delivered = False, pr_finished = False\<rparr>"

type_synonym ('i, 'f) response_pipe = "(('i, 'f) response_event, error, unit) pipe"

text \<open>
  \<open>next_event\<close> is one poll of its future, over the poll of the \<open>Take\<close> it awaits; the \<open>Take\<close> is
  dropped when it has answered.
\<close>

definition next_event ::
  "waker \<Rightarrow> pending_response \<Rightarrow> endpoint_lifecycle \<Rightarrow> ('i, 'f) response_pipe
     \<Rightarrow> (('i, 'f) response_event option, error) result poll \<times> pending_response \<times> endpoint_lifecycle \<times> ('i, 'f) response_pipe \<times> waker list" where
  "next_event w p life s =
     (if pr_finished p then (Ready (Ok None), p, life, s, [])
      else
        (case take_poll w life s of (r, life', s', ws) \<Rightarrow>
           (case r of
              Pending \<Rightarrow> (Pending, p, life', s', ws)
            | Unreachable \<Rightarrow> (Unreachable, p, life', s', ws)
            | Ready answer \<Rightarrow>
                (case answer of
                   Ok (Some event) \<Rightarrow>
                     (Ready (Ok (Some event)),
                      (case event of EV_Final _ \<Rightarrow> p\<lparr>pr_delivered := True, pr_finished := True\<rparr> | _ \<Rightarrow> p),
                      life', take_drop s', ws)
                 | Err (TE_Failed e) \<Rightarrow> (Ready (Err e), p\<lparr>pr_finished := True\<rparr>, life', take_drop s', ws)
                 | _ \<Rightarrow>
                     (Ready (Err (with_detail (error_new KClosed ''response driver closed'') DriverLost)),
                      p\<lparr>pr_finished := True\<rparr>, life', take_drop s', ws)))))"

record ('i, 'f) observing =
  ob_pending :: pending_response
  ob_life :: endpoint_lifecycle
  ob_pipe :: "('i, 'f) response_pipe"
  ob_wakes :: "waker list"

text \<open>One round of the loop of \<open>response\<close>, and one poll of its future.\<close>

definition response_round ::
  "waker \<Rightarrow> ('i, 'f) observing
     \<Rightarrow> (('i, 'f) observing + ('f, error) result poll \<times> ('i, 'f) observing) option" where
  "response_round w o1 =
     (case next_event w (ob_pending o1) (ob_life o1) (ob_pipe o1) of (r, p, life, s, ws) \<Rightarrow>
        let o2 = \<lparr>ob_pending = p, ob_life = life, ob_pipe = s, ob_wakes = ob_wakes o1 @ ws\<rparr> in
        Some (case r of
            Pending \<Rightarrow> Inr (Pending, o2)
          | Unreachable \<Rightarrow> Inr (Unreachable, o2)
          | Ready (Err e) \<Rightarrow> Inr (Ready (Err e), o2)
          | Ready (Ok None) \<Rightarrow> Inr (Ready (Err (error_new KClosed ''final response already consumed'')), o2)
          | Ready (Ok (Some (EV_Final f))) \<Rightarrow> Inr (Ready (Ok f), o2)
          | Ready (Ok (Some (EV_Informational i))) \<Rightarrow> Inl o2))"

definition response_poll ::
  "waker \<Rightarrow> ('i, 'f) observing \<Rightarrow> (('f, error) result poll \<times> ('i, 'f) observing) option" where
  "response_poll w o1 = iterate (response_round w) o1"

definition pending_response_drop :: "pending_response \<Rightarrow> control \<Rightarrow> control" where
  "pending_response_drop p k = (if pr_delivered p then k else control_cancel k)"

section \<open>Interleavings\<close>

text \<open>
  \<open>cy_guard\<close> is whether the driver's guard is armed; the receipt and the wait for Continue are
  there or not, with their \<open>finished\<close> flags. Ghosts record what was published, what the receipt
  returned, and the wakers of futures that answered \<open>Pending\<close> and have not been woken since.
\<close>

record control_sys =
  cy_control :: control
  cy_guard :: bool
  cy_receipt :: "bool option"
  cy_waiter :: "bool option"
  cy_pending :: pending_response
  cy_pending_alive :: bool
  cy_published :: "(settlement, error) result option"
  cy_received :: "(settlement, error) result list"
  cy_receipt_wait :: "waker option"
  cy_waiter_wait :: "waker option"

definition control_init :: control_sys where
  "control_init =
     \<lparr>cy_control = control_fresh, cy_guard = True, cy_receipt = None, cy_waiter = None, cy_pending = pending_fresh,
      cy_pending_alive = True, cy_published = None, cy_received = [], cy_receipt_wait = None, cy_waiter_wait = None\<rparr>"

definition wake_control :: "waker list \<Rightarrow> control_sys \<Rightarrow> control_sys" where
  "wake_control ws y =
     y\<lparr>cy_receipt_wait := unwait ws (cy_receipt_wait y), cy_waiter_wait := unwait ws (cy_waiter_wait y)\<rparr>"

definition put_completion :: "completion_state \<Rightarrow> control_sys \<Rightarrow> control_sys" where
  "put_completion s y = y\<lparr>cy_control := (cy_control y)\<lparr>ct_completion := s\<rparr>\<rparr>"

definition received_by :: "(settlement, error) result poll \<Rightarrow> (settlement, error) result list" where
  "received_by r = (case r of Ready x \<Rightarrow> [x] | _ \<Rightarrow> [])"

inductive control_step :: "control_sys \<Rightarrow> control_sys \<Rightarrow> bool" where
  finish: "cy_guard y \<Longrightarrow> guard_finish r (ct_completion (cy_control y)) = (s, ws) \<Longrightarrow>
    control_step y ((put_completion s (wake_control ws y))\<lparr>cy_guard := False, cy_published := Some r\<rparr>)"
| lose: "cy_guard y \<Longrightarrow> guard_drop True (ct_completion (cy_control y)) = (s, ws) \<Longrightarrow>
    control_step y ((put_completion s (wake_control ws y))\<lparr>cy_guard := False, cy_published := Some (Err driver_lost)\<rparr>)"
| take_receipt: "cy_pending_alive y \<Longrightarrow> completion_take (ct_completion (cy_control y)) = (Some b, s) \<Longrightarrow>
    control_step y ((put_completion s y)\<lparr>cy_receipt := Some b\<rparr>)"
| poll_receipt: "cy_receipt y = Some False \<Longrightarrow> completion_poll w False (ct_completion (cy_control y)) = (r, b, s) \<Longrightarrow>
    control_step y ((put_completion s y)\<lparr>cy_receipt := Some b, cy_received := cy_received y @ received_by r,
      cy_receipt_wait := (if is_pending r then Some w else None)\<rparr>)"
| drop_receipt: "cy_receipt y = Some b \<Longrightarrow>
    control_step y ((put_completion (completion_drop (ct_completion (cy_control y))) y)\<lparr>cy_receipt := None, cy_receipt_wait := None\<rparr>)"
| allow: "allow_continue (cy_control y) = (k, ws) \<Longrightarrow> control_step y ((wake_control ws y)\<lparr>cy_control := k\<rparr>)"
| start_wait: "cy_waiter y = None \<Longrightarrow> control_step y (y\<lparr>cy_waiter := Some False\<rparr>)"
| poll_wait: "cy_waiter y = Some False \<Longrightarrow> wait_continue_poll w (cy_control y) = (r, k) \<Longrightarrow>
    control_step y (y\<lparr>cy_control := k, cy_waiter := Some (\<not> is_pending r),
      cy_waiter_wait := (if is_pending r then Some w else None)\<rparr>)"
| drop_wait: "cy_waiter y = Some b \<Longrightarrow>
    control_step y (y\<lparr>cy_control := wait_continue_drop (cy_control y), cy_waiter := None, cy_waiter_wait := None\<rparr>)"
| cancel: "control_step y (y\<lparr>cy_control := control_cancel (cy_control y)\<rparr>)"
| abort: "control_step y (y\<lparr>cy_control := upload_abort (cy_control y)\<rparr>)"
| upload_done: "control_step y (y\<lparr>cy_control := (cy_control y)\<lparr>ct_upload_complete := True\<rparr>\<rparr>)"
| deliver: "cy_pending_alive y \<Longrightarrow> control_step y (y\<lparr>cy_pending := \<lparr>pr_delivered = True, pr_finished = True\<rparr>\<rparr>)"
| drop_pending_response: "cy_pending_alive y \<Longrightarrow>
    control_step y (y\<lparr>cy_control := pending_response_drop (cy_pending y) (cy_control y), cy_pending_alive := False\<rparr>)"

definition control_reachable :: "control_sys \<Rightarrow> bool" where
  "control_reachable y \<longleftrightarrow> control_step\<^sup>*\<^sup>* control_init y"

section \<open>The invariant\<close>

text \<open>What the cell, the receipt and what it returned say about the published result.\<close>

definition receipt_ok :: "completion_state \<Rightarrow> bool option \<Rightarrow> (settlement, error) result option \<Rightarrow> (settlement, error) result list \<Rightarrow> bool" where
  "receipt_ok s receipt published received \<longleftrightarrow>
     (cs_abandoned s \<longleftrightarrow> cs_taken s \<and> receipt = None)
   \<and> (receipt \<noteq> None \<longrightarrow> cs_taken s)
   \<and> (case receipt of
        None \<Rightarrow>
          (if cs_taken s then cs_result s = None \<and> (received = [] \<or> (\<exists>r. published = Some r \<and> received = [r]))
           else cs_result s = published \<and> received = [])
      | Some False \<Rightarrow> cs_result s = published \<and> received = []
      | Some True \<Rightarrow> cs_result s = None \<and> (\<exists>r. published = Some r \<and> received = [r]))"

definition control_inv :: "control_sys \<Rightarrow> bool" where
  "control_inv y \<longleftrightarrow>
     receipt_ok (ct_completion (cy_control y)) (cy_receipt y) (cy_published y) (cy_received y)
   \<and> (cy_guard y \<longleftrightarrow> cy_published y = None)
   \<and> (\<forall>w. cy_receipt_wait y = Some w \<longrightarrow>
        cy_receipt y = Some False \<and> cy_guard y \<and> cs_waker (ct_completion (cy_control y)) = Some w)
   \<and> (\<forall>w. cy_waiter_wait y = Some w \<longrightarrow>
        cy_waiter y = Some False \<and> \<not> ct_continue_allowed (cy_control y) \<and> ct_continue_waker (cy_control y) = Some w)
   \<and> (ct_aborted (cy_control y) \<or> ct_exchange (cy_control y) \<longrightarrow> ct_upload (cy_control y))
   \<and> (\<not> cy_pending_alive y \<and> \<not> pr_delivered (cy_pending y) \<longrightarrow> ct_exchange (cy_control y))"

lemmas control_op_defs =
  guard_finish_def guard_drop_def completion_publish_def completion_take_def completion_poll_def completion_drop_def
  allow_continue_def wait_continue_poll_def wait_continue_drop_def control_cancel_def upload_abort_def
  pending_response_drop_def put_completion_def wake_control_def

lemma control_inv_init: "control_inv control_init"
  by (simp add: control_inv_def receipt_ok_def control_init_def control_fresh_def completion_default_def pending_fresh_def)

lemma receipt_publish:
  "receipt_ok s receipt None received \<Longrightarrow>
     receipt_ok (s\<lparr>cs_result := (if cs_abandoned s then cs_result s else Some r), cs_waker := x\<rparr>) receipt (Some r) received"
  by (cases receipt) (auto simp: receipt_ok_def split: if_splits bool.splits)

lemma receipt_take:
  "receipt_ok s receipt p received \<Longrightarrow> \<not> cs_taken s \<Longrightarrow> receipt_ok (s\<lparr>cs_taken := True\<rparr>) (Some False) p received"
  by (cases receipt) (auto simp: receipt_ok_def)

lemma receipt_waiting: "receipt_ok s receipt p received \<Longrightarrow> receipt_ok (s\<lparr>cs_waker := x\<rparr>) receipt p received"
  by (auto simp: receipt_ok_def split: option.splits bool.splits)

lemma receipt_return:
  "receipt_ok s (Some False) p received \<Longrightarrow> cs_result s = Some r \<Longrightarrow>
     receipt_ok (s\<lparr>cs_result := None, cs_waker := x\<rparr>) (Some True) p (received @ [r])"
  by (auto simp: receipt_ok_def)

lemma receipt_abandon:
  "receipt_ok s (Some b) p received \<Longrightarrow> receipt_ok (completion_drop s) None p received"
  by (cases b) (auto simp: receipt_ok_def completion_drop_def)

lemma receipt_pending:
  "receipt_ok s (Some False) p received \<Longrightarrow> cs_result s = p"
  by (simp add: receipt_ok_def)

lemma control_step_inv: "control_step y z \<Longrightarrow> control_inv y \<Longrightarrow> control_inv z"
proof (induction rule: control_step.induct)
  case (finish y r s ws)
  then show ?case by (auto simp: control_inv_def control_op_defs intro: receipt_publish)
next
  case (lose y s ws)
  then show ?case by (auto simp: control_inv_def control_op_defs intro: receipt_publish)
next
  case (take_receipt y b s)
  then have "\<not> cs_taken (ct_completion (cy_control y))" "b = False" "s = (ct_completion (cy_control y))\<lparr>cs_taken := True\<rparr>"
    by (auto simp: completion_take_def split: if_splits)
  then show ?case using take_receipt by (auto simp: control_inv_def put_completion_def intro: receipt_take)
next
  case (poll_receipt y w r b s)
  have ok: "receipt_ok (ct_completion (cy_control y)) (Some False) (cy_published y) (cy_received y)"
    using poll_receipt by (simp add: control_inv_def)
  show ?case
  proof (cases "cs_result (ct_completion (cy_control y))")
    case None
    then show ?thesis using poll_receipt receipt_waiting [OF ok] receipt_pending [OF ok]
      by (auto simp: control_inv_def control_op_defs received_by_def is_pending_def)
  next
    case (Some a)
    then show ?thesis using poll_receipt receipt_return [OF ok Some]
      by (auto simp: control_inv_def control_op_defs received_by_def is_pending_def)
  qed
next
  case (drop_receipt y b)
  then show ?case by (auto simp: control_inv_def put_completion_def receipt_abandon)
qed (auto simp: control_inv_def control_op_defs is_pending_def split: if_splits)

interpretation response_control: step_invariant control_step control_inv
  by unfold_locales (rule control_step_inv)

lemma control_reachable_inv: "control_reachable y \<Longrightarrow> control_inv y"
  unfolding control_reachable_def by (rule response_control.keeps_star [OF _ control_inv_init])

section \<open>A concrete run\<close>

text \<open>The receipt is taken and sleeps; the upload waits for Continue; the driver then settles.\<close>

definition control_asleep :: control_sys where
  "control_asleep =
     \<lparr>cy_control = control_fresh\<lparr>ct_continue_waker := Some 4,
        ct_completion := \<lparr>cs_taken = True, cs_abandoned = False, cs_result = None, cs_waker = Some 3\<rparr>\<rparr>,
      cy_guard = True, cy_receipt = Some False, cy_waiter = Some False, cy_pending = pending_fresh,
      cy_pending_alive = True, cy_published = None, cy_received = [], cy_receipt_wait = Some 3, cy_waiter_wait = Some 4\<rparr>"

definition control_settled :: control_sys where
  "control_settled =
     control_asleep\<lparr>cy_control := (cy_control control_asleep)\<lparr>
        ct_completion := \<lparr>cs_taken = True, cs_abandoned = False, cs_result = Some (Ok ST_Reusable), cs_waker = None\<rparr>\<rparr>,
      cy_guard := False, cy_published := Some (Ok ST_Reusable), cy_receipt_wait := None\<rparr>"

lemma control_asleep_reachable: "control_reachable control_asleep"
proof -
  let ?taken = "\<lparr>cs_taken = True, cs_abandoned = False, cs_result = None, cs_waker = None\<rparr>"
  let ?a = "(put_completion ?taken control_init)\<lparr>cy_receipt := Some False\<rparr>"
  let ?b = "(put_completion (?taken\<lparr>cs_waker := Some 3\<rparr>) ?a)\<lparr>cy_receipt_wait := Some 3\<rparr>"
  have s1: "control_step control_init ?a"
    by (rule control_step.take_receipt) (simp_all add: control_init_def control_fresh_def completion_default_def completion_take_def)
  have s2: "control_step ?a ?b"
    using control_step.poll_receipt [of ?a 3 Pending False "?taken\<lparr>cs_waker := Some 3\<rparr>"]
    by (simp add: put_completion_def completion_poll_def received_by_def is_pending_def control_init_def)
  have s3: "control_step ?b (?b\<lparr>cy_waiter := Some False\<rparr>)"
    by (rule control_step.start_wait) (simp add: put_completion_def control_init_def)
  have s4: "control_step (?b\<lparr>cy_waiter := Some False\<rparr>) control_asleep"
    using control_step.poll_wait [of "?b\<lparr>cy_waiter := Some False\<rparr>" 4 Pending "(cy_control ?b)\<lparr>ct_continue_waker := Some 4\<rparr>"]
    by (simp add: put_completion_def wait_continue_poll_def is_pending_def control_init_def control_fresh_def control_asleep_def)
  show ?thesis unfolding control_reachable_def
    by (rule converse_rtranclp_into_rtranclp, rule s1, rule converse_rtranclp_into_rtranclp, rule s2,
        rule converse_rtranclp_into_rtranclp, rule s3, rule converse_rtranclp_into_rtranclp, rule s4,
        rule rtranclp.rtrancl_refl)
qed

lemma control_settled_reachable: "control_reachable control_settled"
proof -
  have "control_step control_asleep control_settled"
    using control_step.finish [of control_asleep "Ok ST_Reusable" "ct_completion (cy_control control_settled)" "[3]"]
    by (simp add: control_asleep_def control_settled_def guard_finish_def guard_drop_def completion_publish_def
        put_completion_def wake_control_def wake_one_def unwait_def control_fresh_def)
  then show ?thesis using control_asleep_reachable unfolding control_reachable_def by (meson rtranclp.simps)
qed

section \<open>Properties\<close>

text \<open>
  C15. However the driver, the receipt and the other handles of an exchange interleave, a receipt
  returns at most once and only what the driver published, the loss of the driver included; a
  receipt that sleeps is one the driver can still wake; and once the driver is done or gone the
  next poll of an unfinished receipt, taken early or late, returns the published result.
\<close>

theorem receipt_exactly_once:
  assumes "control_reachable y"
  shows "(cy_received y = [] \<or> (\<exists>r. cy_published y = Some r \<and> cy_received y = [r]))
    \<and> (\<forall>w. cy_receipt_wait y = Some w \<longrightarrow> cy_guard y \<and> cs_waker (ct_completion (cy_control y)) = Some w)
    \<and> (cy_receipt y = Some False \<and> \<not> cy_guard y \<longrightarrow>
         (\<exists>r. cy_published y = Some r \<and> fst (completion_poll w False (ct_completion (cy_control y))) = Ready r))"
proof -
  have ok: "control_inv y" using assms by (rule control_reachable_inv)
  then have "cy_received y = [] \<or> (\<exists>r. cy_published y = Some r \<and> cy_received y = [r])"
    by (auto simp: control_inv_def receipt_ok_def split: option.splits if_splits bool.splits)
  moreover have "\<exists>r. cy_published y = Some r \<and> fst (completion_poll w False (ct_completion (cy_control y))) = Ready r"
    if "cy_receipt y = Some False" "\<not> cy_guard y"
    using that ok by (auto simp: control_inv_def completion_poll_def dest: receipt_pending)
  ultimately show ?thesis using ok by (auto simp: control_inv_def)
qed

theorem receipt_exactly_once_witness:
  "\<exists>r. cy_published control_settled = Some r
     \<and> fst (completion_poll 8 False (ct_completion (cy_control control_settled))) = Ready r"
  using receipt_exactly_once [OF control_settled_reachable, of 8]
  by (simp add: control_settled_def control_asleep_def)

text \<open>
  In every interleaving a wait for Continue sleeps only while Continue is not allowed and with
  its waker registered; an aborted upload or a cancelled exchange has its upload cancelled; and a
  pending response dropped before its final head has cancelled the exchange.
\<close>

theorem exchange_control_safe:
  assumes "control_reachable y"
  shows "(\<forall>w. cy_waiter_wait y = Some w \<longrightarrow>
           \<not> ct_continue_allowed (cy_control y) \<and> ct_continue_waker (cy_control y) = Some w)
    \<and> (ct_aborted (cy_control y) \<or> ct_exchange (cy_control y) \<longrightarrow> ct_upload (cy_control y))
    \<and> (\<not> cy_pending_alive y \<and> \<not> pr_delivered (cy_pending y) \<longrightarrow> ct_exchange (cy_control y))"
  using control_reachable_inv [OF assms] unfolding control_inv_def by blast

theorem exchange_control_safe_witness:
  "\<not> ct_continue_allowed (cy_control control_asleep) \<and> ct_continue_waker (cy_control control_asleep) = Some 4"
  using exchange_control_safe [OF control_asleep_reachable] by (simp add: control_asleep_def)

section \<open>The first final response\<close>

text \<open>
  A driver that offers the events of an exchange one by one, with the application polling
  \<open>response\<close> after each. An offer is polled until the event was taken; \<open>None\<close> is an offer that was
  not taken.
\<close>

fun observe_events ::
  "waker \<Rightarrow> waker \<Rightarrow> ('i, 'f) response_event list \<Rightarrow> ('i, 'f) observing
     \<Rightarrow> (('f, error) result poll \<times> ('i, 'f) observing \<times> ('i, 'f) response_event list) option" where
  "observe_events wd wa [] x = Some (Pending, x, [])"
| "observe_events wd wa (e # es) x =
     (case offer_poll wd (OL_Pending e) (ob_pipe x) of (_, s, _) \<Rightarrow>
        Option.bind (response_poll wa (x\<lparr>ob_pipe := s\<rparr>)) (\<lambda>(r, x').
          (case offer_poll wd OL_Submitted (ob_pipe x') of (answer, s', _) \<Rightarrow>
             if answer \<noteq> Ready (Ok ()) then None
             else
               (case r of
                  Pending \<Rightarrow> observe_events wd wa es (x'\<lparr>ob_pipe := fst (snd (offer_drop OL_Submitted s'))\<rparr>)
                | _ \<Rightarrow> Some (r, x', es)))))"

definition observing_fresh :: "('i, 'f) observing" where
  "observing_fresh =
     \<lparr>ob_pending = pending_fresh, ob_life = EL_Active, ob_pipe = channel_with_policy (), ob_wakes = []\<rparr>"

text \<open>Between two events the pipe is idle or asks, and the observation is open.\<close>

definition between :: "('i, 'f) observing \<Rightarrow> bool" where
  "between x \<longleftrightarrow> pp_state (ob_pipe x) \<in> {PS_Idle, PS_Demanded} \<and> ob_pending x = pending_fresh \<and> ob_life x = EL_Active"

lemma next_event_offered:
  "pp_state s = PS_Offered e \<Longrightarrow> \<exists>s' ws. next_event w pending_fresh life s =
     (Ready (Ok (Some e)), (case e of EV_Final _ \<Rightarrow> \<lparr>pr_delivered = True, pr_finished = True\<rparr> | _ \<Rightarrow> pending_fresh), life, s', ws)
     \<and> pp_state s' = PS_Idle"
  by (auto simp: next_event_def pending_fresh_def take_poll_def take_drop_def split: response_event.splits)

lemma next_event_idle:
  "pp_state s = PS_Idle \<Longrightarrow> \<exists>s' ws. next_event w pending_fresh life s = (Pending, pending_fresh, life, s', ws) \<and> pp_state s' = PS_Demanded"
  by (auto simp: next_event_def pending_fresh_def take_poll_def)

lemma response_poll_final:
  assumes "ob_pending x = pending_fresh" "pp_state (ob_pipe x) = PS_Offered (EV_Final f)"
  shows "\<exists>x'. response_poll w x = Some (Ready (Ok f), x') \<and> pp_state (ob_pipe x') = PS_Idle \<and> pr_delivered (ob_pending x')"
proof -
  obtain s' ws where "next_event w pending_fresh (ob_life x) (ob_pipe x) =
      (Ready (Ok (Some (EV_Final f))), \<lparr>pr_delivered = True, pr_finished = True\<rparr>, ob_life x, s', ws)" "pp_state s' = PS_Idle"
    using next_event_offered [OF assms(2), of w "ob_life x"] by auto
  then show ?thesis using assms(1)
    by (auto simp: response_poll_def response_round_def Let_def iterate.simps [of "response_round w" x])
qed

lemma response_poll_informational:
  assumes "ob_pending x = pending_fresh" "pp_state (ob_pipe x) = PS_Offered (EV_Informational i)"
  shows "\<exists>x'. response_poll w x = Some (Pending, x') \<and> pp_state (ob_pipe x') = PS_Demanded
    \<and> ob_pending x' = pending_fresh \<and> ob_life x' = ob_life x"
proof -
  obtain s' ws where one: "next_event w pending_fresh (ob_life x) (ob_pipe x) =
      (Ready (Ok (Some (EV_Informational i))), pending_fresh, ob_life x, s', ws)" "pp_state s' = PS_Idle"
    using next_event_offered [OF assms(2), of w "ob_life x"] by auto
  obtain s'' ws' where two: "next_event w pending_fresh (ob_life x) s' = (Pending, pending_fresh, ob_life x, s'', ws')"
      "pp_state s'' = PS_Demanded"
    using next_event_idle [OF one(2), of w "ob_life x"] by auto
  let ?y = "\<lparr>ob_pending = pending_fresh, ob_life = ob_life x, ob_pipe = s', ob_wakes = ob_wakes x @ ws\<rparr>"
  have "response_round w x = Some (Inl ?y)" using one assms(1) by (simp add: response_round_def)
  moreover have "response_round w ?y =
      Some (Inr (Pending, \<lparr>ob_pending = pending_fresh, ob_life = ob_life x, ob_pipe = s'', ob_wakes = ob_wakes x @ ws @ ws'\<rparr>))"
    using two by (simp add: response_round_def)
  ultimately show ?thesis using two(2) by (simp add: response_poll_def)
qed

lemma offer_between:
  "between x \<Longrightarrow> \<exists>s ws. offer_poll wd (OL_Pending e) (ob_pipe x) = (Pending, s, ws) \<and> pp_state s = PS_Offered e"
  by (auto simp: between_def offer_poll_def)

lemma observe_informational:
  assumes "between x"
  shows "\<exists>x'. observe_events wd wa (EV_Informational i # es) x = observe_events wd wa es x' \<and> between x'"
proof -
  obtain s ws where offered: "offer_poll wd (OL_Pending (EV_Informational i)) (ob_pipe x) = (Pending, s, ws)"
      "pp_state s = PS_Offered (EV_Informational i)"
    using offer_between [OF assms] by blast
  obtain x' where polled: "response_poll wa (x\<lparr>ob_pipe := s\<rparr>) = Some (Pending, x')" "pp_state (ob_pipe x') = PS_Demanded"
      "ob_pending x' = pending_fresh" "ob_life x' = ob_life x"
    using response_poll_informational [of "x\<lparr>ob_pipe := s\<rparr>" i wa] offered(2) assms by (auto simp: between_def)
  have "offer_poll wd OL_Submitted (ob_pipe x') = (Ready (Ok ()), ob_pipe x', [])"
    using polled(2) by (simp add: offer_poll_def)
  moreover have "between (x'\<lparr>ob_pipe := fst (snd (offer_drop OL_Submitted (ob_pipe x')))\<rparr>)"
    using polled assms by (auto simp: between_def offer_drop_def)
  ultimately show ?thesis using offered(1) polled(1) by auto
qed

lemma observe_final:
  assumes "between x"
  shows "\<exists>x'. observe_events wd wa (EV_Final f # es) x = Some (Ready (Ok f), x', es) \<and> pr_delivered (ob_pending x')"
proof -
  obtain s ws where offered: "offer_poll wd (OL_Pending (EV_Final f)) (ob_pipe x) = (Pending, s, ws)"
      "pp_state s = PS_Offered (EV_Final f)"
    using offer_between [OF assms] by blast
  obtain x' where polled: "response_poll wa (x\<lparr>ob_pipe := s\<rparr>) = Some (Ready (Ok f), x')" "pp_state (ob_pipe x') = PS_Idle"
      "pr_delivered (ob_pending x')"
    using response_poll_final [of "x\<lparr>ob_pipe := s\<rparr>" f wa] offered(2) assms by (auto simp: between_def)
  then show ?thesis using offered(1) by (simp add: offer_poll_def)
qed

lemma observe_run:
  "between x \<Longrightarrow> \<exists>x'. observe_events wd wa (map EV_Informational is @ EV_Final f # es) x = Some (Ready (Ok f), x', es)
     \<and> pr_delivered (ob_pending x')"
proof (induction "is" arbitrary: x)
  case Nil
  then show ?case using observe_final by fastforce
next
  case (Cons i js)
  obtain x' where "observe_events wd wa (EV_Informational i # map EV_Informational js @ EV_Final f # es) x =
      observe_events wd wa (map EV_Informational js @ EV_Final f # es) x'" "between x'"
    using observe_informational [OF Cons.prems] by blast
  with Cons.IH show ?case by simp
qed

text \<open>
  An application that waits for the response of an accepted request gets the first final
  response, whatever informational heads the driver offered before it: each is taken and
  discarded, every poll returns, and afterwards dropping the observation cancels nothing.
\<close>

theorem response_is_first_final:
  "\<exists>x'. observe_events wd wa (map EV_Informational is @ EV_Final f # es) observing_fresh = Some (Ready (Ok f), x', es)
     \<and> pending_response_drop (ob_pending x') k = k"
proof -
  have "between observing_fresh" by (simp add: between_def observing_fresh_def channel_with_policy_def)
  from observe_run [OF this, of wd wa "is" f es] show ?thesis by (auto simp: pending_response_drop_def)
qed

end
