(* ===== verification/Head_Receive.thy ===== *)
theory Head_Receive
  imports Body_Receive Exchange Response_Control
begin

text \<open>
  How a connection receives message heads: the head loop of \<open>run_inner\<close> of
  \<open>src/src/proto/h1/server.rs\<close>, and \<open>receive\<close> of \<open>src/src/proto/h1/client.rs\<close>, which passes
  informational heads on, hands over the final one and then drives its body.

  The loops join the components: the receive buffer and its policy, the resumable scan, the head
  parser, validation and the exchange policy. Every wait reports its outcome through \<open>head_env\<close>: what
  the read did, whether the deadline had passed or won a race, and whether a stop of the connection
  did. A reference reads the same heads off the whole stream at once; the theorems show that the
  loops return and agree with it, whatever pieces the stream arrives in.
\<close>

section \<open>Waiting for input\<close>

record ('b, 'r) head_env =
  he_read :: "('b, 'r) receive"
  he_deadline :: "nat option"
  he_late :: "'r \<Rightarrow> bool"
  he_expired :: "'r \<Rightarrow> bool"
  he_stopped :: "'r \<Rightarrow> bool"

record ('b, 'r) head_state =
  hs_buffer :: "'b recv_buffer"
  hs_parser :: head_parser
  hs_reader :: 'r

definition deadline_passed :: "('b, 'r) head_env \<Rightarrow> 'r \<Rightarrow> bool" where
  "deadline_passed X r \<longleftrightarrow> he_deadline X \<noteq> None \<and> he_expired X r"

definition head_timeout_error :: "string \<Rightarrow> error" where
  "head_timeout_error what = with_detail (error_new KTimeout what) (DTimeout PHead)"

section \<open>The server's head loop\<close>

text \<open>
  How the loop ends: with a head, by leaving the connection loop, with a head that is answered by
  \<open>reply_illegal_head\<close>, or with an error.
\<close>

datatype ('h, 'u) server_head_end =
    SH_Head "('h, 'u) validated_request_head" | SH_Stop | SH_Illegal head_error | SH_Failed error

definition server_head_read ::
  "'b buffer_api \<Rightarrow> ('b, 'r) head_env \<Rightarrow> ('b, 'r) head_state
     \<Rightarrow> (('b, 'r) head_state + ('h, 'u) server_head_end \<times> ('b, 'r) head_state) option" where
  "server_head_read U X st =
     (case read_until (he_read X) (he_deadline X) (he_late X) (hs_buffer st) (hs_reader st) of
        None \<Rightarrow> None
      | Some (res, rb, r) \<Rightarrow>
          (let st' = st\<lparr>hs_buffer := rb, hs_reader := r\<rparr> in
           Some (if he_stopped X (hs_reader st)
                 then (case res of
                         Err e \<Rightarrow> Inr (if is_canceled e then SH_Stop else SH_Failed e, st')
                       | Ok _ \<Rightarrow> Inr (SH_Stop, st'))
                 else
                   (case res of
                      Err e \<Rightarrow> Inr (SH_Failed e, st')
                    | Ok RS_Eof \<Rightarrow>
                        Inr (if recv_bytes U rb \<noteq> []
                             then SH_Failed (error_new KInvalidMessage ''connection ended inside a request head'')
                             else SH_Stop, st')
                    | Ok (RS_Data _) \<Rightarrow> Inl st'))))"

definition server_head_round ::
  "httparse_api \<Rightarrow> ('h, 'u) http_api \<Rightarrow> 'b buffer_api \<Rightarrow> ('b, 'r) head_env \<Rightarrow> ('b, 'r) head_state
     \<Rightarrow> (('b, 'r) head_state + ('h, 'u) server_head_end \<times> ('b, 'r) head_state) option" where
  "server_head_round P A U X st =
     (if deadline_passed X (hs_reader st)
      then Some (Inr (SH_Failed (head_timeout_error ''HTTP head deadline exceeded''), st))
      else
        (case head_len (hs_parser st) (recv_bytes U (hs_buffer st)) of
           (Ok (Some consumed), p) \<Rightarrow>
             (case take_shared_prefix U (hs_buffer st) consumed of
                None \<Rightarrow> None
              | Some (Err e, rb) \<Rightarrow> Some (Inr (SH_Failed e, st\<lparr>hs_buffer := rb, hs_parser := p\<rparr>))
              | Some (Ok input, rb) \<Rightarrow>
                  (case parse_shared_request P A p input of (parsed, p') \<Rightarrow>
                     Some (Inr (case and_then parsed (validate_received A) of Ok head \<Rightarrow> SH_Head head | Err e \<Rightarrow> SH_Illegal e,
                                st\<lparr>hs_buffer := rb, hs_parser := p'\<rparr>))))
         | (Err e, p) \<Rightarrow> Some (Inr (SH_Illegal e, st\<lparr>hs_parser := p\<rparr>))
         | (Ok None, p) \<Rightarrow> server_head_read U X (st\<lparr>hs_parser := p\<rparr>)))"

definition server_head ::
  "httparse_api \<Rightarrow> ('h, 'u) http_api \<Rightarrow> 'b buffer_api \<Rightarrow> ('b, 'r) head_env \<Rightarrow> ('b, 'r) head_state
     \<Rightarrow> (('h, 'u) server_head_end \<times> ('b, 'r) head_state) option" where
  "server_head P A U X st = iterate (server_head_round P A U X) st"

section \<open>What the whole stream says\<close>

text \<open>
  The reference for one head: the first complete head within the limit, parsed and validated,
  with the bytes after it.
\<close>

definition request_of ::
  "httparse_api \<Rightarrow> ('h, 'u) http_api \<Rightarrow> head_parser \<Rightarrow> bytes \<Rightarrow> ('h, 'u) server_head_end \<times> bytes" where
  "request_of P A p all =
     (case head_end (take (hl_max_bytes (hp_limits p)) all) of
        Some n \<Rightarrow>
          (case and_then (fst (parse_shared_request P A p (take n all))) (validate_received A) of
             Ok head \<Rightarrow> SH_Head head | Err e \<Rightarrow> SH_Illegal e, drop n all)
      | None \<Rightarrow>
          (if hl_max_bytes (hp_limits p) < length all then SH_Illegal (HLimit HL_Bytes)
           else if all = [] then SH_Stop
           else SH_Failed (error_new KInvalidMessage ''connection ended inside a request head''), all))"

text \<open>A parser that differs only in how far it scanned.\<close>

definition same_parser :: "head_parser \<Rightarrow> head_parser \<Rightarrow> bool" where
  "same_parser p q \<longleftrightarrow> hp_limits q = hp_limits p \<and> hp_workspace q = hp_workspace p
     \<and> hp_preserve_header_case q = hp_preserve_header_case p"

lemma head_len_same: "same_parser p (snd (head_len p buf))"
  by (simp add: head_len_def Let_def same_parser_def case_prod_beta)

lemma same_parser_trans [trans]: "same_parser p q \<Longrightarrow> same_parser q r \<Longrightarrow> same_parser p r"
  by (simp add: same_parser_def)

lemma same_parser_refl [simp]: "same_parser p p"
  by (simp add: same_parser_def)

lemma parse_shared_request_same:
  assumes "same_parser p q"
  shows "fst (parse_shared_request P A q v) = fst (parse_shared_request P A p v)"
proof -
  have same: "hp_limits q = hp_limits p" "hp_workspace q = hp_workspace p" "hp_preserve_header_case q = hp_preserve_header_case p"
    using assms by (simp_all add: same_parser_def)
  show ?thesis unfolding parse_shared_request_def same Let_def by simp
qed

lemma parse_shared_response_same:
  assumes "same_parser p q"
  shows "fst (parse_shared_response P A q v) = fst (parse_shared_response P A p v)"
proof -
  have same: "hp_limits q = hp_limits p" "hp_workspace q = hp_workspace p" "hp_preserve_header_case q = hp_preserve_header_case p"
    using assms by (simp_all add: same_parser_def)
  show ?thesis unfolding parse_shared_response_def same Let_def by simp
qed

text \<open>What an answer of \<open>head_len\<close> on the retained bytes says about the whole stream.\<close>

lemma head_end_append: "head_end (take m buf) = Some n \<Longrightarrow> head_end (take m (buf @ rest)) = Some n"
  by (auto simp: head_end_Some)

lemma head_len_whole:
  assumes "parser_ok p buf" and "head_len p buf = (res, p')"
  shows "parser_ok p' buf \<and> same_parser p p' \<and>
    (case res of
       Ok (Some n) \<Rightarrow> n \<le> length buf \<and> 0 < n \<and> n \<le> hl_max_bytes (hp_limits p) \<and> head_end (take (hl_max_bytes (hp_limits p)) (buf @ rest)) = Some n
     | Ok None \<Rightarrow> length buf \<le> hl_max_bytes (hp_limits p) \<and> (rest = [] \<longrightarrow> head_end (take (hl_max_bytes (hp_limits p)) (buf @ rest)) = None)
     | Err e \<Rightarrow> e = HLimit HL_Bytes \<and> hl_max_bytes (hp_limits p) < length (buf @ rest)
         \<and> head_end (take (hl_max_bytes (hp_limits p)) (buf @ rest)) = None)"
proof -
  let ?m = "hl_max_bytes (hp_limits p)"
  have eq: "res = (case head_end (take ?m buf) of
         Some n \<Rightarrow> Ok (Some n) | None \<Rightarrow> if ?m < length buf then Err (HLimit HL_Bytes) else Ok None)"
    "parser_ok p' buf" "same_parser p p'"
    using head_len_eq [OF assms(1)] head_len_same [of p buf] assms(2) by (simp_all add: head_window_def)
  show ?thesis
  proof (cases "head_end (take ?m buf)")
    case None
    then show ?thesis using eq by (auto simp: take_append)
  next
    case (Some n)
    then have "n \<noteq> 0" "n \<le> length buf" "n \<le> ?m" by (cases n; auto simp: head_end_Some)+
    with Some eq head_end_append [OF Some, of rest] show ?thesis by simp
  qed
qed

section \<open>Receiving a request head\<close>

text \<open>A connection on which no deadline passes and no stop is requested.\<close>

definition prompt :: "('b, 'r) head_env \<Rightarrow> bool" where
  "prompt X \<longleftrightarrow> (\<forall>r. \<not> deadline_passed X r \<and> (he_deadline X = None \<or> \<not> he_late X r) \<and> \<not> he_stopped X r)"

definition head_order :: "('r \<Rightarrow> bytes) \<Rightarrow> (('b, 'r) head_state \<times> ('b, 'r) head_state) set" where
  "head_order input = measure (\<lambda>st. length (input (hs_reader st)))"

definition head_ready ::
  "'b buffer_api \<Rightarrow> ('r \<Rightarrow> bytes) \<Rightarrow> head_parser \<Rightarrow> usize \<Rightarrow> bytes \<Rightarrow> ('b, 'r) head_state \<Rightarrow> bool" where
  "head_ready U input p mx all st \<longleftrightarrow>
     recv_ok U (hs_buffer st) \<and> rb_max_retained (hs_buffer st) = mx \<and> hl_max_bytes (hp_limits p) < mx
   \<and> parser_ok (hs_parser st) (recv_bytes U (hs_buffer st)) \<and> same_parser p (hs_parser st)
   \<and> recv_bytes U (hs_buffer st) @ input (hs_reader st) = all"

text \<open>One read of the loop: more of the stream, or its end.\<close>

lemma head_read_delivers:
  assumes "stream_policy U (he_read X) laws input stream" "laws" "stream" "prompt X"
    and "head_ready U input p mx all st" "length (recv_bytes U (hs_buffer st)) \<le> hl_max_bytes (hp_limits p)"
  shows "\<exists>st' rs. read_until (he_read X) (he_deadline X) (he_late X) (hs_buffer st) (hs_reader st) = Some (Ok rs, hs_buffer st', hs_reader st')
    \<and> st' = st\<lparr>hs_buffer := hs_buffer st', hs_reader := hs_reader st'\<rparr> \<and> head_ready U input p mx all st'
    \<and> (rs = RS_Eof \<longrightarrow> input (hs_reader st) = [] \<and> recv_bytes U (hs_buffer st') = all)
    \<and> (rs \<noteq> RS_Eof \<longrightarrow> (st', st) \<in> head_order input)"
proof -
  have room: "recv_ok U (hs_buffer st)" "length (recv_bytes U (hs_buffer st)) < rb_max_retained (hs_buffer st)"
    using assms(5,6) by (auto simp: head_ready_def)
  obtain rs new rb r where rd: "read_until (he_read X) (he_deadline X) (he_late X) (hs_buffer st) (hs_reader st) = Some (Ok rs, rb, r)"
      "recv_holds U (hs_buffer st) (recv_bytes U (hs_buffer st) @ new) rb" "status_of (Ok rs) new"
      "input (hs_reader st) = new @ input r" "new = [] \<longrightarrow> input (hs_reader st) = []"
    using stream_policy.read_until_delivers [OF assms(1-3) room, of "he_deadline X" "he_late X" "hs_reader st"] assms(4)
    by (auto simp: prompt_def)
  let ?st = "st\<lparr>hs_buffer := rb, hs_reader := r\<rparr>"
  have "head_ready U input p mx all ?st"
    using rd(2,4) assms(5) by (auto simp: head_ready_def recv_holds_def parser_ok_append)
  moreover have "rs = RS_Eof \<longleftrightarrow> new = []" using rd(3) by (cases rs) auto
  ultimately show ?thesis using rd assms(5)
    by (intro exI [of _ ?st] exI [of _ rs]) (auto simp: head_order_def head_ready_def recv_holds_def)
qed

definition server_answer ::
  "'b buffer_api \<Rightarrow> ('r \<Rightarrow> bytes) \<Rightarrow> usize \<Rightarrow> ('h, 'u) server_head_end \<times> bytes \<Rightarrow> ('h, 'u) server_head_end \<times> ('b, 'r) head_state \<Rightarrow> bool" where
  "server_answer U input mx target out \<longleftrightarrow>
     fst out = fst target \<and> recv_ok U (hs_buffer (snd out)) \<and> rb_max_retained (hs_buffer (snd out)) = mx
   \<and> recv_bytes U (hs_buffer (snd out)) @ input (hs_reader (snd out)) = snd target"

lemma server_head_round_ready:
  assumes "buffer_laws U" "stream_policy U (he_read X) laws input stream" "laws" "stream" "prompt X" "head_ready U input p mx all st"
  shows "(\<exists>st'. server_head_round P A U X st = Some (Inl st') \<and> head_ready U input p mx all st' \<and> (st', st) \<in> head_order input)
    \<or> (\<exists>out. server_head_round P A U X st = Some (Inr out) \<and> server_answer U input mx (request_of P A p all) out)"
proof -
  let ?buf = "recv_bytes U (hs_buffer st)" and ?rest = "input (hs_reader st)" and ?m = "hl_max_bytes (hp_limits p)"
  have st: "recv_ok U (hs_buffer st)" "parser_ok (hs_parser st) ?buf" "same_parser p (hs_parser st)"
    "rb_max_retained (hs_buffer st) = mx" and all: "?buf @ ?rest = all"
    using assms(6) by (auto simp: head_ready_def)
  have live: "\<not> deadline_passed X (hs_reader st)" "\<not> he_stopped X (hs_reader st)" using assms(5) by (auto simp: prompt_def)
  obtain res p' where len: "head_len (hs_parser st) ?buf = (res, p')" by (cases "head_len (hs_parser st) ?buf")
  note whole = head_len_whole [OF st(2) len, of ?rest]
  have m: "hl_max_bytes (hp_limits (hs_parser st)) = ?m" using st(3) by (simp add: same_parser_def)
  have p': "same_parser p p'" using whole st(3) by (blast intro: same_parser_trans)
  consider (found) n where "res = Ok (Some n)" | (more) "res = Ok None" | (bad) e where "res = Err e"
    by (cases res) (auto simp: split_option_all)
  then show ?thesis
  proof cases
    case (found n)
    with whole m all have n: "n \<le> length ?buf" "head_end (take ?m all) = Some n" by auto
    obtain rb where taken: "take_shared_prefix U (hs_buffer st) n = Some (Ok (take n ?buf), rb)"
        "recv_holds U (hs_buffer st) (drop n ?buf) rb"
      using take_shared_prefix_holds [OF assms(1) st(1) n(1)] by blast
    have "take n all = take n ?buf" "drop n all = drop n ?buf @ ?rest" using n(1) all [symmetric] by simp_all
    then show ?thesis using live len found taken n(2) st(4) parse_shared_request_same [OF p', of P A "take n ?buf"]
      by (auto simp: server_head_round_def request_of_def server_answer_def recv_holds_def case_prod_beta)
  next
    case more
    with whole m have small: "length ?buf \<le> ?m" by simp
    have ready: "head_ready U input p mx all (st\<lparr>hs_parser := p'\<rparr>)"
      using assms(6) whole p' by (auto simp: head_ready_def)
    obtain st' rs where rd: "read_until (he_read X) (he_deadline X) (he_late X) (hs_buffer st) (hs_reader st) =
          Some (Ok rs, hs_buffer st', hs_reader st')"
        "st' = st\<lparr>hs_parser := p', hs_buffer := hs_buffer st', hs_reader := hs_reader st'\<rparr>" "head_ready U input p mx all st'"
        "rs = RS_Eof \<longrightarrow> ?rest = [] \<and> recv_bytes U (hs_buffer st') = all" "rs \<noteq> RS_Eof \<longrightarrow> (st', st) \<in> head_order input"
      using head_read_delivers [OF assms(2-5) ready] small by (auto simp: head_order_def)
    show ?thesis
    proof (cases rs)
      case (RS_Data k)
      then have "server_head_round P A U X st = Some (Inl st')"
        using live len more rd(1,2) by (simp add: server_head_round_def server_head_read_def)
      with rd(3,5) RS_Data show ?thesis by blast
    next
      case RS_Eof
      then have fin: "?rest = []" "recv_bytes U (hs_buffer st') = all" using rd(4) by auto
      with whole more m small all have none: "head_end (take ?m all) = None" "length all \<le> ?m" by auto
      have "server_head_round P A U X st =
          Some (Inr (if all \<noteq> [] then SH_Failed (error_new KInvalidMessage ''connection ended inside a request head'') else SH_Stop, st'))"
        using live len more rd(1,2) RS_Eof fin(2) by (simp add: server_head_round_def server_head_read_def)
      moreover have "input (hs_reader st') = []" using rd(3) fin(2) by (simp add: head_ready_def)
      ultimately show ?thesis using rd(3) fin none
        by (auto simp: request_of_def server_answer_def head_ready_def)
    qed
  next
    case (bad e)
    with whole m all have "e = HLimit HL_Bytes" "?m < length all" "head_end (take ?m all) = None" by auto
    then show ?thesis using live len bad st(1,4) all
      by (auto simp: server_head_round_def request_of_def server_answer_def)
  qed
qed

lemma server_head_answers:
  assumes "buffer_laws U" "stream_policy U (he_read X) laws input stream" "laws" "stream" "prompt X" "head_ready U input p mx all st"
  shows "\<exists>out. server_head P A U X st = Some out \<and> server_answer U input mx (request_of P A p all) out"
  unfolding server_head_def
proof (rule iterate_returns [where R = "head_order input" and I = "head_ready U input p mx all"])
  show "wf (head_order input)" by (simp add: head_order_def)
qed (use assms server_head_round_ready [OF assms(1-5)] in blast)+

section \<open>The client's head loop\<close>

text \<open>
  The application's end of the response stream: \<open>ob_offer\<close> is \<open>offer_event\<close>, with whether the event
  was taken, and \<open>ob_late\<close> whether the deadline won its race with the offer.
\<close>

record ('q, 'e) observer_api =
  ob_offer :: "'e \<Rightarrow> 'q \<Rightarrow> bool \<times> 'q"
  ob_late :: "'q \<Rightarrow> bool"
  ob_close :: "'q \<Rightarrow> 'q"

text \<open>A response handed to the application is the head it was built from, the final one with its body.\<close>

type_synonym ('h, 'c) client_event = "('h response_head, 'h response_head \<times> 'c incoming) response_event"

record ('b, 'r, 'q) client_state =
  cl_head :: "('b, 'r) head_state"
  cl_policy :: exchange_policy
  cl_control :: control
  cl_observer :: 'q

definition observation_abandoned :: error where
  "observation_abandoned = error_new KCanceled ''response observation abandoned''"

definition ended_before_final :: "bytes \<Rightarrow> error" where
  "ended_before_final v =
     error_new (if v = [] then KClosed else KInvalidMessage) ''connection ended before a final response head''"

definition offer_informational ::
  "('q, ('h, 'c) client_event) observer_api \<Rightarrow> nat option \<Rightarrow> 'h response_head \<Rightarrow> 'q \<Rightarrow> (unit, error) result \<times> 'q" where
  "offer_informational B deadline head q =
     (case ob_offer B (EV_Informational head) q of (taken, q') \<Rightarrow>
        (if deadline \<noteq> None \<and> ob_late B q then Err (head_timeout_error ''final response head deadline exceeded'')
         else if taken then Ok () else Err observation_abandoned, q'))"

definition client_head_read ::
  "'b buffer_api \<Rightarrow> ('b, 'r) head_env \<Rightarrow> ('b, 'r, 'q) client_state
     \<Rightarrow> (('b, 'r, 'q) client_state + ('h validated_response_head, error) result \<times> ('b, 'r, 'q) client_state) option" where
  "client_head_read U X st =
     (case read_until (he_read X) (he_deadline X) (he_late X) (hs_buffer (cl_head st)) (hs_reader (cl_head st)) of
        None \<Rightarrow> None
      | Some (res, rb, r) \<Rightarrow>
          (let st' = st\<lparr>cl_head := (cl_head st)\<lparr>hs_buffer := rb, hs_reader := r\<rparr>\<rparr> in
           Some (case res of
               Err e \<Rightarrow> Inr (Err e, st')
             | Ok RS_Eof \<Rightarrow> Inr (Err (ended_before_final (recv_bytes U rb)), st')
             | Ok (RS_Data _) \<Rightarrow> Inl st')))"

text \<open>The branch for a head the policy accepted.\<close>

definition client_head_action ::
  "('q, ('h, 'c) client_event) observer_api \<Rightarrow> ('b, 'r) head_env \<Rightarrow> 'h validated_response_head \<Rightarrow> head_action
     \<Rightarrow> ('b, 'r, 'q) client_state
     \<Rightarrow> ('b, 'r, 'q) client_state + ('h validated_response_head, error) result \<times> ('b, 'r, 'q) client_state" where
  "client_head_action B X head action st =
     (case action of
        HA_Informational \<Rightarrow>
          (let st' = (if resp_status (vresp_head head) = 100
                      then st\<lparr>cl_control := fst (allow_continue (cl_control st))\<rparr> else st) in
           case offer_informational B (he_deadline X) (vresp_head head) (cl_observer st') of
             (Ok _, q) \<Rightarrow> Inl (st'\<lparr>cl_observer := q\<rparr>)
           | (Err e, q) \<Rightarrow> Inr (Err e, st'\<lparr>cl_observer := q\<rparr>))
      | _ \<Rightarrow> Inr (Ok head, st\<lparr>cl_control := fst (allow_continue (cl_control st))\<rparr>))"

definition client_head_round ::
  "httparse_api \<Rightarrow> ('h, 'u) http_api \<Rightarrow> 'b buffer_api \<Rightarrow> ('q, ('h, 'c) client_event) observer_api \<Rightarrow> ('b, 'r) head_env
     \<Rightarrow> ('b, 'r, 'q) client_state
     \<Rightarrow> (('b, 'r, 'q) client_state + ('h validated_response_head, error) result \<times> ('b, 'r, 'q) client_state) option" where
  "client_head_round P A U B X st =
     (let hs = cl_head st in
      if deadline_passed X (hs_reader hs)
      then Some (Inr (Err (head_timeout_error ''HTTP head deadline exceeded''), st))
      else
        (case head_len (hs_parser hs) (recv_bytes U (hs_buffer hs)) of
           (Err e, p) \<Rightarrow> Some (Inr (Err (error_from_head e), st\<lparr>cl_head := hs\<lparr>hs_parser := p\<rparr>\<rparr>))
         | (Ok None, p) \<Rightarrow> client_head_read U X (st\<lparr>cl_head := hs\<lparr>hs_parser := p\<rparr>\<rparr>)
         | (Ok (Some consumed), p) \<Rightarrow>
             (case take_shared_prefix U (hs_buffer hs) consumed of
                None \<Rightarrow> None
              | Some (Err e, rb) \<Rightarrow> Some (Inr (Err e, st\<lparr>cl_head := hs\<lparr>hs_buffer := rb, hs_parser := p\<rparr>\<rparr>))
              | Some (Ok input, rb) \<Rightarrow>
                  (case parse_shared_response P A p input of (parsed, p') \<Rightarrow>
                     let st' = st\<lparr>cl_head := hs\<lparr>hs_buffer := rb, hs_parser := p'\<rparr>\<rparr> in
                     Some (case and_then (map_err error_from_head parsed) (receive_head A (cl_policy st)) of
                         Err e \<Rightarrow> Inr (Err e, st')
                       | Ok (head, action, policy) \<Rightarrow> client_head_action B X head action (st'\<lparr>cl_policy := policy\<rparr>))))))"

definition client_head ::
  "httparse_api \<Rightarrow> ('h, 'u) http_api \<Rightarrow> 'b buffer_api \<Rightarrow> ('q, ('h, 'c) client_event) observer_api \<Rightarrow> ('b, 'r) head_env
     \<Rightarrow> ('b, 'r, 'q) client_state
     \<Rightarrow> (('h validated_response_head, error) result \<times> ('b, 'r, 'q) client_state) option" where
  "client_head P A U B X st = iterate (client_head_round P A U B X) st"

section \<open>The heads of an exchange, read off the whole stream\<close>

text \<open>
  The informational heads before the first final one, and that one with the policy and the bytes
  after it; or the error that ends the exchange.
\<close>

function responses_of ::
  "httparse_api \<Rightarrow> ('h, 'u) http_api \<Rightarrow> head_parser \<Rightarrow> exchange_policy \<Rightarrow> bytes
     \<Rightarrow> 'h response_head list \<times> ('h validated_response_head \<times> exchange_policy \<times> bytes, error) result" where
  "responses_of P A p policy all =
     (case head_end (take (hl_max_bytes (hp_limits p)) all) of
        None \<Rightarrow>
          ([], Err (if hl_max_bytes (hp_limits p) < length all then error_from_head (HLimit HL_Bytes) else ended_before_final all))
      | Some n \<Rightarrow>
          (case and_then (map_err error_from_head (fst (parse_shared_response P A p (take n all)))) (receive_head A policy) of
             Err e \<Rightarrow> ([], Err e)
           | Ok (head, action, policy') \<Rightarrow>
               (if action = HA_Informational
                then (case responses_of P A p policy' (drop n all) of (heads, res) \<Rightarrow> (vresp_head head # heads, res))
                else ([], Ok (head, policy', drop n all)))))"
  by pat_completeness auto

termination
proof (relation "measure (\<lambda>(P, A, p, policy, all). length all)")
  fix p :: head_parser and all :: bytes and n
  assume "head_end (take (hl_max_bytes (hp_limits p)) all) = Some n"
  then have "n \<noteq> 0" "n \<le> length all" by (cases n; auto simp: head_end_Some)+
  then show "((P, A, p, policy', drop n all), P, A, p, policy, all) \<in> measure (\<lambda>(P, A, p, policy, all). length all)"
    for P A policy policy' by simp
qed simp

declare responses_of.simps [simp del]

section \<open>Receiving a response\<close>

record ('b) received_response =
  rr_end :: receive_end
  rr_buffer :: "'b recv_buffer"
  rr_policy :: exchange_policy

text \<open>
  \<open>receive\<close>. \<open>chan\<close> are the endpoints of the body's rendezvous; the answer holds the reader, the
  control, the observer and the body's producer at the end.
\<close>

definition client_receive ::
  "httparse_api \<Rightarrow> ('h, 'u) http_api \<Rightarrow> 'b buffer_api \<Rightarrow> ('q, ('h, 'c) client_event) observer_api \<Rightarrow> ('p, 'h) producer_api
     \<Rightarrow> ('b, 'r) head_env \<Rightarrow> ('b, 'r) receive_env \<Rightarrow> decode_limits \<Rightarrow> drain_config \<Rightarrow> 'p \<times> 'c \<Rightarrow> ('b, 'r, 'q) client_state
     \<Rightarrow> (('b received_response, error) result \<times> 'r \<times> control \<times> 'q \<times> 'p) option" where
  "client_receive P A U B G X Y dl dc chan st =
     (case client_head P A U B X st of
        None \<Rightarrow> None
      | Some (Err e, st') \<Rightarrow> Some (Err e, hs_reader (cl_head st'), cl_control st', cl_observer st', fst chan)
      | Some (Ok head, st') \<Rightarrow>
          (case incoming_for chan (vresp_body head) of (producer, body) \<Rightarrow>
             let incoming = with_drain_config body dc;
                 hs = cl_head st' in
             case ob_offer B (EV_Final (vresp_head head, incoming)) (cl_observer st') of (taken, q) \<Rightarrow>
               if \<not> taken then Some (Err observation_abandoned, hs_reader hs, cl_control st', q, fst chan)
               else
                 (case producer of
                    None \<Rightarrow>
                      Some (Ok \<lparr>rr_end = RE_Complete, rr_buffer = hs_buffer hs, rr_policy = cl_policy st'\<rparr>,
                            hs_reader hs, cl_control st', ob_close B q, fst chan)
                  | Some p \<Rightarrow>
                      map_option (\<lambda>(fin, rv).
                          (case fin of
                             RE_Failed e \<Rightarrow> Err e
                           | _ \<Rightarrow> Ok \<lparr>rr_end = fin, rr_buffer = rv_buffer rv, rr_policy = cl_policy st'\<rparr>,
                           rv_reader rv, cl_control st', ob_close B q, rv_producer rv))
                        (receive_body P A U G Y (hs_reader hs) (hs_buffer hs) (decoder_with_limits (vresp_body head) dl) p))))"

section \<open>The client reads the heads of the stream\<close>

text \<open>An application that takes every event, each at once.\<close>

definition attentive :: "('q, 'e) observer_api \<Rightarrow> ('q \<Rightarrow> 'e list) \<Rightarrow> bool" where
  "attentive B log \<longleftrightarrow>
     (\<forall>e q. \<exists>q'. ob_offer B e q = (True, q') \<and> log q' = log q @ [e])
   \<and> (\<forall>q. \<not> ob_late B q) \<and> (\<forall>q. log (ob_close B q) = log q)"

definition client_order :: "'b buffer_api \<Rightarrow> ('r \<Rightarrow> bytes) \<Rightarrow> (('b, 'r, 'q) client_state \<times> ('b, 'r, 'q) client_state) set" where
  "client_order U input =
     inv_image (less_than <*lex*> less_than)
       (\<lambda>st. (length (recv_bytes U (hs_buffer (cl_head st)) @ input (hs_reader (cl_head st))), length (input (hs_reader (cl_head st)))))"

lemma wf_client_order: "wf (client_order U input)"
  unfolding client_order_def by auto

text \<open>
  A state on the way to the answer: the events so far followed by those of the rest of the stream
  are the events of the whole.
\<close>

definition prepend_heads :: "'h list \<Rightarrow> 'h list \<times> 'x \<Rightarrow> 'h list \<times> 'x" where
  "prepend_heads hs res = (case res of (hs', x) \<Rightarrow> (hs @ hs', x))"

definition client_course where
  "client_course P A U log taken input p mx target st \<longleftrightarrow>
     head_ready U input p mx (recv_bytes U (hs_buffer (cl_head st)) @ input (hs_reader (cl_head st))) (cl_head st)
   \<and> (\<exists>heads. log (cl_observer st) = taken @ map EV_Informational heads
        \<and> prepend_heads heads (responses_of P A p (cl_policy st) (recv_bytes U (hs_buffer (cl_head st)) @ input (hs_reader (cl_head st)))) = target)"

definition client_answer where
  "client_answer U log taken input mx target out \<longleftrightarrow>
     (case target of (heads, res) \<Rightarrow>
        log (cl_observer (snd out)) = taken @ map EV_Informational heads
      \<and> (case res of
           Err e \<Rightarrow> fst out = Err e
         | Ok (head, policy, rest) \<Rightarrow>
             fst out = Ok head \<and> cl_policy (snd out) = policy \<and> ct_continue_allowed (cl_control (snd out))
           \<and> recv_bytes U (hs_buffer (cl_head (snd out))) @ input (hs_reader (cl_head (snd out))) = rest
           \<and> recv_ok U (hs_buffer (cl_head (snd out)))
           \<and> rb_max_retained (hs_buffer (cl_head (snd out))) = mx))"

text \<open>A parsed head leaves the parser as a new one for the next.\<close>

definition clear_workspace :: "head_parser \<Rightarrow> bool" where
  "clear_workspace p \<longleftrightarrow> workspace_clear (hp_workspace p) = hp_workspace p"

lemma parse_shared_response_parser:
  assumes "parse_shared_response P A q v = (parsed, q')" "same_parser p q" "clear_workspace p"
  shows "same_parser p q' \<and> parser_ok q' buf"
  using assms
  by (auto simp: parse_shared_response_def Let_def same_parser_def clear_workspace_def parser_ok_def split: if_splits)

lemma head_ready_after:
  assumes "head_ready U input p mx (recv_bytes U (hs_buffer hs) @ input (hs_reader hs)) hs"
    and "recv_holds U (hs_buffer hs) v rb" "same_parser p q" "parser_ok q v"
  shows "head_ready U input p mx (v @ input (hs_reader hs)) (hs\<lparr>hs_buffer := rb, hs_parser := q\<rparr>)"
  using assms by (auto simp: head_ready_def recv_holds_def)

lemma action_other: "action \<noteq> HA_Informational \<Longrightarrow>
    client_head_action B X head action st = Inr (Ok head, st\<lparr>cl_control := fst (allow_continue (cl_control st))\<rparr>)"
  by (cases action) (auto simp: client_head_action_def)

lemma action_informational:
  assumes "attentive B log"
  shows "\<exists>q k. client_head_action B X head HA_Informational st = Inl (st\<lparr>cl_control := k, cl_observer := q\<rparr>)
    \<and> log q = log (cl_observer st) @ [EV_Informational (vresp_head head)]"
proof -
  obtain q where "ob_offer B (EV_Informational (vresp_head head)) (cl_observer st) = (True, q)"
      "log q = log (cl_observer st) @ [EV_Informational (vresp_head head)]" "\<not> ob_late B (cl_observer st)"
    using assms unfolding attentive_def by meson
  then show ?thesis
    by (intro exI [of _ q] exI [of _ "if resp_status (vresp_head head) = 100 then fst (allow_continue (cl_control st)) else cl_control st"])
      (simp add: client_head_action_def offer_informational_def)
qed

lemma client_round_found:
  assumes "buffer_laws U" "prompt X" "attentive B log" "clear_workspace p" "client_course P A U log taken input p mx target st"
    and "head_len (hs_parser (cl_head st)) (recv_bytes U (hs_buffer (cl_head st))) = (Ok (Some n), q)"
  shows "(\<exists>st'. client_head_round P A U B X st = Some (Inl st') \<and> client_course P A U log taken input p mx target st' \<and> (st', st) \<in> client_order U input)
    \<or> (\<exists>out. client_head_round P A U B X st = Some (Inr out) \<and> client_answer U log taken input mx target out)"
proof -
  let ?hs = "cl_head st"
  let ?buf = "recv_bytes U (hs_buffer ?hs)" and ?rest = "input (hs_reader ?hs)" and ?m = "hl_max_bytes (hp_limits p)"
  have ready: "head_ready U input p mx (?buf @ ?rest) ?hs" using assms(5) by (simp add: client_course_def)
  then have hs: "recv_ok U (hs_buffer ?hs)" "parser_ok (hs_parser ?hs) ?buf" "same_parser p (hs_parser ?hs)"
    "rb_max_retained (hs_buffer ?hs) = mx" by (auto simp: head_ready_def)
  obtain heads where heads: "log (cl_observer st) = taken @ map EV_Informational heads"
      "prepend_heads heads (responses_of P A p (cl_policy st) (?buf @ ?rest)) = target"
    using assms(5) by (auto simp: client_course_def)
  note whole = head_len_whole [OF hs(2) assms(6), of ?rest]
  have n: "n \<le> length ?buf" "0 < n" "head_end (take ?m (?buf @ ?rest)) = Some n" and q: "same_parser p q"
    using whole hs(3) by (auto simp: same_parser_def)
  obtain rb where taken: "take_shared_prefix U (hs_buffer ?hs) n = Some (Ok (take n ?buf), rb)"
      "recv_holds U (hs_buffer ?hs) (drop n ?buf) rb"
    using take_shared_prefix_holds [OF assms(1) hs(1) n(1)] by blast
  obtain parsed q' where parse: "parse_shared_response P A q (take n ?buf) = (parsed, q')" by fastforce
  have q': "same_parser p q'" "parser_ok q' (drop n ?buf)" using parse_shared_response_parser [OF parse q assms(4)] by auto
  have parsed: "fst (parse_shared_response P A p (take n (?buf @ ?rest))) = parsed"
    using parse_shared_response_same [OF q, of P A "take n ?buf"] parse n(1) by simp
  let ?st = "st\<lparr>cl_head := ?hs\<lparr>hs_buffer := rb, hs_parser := q'\<rparr>\<rparr>"
  have next_ready: "head_ready U input p mx (drop n ?buf @ ?rest) (cl_head ?st)"
    using head_ready_after [OF ready taken(2) q'] by simp
  have rb: "recv_bytes U rb = drop n ?buf" "recv_ok U rb" "rb_max_retained rb = mx"
    using taken(2) hs(4) by (auto simp: recv_holds_def)
  have live: "\<not> deadline_passed X (hs_reader ?hs)" using assms(2) by (auto simp: prompt_def)
  have round: "client_head_round P A U B X st =
      Some (case and_then (map_err error_from_head parsed) (receive_head A (cl_policy st)) of
          Err e \<Rightarrow> Inr (Err e, ?st)
        | Ok (head, action, policy) \<Rightarrow> client_head_action B X head action (?st\<lparr>cl_policy := policy\<rparr>))"
    using live assms(6) taken(1) parse by (simp add: client_head_round_def Let_def)
  show ?thesis
  proof (cases "and_then (map_err error_from_head parsed) (receive_head A (cl_policy st))")
    case (Err e)
    then have "responses_of P A p (cl_policy st) (?buf @ ?rest) = ([], Err e)"
      using n(3) parsed by (subst responses_of.simps) (simp del: and_then_Err_iff)
    then show ?thesis using round Err heads by (auto simp: client_answer_def prepend_heads_def simp del: and_then_Err_iff)
  next
    case (Ok a)
    then obtain head action policy where ok: "and_then (map_err error_from_head parsed) (receive_head A (cl_policy st)) = Ok (head, action, policy)"
      by (cases a) auto
    show ?thesis
    proof (cases "action = HA_Informational")
      case True
      obtain q k where act: "client_head_action B X head HA_Informational (?st\<lparr>cl_policy := policy\<rparr>) =
            Inl (?st\<lparr>cl_policy := policy, cl_control := k, cl_observer := q\<rparr>)"
          "log q = log (cl_observer st) @ [EV_Informational (vresp_head head)]"
        using action_informational [OF assms(3), of X head "?st\<lparr>cl_policy := policy\<rparr>"] by auto
      have ref: "responses_of P A p (cl_policy st) (?buf @ ?rest) =
          prepend_heads [vresp_head head] (responses_of P A p policy (drop n ?buf @ ?rest))"
        using n(1,3) parsed ok True by (subst responses_of.simps) (simp add: prepend_heads_def del: and_then_Ok_iff)
      have "client_course P A U log taken input p mx target (?st\<lparr>cl_policy := policy, cl_control := k, cl_observer := q\<rparr>)"
        using next_ready rb(1) heads act(2) ref
        by (auto simp: client_course_def prepend_heads_def split: prod.splits intro!: exI [of _ "heads @ [vresp_head head]"])
      then show ?thesis using round ok True act(1) n(1,2) rb(1) by (simp add: client_order_def del: and_then_Ok_iff)
    next
      case False
      have "responses_of P A p (cl_policy st) (?buf @ ?rest) = ([], Ok (head, policy, drop n ?buf @ ?rest))"
        using n(1,3) parsed ok False by (subst responses_of.simps) (simp del: and_then_Ok_iff)
      then show ?thesis using round ok heads rb
        by (intro disjI2) (auto simp: action_other [OF False] client_answer_def prepend_heads_def allow_continue_def
            simp del: and_then_Ok_iff)
    qed
  qed
qed

lemma client_round_course:
  assumes "buffer_laws U" "stream_policy U (he_read X) laws input stream" "laws" "stream" "prompt X"
    and "attentive B log" "clear_workspace p" "client_course P A U log taken input p mx target st"
  shows "(\<exists>st'. client_head_round P A U B X st = Some (Inl st') \<and> client_course P A U log taken input p mx target st' \<and> (st', st) \<in> client_order U input)
    \<or> (\<exists>out. client_head_round P A U B X st = Some (Inr out) \<and> client_answer U log taken input mx target out)"
proof -
  let ?hs = "cl_head st"
  let ?buf = "recv_bytes U (hs_buffer ?hs)" and ?rest = "input (hs_reader ?hs)" and ?m = "hl_max_bytes (hp_limits p)"
  have ready: "head_ready U input p mx (?buf @ ?rest) ?hs" using assms(8) by (simp add: client_course_def)
  then have hs: "parser_ok (hs_parser ?hs) ?buf" "same_parser p (hs_parser ?hs)" by (auto simp: head_ready_def)
  obtain heads where heads: "log (cl_observer st) = taken @ map EV_Informational heads"
      "prepend_heads heads (responses_of P A p (cl_policy st) (?buf @ ?rest)) = target"
    using assms(8) by (auto simp: client_course_def)
  have live: "\<not> deadline_passed X (hs_reader ?hs)" using assms(5) by (auto simp: prompt_def)
  obtain res q where len: "head_len (hs_parser ?hs) ?buf = (res, q)" by (cases "head_len (hs_parser ?hs) ?buf")
  note whole = head_len_whole [OF hs(1) len, of ?rest]
  have m: "hl_max_bytes (hp_limits (hs_parser ?hs)) = ?m" using hs(2) by (simp add: same_parser_def)
  have q: "same_parser p q" using whole hs(2) by (blast intro: same_parser_trans)
  consider (found) n where "res = Ok (Some n)" | (more) "res = Ok None" | (bad) e where "res = Err e"
    by (cases res) (auto simp: split_option_all)
  then show ?thesis
  proof cases
    case (found n)
    with client_round_found [OF assms(1,5-8)] len show ?thesis by blast
  next
    case more
    with whole m have small: "length ?buf \<le> ?m" by simp
    have ready': "head_ready U input p mx (?buf @ ?rest) (?hs\<lparr>hs_parser := q\<rparr>)"
      using ready whole q by (auto simp: head_ready_def)
    obtain hs' rs where rd: "read_until (he_read X) (he_deadline X) (he_late X) (hs_buffer ?hs) (hs_reader ?hs) =
          Some (Ok rs, hs_buffer hs', hs_reader hs')"
        "hs' = ?hs\<lparr>hs_parser := q, hs_buffer := hs_buffer hs', hs_reader := hs_reader hs'\<rparr>" "head_ready U input p mx (?buf @ ?rest) hs'"
        "rs = RS_Eof \<longrightarrow> ?rest = [] \<and> recv_bytes U (hs_buffer hs') = ?buf @ ?rest" "rs \<noteq> RS_Eof \<longrightarrow> (hs', ?hs) \<in> head_order input"
      using head_read_delivers [OF assms(2-5) ready'] small by (auto simp: head_order_def)
    have whole': "recv_bytes U (hs_buffer hs') @ input (hs_reader hs') = ?buf @ ?rest" using rd(3) by (simp add: head_ready_def)
    show ?thesis
    proof (cases rs)
      case (RS_Data k)
      then have "client_head_round P A U B X st = Some (Inl (st\<lparr>cl_head := hs'\<rparr>))"
        using live len more rd(1) by (subst rd(2)) (simp add: client_head_round_def client_head_read_def Let_def)
      moreover have "client_course P A U log taken input p mx target (st\<lparr>cl_head := hs'\<rparr>)"
        using rd(3) whole' heads by (auto simp: client_course_def)
      moreover have "(st\<lparr>cl_head := hs'\<rparr>, st) \<in> client_order U input"
        using rd(5) RS_Data whole' by (auto simp: client_order_def head_order_def simp flip: length_append)
      ultimately show ?thesis by blast
    next
      case RS_Eof
      then have fin: "?rest = []" "recv_bytes U (hs_buffer hs') = ?buf" using rd(4) by auto
      with whole more m small have "head_end (take ?m (?buf @ ?rest)) = None" "\<not> ?m < length (?buf @ ?rest)" by auto
      then have "responses_of P A p (cl_policy st) (?buf @ ?rest) = ([], Err (ended_before_final ?buf))"
        using fin(1) by (subst responses_of.simps) simp
      moreover have "client_head_round P A U B X st = Some (Inr (Err (ended_before_final ?buf), st\<lparr>cl_head := hs'\<rparr>))"
        using live len more rd(1) RS_Eof fin(2)
        by (subst rd(2)) (simp add: client_head_round_def client_head_read_def Let_def)
      ultimately show ?thesis using heads by (auto simp: client_answer_def prepend_heads_def)
    qed
  next
    case (bad e)
    with whole m have "e = HLimit HL_Bytes" "?m < length (?buf @ ?rest)" "head_end (take ?m (?buf @ ?rest)) = None" by auto
    then have "responses_of P A p (cl_policy st) (?buf @ ?rest) = ([], Err (error_from_head e))"
      by (subst responses_of.simps) simp
    then show ?thesis using live len bad heads
      by (auto simp: client_head_round_def Let_def client_answer_def prepend_heads_def)
  qed
qed

lemma client_head_answers:
  assumes "buffer_laws U" "stream_policy U (he_read X) laws input stream" "laws" "stream" "prompt X"
    and "attentive B log" "clear_workspace p"
    and "head_ready U input p mx (recv_bytes U (hs_buffer (cl_head st)) @ input (hs_reader (cl_head st))) (cl_head st)"
  shows "\<exists>out. client_head P A U B X st = Some out
    \<and> client_answer U log (log (cl_observer st)) input mx
        (responses_of P A p (cl_policy st) (recv_bytes U (hs_buffer (cl_head st)) @ input (hs_reader (cl_head st)))) out"
    (is "\<exists>out. _ \<and> client_answer U log ?taken input mx ?target out")
  unfolding client_head_def
proof (rule iterate_returns [where R = "client_order U input" and I = "client_course P A U log ?taken input p mx ?target"])
  show "wf (client_order U input)" by (rule wf_client_order)
  show "client_course P A U log ?taken input p mx ?target st"
    using assms(8) by (auto simp: client_course_def prepend_heads_def intro!: exI [of _ "[]"])
qed (rule client_round_course [OF assms(1-7)])

end
