(* ===== verification/Message_Receive.thy ===== *)
theory Message_Receive
  imports Head_Receive
begin

text \<open>
  Whole messages as a connection receives them: the head loops of \<open>Head_Receive\<close>, the receiver of a
  request's body (\<open>receive_request\<close> of \<open>src/src/proto/h1/server.rs\<close>), and the body driver. The
  theorems read a message off the whole stream and show that the connection hands over exactly that,
  and keeps what follows it.
\<close>

section \<open>The body of a request\<close>

text \<open>
  \<open>receive_request\<close>. \<open>permission\<close> is the outcome of waiting for Continue: \<open>None\<close> when the wait was
  cancelled. A producer that is not handed to the body driver is failed or dropped.
\<close>

definition receive_request ::
  "httparse_api \<Rightarrow> ('h, 'u) http_api \<Rightarrow> 'b buffer_api \<Rightarrow> ('p, 'h) producer_api \<Rightarrow> ('b, 'r) receive_env
     \<Rightarrow> (unit, error) result option \<Rightarrow> 'r \<Rightarrow> 'b recv_buffer \<Rightarrow> body_decoder \<Rightarrow> 'p option \<Rightarrow> bool
     \<Rightarrow> (receive_end \<times> 'b recv_buffer \<times> 'r \<times> 'p option) option" where
  "receive_request P A U G Y permission r rb d producer expect_continue =
     (case producer of
        None \<Rightarrow> Some (RE_Complete, rb, r, None)
      | Some p \<Rightarrow>
          (let failed = (\<lambda>e p. case error_split e of (incoming, driver) \<Rightarrow> Some (RE_Failed driver, rb, r, Some (pd_fail G incoming p)));
               body = (\<lambda>p. map_option (\<lambda>(fin, st). (fin, rv_buffer st, rv_reader st, Some (rv_producer st)))
                             (receive_body P A U G Y r rb d p)) in
           if \<not> expect_continue then body p
           else
             (case pd_demand G p of
                (None, p) \<Rightarrow> failed (error_new KCanceled ''request receive canceled'') p
              | (Some (Err _), p) \<Rightarrow> Some (RE_Abandoned, rb, r, Some (pd_drop G p))
              | (Some (Ok _), p) \<Rightarrow>
                  (case permission of
                     None \<Rightarrow> failed (error_new KCanceled ''Continue demand canceled'') p
                   | Some (Err e) \<Rightarrow> failed e p
                   | Some (Ok _) \<Rightarrow> body p))))"

section \<open>Reading a message off the stream\<close>

text \<open>The body that the framing of a head gives to the bytes after it: payload, how it ends, and what follows.\<close>

definition body_of ::
  "httparse_api \<Rightarrow> ('h, 'u) http_api \<Rightarrow> body_mode \<Rightarrow> decode_limits \<Rightarrow> bytes
     \<Rightarrow> bytes \<times> ('h, decode_error) run_end \<times> bytes" where
  "body_of P A mode l rest =
     (if mode = BM_None \<or> mode = BM_Fixed 0 then ([], Ended None, rest)
      else (case drain (decode P A) (decoder_with_limits mode l) rest True of (pay, fin, _, left) \<Rightarrow> (pay, fin, left)))"

text \<open>What a consumer that took everything has got of a body.\<close>

definition took_body :: "('h in_frame list \<Rightarrow> 'h in_frame list \<Rightarrow> bool)" where
  "took_body before after \<longleftrightarrow> before = after"

lemma incoming_for_none: "fst (incoming_for chan mode) = None \<longleftrightarrow> mode = BM_None \<or> mode = BM_Fixed 0"
  by (cases mode) (auto simp: incoming_for_def)

lemma incoming_for_some: "fst (incoming_for chan mode) = Some p \<Longrightarrow> p = fst chan"
  by (cases mode) (auto simp: incoming_for_def split: if_splits)

lemma body_driver_takes:
  assumes "buffer_laws U" "reader_laws T" "parse_headers_law P" "stream_transport T input"
    and "rc_read Y = portable_read U T \<or> rc_read Y = tcp_read U T" "punctual Y" "willing G log"
    and "recv_ok U rb" "leftover_bound (decoder_with_limits mode l) < rb_max_retained rb"
    and "body_of P A mode l (recv_bytes U rb @ input r) = (pay, Ended t, left)" "\<not> (mode = BM_None \<or> mode = BM_Fixed 0)"
  shows "\<exists>st. receive_body P A U G Y r rb (decoder_with_limits mode l) p = Some (RE_Complete, st)
    \<and> recv_ok U (rv_buffer st) \<and> recv_bytes U (rv_buffer st) @ input (rv_reader st) = left
    \<and> (\<exists>ds. log (rv_producer st) = log p @ ds @ trailers_frames t \<and> \<not> has_trailers ds \<and> payload as_ref ds = pay)"
proof -
  obtain d where run: "drain (decode P A) (decoder_with_limits mode l) (recv_bytes U rb @ input r) True = (pay, Ended t, d, left)"
    using assms(10,11) by (auto simp: body_of_def split: prod.splits)
  have "\<exists>out. receive_body P A U G Y r rb (decoder_with_limits mode l) p = Some out
      \<and> received U log (log p) input (pay, Ended t :: (_, decode_error) run_end, d, left) out"
    using receive_body_received [OF assms(7,1) policies(1) [OF assms(5)] _ assms(4,6,8) decoder_ok_new [OF assms(3)] assms(9), of A r p]
      assms(1,2) unfolding run by simp
  then obtain out where "receive_body P A U G Y r rb (decoder_with_limits mode l) p = Some out"
      "received U log (log p) input (pay, Ended t :: (_, decode_error) run_end, d, left) out" by blast
  then show ?thesis by (cases out) (simp add: received_def)
qed

section \<open>A server receives a request\<close>

lemma receive_request_granted:
  assumes "willing G log" "permission = Some (Ok ())"
  shows "\<exists>p'. log p' = log p \<and> receive_request P A U G Y permission r rb d (Some p) expect =
    map_option (\<lambda>(fin, st). (fin, rv_buffer st, rv_reader st, Some (rv_producer st))) (receive_body P A U G Y r rb d p')"
proof (cases expect)
  case True
  obtain p' where "pd_demand G p = (Some (Ok ()), p')" "log p' = log p" using assms(1) unfolding willing_def by blast
  with True assms(2) show ?thesis by (auto simp: receive_request_def)
qed (auto simp: receive_request_def)

lemma request_body_taken:
  assumes "buffer_laws U" "reader_laws T" "parse_headers_law P" "stream_transport T input"
    and "rc_read Y = portable_read U T \<or> rc_read Y = tcp_read U T" "punctual Y" "willing G log"
    and "recv_ok U rb" "leftover_bound (decoder_with_limits mode l) < rb_max_retained rb"
    and "body_of P A mode l (recv_bytes U rb @ input r) = (pay, Ended t, left)" "permission = Some (Ok ())"
  shows "\<exists>rb' r' p'. receive_request P A U G Y permission r rb (decoder_with_limits mode l) (fst (incoming_for chan mode)) expect
        = Some (RE_Complete, rb', r', p')
    \<and> recv_bytes U rb' @ input r' = left
    \<and> (\<exists>ds. log (case p' of Some p \<Rightarrow> p | None \<Rightarrow> fst chan) = log (fst chan) @ ds @ trailers_frames t
         \<and> \<not> has_trailers ds \<and> payload as_ref ds = pay)"
proof (cases "mode = BM_None \<or> mode = BM_Fixed 0")
  case True
  then have none: "fst (incoming_for chan mode) = None" by (simp add: incoming_for_none)
  from True assms(10) have "pay = []" "t = None" "left = recv_bytes U rb @ input r" by (auto simp: body_of_def)
  then show ?thesis unfolding none
    by (auto simp: receive_request_def payload_def intro!: exI [of _ "[]"])
next
  case False
  then obtain p where some: "fst (incoming_for chan mode) = Some p" "p = fst chan"
    using incoming_for_none [of chan mode] incoming_for_some [of chan mode] by (cases "fst (incoming_for chan mode)") auto
  obtain p' where p': "log p' = log p" "receive_request P A U G Y permission r rb (decoder_with_limits mode l) (Some p) expect =
      map_option (\<lambda>(fin, st). (fin, rv_buffer st, rv_reader st, Some (rv_producer st))) (receive_body P A U G Y r rb (decoder_with_limits mode l) p')"
    using receive_request_granted [OF assms(7,11), of p P A U Y r rb "decoder_with_limits mode l" expect] by blast
  from body_driver_takes [OF assms(1-10) False, of p'] p' some show ?thesis by auto
qed

text \<open>
  C1. A server receives exactly the request its peer sent, in whatever pieces it arrives and on
  either receive policy. Reading the whole stream at once gives a head, the body its framing selects
  and what follows: then the head loop returns that head, the receiver completes, the frames handed
  to the service carry that payload and then the trailers, and what follows is still unread.
\<close>

theorem server_receives_request:
  assumes "buffer_laws U" "reader_laws T" "parse_headers_law P" "stream_transport T input"
    and "he_read X = portable_read U T \<or> he_read X = tcp_read U T" "prompt X" "rc_read Y = he_read X" "punctual Y" "willing G log"
    and "recv_ok U rb" "hl_max_bytes hl < rb_max_retained rb" "leftover_bound (decoder_with_limits (vreq_body head) l) < rb_max_retained rb"
    and "request_of P A (head_parser_with_limits hl) (recv_bytes U rb @ input r) = (SH_Head head, rest)"
    and "body_of P A (vreq_body head) l rest = (pay, Ended t, left)"
  shows "\<exists>st. server_head P A U X \<lparr>hs_buffer = rb, hs_parser = head_parser_with_limits hl, hs_reader = r\<rparr> = Some (SH_Head head, st)
    \<and> (\<exists>rb' r' p'. receive_request P A U G Y (Some (Ok ())) (hs_reader st) (hs_buffer st) (decoder_with_limits (vreq_body head) l)
            (fst (incoming_for chan (vreq_body head))) expect = Some (RE_Complete, rb', r', p')
         \<and> recv_bytes U rb' @ input r' = left
         \<and> (\<exists>ds. log (case p' of Some p \<Rightarrow> p | None \<Rightarrow> fst chan) = log (fst chan) @ ds @ trailers_frames t
              \<and> \<not> has_trailers ds \<and> payload as_ref ds = pay))"
proof -
  let ?st = "\<lparr>hs_buffer = rb, hs_parser = head_parser_with_limits hl, hs_reader = r\<rparr>"
  have ready: "head_ready U input (head_parser_with_limits hl) (rb_max_retained rb) (recv_bytes U rb @ input r) ?st"
    using assms(10,11) parser_ok_new [of hl] by (simp add: head_ready_def head_parser_with_limits_def)
  obtain out where "server_head P A U X ?st = Some out" "server_answer U input (rb_max_retained rb) (SH_Head head, rest) out"
    using server_head_answers [OF assms(1) policies(1) [OF assms(5)] _ assms(4,6) ready, of P A] assms(1,2,13) by auto
  then obtain st where head: "server_head P A U X ?st = Some (SH_Head head, st)" and st: "recv_ok U (hs_buffer st)"
      "recv_bytes U (hs_buffer st) @ input (hs_reader st) = rest" "rb_max_retained (hs_buffer st) = rb_max_retained rb"
    by (cases out) (auto simp: server_answer_def)
  have body: "body_of P A (vreq_body head) l (recv_bytes U (hs_buffer st) @ input (hs_reader st)) = (pay, Ended t, left)"
    using st(2) assms(14) by simp
  have read: "rc_read Y = portable_read U T \<or> rc_read Y = tcp_read U T" using assms(5,7) by simp
  have room: "leftover_bound (decoder_with_limits (vreq_body head) l) < rb_max_retained (hs_buffer st)"
    using assms(12) st(3) by simp
  from request_body_taken [OF assms(1-4) read assms(8,9) st(1) room body refl, of chan expect] head
  show ?thesis by blast
qed

section \<open>A client receives a response\<close>

text \<open>What an application that takes everything is given: the informational heads, then the final one with its body.\<close>

definition events_of ::
  "'h response_head list \<Rightarrow> 'h validated_response_head \<Rightarrow> 'p \<times> 'c \<Rightarrow> drain_config \<Rightarrow> ('h, 'c) client_event list" where
  "events_of heads head chan dc =
     map EV_Informational heads @ [EV_Final (vresp_head head, with_drain_config (snd (incoming_for chan (vresp_body head))) dc)]"

lemma client_body_taken:
  assumes "buffer_laws U" "reader_laws T" "parse_headers_law P" "stream_transport T input"
    and "rc_read Y = portable_read U T \<or> rc_read Y = tcp_read U T" "punctual Y" "willing G log"
    and "client_head P A U B X st0 = Some (Ok head, st)" "recv_ok U (hs_buffer (cl_head st))"
    and "leftover_bound (decoder_with_limits (vresp_body head) l) < rb_max_retained (hs_buffer (cl_head st))"
    and "ob_offer B (EV_Final (vresp_head head, with_drain_config (snd (incoming_for chan (vresp_body head))) dc)) (cl_observer st) = (True, q)"
    and "body_of P A (vresp_body head) l (recv_bytes U (hs_buffer (cl_head st)) @ input (hs_reader (cl_head st))) = (pay, Ended t, left)"
  shows "\<exists>rb' r' p'. client_receive P A U B G X Y l dc chan st0 =
        Some (Ok \<lparr>rr_end = RE_Complete, rr_buffer = rb', rr_policy = cl_policy st\<rparr>, r', cl_control st, ob_close B q, p')
    \<and> recv_bytes U rb' @ input r' = left
    \<and> (\<exists>ds. log p' = log (fst chan) @ ds @ trailers_frames t \<and> \<not> has_trailers ds \<and> payload as_ref ds = pay)"
proof (cases "vresp_body head = BM_None \<or> vresp_body head = BM_Fixed 0")
  case True
  then have none: "fst (incoming_for chan (vresp_body head)) = None" by (simp add: incoming_for_none)
  from True assms(12) have "pay = []" "t = None" "left = recv_bytes U (hs_buffer (cl_head st)) @ input (hs_reader (cl_head st))"
    by (auto simp: body_of_def)
  moreover have "client_receive P A U B G X Y l dc chan st0 =
      Some (Ok \<lparr>rr_end = RE_Complete, rr_buffer = hs_buffer (cl_head st), rr_policy = cl_policy st\<rparr>,
        hs_reader (cl_head st), cl_control st, ob_close B q, fst chan)"
    using assms(8,11) none by (simp add: client_receive_def case_prod_beta Let_def)
  moreover have "\<exists>ds. log (fst chan) = log (fst chan) @ ds @ trailers_frames None \<and> \<not> has_trailers ds \<and> payload as_ref ds = []"
    by (intro exI [of _ "[]"]) (simp add: payload_def)
  ultimately show ?thesis by simp
next
  case False
  then have some: "fst (incoming_for chan (vresp_body head)) = Some (fst chan)"
    using incoming_for_none [of chan "vresp_body head"] incoming_for_some [of chan "vresp_body head"]
    by (cases "fst (incoming_for chan (vresp_body head))") auto
  obtain rv where rv: "receive_body P A U G Y (hs_reader (cl_head st)) (hs_buffer (cl_head st)) (decoder_with_limits (vresp_body head) l) (fst chan)
        = Some (RE_Complete, rv)" "recv_bytes U (rv_buffer rv) @ input (rv_reader rv) = left"
      "\<exists>ds. log (rv_producer rv) = log (fst chan) @ ds @ trailers_frames t \<and> \<not> has_trailers ds \<and> payload as_ref ds = pay"
    using body_driver_takes [OF assms(1-7,9,10,12) False, of "fst chan"] by blast
  have "client_receive P A U B G X Y l dc chan st0 =
      Some (Ok \<lparr>rr_end = RE_Complete, rr_buffer = rv_buffer rv, rr_policy = cl_policy st\<rparr>,
        rv_reader rv, cl_control st, ob_close B q, rv_producer rv)"
    using assms(8,11) some rv(1) by (simp add: client_receive_def case_prod_beta Let_def)
  then show ?thesis using rv(2,3) by simp
qed

text \<open>
  C2. A client receives exactly the response its peer sent, in whatever pieces it arrives and on
  either receive policy. Reading the whole stream at once gives the informational heads that the
  exchange policy accepts, the final head, the body its framing selects and what follows: then the
  application is given those heads in that order and then the final response, the frames of its
  body carry that payload and then the trailers, Continue is allowed, the policy is the one those
  heads lead to, and what follows is still unread.
\<close>

theorem client_receives_response:
  assumes "buffer_laws U" "reader_laws T" "parse_headers_law P" "stream_transport T input"
    and "he_read X = portable_read U T \<or> he_read X = tcp_read U T" "prompt X" "rc_read Y = he_read X" "punctual Y"
    and "willing G log" "attentive B seen"
    and "recv_ok U rb" "hl_max_bytes hl < rb_max_retained rb" "leftover_bound (decoder_with_limits (vresp_body head) l) < rb_max_retained rb"
    and "responses_of P A (head_parser_with_limits hl) policy (recv_bytes U rb @ input r) = (heads, Ok (head, policy', rest))"
    and "body_of P A (vresp_body head) l rest = (pay, Ended t, left)"
  shows "\<exists>rr r' k q p'.
      client_receive P A U B G X Y l dc chan
        \<lparr>cl_head = \<lparr>hs_buffer = rb, hs_parser = head_parser_with_limits hl, hs_reader = r\<rparr>,
         cl_policy = policy, cl_control = control, cl_observer = q0\<rparr> = Some (Ok rr, r', k, q, p')
    \<and> rr_end rr = RE_Complete \<and> rr_policy rr = policy' \<and> ct_continue_allowed k
    \<and> seen q = seen q0 @ events_of heads head chan dc
    \<and> recv_bytes U (rr_buffer rr) @ input r' = left
    \<and> (\<exists>ds. log p' = log (fst chan) @ ds @ trailers_frames t \<and> \<not> has_trailers ds \<and> payload as_ref ds = pay)"
proof -
  let ?st = "\<lparr>cl_head = \<lparr>hs_buffer = rb, hs_parser = head_parser_with_limits hl, hs_reader = r\<rparr>,
      cl_policy = policy, cl_control = control, cl_observer = q0\<rparr>"
  have ready: "head_ready U input (head_parser_with_limits hl) (rb_max_retained rb)
      (recv_bytes U (hs_buffer (cl_head ?st)) @ input (hs_reader (cl_head ?st))) (cl_head ?st)"
    using assms(11,12) parser_ok_new [of hl] by (simp add: head_ready_def head_parser_with_limits_def)
  have clear: "clear_workspace (head_parser_with_limits hl)"
    by (simp add: clear_workspace_def head_parser_with_limits_def workspace_clear_def workspace_new_def map_replicate_const)
  obtain out where "client_head P A U B X ?st = Some out"
      "client_answer U seen (seen q0) input (rb_max_retained rb) (heads, Ok (head, policy', rest)) out"
    using client_head_answers [OF assms(1) policies(1) [OF assms(5)] _ assms(4,6,10) clear ready, of P A] assms(1,2,14) by auto
  then obtain st where hd: "client_head P A U B X ?st = Some (Ok head, st)" and st: "recv_ok U (hs_buffer (cl_head st))"
      "recv_bytes U (hs_buffer (cl_head st)) @ input (hs_reader (cl_head st)) = rest" "rb_max_retained (hs_buffer (cl_head st)) = rb_max_retained rb"
      "cl_policy st = policy'" "ct_continue_allowed (cl_control st)" "seen (cl_observer st) = seen q0 @ map EV_Informational heads"
    by (cases out) (auto simp: client_answer_def)
  let ?event = "EV_Final (vresp_head head, with_drain_config (snd (incoming_for chan (vresp_body head))) dc)"
  obtain q where q: "ob_offer B ?event (cl_observer st) = (True, q)" "seen q = seen (cl_observer st) @ [?event]"
    using assms(10) unfolding attentive_def by meson
  have closed: "seen (ob_close B q) = seen q0 @ events_of heads head chan dc"
    using assms(10) q(2) st(6) by (simp add: attentive_def events_of_def)
  have body: "body_of P A (vresp_body head) l (recv_bytes U (hs_buffer (cl_head st)) @ input (hs_reader (cl_head st))) = (pay, Ended t, left)"
    using st(2) assms(15) by simp
  have read: "rc_read Y = portable_read U T \<or> rc_read Y = tcp_read U T" using assms(5,7) by simp
  have room: "leftover_bound (decoder_with_limits (vresp_body head) l) < rb_max_retained (hs_buffer (cl_head st))"
    using assms(13) st(3) by simp
  from client_body_taken [OF assms(1-4) read assms(8,9) hd st(1) room q(1) body]
  show ?thesis using st(4,5) closed by auto
qed

section \<open>A concrete exchange\<close>

text \<open>
  A parser that knows three heads: a POST with a body of two bytes, an informational response, and
  a final response with a body of two bytes.
\<close>

definition demo_httparse :: httparse_api where
  "demo_httparse =
     empty_httparse\<lparr>
       parse_request := (\<lambda>v n.
         if v = [71, LF, LF]
         then Ok (Complete (3, \<lparr>rq_method = Some (bstr ''POST''), rq_path = Some (bstr ''/''), rq_version = Some 1,
                rq_headers = [\<lparr>rh_name = bstr ''host'', rh_value = bstr ''h''\<rparr>, \<lparr>rh_name = bstr ''content-length'', rh_value = bstr ''2''\<rparr>]\<rparr>))
         else Err TokenError),
       parse_response := (\<lambda>v n.
         if v = [73, LF, LF] then Ok (Complete (3, \<lparr>rs_version = Some 1, rs_code = Some 103, rs_headers = []\<rparr>))
         else if v = [70, LF, LF]
         then Ok (Complete (3, \<lparr>rs_version = Some 1, rs_code = Some 200,
                rs_headers = [\<lparr>rh_name = bstr ''content-length'', rh_value = bstr ''2''\<rparr>]\<rparr>))
         else Err TokenError)\<rparr>"

lemma demo_httparse_law: "parse_headers_law demo_httparse"
  using empty_httparse_law by (simp add: parse_headers_law_def demo_httparse_def)

definition demo_head_env :: "(bytes \<times> nat, bytes) head_env" where
  "demo_head_env =
     \<lparr>he_read = tcp_read list_buffer list_reader, he_deadline = Some 10, he_late = (\<lambda>_. False), he_expired = (\<lambda>_. False), he_stopped = (\<lambda>_. False)\<rparr>"

lemma demo_head_env_prompt: "prompt demo_head_env"
  by (simp add: prompt_def demo_head_env_def deadline_passed_def)

definition demo_observer :: "('e list, 'e) observer_api" where
  "demo_observer = \<lparr>ob_offer = (\<lambda>e q. (True, q @ [e])), ob_late = (\<lambda>_. False), ob_close = (\<lambda>q. q)\<rparr>"

lemma demo_observer_attentive: "attentive demo_observer (\<lambda>q. q)"
  by (simp add: attentive_def demo_observer_def)

definition demo_buffer :: "bytes \<Rightarrow> (bytes \<times> nat) recv_buffer" where
  "demo_buffer v = \<lparr>rb_storage = RS_Portable (v, 8), rb_managed_permit = None, rb_preferred_read = 2, rb_max_retained = 100000\<rparr>"

definition demo_limits :: head_limits where
  "demo_limits = \<lparr>hl_max_bytes = 16, hl_max_headers = 4\<rparr>"

text \<open>The stream arrives two bytes at a time, the first of them read before.\<close>

lemma demo_request:
  "\<exists>head. request_of demo_httparse alist_http (head_parser_with_limits demo_limits) [71, LF, LF, 104, 105, 90] = (SH_Head head, [104, 105, 90])
     \<and> vreq_body head = BM_Fixed 2"
proof -
  have "(case request_of demo_httparse alist_http (head_parser_with_limits demo_limits) [71, LF, LF, 104, 105, 90] of
      (SH_Head head, rest) \<Rightarrow> vreq_body head = BM_Fixed 2 \<and> rest = [104, 105, 90] | _ \<Rightarrow> False)" by code_simp
  then show ?thesis by (auto split: prod.splits server_head_end.splits)
qed

lemma demo_body: "body_of demo_httparse alist_http (BM_Fixed 2) decode_limits_default [104, 105, 90] = ([104, 105], Ended None, [90])"
  by code_simp

definition demo_policy :: exchange_policy where
  "demo_policy =
     \<lparr>xp_phase = AwaitingHead, xp_persistence = Reusable, xp_method = ''GET'', xp_upgrade = None,
      xp_offered_protocols = [], xp_informational = 0, xp_max_informational = 5\<rparr>"

lemma demo_responses:
  "\<exists>info head policy. responses_of demo_httparse alist_http (head_parser_with_limits demo_limits) demo_policy
        [73, LF, LF, 70, LF, LF, 104, 105, 90] = ([info], Ok (head, policy, [104, 105, 90]))
     \<and> resp_status info = 103 \<and> vresp_body head = BM_Fixed 2"
proof -
  have "(case responses_of demo_httparse alist_http (head_parser_with_limits demo_limits) demo_policy
        [73, LF, LF, 70, LF, LF, 104, 105, 90] of
      ([info], Ok (head, policy, rest)) \<Rightarrow> resp_status info = 103 \<and> vresp_body head = BM_Fixed 2 \<and> rest = [104, 105, 90]
    | _ \<Rightarrow> False)" by code_simp
  then show ?thesis by (auto split: prod.splits list.splits result.splits)
qed

lemma demo_setup:
  "recv_ok list_buffer (demo_buffer v) \<longleftrightarrow> length v \<le> 100000"
  "recv_bytes list_buffer (demo_buffer v) = v"
  "hl_max_bytes demo_limits < rb_max_retained (demo_buffer v)"
  "leftover_bound (decoder_with_limits (BM_Fixed 2) decode_limits_default) < rb_max_retained (demo_buffer v)"
  "he_read demo_head_env = portable_read list_buffer list_reader \<or> he_read demo_head_env = tcp_read list_buffer list_reader"
  "rc_read list_receive_env = he_read demo_head_env"
  by (simp_all add: demo_buffer_def recv_ok_def recv_bytes_def list_buffer_def demo_limits_def demo_head_env_def list_receive_env_def
      leftover_bound_def decoder_with_limits_def decode_limits_default_def)

theorem server_receives_request_witness:
  "\<exists>head st rb' r' p'. server_head demo_httparse alist_http list_buffer demo_head_env
        \<lparr>hs_buffer = demo_buffer [71], hs_parser = head_parser_with_limits demo_limits, hs_reader = [LF, LF, 104, 105, 90]\<rparr> = Some (SH_Head head, st)
     \<and> receive_request demo_httparse alist_http list_buffer list_producer list_receive_env (Some (Ok ())) (hs_reader st) (hs_buffer st)
         (decoder_with_limits (vreq_body head) decode_limits_default) (fst (incoming_for ([], ()) (vreq_body head))) True = Some (RE_Complete, rb', r', p')
     \<and> recv_bytes list_buffer rb' @ r' = [90]"
proof -
  obtain head where head: "request_of demo_httparse alist_http (head_parser_with_limits demo_limits)
      (recv_bytes list_buffer (demo_buffer [71]) @ [LF, LF, 104, 105, 90]) = (SH_Head head, [104, 105, 90])" "vreq_body head = BM_Fixed 2"
    using demo_request by (auto simp: demo_setup)
  have ok: "recv_ok list_buffer (demo_buffer [71])" "leftover_bound (decoder_with_limits (vreq_body head) decode_limits_default) < rb_max_retained (demo_buffer [71])"
    "body_of demo_httparse alist_http (vreq_body head) decode_limits_default [104, 105, 90] = ([104, 105], Ended None, [90])"
    using head(2) demo_body by (simp_all add: demo_setup)
  from server_receives_request [OF list_buffer_laws list_reader_laws demo_httparse_law list_reader_stream demo_setup(5) demo_head_env_prompt
      demo_setup(6) list_receive_env_punctual list_producer_willing ok(1) demo_setup(3) ok(2) head(1) ok(3), of "([], ())" True]
  show ?thesis by blast
qed

theorem client_receives_response_witness:
  "\<exists>info head rr r' k q p'. client_receive demo_httparse alist_http list_buffer demo_observer list_producer demo_head_env list_receive_env
        decode_limits_default drain_config_default ([], ())
        \<lparr>cl_head = \<lparr>hs_buffer = demo_buffer [73], hs_parser = head_parser_with_limits demo_limits, hs_reader = [LF, LF, 70, LF, LF, 104, 105, 90]\<rparr>,
         cl_policy = demo_policy, cl_control = control_fresh, cl_observer = []\<rparr> = Some (Ok rr, r', k, q, p')
     \<and> q = events_of [info] head ([] :: alist in_frame list, ()) drain_config_default \<and> resp_status info = 103
     \<and> recv_bytes list_buffer (rr_buffer rr) @ r' = [90]"
proof -
  obtain info head policy where head: "responses_of demo_httparse alist_http (head_parser_with_limits demo_limits) demo_policy
      (recv_bytes list_buffer (demo_buffer [73]) @ [LF, LF, 70, LF, LF, 104, 105, 90]) = ([info], Ok (head, policy, [104, 105, 90]))"
      "resp_status info = 103" "vresp_body head = BM_Fixed 2"
    using demo_responses by (auto simp: demo_setup)
  have ok: "recv_ok list_buffer (demo_buffer [73])" "leftover_bound (decoder_with_limits (vresp_body head) decode_limits_default) < rb_max_retained (demo_buffer [73])"
    "body_of demo_httparse alist_http (vresp_body head) decode_limits_default [104, 105, 90] = ([104, 105], Ended None, [90])"
    using head(3) demo_body by (simp_all add: demo_setup)
  from client_receives_response [OF list_buffer_laws list_reader_laws demo_httparse_law list_reader_stream demo_setup(5) demo_head_env_prompt
      demo_setup(6) list_receive_env_punctual list_producer_willing demo_observer_attentive ok(1) demo_setup(3) ok(2) head(1) ok(3),
      of drain_config_default "([], ())" control_fresh "[]"] head(2)
  show ?thesis by (intro exI [of _ info] exI [of _ head]) auto
qed

end
