(* ===== verification/Message_Send.thy ===== *)
theory Message_Send
  imports Body_Send
begin

text \<open>
  Sending one message, as the client driver does for requests and the server driver for responses
  (\<open>src/src/proto/h1/client.rs\<close> and \<open>server.rs\<close>): the bytes of the prepared head, then the body
  unless the framing has none, then a flush. What the transport has accepted is compared with the
  message as encoded.
\<close>

section \<open>Body and flush\<close>

text \<open>The end of \<open>send_request\<close> and of \<open>write_response\<close>. \<open>describe\<close> names the body's own errors.\<close>

definition transmit_body ::
  "('h, 'u) http_api \<Rightarrow> allocator \<Rightarrow> ('s, 'w) send_env \<Rightarrow> 'w writer_api \<Rightarrow> ('s, 'd, 'h, 'e) body_impl \<Rightarrow> ('e \<Rightarrow> string)
     \<Rightarrow> string \<Rightarrow> string \<Rightarrow> body_mode \<Rightarrow> body_encoder \<Rightarrow> 's \<Rightarrow> 'w \<Rightarrow> ((unit, error) result \<times> 'w) option" where
  "transmit_body A M E W B describe failed canceled mode enc body w =
     (let flush = (\<lambda>w. case wr_flush W w of (res, w') \<Rightarrow> (map_err error_from_io res, w')) in
      if mode = BM_None then Some (flush w)
      else
        (case send_body A M E W B w body enc of
           None \<Rightarrow> None
         | Some (Err e, st) \<Rightarrow> Some (Err (map_send_error describe e failed canceled), sd_writer st)
         | Some (Ok _, st) \<Rightarrow> Some (flush (sd_writer st))))"

section \<open>What reaches the transport\<close>

text \<open>
  A run that has the bytes \<open>all\<close> to send and may end well when \<open>fine\<close>: a prefix was accepted, all
  of it on success, and success is certain when \<open>sure\<close>.
\<close>

definition sent_message :: "('w \<Rightarrow> bytes) \<Rightarrow> bytes \<Rightarrow> bool \<Rightarrow> bool \<Rightarrow> 'w \<Rightarrow> ('a, error) result \<times> 'w \<Rightarrow> bool" where
  "sent_message sent all fine sure w out \<longleftrightarrow>
     (\<exists>k \<le> length all. sent (snd out) = sent w @ take k all
        \<and> (is_ok (fst out) \<longrightarrow> k = length all \<and> fine))
   \<and> (sure \<and> fine \<longrightarrow> is_ok (fst out))"

lemma sent_message_after:
  assumes "sent w' = sent w @ before" "sent_message sent rest fine sure w' out"
  shows "sent_message sent (before @ rest) fine sure w out"
proof -
  obtain k where k: "k \<le> length rest" "sent (snd out) = sent w' @ take k rest" "is_ok (fst out) \<longrightarrow> k = length rest \<and> fine"
    using assms(2) by (auto simp: sent_message_def)
  then have "sent (snd out) = sent w @ take (length before + k) (before @ rest)" using assms(1) by simp
  then show ?thesis using k assms(2) unfolding sent_message_def
    by (intro conjI exI [of _ "length before + k"]) auto
qed

lemma sent_message_failed:
  "\<lbrakk>k \<le> length all; sent w' = sent w @ take k all; \<not> sure\<rbrakk> \<Longrightarrow> sent_message sent all fine sure w (Err e, w')"
  by (auto simp: sent_message_def)

lemma sent_message_mono:
  "\<lbrakk>sent_message sent all fine sure w out; sure' \<Longrightarrow> sure\<rbrakk> \<Longrightarrow> sent_message sent all fine sure' w out"
  by (auto simp: sent_message_def)

lemma sent_message_result:
  "\<lbrakk>sent_message sent all fine sure w out; is_ok (fst out') = is_ok (fst out); snd out' = snd out\<rbrakk>
     \<Longrightarrow> sent_message sent all fine sure w out'"
  by (simp add: sent_message_def)

lemma is_ok_map_err [simp]: "is_ok (map_err f r) = is_ok r"
  by (cases r) simp_all

lemma flush_sends:
  assumes "writer_laws W sent" "sure \<longrightarrow> reliable W"
  shows "sent_message sent [] True sure w (case wr_flush W w of (res, w') \<Rightarrow> (map_err error_from_io res, w'))"
  using assms by (auto simp: sent_message_def writer_laws_def reliable_def split: prod.splits) (metis fst_conv snd_conv)+

lemma transmit_body_sends:
  assumes laws: "writer_laws W sent" "patient W patience"
    and run: "run_body n (recycling B) s = (fs, Some r, t)"
    and wire: "wire_of A M (frame_bytes B) enc False fs (r = Ok ()) = (wire, fine)"
  shows "\<exists>out. transmit_body A M E W B describe failed canceled mode enc s w = Some out
    \<and> sent_message sent (if mode = BM_None then [] else wire) (mode = BM_None \<or> fine) (reliable_send E W B) w out"
proof (cases "mode = BM_None")
  case True
  then show ?thesis using flush_sends [OF laws(1), of "reliable_send E W B" w]
    by (auto simp: transmit_body_def reliable_send_def)
next
  case False
  obtain res st k where body: "send_body A M E W B w s enc = Some (res, st)" "k \<le> length wire" "sent (sd_writer st) = sent w @ take k wire"
      "\<forall>stats. res = Ok stats \<longrightarrow> k = length wire \<and> fine" "reliable_send E W B \<and> fine \<longrightarrow> is_ok res"
    using send_body_sends [OF laws run wire, of E w] by auto
  show ?thesis
  proof (cases res)
    case (Err e)
    then have "sent_message sent wire fine (reliable_send E W B) w (Err (map_send_error describe e failed canceled), sd_writer st)"
      using body(2,3,5) by (auto simp: sent_message_def)
    then show ?thesis using False body(1) Err by (simp add: transmit_body_def)
  next
    case (Ok stats)
    then have all: "sent (sd_writer st) = sent w @ wire" "fine" using body(3,4) by auto
    have "sent_message sent wire True (reliable_send E W B) w
        (case wr_flush W (sd_writer st) of (res, w') \<Rightarrow> (map_err error_from_io res, w'))"
      using sent_message_after [where out = "case wr_flush W (sd_writer st) of (res, w') \<Rightarrow> (map_err error_from_io res, w')",
          OF all(1) flush_sends [OF laws(1), of "reliable_send E W B"]]
      by (simp add: reliable_send_def)
    then show ?thesis using False body(1) Ok all(2) by (simp add: transmit_body_def)
  qed
qed

text \<open>The head first; then whatever \<open>rest\<close> does.\<close>

lemma head_then:
  assumes "writer_laws W sent" "patient W patience" "sure \<longrightarrow> reliable W"
    and "\<And>w'. sent w' = sent w @ head \<Longrightarrow> \<exists>out. rest w' = Some out \<and> sent_message sent body fine sure w' out"
  shows "\<exists>out. (case write_all W head w of
        None \<Rightarrow> None
      | Some (Err e, w') \<Rightarrow> Some (Err (error_from_io e), w')
      | Some (Ok _, w') \<Rightarrow> rest w') = Some out
    \<and> sent_message sent (head @ body) fine sure w out"
proof -
  obtain res w' where w: "write_all W head w = Some (res, w')" "wrote sent head w (res, w')" "reliable W \<longrightarrow> is_ok res"
    using write_all_wrote [OF assms(1,2), of head w] by auto
  show ?thesis
  proof (cases res)
    case (Err e)
    obtain k where "k \<le> length head" "sent w' = sent w @ take k head" using w(2) by (auto simp: wrote_def)
    then have "sent_message sent (head @ body) fine sure w (Err (error_from_io e), w')"
      using assms(3) w(3) Err by (intro sent_message_failed [of k]) auto
    then show ?thesis using w(1) Err by simp
  next
    case (Ok u)
    then have "sent w' = sent w @ head" using w(2) by (auto simp: wrote_def)
    then show ?thesis using assms(4) [of w'] w(1) Ok sent_message_after [of sent w' w head body] by auto
  qed
qed

lemma small_full_body_run: "run_body 2 (recycling small_full_body) (FS_Ready ()) = ([DataFrame ()], Some (Ok ()), FS_Done)"
  by (simp add: numeral_2_eq_2 recycling_def small_full_body_def full_body_def full_next_def default_recycle_def)

end
