(* ===== verification/Connection_Control.thy ===== *)
theory Connection_Control
  imports Vakya_Errors Pipe "HOL-Library.Option_ord"
begin

text \<open>
  The control handle of a connection, from \<open>src/src/connection.rs\<close>: shutdown requests, the
  tasks they wake, the watch for an abort or an expired deadline, and the way \<open>drive\<close> turns
  them into the result of the connection.

  An instant is a number. Wakers and polls are as in \<open>Pipe\<close>. Whether the timer of a deadline
  has fired is an argument of the poll.

  Requests only ever make shutdown more urgent. This is an order on \<open>shutdown\<close>, and a request
  is the maximum of the current state and what it asks for.
\<close>

section \<open>Shutdown state\<close>

type_synonym instant = nat

datatype shutdown = Running | Graceful "instant option" | Aborted

definition shutdown_graceful :: "shutdown \<Rightarrow> instant option \<Rightarrow> shutdown" where
  "shutdown_graceful s requested =
     (case s of
        Aborted \<Rightarrow> Aborted
      | Running \<Rightarrow> Graceful requested
      | Graceful deadline \<Rightarrow>
          Graceful (case (deadline, requested) of
             (Some old, Some new) \<Rightarrow> Some (min old new)
           | (old, new) \<Rightarrow> (if old \<noteq> None then old else new)))"

record control_state =
  cs_shutdown :: shutdown
  cs_recover_transport :: bool
  cs_driver :: "waker option"
  cs_admission :: "waker option"
  cs_idle :: "waker option"

definition control_new :: control_state where
  "control_new =
     \<lparr>cs_shutdown = Running, cs_recover_transport = False, cs_driver = None, cs_admission = None, cs_idle = None\<rparr>"

definition recover_transport :: "control_state \<Rightarrow> control_state" where
  "recover_transport s = s\<lparr>cs_recover_transport := True\<rparr>"

definition recovering :: "control_state \<Rightarrow> bool" where
  "recovering s = cs_recover_transport s"

definition control_wake :: "control_state \<Rightarrow> control_state \<times> waker list" where
  "control_wake s =
     (s\<lparr>cs_driver := None, cs_admission := None, cs_idle := None\<rparr>,
      wake_one (cs_driver s) @ wake_one (cs_admission s) @ wake_one (cs_idle s))"

definition graceful_shutdown :: "control_state \<Rightarrow> control_state \<times> waker list" where
  "graceful_shutdown s = control_wake (s\<lparr>cs_shutdown := shutdown_graceful (cs_shutdown s) None\<rparr>)"

definition control_abort :: "control_state \<Rightarrow> control_state \<times> waker list" where
  "control_abort s = control_wake (s\<lparr>cs_shutdown := Aborted\<rparr>)"

definition graceful_shutdown_with_deadline :: "instant \<Rightarrow> control_state \<Rightarrow> control_state \<times> waker list" where
  "graceful_shutdown_with_deadline deadline s =
     control_wake (s\<lparr>cs_shutdown := shutdown_graceful (cs_shutdown s) (Some deadline)\<rparr>)"

definition stopping :: "control_state \<Rightarrow> bool" where
  "stopping s \<longleftrightarrow> cs_shutdown s \<noteq> Running"

definition admission_waker :: "waker \<Rightarrow> control_state \<Rightarrow> control_state" where
  "admission_waker w s = s\<lparr>cs_admission := Some w\<rparr>"

definition stopped_poll :: "waker \<Rightarrow> control_state \<Rightarrow> unit poll \<times> control_state" where
  "stopped_poll w s = (if stopping s then (Ready (), s) else (Pending, s\<lparr>cs_idle := Some w\<rparr>))"

section \<open>Watching for an abort\<close>

text \<open>
  \<open>abort_requested\<close> first waits for an abort or a deadline and then for the deadline or a
  change of the request; a change starts it over within the same poll.
\<close>

datatype abort_watch = AW_Request | AW_Timer instant

definition abort_timer ::
  "(instant \<Rightarrow> bool) \<Rightarrow> instant \<Rightarrow> control_state \<Rightarrow> error_kind poll \<times> abort_watch \<times> control_state \<times> waker list" where
  "abort_timer fired deadline s =
     (if fired deadline
      then (case control_wake (s\<lparr>cs_shutdown := Aborted\<rparr>) of (s', ws) \<Rightarrow> (Ready KTimeout, AW_Timer deadline, s', ws))
      else (Pending, AW_Timer deadline, s, []))"

definition abort_request ::
  "(instant \<Rightarrow> bool) \<Rightarrow> control_state \<Rightarrow> error_kind poll \<times> abort_watch \<times> control_state \<times> waker list" where
  "abort_request fired s =
     (case cs_shutdown s of
        Aborted \<Rightarrow> (Ready KCanceled, AW_Request, s, [])
      | Graceful (Some deadline) \<Rightarrow> abort_timer fired deadline s
      | _ \<Rightarrow> (Pending, AW_Request, s, []))"

definition abort_requested_poll ::
  "(instant \<Rightarrow> bool) \<Rightarrow> waker \<Rightarrow> abort_watch \<Rightarrow> control_state \<Rightarrow> error_kind poll \<times> abort_watch \<times> control_state \<times> waker list" where
  "abort_requested_poll fired w watch s =
     (let s = s\<lparr>cs_driver := Some w\<rparr> in
      case watch of
        AW_Request \<Rightarrow> abort_request fired s
      | AW_Timer deadline \<Rightarrow>
          if cs_shutdown s \<noteq> Graceful (Some deadline) then abort_request fired s else abort_timer fired deadline s)"

section \<open>The result of a connection\<close>

text \<open>
  \<open>drive\<close> after the race: the retained work ended first, or an abort or a deadline won, the
  work was cancelled and then ended.
\<close>

datatype 'a drive_end = WorkEnded "('a, error) result" | AbortWon error_kind "('a, error) result"

definition drive_result :: "'a drive_end \<Rightarrow> ('a, error) result" where
  "drive_result ended =
     (case ended of
        WorkEnded r \<Rightarrow> r
      | AbortWon kind r \<Rightarrow>
          (case r of
             Err e \<Rightarrow>
               if \<not> is_canceled e then Err e
               else Err (classified (error_new kind ''connection shutdown requested'')
                      (if kind = KTimeout then Some (DTimeout PShutdown) else None))
           | Ok _ \<Rightarrow> Err (classified (error_new kind ''connection shutdown requested'')
                      (if kind = KTimeout then Some (DTimeout PShutdown) else None))))"

definition drive_guard_drop :: "control_state \<Rightarrow> control_state \<times> waker list" where
  "drive_guard_drop s = control_wake (s\<lparr>cs_shutdown := shutdown_graceful (cs_shutdown s) None\<rparr>)"

section \<open>Urgency\<close>

text \<open>An earlier deadline is more urgent than a later one, and a later one than none.\<close>

instantiation shutdown :: linorder
begin

fun less_eq_shutdown :: "shutdown \<Rightarrow> shutdown \<Rightarrow> bool" where
  "less_eq_shutdown Running s \<longleftrightarrow> True"
| "less_eq_shutdown s Aborted \<longleftrightarrow> True"
| "less_eq_shutdown (Graceful None) (Graceful d) \<longleftrightarrow> True"
| "less_eq_shutdown (Graceful (Some a)) (Graceful (Some b)) \<longleftrightarrow> b \<le> a"
| "less_eq_shutdown _ _ \<longleftrightarrow> False"

definition less_shutdown :: "shutdown \<Rightarrow> shutdown \<Rightarrow> bool" where
  "less_shutdown s t \<longleftrightarrow> s \<le> t \<and> \<not> t \<le> (s :: shutdown)"

instance
proof
  fix x y z :: shutdown
  show "(x < y) = (x \<le> y \<and> \<not> y \<le> x)" by (simp add: less_shutdown_def)
  show "x \<le> x" by (cases "(x, x)" rule: less_eq_shutdown.cases) auto
  show "x \<le> y \<Longrightarrow> y \<le> z \<Longrightarrow> x \<le> z"
    by (cases "(x, y)" rule: less_eq_shutdown.cases; cases "(y, z)" rule: less_eq_shutdown.cases; auto)
  show "x \<le> y \<Longrightarrow> y \<le> x \<Longrightarrow> x = y"
    by (cases "(x, y)" rule: less_eq_shutdown.cases; cases "(y, x)" rule: less_eq_shutdown.cases; auto)
  show "x \<le> y \<or> y \<le> x"
    by (cases "(x, y)" rule: less_eq_shutdown.cases; cases "(y, x)" rule: less_eq_shutdown.cases; auto)
qed

end

lemma shutdown_graceful_max: "shutdown_graceful s d = max s (Graceful d)"
  by (cases s; cases d) (auto simp: shutdown_graceful_def max_def split: option.splits)

lemma Aborted_max [simp]: "max s Aborted = Aborted"
  by (cases s) (auto simp: max_def)

datatype control_request = RQ_Graceful | RQ_Deadline instant | RQ_Abort

definition request :: "control_request \<Rightarrow> control_state \<Rightarrow> control_state \<times> waker list" where
  "request r s =
     (case r of
        RQ_Graceful \<Rightarrow> graceful_shutdown s
      | RQ_Deadline d \<Rightarrow> graceful_shutdown_with_deadline d s
      | RQ_Abort \<Rightarrow> control_abort s)"

definition asked :: "control_request \<Rightarrow> shutdown" where
  "asked r = (case r of RQ_Graceful \<Rightarrow> Graceful None | RQ_Deadline d \<Rightarrow> Graceful (Some d) | RQ_Abort \<Rightarrow> Aborted)"

lemmas control_defs = request_def graceful_shutdown_def graceful_shutdown_with_deadline_def control_abort_def
  control_wake_def asked_def stopping_def

lemma request_shutdown: "cs_shutdown (fst (request r s)) = max (cs_shutdown s) (asked r)"
  by (cases r) (simp_all add: control_defs shutdown_graceful_max)

lemma requests_shutdown:
  "cs_shutdown (fold (\<lambda>r s. fst (request r s)) rs s) = Max (insert (cs_shutdown s) (asked ` set rs))"
proof (induction rs arbitrary: s)
  case (Cons r rs)
  have "Max (insert (max (cs_shutdown s) (asked r)) (asked ` set rs)) = Max (insert (cs_shutdown s) (asked ` set (r # rs)))"
    by (cases "set rs = {}") (auto simp: max.assoc max.left_commute)
  with Cons show ?case by (simp add: request_shutdown)
qed simp

lemma shutdown_requests_wakes:
  "set (snd (request r s)) = set_option (cs_driver s) \<union> set_option (cs_admission s) \<union> set_option (cs_idle s)"
  by (cases r) (auto simp: control_defs wake_one_def split: option.splits)

section \<open>Properties\<close>

text \<open>
  Shutdown requests compose: whatever requests arrive, in whatever order, the connection
  ends up with the most urgent of them, and no request relaxes an earlier one. Every
  request wakes the driver, the task that waits for admission and the idle watcher, and no
  request can be accepted as running afterwards.
\<close>

theorem shutdown_requests_compose:
  "cs_shutdown (fold (\<lambda>r s. fst (request r s)) rs s) = Max (insert (cs_shutdown s) (asked ` set rs))
   \<and> cs_shutdown s \<le> cs_shutdown (fst (request r s)) \<and> stopping (fst (request r s))
   \<and> set (snd (request r s)) = set_option (cs_driver s) \<union> set_option (cs_admission s) \<union> set_option (cs_idle s)"
proof -
  have "asked r \<noteq> Running" by (cases r) (simp_all add: asked_def)
  then have "max (cs_shutdown s) (asked r) \<noteq> Running" by (auto simp: max_def elim: less_eq_shutdown.elims)
  then show ?thesis by (simp add: requests_shutdown stopping_def request_shutdown shutdown_requests_wakes)
qed

text \<open>
  The watch for an abort answers for the request that is current at the poll, also
  when it was waiting for a deadline that has since been tightened: cancellation exactly on
  an abort, a timeout exactly when the current deadline has passed, and otherwise it leaves
  the driver's waker to be woken.
\<close>

theorem abort_watch_current:
  "(case abort_requested_poll fired w watch s of
      (Ready k, _, s', ws) \<Rightarrow>
        (k = KCanceled \<and> cs_shutdown s = Aborted
         \<or> k = KTimeout \<and> (\<exists>d. cs_shutdown s = Graceful (Some d) \<and> fired d) \<and> cs_shutdown s' = Aborted \<and> w \<in> set ws)
    | (Pending, watch', s', ws) \<Rightarrow>
        cs_shutdown s \<noteq> Aborted \<and> (\<forall>d. cs_shutdown s = Graceful (Some d) \<longrightarrow> \<not> fired d \<and> watch' = AW_Timer d)
        \<and> s' = s\<lparr>cs_driver := Some w\<rparr>
    | (Unreachable, _) \<Rightarrow> False)"
  by (auto simp: abort_requested_poll_def abort_request_def abort_timer_def control_wake_def wake_one_def Let_def
      split: abort_watch.splits shutdown.splits option.splits)

theorem abort_watch_current_witness:
  "fst (abort_requested_poll (\<lambda>d. d \<le> 7) 1 (AW_Timer 9) (control_new\<lparr>cs_shutdown := Graceful (Some 5)\<rparr>)) = Ready KTimeout"
  using abort_watch_current [where fired = "\<lambda>d. d \<le> 7" and w = 1 and watch = "AW_Timer 9"
      and s = "control_new\<lparr>cs_shutdown := Graceful (Some 5)\<rparr>"]
  by (auto split: prod.splits poll.splits)

end
