(* ===== verification/Client_Driver.thy ===== *)
theory Client_Driver
  imports Message_Receive Message_Send Connection_Control
begin

text \<open>
  The client's connection driver, from \<open>src/src/proto/h1/client.rs\<close>: preparing and sending a request,
  settling the two directions of an exchange, and the loop over the admitted requests with the
  receipts it publishes.

  The two directions of an exchange run concurrently. Which of them ends first, and how the other
  one ends after that, are arguments; so are the outcomes of the exchanges of the requests that the
  loop admits. The functions give what the driver makes of them: whom it cancels, which error
  counts, whether the connection is reused, closed, handed over or recovered, and what every
  receipt says.
\<close>

section \<open>Sending a request\<close>

record ('h, 'u) request_parts =
  rp_method :: http_method
  rp_uri :: 'u
  rp_version :: version
  rp_headers :: 'h
  rp_case :: "'h option"

record ('h, 'u) request_upload =
  ru_plan :: "('h, 'u) validated_request_head message_plan"
  ru_encoder :: body_encoder

text \<open>\<open>RequestUpload::prepare\<close>; \<open>None\<close> is a panic of the body's hints.\<close>

definition prepare_upload ::
  "('h, 'u) http_api \<Rightarrow> allocator \<Rightarrow> ('s, 'd, 'h, 'e) body_impl \<Rightarrow> ('h, 'u) request_parts \<Rightarrow> 's \<Rightarrow> encode_config \<Rightarrow> usize
     \<Rightarrow> (('h, 'u) request_upload \<times> exchange_policy, error) result option" where
  "prepare_upload A M B parts body encoding max_informational =
     (case (size_hint_of B body, trailer_hint_of B body) of
        (Some hint, Some trailers) \<Rightarrow>
          (let metadata = \<lparr>md_size = hint, md_trailers = trailers\<rparr> in
           Some (and_then (map_err error_from_encode
                    (prepare_request_head A M (rp_method parts) (rp_uri parts) (rp_version parts) (rp_headers parts) (rp_case parts) metadata encoding))
             (\<lambda>plan.
                and_then (map_err error_from_encode (body_encoder_new (vreq_body (mp_head plan)) metadata encoding))
                  (\<lambda>encoder. Ok (\<lparr>ru_plan = plan, ru_encoder = encoder\<rparr>, exchange_policy_new A (mp_head plan) max_informational)))))
      | _ \<Rightarrow> None)"

text \<open>
  \<open>send_request\<close>, and its part after the head. \<open>waited\<close> is the outcome of the wait for Continue: its
  deadline cannot be built, or whether the upload was not cancelled meanwhile. \<open>describe\<close> names the
  body's own errors.
\<close>

definition upload_request ::
  "('h, 'u) http_api \<Rightarrow> allocator \<Rightarrow> ('s, 'w) send_env \<Rightarrow> 'w writer_api \<Rightarrow> ('s, 'd, 'h, 'e) body_impl \<Rightarrow> ('e \<Rightarrow> string)
     \<Rightarrow> nat option \<Rightarrow> (bool, error) result \<Rightarrow> ('h, 'u) request_upload \<Rightarrow> 's \<Rightarrow> 'w \<Rightarrow> ((unit, error) result \<times> 'w) option" where
  "upload_request A M E W B describe continue_wait waited up body w =
     (let head = mp_head (ru_plan up);
          mode = vreq_body head;
          upload = transmit_body A M E W B describe ''request body failed'' ''request production canceled'' mode (ru_encoder up) body in
      if vreq_expectation head = Expect_Continue \<and> mode \<noteq> BM_None \<and> mode \<noteq> BM_Fixed 0 \<and> continue_wait \<noteq> None
      then
        (case wr_flush W w of
           (Err e, w') \<Rightarrow> Some (Err (error_from_io e), w')
         | (Ok _, w') \<Rightarrow>
             (case waited of
                Err e \<Rightarrow> Some (Err e, w')
              | Ok waited \<Rightarrow> if waited then upload w' else Some (Err (error_new KCanceled ''Continue wait canceled''), w')))
      else upload w)"

definition send_request ::
  "('h, 'u) http_api \<Rightarrow> allocator \<Rightarrow> ('s, 'w) send_env \<Rightarrow> 'w writer_api \<Rightarrow> ('s, 'd, 'h, 'e) body_impl \<Rightarrow> ('e \<Rightarrow> string)
     \<Rightarrow> nat option \<Rightarrow> (bool, error) result \<Rightarrow> ('h, 'u) request_upload \<Rightarrow> 's \<Rightarrow> control \<Rightarrow> 'w
     \<Rightarrow> ((unit, error) result \<times> control \<times> 'w) option" where
  "send_request A M E W B describe continue_wait waited up body k w =
     map_option (\<lambda>(res, w'). (res, if is_ok res then k\<lparr>ct_upload_complete := True\<rparr> else k, w'))
       (case write_all W (mp_bytes (ru_plan up)) w of
          None \<Rightarrow> None
        | Some (Err e, w') \<Rightarrow> Some (Err (error_from_io e), w')
        | Some (Ok _, w') \<Rightarrow> upload_request A M E W B describe continue_wait waited up body w')"

section \<open>Settling an exchange\<close>

record 'b settled_exchange =
  sx_buffer :: "'b recv_buffer"
  sx_outcome :: exchange_outcome
  sx_close_reason :: close_reason

definition client_finish_exchange ::
  "(unit, error) result \<Rightarrow> ('b received_response, error) result \<Rightarrow> bool \<Rightarrow> ('b settled_exchange, error) result" where
  "client_finish_exchange sent got upload_aborted =
     (case got of
        Err e \<Rightarrow> Err (case sent of Err s \<Rightarrow> if \<not> is_canceled s \<and> is_canceled e then s else e | Ok _ \<Rightarrow> e)
      | Ok rr \<Rightarrow>
          (let settle = (\<lambda>request_end response_end reason.
                 and_then (exchange_finish (rr_policy rr) request_end response_end)
                   (\<lambda>out. Ok \<lparr>sx_buffer = rr_buffer rr, sx_outcome = out, sx_close_reason = reason\<rparr>));
               reason = (if upload_aborted then CR_UploadAbort else CR_MessagePolicy) in
           case rr_end rr of
             RE_Failed e \<Rightarrow> Err e
           | RE_Abandoned \<Rightarrow>
               (case sent of
                  Err e \<Rightarrow> if \<not> is_canceled e then Err e else settle AE_Retired AE_Retired CR_BodyAbandonment
                | Ok _ \<Rightarrow> settle AE_Retired AE_Retired CR_BodyAbandonment)
           | RE_Complete \<Rightarrow>
               (case sent of
                  Err e \<Rightarrow> if \<not> is_canceled e \<or> \<not> upload_aborted then Err e else settle AE_Retired AE_Complete reason
                | Ok _ \<Rightarrow> settle (if upload_aborted then AE_Retired else AE_Complete) AE_Complete reason)))"

datatype ('a, 'b) race = Race_First 'a | Race_Second 'b

text \<open>
  The end of \<open>exchange_inner\<close>: the direction that ends first may cancel the other, which is then
  driven to its end with that control.
\<close>

definition exchange_cancels :: "(('b received_response, error) result, (unit, error) result) race \<Rightarrow> control \<Rightarrow> bool" where
  "exchange_cancels won k =
     (case won of
        Race_First (Err _) \<Rightarrow> True
      | Race_First (Ok rr) \<Rightarrow> rr_end rr = RE_Abandoned
      | Race_Second (Err e) \<Rightarrow> \<not> is_canceled e \<or> \<not> ct_aborted k
      | Race_Second (Ok _) \<Rightarrow> False)"

definition client_exchange_inner ::
  "(('b received_response, error) result, (unit, error) result) race
     \<Rightarrow> (control \<Rightarrow> (unit, error) result \<times> control) \<Rightarrow> (control \<Rightarrow> ('b received_response, error) result \<times> control)
     \<Rightarrow> control \<Rightarrow> ('b settled_exchange, error) result \<times> control" where
  "client_exchange_inner won await_send await_receive k =
     (let k' = (if exchange_cancels won k then control_cancel k else k) in
      case won of
        Race_First got \<Rightarrow> (case await_send k' of (sent, k'') \<Rightarrow> (client_finish_exchange sent got (ct_aborted k''), k''))
      | Race_Second sent \<Rightarrow> (case await_receive k' of (got, k'') \<Rightarrow> (client_finish_exchange sent got (ct_aborted k''), k'')))"

text \<open>The end of \<open>exchange\<close>: the error goes to the application's observation too, while that is open.\<close>

definition exchange_report ::
  "('b settled_exchange, error) result \<Rightarrow> bool \<Rightarrow> ('b settled_exchange, error) result \<times> error option" where
  "exchange_report result response_open =
     (case result of
        Err e \<Rightarrow> if response_open then (case error_split e of (driver, observer) \<Rightarrow> (Err driver, Some observer)) else (Err e, None)
      | Ok sx \<Rightarrow> (Ok sx, None))"

section \<open>The connection loop\<close>

datatype ('r, 'w) connection_outcome =
    CO_Closed | CO_Recovered "'r half" "'w half" bytes | CO_Upgraded "('r, 'w) upgraded" | CO_UpgradeClaimed upgrade_kind

text \<open>
  One admitted request: how its exchange settled, its upgrade cell, and then whether admission
  could be released and whether shutdown was requested.
\<close>

record ('b, 'r, 'w) client_job =
  jb_exchange :: "('b settled_exchange, error) result"
  jb_upgrade :: "('r, 'w) upgrade_state"
  jb_release :: bool
  jb_stopping :: bool

record ('r, 'w) driver_conn =
  cn_reader :: "'r half"
  cn_writer :: "'w half"
  cn_recovering :: bool
  cn_shutdown :: "(unit, io_error) result"

definition driver_end ::
  "'b buffer_api \<Rightarrow> ('r, 'w) driver_conn \<Rightarrow> 'b recv_buffer \<Rightarrow> bool \<Rightarrow> (('r, 'w) connection_outcome, error) result" where
  "driver_end U c rb can_recover =
     (if cn_recovering c \<and> can_recover then Ok (CO_Recovered (cn_reader c) (cn_writer c) (fst (take_all U rb)))
      else (case cn_shutdown c of Err e \<Rightarrow> Err (error_from_io e) | Ok _ \<Rightarrow> Ok CO_Closed))"

text \<open>
  \<open>run_inner\<close>: its result, the receipt that is still to be published when it returns, and the
  receipts published on the way.
\<close>

fun client_run_inner ::
  "'b buffer_api \<Rightarrow> ('r, 'w) driver_conn \<Rightarrow> 'b recv_buffer \<Rightarrow> ('b, 'r, 'w) client_job list
     \<Rightarrow> (('r, 'w) connection_outcome, error) result \<times> settlement option \<times> (settlement, error) result list" where
  "client_run_inner U c rb [] = (driver_end U c rb True, None, [])"
| "client_run_inner U c rb (job # jobs) =
     (case jb_exchange job of
        Err e \<Rightarrow> (Err e, Some (ST_Closed CR_MessagePolicy), [])
      | Ok sx \<Rightarrow>
          (case sx_outcome sx of
             EO_Handoff kind \<Rightarrow>
               (case upgrade_fulfill (upgraded_new (cn_reader c) (cn_writer c) (fst (take_all U (sx_buffer sx))) kind) (jb_upgrade job) of
                  (Ok k, _, _) \<Rightarrow> (Ok (CO_UpgradeClaimed k), Some (ST_Upgraded kind), [])
                | (Err u, _, _) \<Rightarrow> (Ok (CO_Upgraded u), Some (ST_Upgraded kind), []))
           | EO_Close \<Rightarrow>
               (driver_end U c (sx_buffer sx) (sx_close_reason sx \<notin> {CR_BodyAbandonment, CR_UploadAbort}),
                Some (ST_Closed (sx_close_reason sx)), [])
           | EO_Reusable \<Rightarrow>
               (if recv_bytes U (sx_buffer sx) \<noteq> []
                then (Err (error_new KInvalidMessage ''unsolicited data after completed HTTP response''), Some (ST_Closed CR_MessagePolicy), [])
                else if \<not> jb_release job
                then (driver_end U c (sx_buffer sx) True,
                      Some (ST_Closed (if jb_stopping job then CR_Shutdown else CR_ApplicationClosure)), [])
                else (case client_run_inner U c (sx_buffer sx) jobs of
                        (res, terminal, published) \<Rightarrow> (res, terminal, Ok ST_Reusable # published)))))"

text \<open>\<open>run\<close>: \<open>drive\<close> is what the shutdown controller made of the inner result.\<close>

definition client_run ::
  "'b buffer_api \<Rightarrow> ('r, 'w) driver_conn \<Rightarrow> ((('r, 'w) connection_outcome, error) result \<Rightarrow> ('r, 'w) connection_outcome drive_end)
     \<Rightarrow> 'b recv_buffer \<Rightarrow> ('b, 'r, 'w) client_job list
     \<Rightarrow> (('r, 'w) connection_outcome, error) result \<times> (settlement, error) result list" where
  "client_run U c drive rb jobs =
     (case client_run_inner U c rb jobs of (inner, terminal, published) \<Rightarrow>
        let result = drive_result (drive inner) in
        case terminal of
          None \<Rightarrow> (result, published)
        | Some out \<Rightarrow>
            (case result of
               Ok r \<Rightarrow> (Ok r, published @ [Ok out])
             | Err e \<Rightarrow> (case error_split e of (driver, receipt) \<Rightarrow> (Err driver, published @ [Err receipt]))))"

section \<open>What a request looks like on the transport\<close>

lemma upload_request_sends:
  assumes "writer_laws W sent" "patient W patience" "run_body n (recycling B) body = (fs, Some r, t)"
    and "wire_of A M (frame_bytes B) (ru_encoder up) False fs (r = Ok ()) = (wire, fine)"
    and "vreq_body (mp_head (ru_plan up)) = mode"
  shows "\<exists>out. upload_request A M E W B describe continue_wait waited up body w = Some out
    \<and> sent_message sent (if mode = BM_None then [] else wire) (mode = BM_None \<or> fine) (reliable_send E W B \<and> waited = Ok True) w out"
proof -
  let ?sure = "reliable_send E W B \<and> waited = Ok True" and ?fine = "mode = BM_None \<or> fine" and ?body = "if mode = BM_None then [] else wire"
  have upload: "\<exists>out. transmit_body A M E W B describe ''request body failed'' ''request production canceled'' mode (ru_encoder up) body w = Some out
      \<and> sent_message sent ?body ?fine ?sure w out" for w
    using transmit_body_sends [OF assms(1-4), of E describe "''request body failed''" "''request production canceled''" mode w]
    by (blast intro: sent_message_mono)
  obtain fr w' where flush: "wr_flush W w = (fr, w')" by fastforce
  have kept: "sent w' = sent w" using assms(1) flush by (auto simp: writer_laws_def dest: spec [of _ w])
  have ok: "is_ok fr" if ?sure using that flush by (auto simp: reliable_send_def reliable_def dest: spec [of _ w])
  have unsure: "sent_message sent ?body ?fine ?sure w (Err e, w')" if "\<not> ?sure" for e
    using that kept by (intro sent_message_failed [of 0]) simp_all
  have after: "sent_message sent ?body ?fine ?sure w out" if "sent_message sent ?body ?fine ?sure w' out" for out
    using sent_message_after [of sent w' w "[]" ?body ?fine ?sure out] that kept by simp
  show ?thesis
  proof (cases "vreq_expectation (mp_head (ru_plan up)) = Expect_Continue \<and> mode \<noteq> BM_None \<and> mode \<noteq> BM_Fixed 0 \<and> continue_wait \<noteq> None")
    case True
    then have eq: "upload_request A M E W B describe continue_wait waited up body w =
        (case fr of
           Err e \<Rightarrow> Some (Err (error_from_io e), w')
         | Ok _ \<Rightarrow>
             (case waited of
                Err e \<Rightarrow> Some (Err e, w')
              | Ok waited \<Rightarrow>
                  if waited
                  then transmit_body A M E W B describe ''request body failed'' ''request production canceled'' mode (ru_encoder up) body w'
                  else Some (Err (error_new KCanceled ''Continue wait canceled''), w')))"
      unfolding upload_request_def Let_def assms(5) flush by simp
    show ?thesis
    proof (cases "is_ok fr \<and> waited = Ok True")
      case True
      then have "upload_request A M E W B describe continue_wait waited up body w =
          transmit_body A M E W B describe ''request body failed'' ''request production canceled'' mode (ru_encoder up) body w'"
        unfolding eq by (cases fr) simp_all
      with upload [of w'] after show ?thesis by (metis (lifting))
    next
      case False
      then obtain e where "upload_request A M E W B describe continue_wait waited up body w = Some (Err e, w')"
        unfolding eq by (cases fr; cases waited) auto
      moreover have "\<not> ?sure" using False ok by blast
      ultimately show ?thesis using unsure by blast
    qed
  next
    case False
    with upload [of w] show ?thesis unfolding upload_request_def Let_def assms(5) by (simp only: if_False)
  qed
qed

text \<open>
  C6. What a client puts on the transport for a request is its prepared head and then its body as
  the encoder frames it, once and in order. For every body that ends, sending returns; what the
  transport accepted is a prefix of that message, and when sending succeeds it is all of it and
  the upload is marked complete. It succeeds if no write fails, nothing is cancelled, the body keeps
  its promises and the wait for Continue, if there is one, ends.
\<close>

theorem client_sends_request:
  assumes "writer_laws W sent" "patient W patience" "run_body n (recycling B) body = (fs, Some r, t)"
    and "wire_of A M (frame_bytes B) (ru_encoder up) False fs (r = Ok ()) = (wire, fine)"
    and "vreq_body (mp_head (ru_plan up)) = mode"
  shows "\<exists>res k' w'. send_request A M E W B describe continue_wait waited up body k w = Some (res, k', w')
    \<and> sent_message sent (mp_bytes (ru_plan up) @ (if mode = BM_None then [] else wire)) (mode = BM_None \<or> fine)
        (reliable_send E W B \<and> waited = Ok True) w (res, w')
    \<and> k' = (if is_ok res then k\<lparr>ct_upload_complete := True\<rparr> else k)"
proof -
  have "reliable_send E W B \<and> waited = Ok True \<longrightarrow> reliable W" by (simp add: reliable_send_def)
  from head_then [OF assms(1,2) this, of w, OF upload_request_sends [OF assms, of E describe continue_wait waited]]
  obtain res w' where "send_request A M E W B describe continue_wait waited up body k w
        = Some (res, if is_ok res then k\<lparr>ct_upload_complete := True\<rparr> else k, w')"
      "sent_message sent (mp_bytes (ru_plan up) @ (if mode = BM_None then [] else wire)) (mode = BM_None \<or> fine)
        (reliable_send E W B \<and> waited = Ok True) w (res, w')"
    unfolding send_request_def by (metis (no_types, lifting) case_prod_conv option.simps(9) surj_pair)
  then show ?thesis by blast
qed

definition demo_parts :: "(alist, bytes) request_parts" where
  "demo_parts =
     \<lparr>rp_method = ''PUT'', rp_uri = bstr ''/'', rp_version = HTTP_11,
      rp_headers = [(HOST, bstr ''a''), (EXPECT, bstr ''100-continue'')], rp_case = None\<rparr>"

theorem client_sends_request_witness:
  "\<exists>up policy k' w'. prepare_upload alist_http (\<lambda>_ _. True) small_full_body demo_parts (FS_Ready ()) sample_config 10 = Some (Ok (up, policy))
    \<and> send_request alist_http (\<lambda>_ _. True) quiet_env list_writer small_full_body (\<lambda>_. '''') (Some 5) (Ok True) up (FS_Ready ())
        control_fresh ([], [1, 0, 2]) = Some (Ok (), k', w')
    \<and> ct_upload_complete k' \<and> fst w' = mp_bytes (ru_plan up) @ [97, 98]"
proof -
  let ?prepare = "prepare_upload alist_http (\<lambda>_ _. True) small_full_body demo_parts (FS_Ready ()) sample_config 10"
  let ?wire = "\<lambda>up. wire_of alist_http (\<lambda>_ _. True) (frame_bytes small_full_body) (ru_encoder up) False [DataFrame ()] True"
  have "case ?prepare of Some (Ok (up, _)) \<Rightarrow> ?wire up = ([97, 98], True) \<and> vreq_body (mp_head (ru_plan up)) = BM_Fixed 2 | _ \<Rightarrow> False"
    by code_simp
  then obtain up policy where up: "?prepare = Some (Ok (up, policy))" "?wire up = ([97, 98], True)" "vreq_body (mp_head (ru_plan up)) = BM_Fixed 2"
    by (auto split: option.splits result.splits)
  have "wire_of alist_http (\<lambda>_ _. True) (frame_bytes small_full_body) (ru_encoder up) False [DataFrame ()]
      (Ok () = (Ok () :: (unit, unit) result)) = ([97, 98], True)" using up(2) by simp
  from client_sends_request [OF list_writer_laws list_writer_patient small_full_body_run this up(3), of quiet_env "\<lambda>_. ''''" "Some 5" "Ok True"
      control_fresh "([], [1, 0, 2])"] small_full_body_reliable up(1)
  show ?thesis by (auto simp: sent_message_def is_ok_iff)
qed

section \<open>What the driver makes of an exchange\<close>

definition originating :: "('a, error) result \<Rightarrow> bool" where
  "originating res = (case res of Err e \<Rightarrow> \<not> is_canceled e | Ok _ \<Rightarrow> False)"

lemma error_split_kinds:
  "err_kind (fst (error_split e)) = err_kind e" "err_kind (snd (error_split e)) = err_kind e"
  "err_detail (fst (error_split e)) = err_detail e" "err_detail (snd (error_split e)) = err_detail e"
  by (simp_all add: error_split_def Let_def)

lemma exchange_finish_reusable:
  "exchange_finish p a b = Ok EO_Reusable \<longleftrightarrow> a = AE_Complete \<and> b = AE_Complete \<and> xp_phase p = RP_Final \<and> xp_persistence p = Reusable"
  by (cases a; cases b) (auto simp: exchange_finish_def split: response_phase.splits persistence.splits)


section \<open>Receipts\<close>

text \<open>What the receipts of a connection look like: reusable ones, and then perhaps the one it ended with.\<close>

definition last_receipt ::
  "(('r, 'w) connection_outcome, error) result \<Rightarrow> (settlement, error) result \<Rightarrow> bool" where
  "last_receipt result r \<longleftrightarrow>
     (case (result, r) of
        (Ok out, Ok s) \<Rightarrow>
          s \<noteq> ST_Reusable \<and> (\<forall>k. s = ST_Upgraded k \<longleftrightarrow> out = CO_UpgradeClaimed k \<or> (\<exists>u. out = CO_Upgraded u \<and> ug_kind u = k))
      | (Err d, Err e) \<Rightarrow> err_kind d = err_kind e \<and> err_detail d = err_detail e
      | _ \<Rightarrow> False)"

lemma driver_end_plain: "driver_end U c rb b = Ok out \<Longrightarrow> out \<noteq> CO_UpgradeClaimed k \<and> out \<noteq> CO_Upgraded u"
  by (auto simp: driver_end_def split: if_splits result.splits)

lemma upgrade_fulfill_kind:
  "upgrade_fulfill u s = (Ok k, s', ws) \<Longrightarrow> k = ug_kind u"
  "upgrade_fulfill u s = (Err v, s', ws) \<Longrightarrow> v = u"
  by (auto simp: upgrade_fulfill_def Let_def split: claim_phase.splits bool.splits if_splits prod.splits)

definition inner_receipts where
  "inner_receipts jobs inner terminal published \<longleftrightarrow>
     (\<forall>r \<in> set published. r = Ok ST_Reusable)
   \<and> (case terminal of
        None \<Rightarrow> length published = length jobs \<and> (\<forall>out k u. inner = Ok out \<longrightarrow> out \<noteq> CO_UpgradeClaimed k \<and> out \<noteq> CO_Upgraded u)
      | Some s \<Rightarrow> length published < length jobs \<and> (\<forall>out. inner = Ok out \<longrightarrow> last_receipt (Ok out) (Ok s)))"

lemma client_run_inner_receipts:
  "client_run_inner U c rb jobs = (inner, terminal, published) \<Longrightarrow> inner_receipts jobs inner terminal published"
proof (induction jobs arbitrary: rb inner terminal published)
  case Nil
  then show ?case by (auto simp: inner_receipts_def dest: driver_end_plain)
next
  case (Cons job jobs)
  show ?case
  proof (cases "jb_exchange job")
    case (Err e)
    then show ?thesis using Cons.prems by (auto simp: inner_receipts_def)
  next
    case (Ok sx)
    show ?thesis
    proof (cases "sx_outcome sx")
      case EO_Reusable
      show ?thesis
      proof (cases "recv_bytes U (sx_buffer sx) = [] \<and> jb_release job")
        case True
        then obtain p where "client_run_inner U c (sx_buffer sx) jobs = (inner, terminal, p)" "published = Ok ST_Reusable # p"
          using Cons.prems Ok EO_Reusable by (auto split: prod.splits)
        with Cons.IH show ?thesis by (fastforce simp: inner_receipts_def split: option.splits)
      next
        case False
        then show ?thesis using Cons.prems Ok EO_Reusable
          by (auto simp: inner_receipts_def last_receipt_def dest: driver_end_plain split: if_splits)
      qed
    next
      case EO_Close
      then show ?thesis using Cons.prems Ok by (auto simp: inner_receipts_def last_receipt_def dest: driver_end_plain)
    next
      case (EO_Handoff k)
      then show ?thesis using Cons.prems Ok
        by (auto simp: inner_receipts_def last_receipt_def upgraded_new_def dest!: upgrade_fulfill_kind split: prod.splits result.splits)
    qed
  qed
qed

definition demo_settled :: "(bytes \<times> nat) received_response" where
  "demo_settled =
     \<lparr>rr_end = RE_Complete, rr_buffer = demo_buffer [], rr_policy = demo_policy\<lparr>xp_phase := RP_Final\<rparr>\<rparr>"


text \<open>
  C12. Every admitted request's receipt is published once and in order. All but the last exchange a
  connection runs settle as reusable; the last receipt, if the connection did not just run out of
  requests, agrees with the result of the connection: it reports a handover exactly when the
  transport was handed over, some closure when the connection ended well otherwise, and an error of
  the same kind and detail when it failed, also when shutdown replaced the failure.
\<close>

theorem client_receipts_settle:
  assumes "client_run U c drive rb jobs = (result, receipts)"
    and "\<And>r. drive r = WorkEnded r \<or> (\<exists>k. drive r = AbortWon k r)"
  shows "\<exists>n fin. receipts = replicate n (Ok ST_Reusable) @ fin
    \<and> (fin = [] \<and> n = length jobs \<or> (\<exists>r. fin = [r] \<and> n < length jobs \<and> last_receipt result r))"
proof -
  obtain inner terminal published where inner: "client_run_inner U c rb jobs = (inner, terminal, published)"
    by (cases "client_run_inner U c rb jobs") auto
  note ok = client_run_inner_receipts [OF inner]
  have reusable: "published = replicate (length published) (Ok ST_Reusable)"
    by (rule replicate_eqI) (use ok in \<open>auto simp: inner_receipts_def\<close>)
  show ?thesis
  proof (cases terminal)
    case None
    then have "receipts = published" using assms(1) inner by (simp add: client_run_def Let_def)
    moreover have "length published = length jobs" using ok None by (simp add: inner_receipts_def)
    ultimately show ?thesis using reusable by (intro exI [of _ "length jobs"] exI [of _ "[]"]) simp
  next
    case (Some s)
    have len: "length published < length jobs" using ok Some by (simp add: inner_receipts_def)
    obtain r where r: "receipts = published @ [r]" "last_receipt result r"
    proof (cases "drive_result (drive inner)")
      case (Ok out)
      then have "inner = Ok out" using assms(2) [of inner] by (auto simp: drive_result_def split: result.splits if_splits)
      then have "last_receipt (Ok out) (Ok s)" using ok Some by (simp add: inner_receipts_def)
      then show thesis using that [of "Ok s"] assms(1) inner Some Ok by (auto simp: client_run_def Let_def)
    next
      case (Err e)
      obtain d r where split: "error_split e = (d, r)" by (cases "error_split e") auto
      have "last_receipt (Err d) (Err r)" using error_split_kinds [of e] split by (simp add: last_receipt_def)
      moreover have "result = Err d" "receipts = published @ [Err r]"
        using assms(1) inner Some Err split by (simp_all add: client_run_def)
      ultimately show thesis using that by simp
    qed
    then show ?thesis using reusable len
      by (intro exI [of _ "length published"] exI [of _ "[r]"]) simp
  qed
qed

text \<open>A connection that reuses once, then closes after an aborted upload.\<close>

definition demo_job :: "exchange_outcome \<Rightarrow> close_reason \<Rightarrow> (bytes \<times> nat, nat, nat) client_job" where
  "demo_job out reason =
     \<lparr>jb_exchange = Ok \<lparr>sx_buffer = demo_buffer [], sx_outcome = out, sx_close_reason = reason\<rparr>,
      jb_upgrade = upgrade_state_default, jb_release = True, jb_stopping = False\<rparr>"

definition demo_conn :: "(nat, nat) driver_conn" where
  "demo_conn = \<lparr>cn_reader = Bare 0 0, cn_writer = Bare 0 0, cn_recovering = False, cn_shutdown = Ok ()\<rparr>"

theorem client_receipts_settle_witness:
  "client_run list_buffer demo_conn WorkEnded (demo_buffer []) [demo_job EO_Reusable CR_MessagePolicy, demo_job EO_Close CR_UploadAbort]
     = (Ok CO_Closed, [Ok ST_Reusable, Ok (ST_Closed CR_UploadAbort)])
   \<and> last_receipt (Ok CO_Closed :: ((nat, nat) connection_outcome, error) result) (Ok (ST_Closed CR_UploadAbort))"
proof -
  let ?jobs = "[demo_job EO_Reusable CR_MessagePolicy, demo_job EO_Close CR_UploadAbort]"
  have run: "client_run list_buffer demo_conn WorkEnded (demo_buffer []) ?jobs = (Ok CO_Closed, [Ok ST_Reusable, Ok (ST_Closed CR_UploadAbort)])"
    by (simp add: client_run_def demo_job_def demo_conn_def driver_end_def demo_setup drive_result_def)
  moreover obtain n fin where *: "[Ok ST_Reusable, Ok (ST_Closed CR_UploadAbort)] = replicate n (Ok ST_Reusable) @ fin"
      "fin = [] \<and> n = length ?jobs \<or>
        (\<exists>r. fin = [r] \<and> n < length ?jobs \<and> last_receipt (Ok CO_Closed :: ((nat, nat) connection_outcome, error) result) r)"
    using client_receipts_settle [OF run] by blast
  moreover have "fin = [Ok (ST_Closed CR_UploadAbort)]" using * by (cases fin rule: rev_cases) (auto simp: Cons_eq_append_conv)
  ultimately show ?thesis by auto
qed

end
