(* ===== verification/Request_Context.thy ===== *)
theory Request_Context
  imports Pipe Http_Api
begin

text \<open>
  Coordination between a service and the driver of its connection, from \<open>src/src/server/context.rs\<close>:
  the close flag, informational heads the application sends, and the automatic 100 Continue that the
  receiver of the request body asks for.

  The shared cell and every operation, poll and drop are functions; \<open>None\<close> is the \<open>unreachable!\<close> of
  \<open>complete\<close>. \<open>context_step\<close> lets the service, the writer of informational heads, the receiver of
  the body and the coordinator act in any order that Rust's borrows allow: \<open>send_informational\<close>
  borrows the context, \<open>next\<close> and \<open>continue_permission\<close> borrow the driver's endpoint.

  The invariant shows that \<open>unreachable!\<close> is not reached, that an acknowledged head was written,
  that Continue is written at most once, that nothing starts after the final response was
  selected, and that no wake-up is lost.
\<close>

section \<open>The shared cell\<close>

datatype head_admission = HD_Open | HD_FinalSelected | HD_Closed

datatype automatic_continue = AC_Idle | AC_Requested | AC_Complete

text \<open>A \<open>Response<()>\<close> is its status and the rest of its head.\<close>

type_synonym 'h info_head = "status_code \<times> 'h"

datatype 'h command_state =
    CM_Idle | CM_Queued "'h info_head" | CM_Writing | CM_WritingAbandoned | CM_Complete "(unit, error) result"

record 'h request_shared =
  sh_close :: bool
  sh_admission :: head_admission
  sh_continue :: automatic_continue
  sh_command :: "'h command_state"
  sh_application :: "waker option"
  sh_writer :: "waker option"
  sh_receiver :: "waker option"

definition context_channel :: "bool \<Rightarrow> 'h request_shared" where
  "context_channel close =
     \<lparr>sh_close = close, sh_admission = HD_Open, sh_continue = AC_Idle, sh_command = CM_Idle,
      sh_application = None, sh_writer = None, sh_receiver = None\<rparr>"

definition context_closed :: error where
  "context_closed = error_new KClosed ''informational writer closed''"

definition context_late :: error where
  "context_late = error_new KLocalMessage ''final response already selected''"

section \<open>The service\<close>

definition close_connection :: "'h request_shared \<Rightarrow> 'h request_shared" where
  "close_connection s = s\<lparr>sh_close := True\<rparr>"

text \<open>\<open>send_informational\<close> up to its first poll: an error, or the head is queued and the writer woken.\<close>

definition send_start ::
  "('m, 'u) http_api \<Rightarrow> 'h info_head \<Rightarrow> 'h request_shared \<Rightarrow> ('h request_shared \<times> waker list, error) result" where
  "send_start A response s =
     (let status = fst response in
      if \<not> status_is_informational A status \<or> status = 100 \<or> status = 101 then
        Err (error_new KLocalMessage ''application informational status must exclude 100 and 101'')
      else if sh_admission s = HD_Closed then Err context_closed
      else if sh_admission s = HD_FinalSelected then Err context_late
      else
        (case sh_command s of
           CM_Idle \<Rightarrow> Ok (s\<lparr>sh_command := CM_Queued response, sh_writer := None\<rparr>, wake_one (sh_writer s))
         | _ \<Rightarrow> Err (with_detail (error_new KBusy ''informational write is still settling'') (DBusy InformationalWrite))))"

definition send_poll :: "waker \<Rightarrow> 'h request_shared \<Rightarrow> (unit, error) result poll \<times> 'h request_shared" where
  "send_poll w s =
     (case sh_command s of
        CM_Complete r \<Rightarrow> (Ready r, s\<lparr>sh_command := CM_Idle\<rparr>)
      | _ \<Rightarrow>
          (if sh_admission s = HD_Closed then (Ready (Err context_closed), s)
           else (Pending, s\<lparr>sh_application := Some w\<rparr>)))"

definition send_guard_drop :: "'h request_shared \<Rightarrow> 'h request_shared" where
  "send_guard_drop s =
     s\<lparr>sh_command := (case sh_command s of
                        CM_Writing \<Rightarrow> CM_WritingAbandoned
                      | CM_WritingAbandoned \<Rightarrow> CM_WritingAbandoned
                      | _ \<Rightarrow> CM_Idle),
       sh_application := None\<rparr>"

section \<open>The driver's endpoint\<close>

datatype 'h command = Cmd_Continue | Cmd_Application "'h info_head"

definition select_final :: "'h request_shared \<Rightarrow> 'h request_shared \<times> waker list" where
  "select_final s =
     (s\<lparr>sh_admission := (if sh_admission s = HD_Open then HD_FinalSelected else sh_admission s),
        sh_command := (case sh_command s of CM_Queued _ \<Rightarrow> CM_Complete (Err context_late) | c \<Rightarrow> c),
        sh_application := None, sh_writer := None, sh_receiver := None\<rparr>,
      wake_one (sh_application s) @ wake_one (sh_writer s) @ wake_one (sh_receiver s))"

text \<open>\<open>continue_permission\<close>: its first part, and a poll of the rest.\<close>

definition continue_start :: "'h request_shared \<Rightarrow> 'h request_shared \<times> waker list" where
  "continue_start s =
     (s\<lparr>sh_continue := (if sh_continue s = AC_Idle then AC_Requested else sh_continue s), sh_writer := None\<rparr>,
      wake_one (sh_writer s))"

definition continue_poll :: "waker \<Rightarrow> 'h request_shared \<Rightarrow> (unit, error) result poll \<times> 'h request_shared" where
  "continue_poll w s =
     (if sh_admission s = HD_Closed then (Ready (Err context_closed), s)
      else if sh_admission s = HD_FinalSelected \<or> sh_continue s = AC_Complete then (Ready (Ok ()), s)
      else (Pending, s\<lparr>sh_receiver := Some w\<rparr>))"

definition continued :: "'h request_shared \<Rightarrow> 'h request_shared \<times> waker list" where
  "continued s = (s\<lparr>sh_continue := AC_Complete, sh_receiver := None\<rparr>, wake_one (sh_receiver s))"

definition next_command_poll :: "waker \<Rightarrow> 'h request_shared \<Rightarrow> 'h command option poll \<times> 'h request_shared" where
  "next_command_poll w s =
     (if sh_admission s \<noteq> HD_Open then (Ready None, s)
      else if sh_continue s = AC_Requested then (Ready (Some Cmd_Continue), s)
      else
        (case sh_command s of
           CM_Queued response \<Rightarrow> (Ready (Some (Cmd_Application response)), s\<lparr>sh_command := CM_Writing\<rparr>)
         | _ \<Rightarrow> (Pending, s\<lparr>sh_writer := Some w\<rparr>)))"

definition complete_command :: "(unit, error) result \<Rightarrow> 'h request_shared \<Rightarrow> ('h request_shared \<times> waker list) option" where
  "complete_command r s =
     (let answer = (\<lambda>c. Some (s\<lparr>sh_command := c, sh_application := None\<rparr>, wake_one (sh_application s))) in
      case sh_command s of
        CM_Writing \<Rightarrow> answer (CM_Complete r)
      | CM_WritingAbandoned \<Rightarrow> answer CM_Idle
      | _ \<Rightarrow> None)"

definition informational_drop :: "'h request_shared \<Rightarrow> 'h request_shared \<times> waker list" where
  "informational_drop s =
     (s\<lparr>sh_admission := HD_Closed, sh_application := None, sh_receiver := None\<rparr>,
      wake_one (sh_application s) @ wake_one (sh_receiver s))"

section \<open>Interleavings\<close>

text \<open>
  The writer waits in \<open>next\<close>, writes a head, writes Continue, or has stopped. Ghosts: the head of
  the send in progress, the heads submitted, written and acknowledged, how often Continue was
  written, and the wakers of futures that sleep.
\<close>

datatype 'h writer_task = WT_Next | WT_Head "'h info_head" | WT_Continue | WT_Stopped

record 'h context_sys =
  qy_shared :: "'h request_shared"
  qy_send :: "'h info_head option"
  qy_writer :: "'h writer_task"
  qy_receiver :: bool
  qy_alive :: bool
  qy_written :: "'h info_head list"
  qy_acked :: "'h info_head list"
  qy_continues :: nat
  qy_app_wait :: "waker option"
  qy_writer_wait :: "waker option"
  qy_receiver_wait :: "waker option"

definition context_init :: "bool \<Rightarrow> 'h context_sys" where
  "context_init close =
     \<lparr>qy_shared = context_channel close, qy_send = None, qy_writer = WT_Next, qy_receiver = False, qy_alive = True,
      qy_written = [], qy_acked = [], qy_continues = 0,
      qy_app_wait = None, qy_writer_wait = None, qy_receiver_wait = None\<rparr>"

definition put_shared :: "'h request_shared \<Rightarrow> waker list \<Rightarrow> 'h context_sys \<Rightarrow> 'h context_sys" where
  "put_shared s ws y =
     y\<lparr>qy_shared := s, qy_app_wait := unwait ws (qy_app_wait y), qy_writer_wait := unwait ws (qy_writer_wait y),
       qy_receiver_wait := unwait ws (qy_receiver_wait y)\<rparr>"

definition after_next :: "'h command option poll \<Rightarrow> 'h writer_task" where
  "after_next r =
     (case r of
        Ready None \<Rightarrow> WT_Stopped
      | Ready (Some Cmd_Continue) \<Rightarrow> WT_Continue
      | Ready (Some (Cmd_Application h)) \<Rightarrow> WT_Head h
      | _ \<Rightarrow> WT_Next)"

definition acked_by :: "'h info_head option \<Rightarrow> (unit, error) result poll \<Rightarrow> 'h info_head list" where
  "acked_by h r = (case (h, r) of (Some x, Ready (Ok _)) \<Rightarrow> [x] | _ \<Rightarrow> [])"

inductive context_step :: "('m, 'u) http_api \<Rightarrow> 'h context_sys \<Rightarrow> 'h context_sys \<Rightarrow> bool" for A where
  close: "context_step A y (put_shared (close_connection (qy_shared y)) [] y)"
| start_send: "qy_send y = None \<Longrightarrow> send_start A h (qy_shared y) = Ok (s, ws) \<Longrightarrow>
    context_step A y ((put_shared s ws y)\<lparr>qy_send := Some h\<rparr>)"
| poll_send: "qy_send y = Some h \<Longrightarrow> send_poll w (qy_shared y) = (r, s) \<Longrightarrow>
    context_step A y (if is_pending r then (put_shared s [] y)\<lparr>qy_app_wait := Some w\<rparr>
      else (put_shared (send_guard_drop s) [] y)\<lparr>qy_send := None, qy_app_wait := None,
             qy_acked := qy_acked y @ acked_by (qy_send y) r\<rparr>)"
| drop_send: "qy_send y = Some h \<Longrightarrow>
    context_step A y ((put_shared (send_guard_drop (qy_shared y)) [] y)\<lparr>qy_send := None, qy_app_wait := None\<rparr>)"
| select: "qy_alive y \<Longrightarrow> select_final (qy_shared y) = (s, ws) \<Longrightarrow> context_step A y (put_shared s ws y)"
| start_permission: "qy_alive y \<Longrightarrow> \<not> qy_receiver y \<Longrightarrow> continue_start (qy_shared y) = (s, ws) \<Longrightarrow>
    context_step A y ((put_shared s ws y)\<lparr>qy_receiver := True\<rparr>)"
| poll_permission: "qy_receiver y \<Longrightarrow> continue_poll w (qy_shared y) = (r, s) \<Longrightarrow>
    context_step A y ((put_shared s [] y)\<lparr>qy_receiver := is_pending r,
      qy_receiver_wait := (if is_pending r then Some w else None)\<rparr>)"
| drop_permission: "qy_receiver y \<Longrightarrow> context_step A y (y\<lparr>qy_receiver := False, qy_receiver_wait := None\<rparr>)"
| poll_next: "qy_writer y = WT_Next \<Longrightarrow> next_command_poll w (qy_shared y) = (r, s) \<Longrightarrow>
    context_step A y ((put_shared s [] y)\<lparr>qy_writer := after_next r,
      qy_writer_wait := (if is_pending r then Some w else None)\<rparr>)"
| stop_next: "qy_writer y = WT_Next \<Longrightarrow> context_step A y (y\<lparr>qy_writer := WT_Stopped, qy_writer_wait := None\<rparr>)"
| head_written: "qy_writer y = WT_Head h \<Longrightarrow> complete_command (Ok ()) (qy_shared y) = Some (s, ws) \<Longrightarrow>
    context_step A y ((put_shared s ws y)\<lparr>qy_writer := WT_Next, qy_written := qy_written y @ [h]\<rparr>)"
| head_failed: "qy_writer y = WT_Head h \<Longrightarrow> complete_command (Err e) (qy_shared y) = Some (s, ws) \<Longrightarrow>
    t \<in> {WT_Next, WT_Stopped} \<Longrightarrow> context_step A y ((put_shared s ws y)\<lparr>qy_writer := t\<rparr>)"
| continue_written: "qy_writer y = WT_Continue \<Longrightarrow> continued (qy_shared y) = (s, ws) \<Longrightarrow>
    context_step A y ((put_shared s ws y)\<lparr>qy_writer := WT_Next, qy_continues := qy_continues y + 1\<rparr>)"
| continue_failed: "qy_writer y = WT_Continue \<Longrightarrow> context_step A y (y\<lparr>qy_writer := WT_Stopped\<rparr>)"
| drop_receiver: "qy_alive y \<Longrightarrow> qy_writer y = WT_Stopped \<Longrightarrow> \<not> qy_receiver y \<Longrightarrow> informational_drop (qy_shared y) = (s, ws) \<Longrightarrow>
    context_step A y ((put_shared s ws y)\<lparr>qy_alive := False\<rparr>)"

definition context_reachable :: "('m, 'u) http_api \<Rightarrow> 'h context_sys \<Rightarrow> bool" where
  "context_reachable A y \<longleftrightarrow> (\<exists>close. (context_step A)\<^sup>*\<^sup>* (context_init close) y)"

section \<open>The invariant\<close>

text \<open>Whose turn the command slot is.\<close>

definition slot_ok :: "'h command_state \<Rightarrow> 'h info_head option \<Rightarrow> 'h writer_task \<Rightarrow> bool" where
  "slot_ok c sending t \<longleftrightarrow>
     (case c of
        CM_Idle \<Rightarrow> sending = None \<and> (\<forall>h. t \<noteq> WT_Head h)
      | CM_Queued h \<Rightarrow> sending = Some h \<and> (\<forall>h. t \<noteq> WT_Head h)
      | CM_Writing \<Rightarrow> (\<exists>h. sending = Some h \<and> t = WT_Head h)
      | CM_WritingAbandoned \<Rightarrow> sending = None \<and> (\<exists>h. t = WT_Head h)
      | CM_Complete r \<Rightarrow> sending \<noteq> None \<and> (\<forall>h. t \<noteq> WT_Head h))"

text \<open>Acknowledged heads were written, in order; one that is only waiting to be acknowledged is the last written.\<close>

definition acks_ok :: "'h context_sys \<Rightarrow> bool" where
  "acks_ok y \<longleftrightarrow>
     (if sh_command (qy_shared y) = CM_Complete (Ok ())
      then (\<exists>zs h. qy_written y = zs @ [h] \<and> qy_send y = Some h \<and> subseq (qy_acked y) zs)
      else subseq (qy_acked y) (qy_written y))"

definition continue_ok :: "'h context_sys \<Rightarrow> bool" where
  "continue_ok y \<longleftrightarrow>
     qy_continues y = (if sh_continue (qy_shared y) = AC_Complete then 1 else 0)
   \<and> (qy_writer y = WT_Continue \<longrightarrow> sh_continue (qy_shared y) = AC_Requested)
   \<and> (sh_admission (qy_shared y) = HD_Closed \<longleftrightarrow> \<not> qy_alive y)
   \<and> (\<not> qy_alive y \<longrightarrow> qy_writer y = WT_Stopped \<and> \<not> qy_receiver y)
   \<and> (sh_admission (qy_shared y) = HD_FinalSelected \<longrightarrow> (\<forall>h. sh_command (qy_shared y) \<noteq> CM_Queued h))"

definition context_waits :: "'h context_sys \<Rightarrow> bool" where
  "context_waits y \<longleftrightarrow>
     (\<forall>w. qy_app_wait y = Some w \<longrightarrow>
        sh_application (qy_shared y) = Some w \<and> qy_send y \<noteq> None \<and> (\<forall>r. sh_command (qy_shared y) \<noteq> CM_Complete r) \<and> qy_alive y)
   \<and> (\<forall>w. qy_writer_wait y = Some w \<longrightarrow>
        sh_writer (qy_shared y) = Some w \<and> qy_writer y = WT_Next \<and> sh_admission (qy_shared y) = HD_Open
      \<and> sh_continue (qy_shared y) \<noteq> AC_Requested \<and> (\<forall>h. sh_command (qy_shared y) \<noteq> CM_Queued h))
   \<and> (\<forall>w. qy_receiver_wait y = Some w \<longrightarrow>
        sh_receiver (qy_shared y) = Some w \<and> qy_receiver y \<and> sh_admission (qy_shared y) = HD_Open
      \<and> sh_continue (qy_shared y) \<noteq> AC_Complete)"

definition context_inv :: "'h context_sys \<Rightarrow> bool" where
  "context_inv y \<longleftrightarrow>
     slot_ok (sh_command (qy_shared y)) (qy_send y) (qy_writer y) \<and> acks_ok y \<and> continue_ok y \<and> context_waits y"

lemmas context_op_defs =
  close_connection_def send_poll_def send_guard_drop_def select_final_def continue_start_def
  continue_poll_def continued_def next_command_poll_def complete_command_def informational_drop_def

lemmas context_splits = command_state.splits if_splits

lemma put_shared_simps [simp]:
  "qy_shared (put_shared s ws y) = s" "qy_send (put_shared s ws y) = qy_send y"
  "qy_writer (put_shared s ws y) = qy_writer y" "qy_receiver (put_shared s ws y) = qy_receiver y"
  "qy_alive (put_shared s ws y) = qy_alive y" "qy_written (put_shared s ws y) = qy_written y"
  "qy_acked (put_shared s ws y) = qy_acked y" "qy_continues (put_shared s ws y) = qy_continues y"
  "qy_app_wait (put_shared s ws y) = unwait ws (qy_app_wait y)"
  "qy_writer_wait (put_shared s ws y) = unwait ws (qy_writer_wait y)"
  "qy_receiver_wait (put_shared s ws y) = unwait ws (qy_receiver_wait y)"
  by (simp_all add: put_shared_def)

lemma send_start_Ok:
  "send_start A h s = Ok (s', ws) \<longleftrightarrow>
     status_is_informational A (fst h) \<and> fst h \<noteq> 100 \<and> fst h \<noteq> 101 \<and> sh_admission s = HD_Open \<and> sh_command s = CM_Idle
   \<and> s' = s\<lparr>sh_command := CM_Queued h, sh_writer := None\<rparr> \<and> ws = wake_one (sh_writer s)"
  by (cases "sh_admission s"; cases "sh_command s") (auto simp: send_start_def Let_def)

lemma context_step_slot:
  "context_step A y z \<Longrightarrow> context_inv y \<Longrightarrow> slot_ok (sh_command (qy_shared z)) (qy_send z) (qy_writer z)"
proof (induction rule: context_step.induct)
  case (poll_send y h w r s)
  then show ?case
    by (cases "sh_command (qy_shared y)")
      (auto simp: context_inv_def slot_ok_def send_poll_def send_guard_drop_def is_pending_def split: if_splits)
qed (auto simp: context_inv_def slot_ok_def context_op_defs send_start_Ok after_next_def is_pending_def Let_def split: context_splits)

lemma context_step_continue:
  "context_step A y z \<Longrightarrow> context_inv y \<Longrightarrow> continue_ok z"
  by (induction rule: context_step.induct)
    (auto simp: context_inv_def continue_ok_def slot_ok_def context_op_defs send_start_Ok after_next_def is_pending_def Let_def split: context_splits)

lemma context_step_waits:
  "context_step A y z \<Longrightarrow> context_inv y \<Longrightarrow> context_waits z"
proof (induction rule: context_step.induct)
  case (poll_permission y w r s)
  then show ?case
    by (cases "sh_admission (qy_shared y)")
      (auto simp: context_inv_def continue_ok_def context_waits_def continue_poll_def is_pending_def split: if_splits)
qed (auto simp: context_inv_def continue_ok_def slot_ok_def context_waits_def context_op_defs send_start_Ok after_next_def
      is_pending_def Let_def split: context_splits)

lemma context_step_acks:
  "context_step A y z \<Longrightarrow> context_inv y \<Longrightarrow> acks_ok z"
proof (induction rule: context_step.induct)
  case (poll_send y h w r s)
  have acks: "acks_ok y" using poll_send by (simp add: context_inv_def)
  show ?case
  proof (cases "sh_command (qy_shared y)")
    case (CM_Complete x)
    then have r: "r = Ready x" "s = (qy_shared y)\<lparr>sh_command := CM_Idle\<rparr>"
      using poll_send(2) by (auto simp: send_poll_def)
    have "subseq (qy_acked y @ acked_by (qy_send y) (Ready x)) (qy_written y)"
    proof (cases x)
      case (Ok u)
      with CM_Complete acks obtain zs where "qy_written y = zs @ [h]" "subseq (qy_acked y) zs"
        using poll_send(1) by (auto simp: acks_ok_def)
      then show ?thesis using Ok poll_send(1) by (simp add: acked_by_def)
    qed (use CM_Complete acks poll_send(1) in \<open>simp add: acks_ok_def acked_by_def\<close>)
    with r show ?thesis by (simp add: acks_ok_def is_pending_def send_guard_drop_def)
  qed (use poll_send(1,2) acks in \<open>auto simp: acks_ok_def send_poll_def send_guard_drop_def is_pending_def acked_by_def
         split: if_splits\<close>)
next
  case (head_written y h s ws)
  then show ?case
    by (auto simp: context_inv_def acks_ok_def slot_ok_def complete_command_def Let_def
        intro: subseq_rev_drop_many split: context_splits)
qed (auto simp: context_inv_def acks_ok_def slot_ok_def context_op_defs send_start_Ok Let_def split: context_splits)

lemma context_step_inv: "context_step A y z \<Longrightarrow> context_inv y \<Longrightarrow> context_inv z"
  by (auto simp: context_inv_def [of z] context_step_slot context_step_continue context_step_waits context_step_acks)

interpretation request_context: step_invariant "context_step A" context_inv
  by unfold_locales (rule context_step_inv)

lemma context_inv_init: "context_inv (context_init close)"
  by (simp add: context_inv_def context_init_def context_channel_def slot_ok_def acks_ok_def continue_ok_def context_waits_def)

lemma context_reachable_inv: "context_reachable A y \<Longrightarrow> context_inv y"
  unfolding context_reachable_def by (blast intro: request_context.keeps_star context_inv_init)

lemma context_reachable_step: "context_reachable A y \<Longrightarrow> context_step A y z \<Longrightarrow> context_reachable A z"
  unfolding context_reachable_def by (meson rtranclp.rtrancl_into_rtrancl)

section \<open>A concrete run\<close>

text \<open>
  The service sends a 103 and sleeps, the writer writes it; the body's receiver asks for Continue
  and sleeps, and the writer takes that request.
\<close>

definition context_queued :: "nat context_sys" where
  "context_queued =
     (context_init False)\<lparr>qy_shared := (context_channel False)\<lparr>sh_command := CM_Queued (103, 0)\<rparr>, qy_send := Some (103, 0)\<rparr>"

definition context_asleep :: "nat context_sys" where
  "context_asleep =
     context_queued\<lparr>qy_shared := (qy_shared context_queued)\<lparr>sh_application := Some 1\<rparr>, qy_app_wait := Some 1\<rparr>"

definition context_writing :: "nat context_sys" where
  "context_writing =
     context_asleep\<lparr>qy_shared := (qy_shared context_asleep)\<lparr>sh_command := CM_Writing\<rparr>, qy_writer := WT_Head (103, 0)\<rparr>"

definition context_wrote :: "nat context_sys" where
  "context_wrote =
     context_asleep\<lparr>qy_shared := (context_channel False)\<lparr>sh_command := CM_Complete (Ok ())\<rparr>,
       qy_written := [(103, 0)], qy_app_wait := None\<rparr>"

definition context_permission :: "nat context_sys" where
  "context_permission =
     context_wrote\<lparr>qy_shared := (qy_shared context_wrote)\<lparr>sh_continue := AC_Requested\<rparr>, qy_receiver := True\<rparr>"

definition context_demanding :: "nat context_sys" where
  "context_demanding =
     context_permission\<lparr>qy_shared := (qy_shared context_permission)\<lparr>sh_receiver := Some 3\<rparr>, qy_receiver_wait := Some 3\<rparr>"

definition context_continuing :: "nat context_sys" where
  "context_continuing = context_demanding\<lparr>qy_writer := WT_Continue\<rparr>"

lemmas context_run_defs =
  context_queued_def context_asleep_def context_writing_def context_wrote_def context_permission_def
  context_demanding_def context_continuing_def context_init_def context_channel_def put_shared_def

lemma context_writing_reachable: "context_reachable alist_http context_writing"
proof -
  have "context_step alist_http (context_init False) context_queued"
    using context_step.start_send [of "context_init False" alist_http "(103, 0)" "qy_shared context_queued" "[]"]
    by (simp add: send_start_Ok context_run_defs wake_one_def unwait_def alist_http_def)
  moreover have "context_step alist_http context_queued context_asleep"
    using context_step.poll_send [of context_queued "(103, 0)" 1 Pending "qy_shared context_asleep" alist_http]
    by (simp add: context_run_defs send_poll_def is_pending_def unwait_def)
  moreover have "context_step alist_http context_asleep context_writing"
    using context_step.poll_next [of context_asleep 2 "Ready (Some (Cmd_Application (103, 0)))" "qy_shared context_writing" alist_http]
    by (simp add: context_run_defs next_command_poll_def is_pending_def after_next_def unwait_def)
  ultimately show ?thesis unfolding context_reachable_def
    by (blast intro: rtranclp.rtrancl_refl rtranclp.rtrancl_into_rtrancl)
qed

lemma context_continuing_reachable: "context_reachable alist_http context_continuing"
proof -
  have "context_step alist_http context_writing context_wrote"
    using context_step.head_written [of context_writing "(103, 0)" "qy_shared context_wrote" "[1]" alist_http]
    by (simp add: context_run_defs complete_command_def wake_one_def unwait_def)
  moreover have "context_step alist_http context_wrote context_permission"
    using context_step.start_permission [of context_wrote "qy_shared context_permission" "[]" alist_http]
    by (simp add: context_run_defs continue_start_def wake_one_def unwait_def)
  moreover have "context_step alist_http context_permission context_demanding"
    using context_step.poll_permission [of context_permission 3 Pending "qy_shared context_demanding" alist_http]
    by (simp add: context_run_defs continue_poll_def is_pending_def unwait_def)
  moreover have "context_step alist_http context_demanding context_continuing"
    using context_step.poll_next [of context_demanding 2 "Ready (Some Cmd_Continue)" "qy_shared context_demanding" alist_http]
    by (simp add: context_run_defs next_command_poll_def is_pending_def after_next_def unwait_def)
  ultimately show ?thesis using context_writing_reachable by (metis context_reachable_step)
qed

section \<open>Properties\<close>

text \<open>
  C14. Whatever the service, the writer of informational heads, the receiver of the body and the
  coordinator do, in any order: the writer's acknowledgement of the head it wrote never panics;
  acknowledged heads are among those written, in the order written; Continue is written at most
  once, and nothing is handed to the writer after the final response was selected.
\<close>

theorem informational_commands_safe:
  assumes "context_reachable A y"
  shows "(\<forall>h r. qy_writer y = WT_Head h \<longrightarrow> complete_command r (qy_shared y) \<noteq> None)
    \<and> subseq (qy_acked y) (qy_written y)
    \<and> qy_continues y \<le> 1 \<and> (qy_writer y = WT_Continue \<longrightarrow> qy_continues y = 0)
    \<and> (sh_admission (qy_shared y) \<noteq> HD_Open \<longrightarrow> fst (next_command_poll w (qy_shared y)) = Ready None)"
proof -
  have ok: "context_inv y" using assms by (rule context_reachable_inv)
  have "complete_command r (qy_shared y) \<noteq> None" if "qy_writer y = WT_Head h" for h r
    using ok that by (auto simp: context_inv_def slot_ok_def complete_command_def split: command_state.splits)
  moreover have "subseq (qy_acked y) (qy_written y)"
    using ok by (auto simp: context_inv_def acks_ok_def intro: subseq_rev_drop_many split: if_splits)
  moreover have "qy_continues y \<le> 1 \<and> (qy_writer y = WT_Continue \<longrightarrow> qy_continues y = 0)"
    using ok by (simp add: context_inv_def continue_ok_def)
  ultimately show ?thesis by (simp add: next_command_poll_def)
qed

theorem informational_commands_safe_witness:
  "complete_command (Ok ()) (qy_shared context_writing) \<noteq> None \<and> qy_continues context_continuing = 0"
  using informational_commands_safe [OF context_writing_reachable]
    informational_commands_safe [OF context_continuing_reachable]
  by (simp add: context_writing_def context_continuing_def)

text \<open>
  C29. No wake-up is lost: a send that sleeps has its waker registered and would still wait; the
  writer sleeps only while admission is open and there is neither a queued head nor a demand for
  Continue; and a receiver of the body sleeps only while it must wait for Continue.
\<close>

theorem informational_wakeups:
  assumes "context_reachable A y"
  shows "(\<forall>w. qy_app_wait y = Some w \<longrightarrow>
            sh_application (qy_shared y) = Some w \<and> is_pending (fst (send_poll w (qy_shared y))))
    \<and> (\<forall>w. qy_writer_wait y = Some w \<longrightarrow>
            sh_writer (qy_shared y) = Some w \<and> is_pending (fst (next_command_poll w (qy_shared y))))
    \<and> (\<forall>w. qy_receiver_wait y = Some w \<longrightarrow>
            sh_receiver (qy_shared y) = Some w \<and> is_pending (fst (continue_poll w (qy_shared y))))"
proof -
  have ok: "context_waits y" "continue_ok y" using context_reachable_inv [OF assms] by (simp_all add: context_inv_def)
  have "is_pending (fst (send_poll w (qy_shared y)))" if "qy_app_wait y = Some w" for w
    using ok that
    by (auto simp: context_waits_def continue_ok_def send_poll_def is_pending_def split: command_state.splits)
  moreover have "is_pending (fst (next_command_poll w (qy_shared y)))" if "qy_writer_wait y = Some w" for w
    using ok(1) that by (auto simp: context_waits_def next_command_poll_def is_pending_def split: command_state.splits)
  moreover have "is_pending (fst (continue_poll w (qy_shared y)))" if "qy_receiver_wait y = Some w" for w
    using ok(1) that by (auto simp: context_waits_def continue_poll_def is_pending_def)
  ultimately show ?thesis using ok(1) by (simp add: context_waits_def)
qed

theorem informational_wakeups_witness:
  "sh_application (qy_shared context_writing) = Some 1 \<and> sh_receiver (qy_shared context_continuing) = Some 3"
  using informational_wakeups [OF context_writing_reachable] informational_wakeups [OF context_continuing_reachable]
  by (simp add: context_writing_def context_asleep_def context_continuing_def context_demanding_def)

end
