(* ===== verification/Server_Driver.thy ===== *)
theory Server_Driver
  imports Client_Driver Config Request_Context
begin

text \<open>
  The server's connection driver, from \<open>src/src/proto/h1/server.rs\<close>, past the reception of a
  request (\<open>Head_Receive\<close>, \<open>Message_Receive\<close>): the cached date, the reply to an illegal head, the
  writer of informational heads, the final response, the composition of the service with both
  directions of an exchange, and the loop over the requests of a connection.

  As for the client, which of two concurrent activities ends first and how the other one ends
  after that are arguments. The calendar text of a clock reading is the \<open>httpdate\<close> crate's and
  a parameter.
\<close>

section \<open>Configuration and date\<close>

abbreviation DATE :: header_name where "DATE \<equiv> ''date''"
abbreviation METHOD_GET :: http_method where "METHOD_GET \<equiv> ''GET''"
abbreviation BAD_REQUEST :: status_code where "BAD_REQUEST \<equiv> 400"
abbreviation REQUEST_HEADER_FIELDS_TOO_LARGE :: status_code where "REQUEST_HEADER_FIELDS_TOO_LARGE \<equiv> 431"

record server_config =
  sg_settings :: connection_settings
  sg_auto_date :: bool
  sg_auto_error_response :: bool

definition server_config_default :: server_config where
  "server_config_default =
     \<lparr>sg_settings = settings_default\<lparr>st_head_timeout := Some (30 * 10 ^ 9)\<rparr>, sg_auto_date = True, sg_auto_error_response = True\<rparr>"

text \<open>
  \<open>DateCache\<close>. A clock reading is in nanoseconds since the epoch, negative before it; \<open>fmt\<close> is
  \<open>fmt_http_date\<close>, \<open>None\<close> where that panics. \<open>None\<close> is a panic of the call.
\<close>

type_synonym date_cache = "(nat \<times> bytes) option"

definition date_seconds :: "int \<Rightarrow> nat" where
  "date_seconds now = (if now < 0 then 0 else nat (now div 10 ^ 9))"

definition date_value ::
  "('h, 'u) http_api \<Rightarrow> (int \<Rightarrow> bytes option) \<Rightarrow> int \<Rightarrow> date_cache \<Rightarrow> (bytes \<times> date_cache) option" where
  "date_value A fmt now cache =
     (let second = date_seconds now;
          fresh = Option.bind (fmt now) (\<lambda>text. Option.bind (header_value_from_str A text) (\<lambda>v. Some (v, Some (second, v)))) in
      case cache of
        Some (cached, v) \<Rightarrow> if cached = second then Some (v, cache) else fresh
      | None \<Rightarrow> fresh)"

definition insert_date ::
  "('h, 'u) http_api \<Rightarrow> (int \<Rightarrow> bytes option) \<Rightarrow> int \<Rightarrow> 'h \<Rightarrow> date_cache \<Rightarrow> ('h \<times> date_cache) option" where
  "insert_date A fmt now headers cache =
     map_option (\<lambda>(v, cache'). (hm_insert A headers DATE v, cache')) (date_value A fmt now cache)"

section \<open>Replying to an illegal head\<close>

text \<open>\<open>shutdown\<close> is the write half's shutdown.\<close>

definition empty_metadata :: body_metadata where
  "empty_metadata = \<lparr>md_size = with_exact 0, md_trailers = TH_None\<rparr>"

definition illegal_head_status :: "head_error \<Rightarrow> status_code" where
  "illegal_head_status e = (case e of HLimit _ \<Rightarrow> REQUEST_HEADER_FIELDS_TOO_LARGE | _ \<Rightarrow> BAD_REQUEST)"

definition reply_illegal_head ::
  "('h, 'u) http_api \<Rightarrow> allocator \<Rightarrow> 'w writer_api \<Rightarrow> ('w \<Rightarrow> (unit, io_error) result \<times> 'w) \<Rightarrow> (int \<Rightarrow> bytes option) \<Rightarrow> server_config
     \<Rightarrow> int \<Rightarrow> head_error \<Rightarrow> date_cache \<Rightarrow> 'w \<Rightarrow> (error \<times> date_cache \<times> 'w) option" where
  "reply_illegal_head A M W shutdown fmt config now e date w =
     (let failure = error_from_head e in
      if \<not> sg_auto_error_response config then Some (failure, date, w)
      else
        (let headers = hm_insert A (hm_default A) CONNECTION (bstr ''close'') in
         case (if sg_auto_date config then insert_date A fmt now headers date else Some (headers, date)) of
           None \<Rightarrow> None
         | Some (headers, date') \<Rightarrow>
             (case prepare_response_head A M (illegal_head_status e) HTTP_11 headers None empty_metadata METHOD_GET
                     (cf_encode (st_protocol (sg_settings config))) of
                Err _ \<Rightarrow> Some (failure, date', w)
              | Ok plan \<Rightarrow>
                  (case write_all W (mp_bytes plan) w of
                     None \<Rightarrow> None
                   | Some (Err _, w') \<Rightarrow> Some (failure, date', w')
                   | Some (Ok _, w') \<Rightarrow>
                       (case wr_flush W w' of
                          (Err _, w'') \<Rightarrow> Some (failure, date', w'')
                        | (Ok _, w'') \<Rightarrow> Some (failure, date', snd (shutdown w'')))))))"

section \<open>Writing the final response\<close>

record 'h response_parts =
  ps_status :: status_code
  ps_version :: version
  ps_headers :: 'h
  ps_case :: "'h option"

text \<open>The head fields a response is sent with.\<close>

definition response_headers ::
  "('h, 'u) http_api \<Rightarrow> (int \<Rightarrow> bytes option) \<Rightarrow> server_config \<Rightarrow> int \<Rightarrow> bool \<Rightarrow> 'h \<Rightarrow> date_cache \<Rightarrow> ('h \<times> date_cache) option" where
  "response_headers A fmt config now close headers date =
     (let headers = (if close then hm_append A headers CONNECTION (bstr ''close'') else headers) in
      if sg_auto_date config \<and> \<not> hm_contains_key A headers DATE then insert_date A fmt now headers date
      else Some (headers, date))"

text \<open>
  \<open>write_response\<close>: its result, the policy, the date cache and the writer. \<open>now\<close> is the clock when
  the date is read; the outer \<open>None\<close> is a panic of the date or of the body's hints, or a transport
  that interrupts for ever.
\<close>

definition write_response ::
  "('h, 'u) http_api \<Rightarrow> allocator \<Rightarrow> ('s, 'w) send_env \<Rightarrow> 'w writer_api \<Rightarrow> ('s, 'd, 'h, 'e) body_impl \<Rightarrow> ('e \<Rightarrow> string)
     \<Rightarrow> (int \<Rightarrow> bytes option) \<Rightarrow> server_config \<Rightarrow> int \<Rightarrow> 'h response_parts \<Rightarrow> 's \<Rightarrow> http_method \<Rightarrow> version \<Rightarrow> bool
     \<Rightarrow> date_cache \<Rightarrow> exchange_policy \<Rightarrow> 'w \<Rightarrow> ((persistence, error) result \<times> exchange_policy \<times> date_cache \<times> 'w) option" where
  "write_response A M E W B describe fmt config now parts body request_method request_version close date policy w =
     (if status_is_informational A (ps_status parts) \<and> ps_status parts \<noteq> SWITCHING_PROTOCOLS
      then Some (Err (error_new KUnsupported ''informational responses and transport handoff require their dedicated APIs''), policy, date, w)
      else
        (case (response_headers A fmt config now close (ps_headers parts) date, size_hint_of B body, trailer_hint_of B body) of
           (Some (headers, date'), Some hint, Some trailers) \<Rightarrow>
             (let version = (if request_version = HTTP_10 then HTTP_10 else ps_version parts);
                  metadata = \<lparr>md_size = hint, md_trailers = trailers\<rparr>;
                  encoding = cf_encode (st_protocol (sg_settings config)) in
              case prepare_response_head A M (ps_status parts) version headers (ps_case parts) metadata request_method encoding of
                Err e \<Rightarrow> Some (Err (error_from_encode e), policy, date', w)
              | Ok plan \<Rightarrow>
                  (let mode = vresp_body (mp_head plan) in
                   if vresp_upgrade (mp_head plan) \<noteq> None \<and> close
                   then Some (Err (error_new KUpgrade ''closing exchange cannot transfer transport ownership''), policy, date', w)
                   else
                     (case sent_response A policy (mp_head plan) of
                        Err e \<Rightarrow> Some (Err e, policy, date', w)
                      | Ok policy' \<Rightarrow>
                          (case body_encoder_new mode metadata encoding of
                             Err e \<Rightarrow> Some (Err (error_from_encode e), policy', date', w)
                           | Ok enc \<Rightarrow>
                               map_option (\<lambda>(res, w').
                                   (and_then res (\<lambda>_. Ok (vresp_persistence (mp_head plan))), policy', date', w'))
                                 (case write_all W (mp_bytes plan) w of
                                    None \<Rightarrow> None
                                  | Some (Err e, w') \<Rightarrow> Some (Err (error_from_io e), w')
                                  | Some (Ok _, w') \<Rightarrow>
                                      transmit_body A M E W B describe ''response body failed'' ''response production canceled''
                                        mode enc body w')))))
         | _ \<Rightarrow> None))"

section \<open>Writing informational heads\<close>

text \<open>
  \<open>write_informationals\<close>, one round of its loop and the loop over what its awaits report: \<open>None\<close> for a
  cancellation, otherwise what the context's \<open>next\<close> returns. A command of the application carries the
  parts of its response. The answer of the loop holds its result, unless it still waits, and the
  acknowledgements it gave to the context.
\<close>

datatype informational_ack = IA_Complete "(unit, error) result" | IA_Continued

definition is_automatic :: "'x command \<Rightarrow> bool" where
  "is_automatic c = (case c of Cmd_Continue \<Rightarrow> True | Cmd_Application _ \<Rightarrow> False)"

definition informational_parts :: "('h, 'u) http_api \<Rightarrow> 'h response_parts command \<Rightarrow> 'h response_parts" where
  "informational_parts A c =
     (case c of
        Cmd_Continue \<Rightarrow> \<lparr>ps_status = 100, ps_version = HTTP_11, ps_headers = hm_default A, ps_case = None\<rparr>
      | Cmd_Application (_, parts) \<Rightarrow> parts)"

definition informational_head ::
  "('h, 'u) http_api \<Rightarrow> allocator \<Rightarrow> encode_config \<Rightarrow> version \<Rightarrow> usize \<Rightarrow> usize \<Rightarrow> 'h response_parts \<Rightarrow> (bytes, error) result" where
  "informational_head A M encoding version limit written_heads parts =
     (if version \<noteq> HTTP_11 then Err (error_new KUnsupported ''informational responses require HTTP/1.1'')
      else if written_heads = limit
      then Err (with_detail (error_new KLimit ''too many informational responses'') (OutgoingLimit InformationalResponses))
      else
        and_then (map_err error_from_encode
            (prepare_response_head A M (ps_status parts) (ps_version parts) (ps_headers parts) (ps_case parts) empty_metadata METHOD_GET encoding))
          (\<lambda>plan. Ok (mp_bytes plan)))"

definition informational_round ::
  "('h, 'u) http_api \<Rightarrow> allocator \<Rightarrow> 'w writer_api \<Rightarrow> encode_config \<Rightarrow> version \<Rightarrow> usize \<Rightarrow> 'h response_parts command \<Rightarrow> usize \<Rightarrow> 'w
     \<Rightarrow> ((usize, error) result \<times> informational_ack list \<times> 'w) option" where
  "informational_round A M W encoding version limit c written_heads w =
     (case informational_head A M encoding version limit written_heads (informational_parts A c) of
        Err e \<Rightarrow> Some (if is_automatic c then (Err e, [], w) else (Ok written_heads, [IA_Complete (Err e)], w))
      | Ok head \<Rightarrow>
          (case write_all W head w of
             None \<Rightarrow> None
           | Some (written, w') \<Rightarrow>
               (case (case written of
                        Ok _ \<Rightarrow> (case wr_flush W w' of (res, w'') \<Rightarrow> (map_err error_from_io res, w''))
                      | Err e \<Rightarrow> (Err (error_from_io e), w')) of
                  (Err e, w'') \<Rightarrow>
                    Some (if is_automatic c then (Err e, [], w'')
                          else (case error_split e of (driver, observer) \<Rightarrow> (Err driver, [IA_Complete (Err observer)], w'')))
                | (Ok _, w'') \<Rightarrow> Some (Ok (written_heads + 1), [if is_automatic c then IA_Continued else IA_Complete (Ok ())], w''))))"

fun write_informationals ::
  "('h, 'u) http_api \<Rightarrow> allocator \<Rightarrow> 'w writer_api \<Rightarrow> encode_config \<Rightarrow> version \<Rightarrow> usize \<Rightarrow> 'h response_parts command option option list
     \<Rightarrow> usize \<Rightarrow> 'w \<Rightarrow> ((unit, error) result option \<times> informational_ack list \<times> 'w) option" where
  "write_informationals A M W encoding version limit [] written_heads w = Some (None, [], w)"
| "write_informationals A M W encoding version limit (None # cs) written_heads w =
     Some (Some (Err (error_new KCanceled ''informational writer canceled'')), [], w)"
| "write_informationals A M W encoding version limit (Some None # cs) written_heads w = Some (Some (Ok ()), [], w)"
| "write_informationals A M W encoding version limit (Some (Some c) # cs) written_heads w =
     (case informational_round A M W encoding version limit c written_heads w of
        None \<Rightarrow> None
      | Some (Err e, acks, w') \<Rightarrow> Some (Some (Err e), acks, w')
      | Some (Ok written_heads', acks, w') \<Rightarrow>
          map_option (\<lambda>(res, acks', w''). (res, acks @ acks', w''))
            (write_informationals A M W encoding version limit cs written_heads' w'))"

section \<open>The service and its informational writer\<close>

text \<open>
  \<open>call_service\<close>. A cancelled call answers \<open>None\<close>; \<open>await_heads\<close> is how the writer ends after the final
  response was selected, given whether the exchange was cancelled. The answer holds the
  result, whether the exchange's source was cancelled, and the context.
\<close>

definition call_service ::
  "('e \<Rightarrow> string) \<Rightarrow> (('p, 'e) result option, (unit, error) result) race
     \<Rightarrow> (bool \<Rightarrow> 'h request_shared \<Rightarrow> (unit, error) result \<times> 'h request_shared) \<Rightarrow> 'h request_shared
     \<Rightarrow> ('p, error) result \<times> bool \<times> 'h request_shared" where
  "call_service describe won await_heads shared =
     (case won of
        Race_First result \<Rightarrow>
          (let cancels = (case result of Some (Ok _) \<Rightarrow> False | _ \<Rightarrow> True) in
           case await_heads cancels (fst (select_final shared)) of (written, shared') \<Rightarrow>
             (case result of
                Some (Ok response) \<Rightarrow> and_then written (\<lambda>_. Ok response)
              | Some (Err e) \<Rightarrow> Err (with_source KService ''HTTP service failed'' (FromApplication (describe e)))
              | None \<Rightarrow> Err (error_new KCanceled ''HTTP service canceled''),
              cancels, shared'))
      | Race_Second written \<Rightarrow>
          (and_then written (\<lambda>_. Err (error_new KCanceled ''informational writer stopped'')), True, shared))"

section \<open>One exchange\<close>

text \<open>
  \<open>request_message\<close>: the message for the service is the head it was built from, with its body; the
  extensions it carries besides the recorded header spellings are descriptive.
\<close>

definition request_message :: "('h, 'u) request_head \<Rightarrow> 'c incoming \<Rightarrow> server_config \<Rightarrow> ('h, 'u) request_head \<times> 'c incoming" where
  "request_message head body config = (head, with_drain_config body (st_drain (sg_settings config)))"

record ('r, 'w) exchange_result =
  er_outcome :: exchange_outcome
  er_upgrade :: "('r, 'w) upgrade_state"
  er_recoverable :: bool

definition server_finish_exchange ::
  "receive_end \<Rightarrow> exchange_policy \<Rightarrow> bool \<Rightarrow> ('r, 'w) upgrade_state \<Rightarrow> (('r, 'w) exchange_result, error) result" where
  "server_finish_exchange fin policy close upgrade =
     (let finish = (\<lambda>request_end.
            and_then (exchange_finish (if close then close_after_exchange policy else policy) request_end AE_Complete)
              (\<lambda>out. Ok \<lparr>er_outcome = out, er_upgrade = upgrade, er_recoverable = (request_end = AE_Complete)\<rparr>)) in
      case fin of
        RE_Failed e \<Rightarrow> Err e
      | RE_Abandoned \<Rightarrow> finish AE_Retired
      | RE_Complete \<Rightarrow> finish AE_Complete)"

text \<open>
  What the awaits of \<open>exchange\<close> report: which of the receiver and the service ends first; how the
  service ends after the receiver; how the receiver ends when it is driven to its end, given
  whether the source was cancelled; what one poll of it answers once the service has returned;
  which of the receiver and the sender ends first, and how the sender ends after the receiver.
  The sender, \<open>write_response\<close>, is given whether the connection is to close and the response, and
  leaves the policy. The last two are the flag of \<open>close_connection\<close> when the head is written and
  at the end.
\<close>

record ('b, 'p) server_awaits =
  sa_first :: "(receive_end \<times> 'b recv_buffer, ('p, error) result) race"
  sa_call :: "('p, error) result"
  sa_receive :: "bool \<Rightarrow> receive_end \<times> 'b recv_buffer"
  sa_polled :: "(receive_end \<times> 'b recv_buffer) option"
  sa_second :: "bool \<Rightarrow> 'p \<Rightarrow> (receive_end \<times> 'b recv_buffer, (persistence, error) result \<times> exchange_policy) race"
  sa_send :: "bool \<Rightarrow> 'p \<Rightarrow> (persistence, error) result \<times> exchange_policy"
  sa_close :: bool
  sa_close_late :: bool

definition exchange_settle ::
  "bool \<Rightarrow> ('r, 'w) upgrade_state \<Rightarrow> receive_end \<times> 'b recv_buffer \<Rightarrow> (persistence, error) result \<times> exchange_policy
     \<Rightarrow> (('r, 'w) exchange_result, error) result \<times> 'b recv_buffer" where
  "exchange_settle close upgrade got sent =
     (case sent of
        (Err e, _) \<Rightarrow> (Err e, snd got)
      | (Ok _, policy) \<Rightarrow> (server_finish_exchange (fst got) policy close upgrade, snd got))"

definition exchange_respond ::
  "('b, 'p) server_awaits \<Rightarrow> ('r, 'w) upgrade_state \<Rightarrow> (receive_end \<times> 'b recv_buffer) option \<Rightarrow> 'p
     \<Rightarrow> (('r, 'w) exchange_result, error) result \<times> 'b recv_buffer" where
  "exchange_respond X upgrade got response =
     (let close = (sa_close X \<or> (case got of Some (fin, _) \<Rightarrow> fin = RE_Abandoned | None \<Rightarrow> False));
          settle = exchange_settle (close \<or> sa_close_late X) upgrade in
      case got of
        Some r \<Rightarrow> settle r (sa_send X close response)
      | None \<Rightarrow>
          (case sa_second X close response of
             Race_First (RE_Failed e, rb) \<Rightarrow> (Err e, rb)
           | Race_First r \<Rightarrow> settle r (sa_send X close response)
           | Race_Second sent \<Rightarrow> settle (sa_receive X (\<not> is_ok (fst sent))) sent))"

definition server_exchange ::
  "('b, 'p) server_awaits \<Rightarrow> ('r, 'w) upgrade_state \<Rightarrow> (('r, 'w) exchange_result, error) result \<times> 'b recv_buffer" where
  "server_exchange X upgrade =
     (let called = (\<lambda>got called.
            case called of
              Err e \<Rightarrow> (Err e, snd (case got of Some r \<Rightarrow> r | None \<Rightarrow> sa_receive X True))
            | Ok response \<Rightarrow>
                (let got = (case got of None \<Rightarrow> sa_polled X | Some r \<Rightarrow> Some r) in
                 case got of
                   Some (RE_Failed e, rb) \<Rightarrow> (Err e, rb)
                 | _ \<Rightarrow> exchange_respond X upgrade got response)) in
      case sa_first X of
        Race_First (RE_Failed e, rb) \<Rightarrow> (Err e, rb)
      | Race_First r \<Rightarrow> called (Some r) (sa_call X)
      | Race_Second c \<Rightarrow> called None c)"

section \<open>The connection loop\<close>

text \<open>
  One turn of the loop: whether shutdown was requested, the error of a head deadline that cannot
  be built, how the head loop ends and with which buffer, what \<open>reply_illegal_head\<close> returns, and
  the exchange. Without further turns the connection still runs.
\<close>

record ('b, 'r, 'w, 'h, 'u) server_turn =
  tn_stopping :: bool
  tn_deadline :: "error option"
  tn_head :: "('h, 'u) server_head_end"
  tn_buffer :: "'b recv_buffer"
  tn_reply :: "head_error \<Rightarrow> error"
  tn_exchange :: "(('r, 'w) exchange_result, error) result \<times> 'b recv_buffer"

fun server_run_inner ::
  "'b buffer_api \<Rightarrow> ('r, 'w) driver_conn \<Rightarrow> 'b recv_buffer \<Rightarrow> ('b, 'r, 'w, 'h, 'u) server_turn list
     \<Rightarrow> (('r, 'w) connection_outcome, error) result option" where
  "server_run_inner U c rb [] = None"
| "server_run_inner U c rb (turn # turns) =
     (if tn_stopping turn then Some (driver_end U c rb True)
      else
        (case tn_deadline turn of
           Some e \<Rightarrow> Some (Err e)
         | None \<Rightarrow>
             (case tn_head turn of
                SH_Failed e \<Rightarrow> Some (Err e)
              | SH_Illegal e \<Rightarrow> Some (Err (tn_reply turn e))
              | SH_Stop \<Rightarrow> Some (driver_end U c (tn_buffer turn) True)
              | SH_Head _ \<Rightarrow>
                  (case tn_exchange turn of
                     (Err e, _) \<Rightarrow> Some (Err e)
                   | (Ok x, rb') \<Rightarrow>
                       (case er_outcome x of
                          EO_Handoff kind \<Rightarrow>
                            Some (Ok (case upgrade_fulfill (upgraded_new (cn_reader c) (cn_writer c) (fst (take_all U rb')) kind) (er_upgrade x) of
                                        (Ok k, _, _) \<Rightarrow> CO_UpgradeClaimed k
                                      | (Err u, _, _) \<Rightarrow> CO_Upgraded u))
                        | EO_Close \<Rightarrow> Some (driver_end U c rb' (er_recoverable x))
                        | EO_Reusable \<Rightarrow> server_run_inner U c rb' turns)))))"

text \<open>\<open>run\<close>: \<open>drive\<close> is what the shutdown controller made of the inner result.\<close>

definition server_run ::
  "'b buffer_api \<Rightarrow> ('r, 'w) driver_conn \<Rightarrow> ((('r, 'w) connection_outcome, error) result \<Rightarrow> ('r, 'w) connection_outcome drive_end)
     \<Rightarrow> 'b recv_buffer \<Rightarrow> ('b, 'r, 'w, 'h, 'u) server_turn list \<Rightarrow> (('r, 'w) connection_outcome, error) result option" where
  "server_run U c drive rb turns = map_option (\<lambda>inner. drive_result (drive inner)) (server_run_inner U c rb turns)"

end
