(* ===== verification/Server_Laws.thy ===== *)
theory Server_Laws
  imports Server_Driver
begin

text \<open>
  What the server driver of \<open>Server_Driver\<close> guarantees: the responses and informational heads it
  puts on the transport, its reply to an illegal head, how an exchange settles, and what becomes of
  the transport when the connection ends.
\<close>

section \<open>The final response\<close>

text \<open>
  C5. What a server puts on the transport for a response is its prepared head, with the fields the
  driver adds, and then its body as the encoder frames it, once and in order. For every body that
  ends, writing returns; what the transport accepted is a prefix of that message, all of it when
  writing succeeds, and then the answer is the persistence of the head. It succeeds if no write
  fails, nothing is cancelled and the body keeps its promises.
\<close>

theorem server_sends_response:
  assumes "writer_laws W sent" "patient W patience" "run_body n (recycling B) body = (fs, Some r, t)"
    and "\<not> status_is_informational A (ps_status parts) \<or> ps_status parts = SWITCHING_PROTOCOLS"
    and "response_headers A fmt config now close (ps_headers parts) date = Some (headers, date')"
    and "size_hint_of B body = Some hint" "trailer_hint_of B body = Some trailers"
    and "prepare_response_head A M (ps_status parts) (if request_version = HTTP_10 then HTTP_10 else ps_version parts) headers (ps_case parts)
           \<lparr>md_size = hint, md_trailers = trailers\<rparr> request_method (cf_encode (st_protocol (sg_settings config))) = Ok plan"
    and "vresp_upgrade (mp_head plan) = None \<or> \<not> close" "sent_response A policy (mp_head plan) = Ok policy'"
    and "vresp_body (mp_head plan) = mode"
    and "body_encoder_new mode \<lparr>md_size = hint, md_trailers = trailers\<rparr> (cf_encode (st_protocol (sg_settings config))) = Ok enc"
    and "wire_of A M (frame_bytes B) enc False fs (r = Ok ()) = (wire, fine)"
  shows "\<exists>res w'. write_response A M E W B describe fmt config now parts body request_method request_version close date policy w
        = Some (res, policy', date', w')
    \<and> sent_message sent (mp_bytes plan @ (if mode = BM_None then [] else wire)) (mode = BM_None \<or> fine) (reliable_send E W B) w (res, w')
    \<and> (\<forall>p. res = Ok p \<longrightarrow> p = vresp_persistence (mp_head plan))"
proof -
  let ?transmit = "case write_all W (mp_bytes plan) w of
      None \<Rightarrow> None
    | Some (Err e, w') \<Rightarrow> Some (Err (error_from_io e), w')
    | Some (Ok _, w') \<Rightarrow>
        transmit_body A M E W B describe ''response body failed'' ''response production canceled'' mode enc body w'"
  have legal: "\<not> (status_is_informational A (ps_status parts) \<and> ps_status parts \<noteq> SWITCHING_PROTOCOLS)" using assms(4) by blast
  have handover: "\<not> (vresp_upgrade (mp_head plan) \<noteq> None \<and> close)" using assms(9) by auto
  have eq: "write_response A M E W B describe fmt config now parts body request_method request_version close date policy w =
      map_option (\<lambda>(res, w'). (and_then res (\<lambda>_. Ok (vresp_persistence (mp_head plan))), policy', date', w')) ?transmit"
    by (simp only: write_response_def Let_def if_not_P [OF legal] if_not_P [OF handover] assms(5-8,10-12) option.case prod.case result.case)
  have "\<exists>out. ?transmit = Some out
      \<and> sent_message sent (mp_bytes plan @ (if mode = BM_None then [] else wire)) (mode = BM_None \<or> fine) (reliable_send E W B) w out"
    by (rule head_then [OF assms(1,2)]) (simp add: reliable_send_def, rule transmit_body_sends [OF assms(1-3,13)])
  then obtain res w' where out: "?transmit = Some (res, w')"
      "sent_message sent (mp_bytes plan @ (if mode = BM_None then [] else wire)) (mode = BM_None \<or> fine) (reliable_send E W B) w (res, w')"
    by (elim exE conjE) (metis (no_types) surj_pair)
  let ?res = "and_then res (\<lambda>_. Ok (vresp_persistence (mp_head plan)))"
  have "is_ok ?res = is_ok res" "\<forall>p. ?res = Ok p \<longrightarrow> p = vresp_persistence (mp_head plan)" by (cases res; simp)+
  then show ?thesis using out sent_message_result [OF out(2), of "(?res, w')"] unfolding eq by auto
qed

definition demo_date :: "int \<Rightarrow> bytes option" where
  "demo_date now = (if 0 \<le> now then Some (bstr ''Thu'') else None)"

definition demo_response :: "alist response_parts" where
  "demo_response = \<lparr>ps_status = 200, ps_version = HTTP_11, ps_headers = [], ps_case = None\<rparr>"

theorem server_sends_response_witness:
  "\<exists>(plan :: alist validated_response_head message_plan) res policy' w'. write_response alist_http (\<lambda>_ _. True) quiet_env list_writer small_full_body (\<lambda>_. '''') demo_date server_config_default 5
        demo_response (FS_Ready ()) METHOD_GET HTTP_11 True None demo_policy ([], [1, 0, 2])
      = Some (Ok res, policy', Some (0, bstr ''Thu''), w')
    \<and> res = vresp_persistence (mp_head plan) \<and> fst w' = mp_bytes plan @ [97, 98]"
proof -
  let ?cfg = "cf_encode (st_protocol (sg_settings server_config_default))" and ?md = "\<lparr>md_size = with_exact 2, md_trailers = TH_None\<rparr>"
  let ?headers = "[(CONNECTION, bstr ''close''), (DATE, bstr ''Thu'')]"
  let ?prep = "prepare_response_head alist_http (\<lambda>_ _. True) (ps_status demo_response)
      (if HTTP_11 = HTTP_10 then HTTP_10 else ps_version demo_response) ?headers (ps_case demo_response) ?md METHOD_GET ?cfg"
  have headers: "response_headers alist_http demo_date server_config_default 5 True (ps_headers demo_response) None = Some (?headers, Some (0, bstr ''Thu''))"
    by code_simp
  have hints: "size_hint_of small_full_body (FS_Ready ()) = Some (with_exact 2)" "trailer_hint_of small_full_body (FS_Ready ()) = Some TH_None"
    by code_simp+
  have "case ?prep of
      Ok plan \<Rightarrow> vresp_upgrade (mp_head plan) = None \<and> vresp_body (mp_head plan) = BM_Fixed 2 \<and> is_ok (sent_response alist_http demo_policy (mp_head plan))
    | Err _ \<Rightarrow> False" by code_simp
  then obtain plan policy' where plan: "?prep = Ok plan" "vresp_upgrade (mp_head plan) = None \<or> \<not> True"
      "sent_response alist_http demo_policy (mp_head plan) = Ok policy'" "vresp_body (mp_head plan) = BM_Fixed 2"
    by (auto simp: is_ok_iff split: result.splits)
  have "case body_encoder_new (BM_Fixed 2) ?md ?cfg of
      Ok enc \<Rightarrow> wire_of alist_http (\<lambda>_ _. True) (frame_bytes small_full_body) enc False [DataFrame ()] True = ([97, 98], True)
    | Err _ \<Rightarrow> False" by code_simp
  then obtain enc where enc: "body_encoder_new (BM_Fixed 2) ?md ?cfg = Ok enc"
      "wire_of alist_http (\<lambda>_ _. True) (frame_bytes small_full_body) enc False [DataFrame ()] (Ok () = (Ok () :: (unit, unit) result)) = ([97, 98], True)"
    by (auto split: result.splits)
  have legal: "\<not> status_is_informational alist_http (ps_status demo_response) \<or> ps_status demo_response = SWITCHING_PROTOCOLS" by code_simp
  from server_sends_response [OF list_writer_laws list_writer_patient small_full_body_run legal headers hints plan enc,
      of quiet_env "\<lambda>_. ''''" "([], [1, 0, 2])"] small_full_body_reliable
  show ?thesis by (auto simp: sent_message_def is_ok_iff)
qed

section \<open>Informational heads\<close>

definition acknowledged :: "informational_ack \<Rightarrow> bool" where
  "acknowledged a \<longleftrightarrow> a = IA_Continued \<or> a = IA_Complete (Ok ())"

definition prepared_informational ::
  "('h, 'u) http_api \<Rightarrow> allocator \<Rightarrow> encode_config \<Rightarrow> 'h response_parts command \<Rightarrow> bytes \<Rightarrow> bool" where
  "prepared_informational A M encoding c head \<longleftrightarrow>
     (\<exists>plan. prepare_response_head A M (ps_status (informational_parts A c)) (ps_version (informational_parts A c))
         (ps_headers (informational_parts A c)) (ps_case (informational_parts A c)) empty_metadata METHOD_GET encoding = Ok plan
       \<and> mp_bytes plan = head)"

text \<open>
  What one round leaves on the transport: the whole head when it counted, nothing when the head was
  refused, and a part of it when writing failed.
\<close>

lemma informational_round_wrote:
  assumes "writer_laws W sent" "patient W patience" "n \<le> limit"
  shows "\<exists>res acks w'. informational_round A M W encoding version limit c n w = Some (res, acks, w')
    \<and> ((\<exists>head. res = Ok (n + 1) \<and> n < limit \<and> version = HTTP_11 \<and> prepared_informational A M encoding c head
          \<and> sent w' = sent w @ head \<and> (\<exists>a. acks = [a] \<and> acknowledged a))
       \<or> (\<exists>e. res = Ok n \<and> sent w' = sent w \<and> acks = [IA_Complete (Err e)])
       \<or> (\<exists>e head k. res = Err e \<and> sent w' = sent w @ take k head \<and> (\<forall>a \<in> set acks. \<not> acknowledged a)))"
proof (cases "informational_head A M encoding version limit n (informational_parts A c)")
  case (Err e)
  then show ?thesis by (cases "is_automatic c") (auto simp: informational_round_def intro: exI [of _ "0 :: nat"])
next
  case (Ok head)
  then have head: "n < limit" "version = HTTP_11" "prepared_informational A M encoding c head"
    using assms(3) by (auto simp: informational_head_def prepared_informational_def split: if_splits)
  obtain written w' where w: "write_all W head w = Some (written, w')" "wrote sent head w (written, w')"
    using write_all_wrote [OF assms(1,2), of head w] by auto
  obtain fr w'' where flush: "wr_flush W w' = (fr, w'')" by fastforce
  have kept: "sent w'' = sent w'" using assms(1) flush by (auto simp: writer_laws_def dest: spec [of _ w'])
  have all: "sent w' = sent w @ head" if "written = Ok m" for m using w(2) that by (auto simp: wrote_def)
  obtain k where part: "sent w' = sent w @ take k head" using w(2) by (auto simp: wrote_def)
  show ?thesis
  proof (cases "is_ok written \<and> is_ok fr")
    case True
    then show ?thesis using Ok head w(1) flush kept all
      by (auto simp: informational_round_def acknowledged_def is_ok_iff)
  next
    case False
    then obtain e' v where "(case written of
          Ok _ \<Rightarrow> (case wr_flush W w' of (res, w'') \<Rightarrow> (map_err error_from_io res, w''))
        | Err e \<Rightarrow> (Err (error_from_io e), w')) = (Err e', v)" "sent v = sent w'"
      using flush kept by (cases written; cases fr) auto
    then show ?thesis using Ok w(1) part
      by (auto simp: informational_round_def acknowledged_def split: prod.splits)
  qed
qed

definition informationals_sent ::
  "('h, 'u) http_api \<Rightarrow> allocator \<Rightarrow> encode_config \<Rightarrow> version \<Rightarrow> usize \<Rightarrow> ('w \<Rightarrow> bytes) \<Rightarrow> 'h response_parts command option option list
     \<Rightarrow> usize \<Rightarrow> 'w \<Rightarrow> (unit, error) result option \<times> informational_ack list \<times> 'w \<Rightarrow> bool" where
  "informationals_sent A M encoding version limit sent cs n w out \<longleftrightarrow>
     (case out of (res, acks, w') \<Rightarrow>
        \<exists>heads part. sent w' = sent w @ concat heads @ part
        \<and> length heads = length (filter acknowledged acks) \<and> n + length heads \<le> limit
        \<and> (\<forall>head \<in> set heads. version = HTTP_11 \<and> (\<exists>c. Some (Some c) \<in> set cs \<and> prepared_informational A M encoding c head))
        \<and> (part \<noteq> [] \<longrightarrow> (\<exists>e. res = Some (Err e))) \<and> (res = None \<longrightarrow> length acks = length cs))"

lemma informationals_sent_stop:
  "n \<le> limit \<Longrightarrow> cs = [] \<or> res \<noteq> None \<Longrightarrow> informationals_sent A M encoding version limit sent cs n w (res, [], w)"
  unfolding informationals_sent_def by (auto intro!: exI [of _ "[]"])

lemma informationals_sent_failed:
  "\<lbrakk>n \<le> limit; sent w' = sent w @ part; \<forall>a \<in> set acks. \<not> acknowledged a\<rbrakk>
     \<Longrightarrow> informationals_sent A M encoding version limit sent cs n w (Some (Err e), acks, w')"
  unfolding informationals_sent_def by (auto intro!: exI [of _ "[]"])

lemma informationals_sent_counted:
  assumes "informationals_sent A M encoding version limit sent cs (Suc n) w' (res, acks, w'')"
    and "sent w' = sent w @ head" "version = HTTP_11" "prepared_informational A M encoding c head" "acknowledged a"
  shows "informationals_sent A M encoding version limit sent (Some (Some c) # cs) n w (res, a # acks, w'')"
proof -
  obtain heads part where "sent w'' = sent w' @ concat heads @ part" "length heads = length (filter acknowledged acks)" "Suc n + length heads \<le> limit"
      "\<forall>head \<in> set heads. version = HTTP_11 \<and> (\<exists>c. Some (Some c) \<in> set cs \<and> prepared_informational A M encoding c head)"
      "part \<noteq> [] \<longrightarrow> (\<exists>e. res = Some (Err e))" "res = None \<longrightarrow> length acks = length cs"
    using assms(1) unfolding informationals_sent_def by blast
  then show ?thesis using assms(2-5) unfolding informationals_sent_def prod.case
    by (intro exI [of _ "head # heads"] exI [of _ part]) auto
qed

lemma informationals_sent_refused:
  assumes "informationals_sent A M encoding version limit sent cs n w' (res, acks, w'')" "sent w' = sent w" "\<not> acknowledged a"
  shows "informationals_sent A M encoding version limit sent (Some (Some c) # cs) n w (res, a # acks, w'')"
  using assms unfolding informationals_sent_def prod.case by (elim exE) (rule exI, rule exI, auto)

lemma write_informationals_sends:
  assumes "writer_laws W sent" "patient W patience" "n \<le> limit"
  shows "\<exists>out. write_informationals A M W encoding version limit cs n w = Some out
    \<and> informationals_sent A M encoding version limit sent cs n w out"
  using assms(3)
proof (induction cs arbitrary: n w)
  case Nil
  then show ?case by (simp add: informationals_sent_stop)
next
  case (Cons x cs)
  show ?case
  proof (cases "\<exists>c. x = Some (Some c)")
    case False
    then show ?thesis using Cons.prems by (cases x) (auto simp: informationals_sent_stop)
  next
    case True
    then obtain c where x: "x = Some (Some c)" by blast
    from informational_round_wrote [OF assms(1,2) Cons.prems, of A M encoding version c w]
    obtain res acks w' where rnd: "informational_round A M W encoding version limit c n w = Some (res, acks, w')"
      and how: "(\<exists>head. res = Ok (n + 1) \<and> n < limit \<and> version = HTTP_11 \<and> prepared_informational A M encoding c head
            \<and> sent w' = sent w @ head \<and> (\<exists>a. acks = [a] \<and> acknowledged a))
         \<or> (\<exists>e. res = Ok n \<and> sent w' = sent w \<and> acks = [IA_Complete (Err e)])
         \<or> (\<exists>e head k. res = Err e \<and> sent w' = sent w @ take k head \<and> (\<forall>a \<in> set acks. \<not> acknowledged a))"
      by blast
    from how show ?thesis
    proof (elim disjE exE conjE)
      fix head a assume ok: "res = Ok (n + 1)" "n < limit" "version = HTTP_11" "prepared_informational A M encoding c head"
        "sent w' = sent w @ head" "acks = [a]" "acknowledged a"
      then show ?thesis using Cons.IH [of "n + 1" w'] x rnd by (auto intro: informationals_sent_counted [where w' = w' and w = w, OF _ ok(5) _ ok(4,7)])
    next
      fix e assume ok: "res = Ok n" "sent w' = sent w" "acks = [IA_Complete (Err e)]"
      have no: "\<not> acknowledged (IA_Complete (Err e))" by (simp add: acknowledged_def)
      show ?thesis using Cons.IH [OF Cons.prems, of w'] x rnd ok by (auto intro: informationals_sent_refused [where w' = w' and w = w, OF _ ok(2) no])
    next
      fix e head k assume "res = Err e" "sent w' = sent w @ take k head" "\<forall>a \<in> set acks. \<not> acknowledged a"
      then show ?thesis using x rnd Cons.prems by (auto intro: informationals_sent_failed)
    qed
  qed
qed


definition demo_commands :: "alist response_parts command option option list" where
  "demo_commands =
     [Some (Some (Cmd_Application (103, \<lparr>ps_status = 103, ps_version = HTTP_11, ps_headers = [], ps_case = None\<rparr>))),
      Some (Some Cmd_Continue), Some None]"


section \<open>Illegal heads\<close>



section \<open>How an exchange settles\<close>

text \<open>The receiver's result that an exchange ends with.\<close>

definition exchange_received :: "('b, 'p) server_awaits \<Rightarrow> receive_end \<times> 'b recv_buffer" where
  "exchange_received X =
     (case sa_first X of
        Race_First r \<Rightarrow> r
      | Race_Second (Err _) \<Rightarrow> sa_receive X True
      | Race_Second (Ok response) \<Rightarrow>
          (case sa_polled X of
             Some r \<Rightarrow> r
           | None \<Rightarrow>
               (case sa_second X (sa_close X) response of
                  Race_First r \<Rightarrow> r
                | Race_Second sent \<Rightarrow> sa_receive X (\<not> is_ok (fst sent)))))"

definition exchange_sent :: "('b, 'p) server_awaits \<Rightarrow> exchange_policy \<Rightarrow> bool" where
  "exchange_sent X policy \<longleftrightarrow>
     (\<exists>close response p. sa_send X close response = (Ok p, policy) \<or> sa_second X close response = Race_Second (Ok p, policy))"

definition settled_well ::
  "('b, 'p) server_awaits \<Rightarrow> ('r, 'w) upgrade_state \<Rightarrow> receive_end \<times> 'b recv_buffer
     \<Rightarrow> (('r, 'w) exchange_result, error) result \<times> 'b recv_buffer \<Rightarrow> bool" where
  "settled_well X upgrade got out \<longleftrightarrow>
     snd out = snd got
   \<and> (\<forall>x. fst out = Ok x \<longrightarrow>
        (fst got = RE_Complete \<or> fst got = RE_Abandoned \<and> er_outcome x = EO_Close)
      \<and> er_upgrade x = upgrade \<and> er_recoverable x = (fst got = RE_Complete)
      \<and> (er_outcome x = EO_Reusable \<longrightarrow>
           \<not> sa_close X \<and> \<not> sa_close_late X
         \<and> (\<exists>policy. exchange_sent X policy \<and> xp_phase policy = RP_Final \<and> xp_persistence policy = Reusable)))"

lemma exchange_sentI:
  "sa_send X close response = (Ok p, policy) \<Longrightarrow> exchange_sent X policy"
  "sa_second X close response = Race_Second (Ok p, policy) \<Longrightarrow> exchange_sent X policy"
  unfolding exchange_sent_def by blast+

lemma exchange_settle_well:
  assumes "\<And>p policy. sent = (Ok p, policy) \<Longrightarrow> exchange_sent X policy" "sa_close X \<or> sa_close_late X \<longrightarrow> close"
  shows "settled_well X upgrade got (exchange_settle close upgrade got sent)"
  using assms
  by (cases got; cases "fst sent"; cases "fst got"; cases sent)
    (auto simp: settled_well_def exchange_settle_def server_finish_exchange_def exchange_finish_def close_after_exchange_def Let_def
      split: response_phase.splits persistence.splits if_splits)

lemma settled_well_failed: "settled_well X upgrade (fin, rb) (Err e, rb)"
  by (simp add: settled_well_def)

lemma exchange_respond_well:
  assumes "got = None \<longrightarrow> r = (case sa_second X (sa_close X) response of
        Race_First r \<Rightarrow> r | Race_Second sent \<Rightarrow> sa_receive X (\<not> is_ok (fst sent)))"
    and "\<And>r'. got = Some r' \<Longrightarrow> r = r'"
  shows "settled_well X upgrade r (exchange_respond X upgrade got response)"
proof -
  have send: "settled_well X upgrade q (exchange_settle cl upgrade q (sa_send X close response))" if "sa_close X \<or> sa_close_late X \<longrightarrow> cl" for cl close q
    by (rule exchange_settle_well, erule exchange_sentI(1), rule that)
  show ?thesis
  proof (cases got)
    case (Some q)
    then show ?thesis using assms(2) [of q] send by (auto simp: exchange_respond_def Let_def)
  next
    case None
    show ?thesis
    proof (cases "sa_second X (sa_close X) response")
      case (Race_First q)
      then show ?thesis using None assms(1) send
        by (cases q; cases "fst q") (auto simp: exchange_respond_def Let_def settled_well_failed)
    next
      case (Race_Second sent)
      have "settled_well X upgrade r (exchange_settle (sa_close X \<or> sa_close_late X) upgrade r sent)"
      proof (rule exchange_settle_well)
        show "exchange_sent X policy" if "sent = (Ok p, policy)" for p policy
          using exchange_sentI(2) [of X "sa_close X" response p policy] Race_Second that by simp
      qed simp
      then show ?thesis using None Race_Second assms(1) by (simp add: exchange_respond_def Let_def)
    qed
  qed
qed

lemma server_exchange_well: "settled_well X upgrade (exchange_received X) (server_exchange X upgrade)"
proof (cases "sa_first X")
  case (Race_First r)
  then show ?thesis
    by (cases r; cases "fst r"; cases "sa_call X")
      (auto simp: server_exchange_def exchange_received_def Let_def settled_well_failed intro!: exchange_respond_well)
next
  case (Race_Second c)
  show ?thesis
  proof (cases c)
    case (Err e)
    then show ?thesis using Race_Second
      by (cases "sa_receive X True") (simp add: server_exchange_def exchange_received_def settled_well_failed)
  next
    case (Ok response)
    show ?thesis
    proof (cases "sa_polled X")
      case None
      then show ?thesis using Race_Second Ok
        by (auto simp: server_exchange_def exchange_received_def intro!: exchange_respond_well)
    next
      case (Some q)
      then show ?thesis using Race_Second Ok
        by (cases q; cases "fst q") (auto simp: server_exchange_def exchange_received_def settled_well_failed intro!: exchange_respond_well)
    qed
  qed
qed

text \<open>
  C11. However the receiver, the service and the sender of an exchange are scheduled, the exchange
  gives back the input buffer its receiver ended with. It succeeds only if the request was received
  completely or its body abandoned; an abandoned body closes the connection and forbids recovering the
  transport. The connection is reused only if the request was received completely, a response was
  sent whose head and request allow it, and closing was requested neither before nor after the
  head was written.
\<close>

theorem server_exchange_settles:
  assumes "exchange_received X = (fin, rb')" "server_exchange X upgrade = (res, rb)"
  shows "rb = rb'
    \<and> (\<forall>x. res = Ok x \<longrightarrow>
        (fin = RE_Complete \<or> fin = RE_Abandoned \<and> er_outcome x = EO_Close)
      \<and> er_upgrade x = upgrade \<and> er_recoverable x = (fin = RE_Complete)
      \<and> (er_outcome x = EO_Reusable \<longrightarrow>
           \<not> sa_close X \<and> \<not> sa_close_late X
         \<and> (\<exists>policy. exchange_sent X policy \<and> xp_phase policy = RP_Final \<and> xp_persistence policy = Reusable)))"
  using server_exchange_well [of X upgrade] assms by (simp add: settled_well_def)

text \<open>A request that is received after its response was sent.\<close>

definition demo_awaits :: "(bytes \<times> nat, unit) server_awaits" where
  "demo_awaits =
     \<lparr>sa_first = Race_Second (Ok ()), sa_call = Ok (), sa_receive = (\<lambda>_. (RE_Complete, demo_buffer [71])), sa_polled = None,
      sa_second = (\<lambda>_ _. Race_Second (Ok Reusable, demo_policy\<lparr>xp_phase := RP_Final\<rparr>)),
      sa_send = (\<lambda>_ _. (Ok Reusable, demo_policy)), sa_close = False, sa_close_late = False\<rparr>"

theorem server_exchange_settles_witness:
  "\<exists>x. server_exchange demo_awaits (upgrade_state_default :: (nat, nat) upgrade_state) = (Ok x, demo_buffer [71])
    \<and> er_outcome x = EO_Reusable \<and> er_recoverable x"
proof -
  have got: "exchange_received demo_awaits = (RE_Complete, demo_buffer [71])"
    by (simp add: exchange_received_def demo_awaits_def)
  obtain x rb where ex: "server_exchange demo_awaits (upgrade_state_default :: (nat, nat) upgrade_state) = (Ok x, rb)" "er_outcome x = EO_Reusable"
    by (simp add: server_exchange_def exchange_respond_def exchange_settle_def server_finish_exchange_def exchange_finish_def
        demo_awaits_def demo_policy_def)
  show ?thesis using server_exchange_settles [OF got ex(1)] ex by simp
qed

section \<open>The end of a connection\<close>

definition reusable_turn :: "('b, 'r, 'w, 'h, 'u) server_turn \<Rightarrow> bool" where
  "reusable_turn t \<longleftrightarrow>
     \<not> tn_stopping t \<and> tn_deadline t = None \<and> (\<exists>head. tn_head t = SH_Head head)
   \<and> (\<exists>x rb. tn_exchange t = (Ok x, rb) \<and> er_outcome x = EO_Reusable)"

definition ends_with :: "('r, 'w) driver_conn \<Rightarrow> ('b, 'r, 'w, 'h, 'u) server_turn \<Rightarrow> (('r, 'w) connection_outcome, error) result \<Rightarrow> bool" where
  "ends_with c t res \<longleftrightarrow>
     (case res of
        Ok (CO_Upgraded u) \<Rightarrow>
          ug_reader u = cn_reader c \<and> ug_writer u = cn_writer c
        \<and> (\<exists>x rb. tn_exchange t = (Ok x, rb) \<and> er_outcome x = EO_Handoff (ug_kind u))
      | Ok (CO_UpgradeClaimed k) \<Rightarrow> \<exists>x rb. tn_exchange t = (Ok x, rb) \<and> er_outcome x = EO_Handoff k
      | Ok (CO_Recovered r w _) \<Rightarrow>
          r = cn_reader c \<and> w = cn_writer c \<and> cn_recovering c
        \<and> (tn_stopping t \<or> tn_head t = SH_Stop
           \<or> (\<exists>x rb. tn_exchange t = (Ok x, rb) \<and> er_outcome x = EO_Close \<and> er_recoverable x))
      | _ \<Rightarrow> True)"

lemma driver_end_ends: "driver_end U c rb b = res \<Longrightarrow> (b \<Longrightarrow> tn_stopping t \<or> tn_head t = SH_Stop
      \<or> (\<exists>x rb. tn_exchange t = (Ok x, rb) \<and> er_outcome x = EO_Close \<and> er_recoverable x)) \<Longrightarrow> ends_with c t res"
  by (auto simp: driver_end_def ends_with_def split: if_splits result.splits)

lemma ends_with_Err [simp]: "ends_with c t (Err e)"
  by (simp add: ends_with_def)

lemma ends_with_handoff:
  assumes "tn_exchange t = (Ok x, rb)" "er_outcome x = EO_Handoff k"
  shows "ends_with c t (Ok (case upgrade_fulfill (upgraded_new (cn_reader c) (cn_writer c) v k) s of
      (Ok k, _, _) \<Rightarrow> CO_UpgradeClaimed k | (Err u, _, _) \<Rightarrow> CO_Upgraded u))"
proof -
  obtain r s' ws where f: "upgrade_fulfill (upgraded_new (cn_reader c) (cn_writer c) v k) s = (r, s', ws)"
    by (cases "upgrade_fulfill (upgraded_new (cn_reader c) (cn_writer c) v k) s") auto
  then show ?thesis using assms upgrade_fulfill_kind [of "upgraded_new (cn_reader c) (cn_writer c) v k" s]
    by (cases r) (auto simp: ends_with_def upgraded_new_def)
qed

lemma last_turn_ends:
  assumes "server_run_inner U c rb (turn # turns) = Some res" "\<not> reusable_turn turn"
  shows "ends_with c turn res"
proof (cases "tn_stopping turn \<or> tn_deadline turn \<noteq> None \<or> (\<forall>head. tn_head turn \<noteq> SH_Head head)")
  case True
  then show ?thesis using assms(1)
    by (cases "tn_head turn") (auto intro: driver_end_ends split: if_splits option.splits)
next
  case proper: False
  then obtain head where turn: "\<not> tn_stopping turn" "tn_deadline turn = None" "tn_head turn = SH_Head head" by blast
  show ?thesis
  proof (cases "fst (tn_exchange turn)")
    case (Err e)
    then show ?thesis using assms(1) turn by (cases "tn_exchange turn") auto
  next
    case (Ok x)
    then obtain rb' where x: "tn_exchange turn = (Ok x, rb')" by (cases "tn_exchange turn") auto
    show ?thesis
    proof (cases "er_outcome x")
      case EO_Reusable
      then show ?thesis using assms(2) turn x by (auto simp: reusable_turn_def)
    next
      case EO_Close
      then have "driver_end U c rb' (er_recoverable x) = res" using assms(1) turn x by simp
      then show ?thesis by (rule driver_end_ends) (use x EO_Close in blast)
    next
      case (EO_Handoff k)
      then show ?thesis using assms(1) turn x ends_with_handoff [OF x EO_Handoff, of c "fst (take_all U rb')" "er_upgrade x"]
        by simp
    qed
  qed
qed

text \<open>
  C31. A connection ends with the first turn of its loop that is not a reusable exchange. The transport
  leaves the driver only as its own two halves: handed over after an exchange that ended in the
  kind reported, or recovered because that was asked for and no request body was left unread.
\<close>

theorem server_connection_ends:
  assumes "server_run_inner U c rb turns = Some res"
  shows "\<exists>before turn after. turns = before @ turn # after \<and> (\<forall>t \<in> set before. reusable_turn t) \<and> \<not> reusable_turn turn
    \<and> ends_with c turn res"
  using assms
proof (induction turns arbitrary: rb)
  case Nil
  then show ?case by simp
next
  case (Cons turn turns)
  show ?case
  proof (cases "reusable_turn turn")
    case True
    then obtain rb' where "server_run_inner U c rb' turns = Some res" using Cons.prems by (auto simp: reusable_turn_def)
    from Cons.IH [OF this] obtain before t after where "turns = before @ t # after" "\<forall>t \<in> set before. reusable_turn t"
        "\<not> reusable_turn t" "ends_with c t res" by blast
    then show ?thesis using True by (intro exI [of _ "turn # before"] exI [of _ t] exI [of _ after]) auto
  next
    case False
    have "ends_with c turn res" using last_turn_ends [OF Cons.prems False] .
    then show ?thesis using False by (intro exI [of _ "[]"] exI [of _ turn] exI [of _ turns]) auto
  qed
qed

definition demo_turn :: "exchange_outcome \<Rightarrow> (bytes \<times> nat, nat, nat, alist, bytes) server_turn" where
  "demo_turn out =
     \<lparr>tn_stopping = False, tn_deadline = None, tn_head = fst (request_of demo_httparse alist_http (head_parser_with_limits demo_limits) [71, LF, LF, 104, 105, 90]),
      tn_buffer = demo_buffer [], tn_reply = error_from_head,
      tn_exchange = (Ok \<lparr>er_outcome = out, er_upgrade = upgrade_state_default, er_recoverable = True\<rparr>, demo_buffer [71])\<rparr>"

theorem server_connection_ends_witness:
  "\<exists>res. server_run_inner list_buffer (demo_conn\<lparr>cn_recovering := True\<rparr>) (demo_buffer []) [demo_turn EO_Reusable, demo_turn EO_Close] = Some res
    \<and> res = Ok (CO_Recovered (Bare 0 0) (Bare 0 0) [71]) \<and> ends_with (demo_conn\<lparr>cn_recovering := True\<rparr>) (demo_turn EO_Close) res"
proof -
  have head: "\<exists>head. tn_head (demo_turn out) = SH_Head head" for out
    using demo_request by (auto simp: demo_turn_def)
  have run: "server_run_inner list_buffer (demo_conn\<lparr>cn_recovering := True\<rparr>) (demo_buffer []) [demo_turn EO_Reusable, demo_turn EO_Close]
      = Some (Ok (CO_Recovered (Bare 0 0) (Bare 0 0) [71]))"
    using head [of EO_Reusable] head [of EO_Close]
    by (auto simp: demo_turn_def driver_end_def demo_conn_def take_all_def demo_buffer_def list_buffer_def)
  obtain before turn after where *: "[demo_turn EO_Reusable, demo_turn EO_Close] = before @ turn # after" "\<forall>t \<in> set before. reusable_turn t"
      "\<not> reusable_turn turn" "ends_with (demo_conn\<lparr>cn_recovering := True\<rparr>) turn (Ok (CO_Recovered (Bare 0 0) (Bare 0 0) [71]))"
    using server_connection_ends [OF run] by blast
  moreover have "turn = demo_turn EO_Close"
    using * head [of EO_Reusable] by (auto simp: Cons_eq_append_conv reusable_turn_def demo_turn_def)
  ultimately show ?thesis using run by simp
qed

end
