(* ===== verification/Reader_Body.thy ===== *)
theory Reader_Body
  imports Body Transport_Api
begin

text \<open>
  Bodies over an owned reader (\<open>src/src/body/reader.rs\<close>), over a file (\<open>src/src/body/file.rs\<close>) and
  over a boxed body (\<open>src/src/body/boxed.rs\<close>).

  A read is submitted with its reader and buffer and stays submitted when the wait for a frame is
  dropped; the next wait finds it. \<open>read_start\<close> is the part of a wait up to the submission and
  \<open>read_finish\<close> the part after completion, so a dropped wait is the first one alone. The reader, the
  file and the buffers of the \<open>bytes\<close> crate are parameters; \<open>clear\<close> empties a buffer.

  Whatever waits are dropped, the frames carry the reader's input in order without loss, and a
  file body carries exactly the file up to its length at the start, or reports the missing rest.
\<close>

section \<open>One retained read\<close>

type_synonym 'r chunk_read = "usize \<Rightarrow> 'r \<Rightarrow> (usize, io_error) result \<times> bytes \<times> 'r"

datatype ('b, 'r) owned_state = OS_Idle 'r | OS_Pending 'r 'b usize

record ('b, 'r) owned_read =
  or_state :: "('b, 'r) owned_state"
  or_spare :: "'b option"

definition owned_new :: "'r \<Rightarrow> ('b, 'r) owned_read" where
  "owned_new r = \<lparr>or_state = OS_Idle r, or_spare = None\<rparr>"

definition read_start :: "'b buffer_api \<Rightarrow> ('b \<Rightarrow> 'b) \<Rightarrow> usize \<Rightarrow> ('b, 'r) owned_read \<Rightarrow> ('b, 'r) owned_read" where
  "read_start U clear width q =
     (case or_state q of
        OS_Idle r \<Rightarrow>
          (let buffer = (case or_spare q of Some b \<Rightarrow> b | None \<Rightarrow> bm_with_capacity U width) in
           q\<lparr>or_state := OS_Pending r (bm_reserve U (clear buffer) width) width, or_spare := None\<rparr>)
      | OS_Pending _ _ _ \<Rightarrow> q)"

definition inconsistent_progress :: io_error where
  "inconsistent_progress = \<lparr>io_kind = InvalidData, io_deadline = None, io_rustls = False, io_canceled = False\<rparr>"

definition validate_read :: "'b buffer_api \<Rightarrow> (usize, io_error) result \<Rightarrow> 'b \<Rightarrow> usize \<Rightarrow> (usize, io_error) result" where
  "validate_read U res buffer width =
     (if width < length (bm_bytes U buffer) \<or> (case res of Ok n \<Rightarrow> width < n \<or> n \<noteq> length (bm_bytes U buffer) | Err _ \<Rightarrow> False)
      then Err inconsistent_progress
      else res)"

text \<open>\<open>None\<close> is the \<open>unreachable!\<close> of a read that was not submitted.\<close>

definition read_finish ::
  "'b buffer_api \<Rightarrow> 'r chunk_read \<Rightarrow> ('b, 'r) owned_read \<Rightarrow> ((usize, io_error) result \<times> 'b \<times> ('b, 'r) owned_read) option" where
  "read_finish U read q =
     (case or_state q of
        OS_Pending r buffer width \<Rightarrow>
          (case read width r of (res, v, r') \<Rightarrow>
             let buffer' = bm_fill U buffer v in
             Some (validate_read U res buffer' width, buffer', q\<lparr>or_state := OS_Idle r'\<rparr>))
      | OS_Idle _ \<Rightarrow> None)"

definition owned_recycle :: "('b \<Rightarrow> 'b) \<Rightarrow> 'b \<Rightarrow> ('b, 'r) owned_read \<Rightarrow> ('b, 'r) owned_read" where
  "owned_recycle clear buffer q =
     (case or_spare q of None \<Rightarrow> q\<lparr>or_spare := Some (clear buffer)\<rparr> | Some _ \<Rightarrow> q)"

text \<open>\<open>into_parts\<close>: \<open>read\<close> gives how the pending read ends under cancellation.\<close>

record ('b, 'r) reader_parts =
  rp_reader :: 'r
  rp_buffer :: 'b
  rp_result :: "(usize, io_error) result option"

definition owned_into_parts :: "'b buffer_api \<Rightarrow> 'r chunk_read \<Rightarrow> ('b, 'r) owned_read \<Rightarrow> ('b, 'r) reader_parts" where
  "owned_into_parts U read q =
     (case or_state q of
        OS_Idle r \<Rightarrow>
          \<lparr>rp_reader = r, rp_buffer = (case or_spare q of Some b \<Rightarrow> b | None \<Rightarrow> bm_with_capacity U 0), rp_result = None\<rparr>
      | OS_Pending r buffer width \<Rightarrow>
          (case read width r of (res, v, r') \<Rightarrow>
             let buffer' = bm_fill U buffer v in
             \<lparr>rp_reader = r', rp_buffer = buffer', rp_result = Some (validate_read U res buffer' width)\<rparr>))"

section \<open>The reader body\<close>

definition DEFAULT_CHUNK :: usize where "DEFAULT_CHUNK = 16 * 1024"

definition ISIZE_MAX :: usize where "ISIZE_MAX = 2 ^ 63 - 1"

record ('b, 'r) reader_state =
  rb_reads :: "('b, 'r) owned_read"
  rb_chunk_size :: usize
  rb_done :: bool

definition reader_body_new :: "'r \<Rightarrow> ('b, 'r) reader_state" where
  "reader_body_new r = \<lparr>rb_reads = owned_new r, rb_chunk_size = DEFAULT_CHUNK, rb_done = False\<rparr>"

definition invalid_chunk_size :: io_error where
  "invalid_chunk_size = \<lparr>io_kind = InvalidInput, io_deadline = None, io_rustls = False, io_canceled = False\<rparr>"

definition with_chunk_size :: "'r \<Rightarrow> usize \<Rightarrow> (('b, 'r) reader_state, io_error) result" where
  "with_chunk_size r chunk_size =
     (if chunk_size = 0 \<or> ISIZE_MAX < chunk_size then Err invalid_chunk_size
      else Ok \<lparr>rb_reads = owned_new r, rb_chunk_size = chunk_size, rb_done = False\<rparr>)"

definition next_chunk ::
  "'b buffer_api \<Rightarrow> ('b \<Rightarrow> 'b) \<Rightarrow> 'r chunk_read \<Rightarrow> usize \<Rightarrow> ('b, 'r) reader_state \<Rightarrow> (('b option, io_error) result \<times> ('b, 'r) reader_state) option" where
  "next_chunk U clear read width s =
     (if rb_done s then Some (Ok None, s)
      else
        (case read_finish U read (read_start U clear width (rb_reads s)) of
           None \<Rightarrow> None
         | Some (res, buffer, q) \<Rightarrow>
             Some (case res of
                 Ok n \<Rightarrow>
                   if n = 0 then (Ok None, s\<lparr>rb_reads := owned_recycle clear buffer q, rb_done := True\<rparr>)
                   else (Ok (Some buffer), s\<lparr>rb_reads := q\<rparr>)
               | Err e \<Rightarrow> (Err e, s\<lparr>rb_reads := owned_recycle clear buffer q, rb_done := True\<rparr>))))"

text \<open>A wait for a chunk that is dropped before the read completes.\<close>

definition next_chunk_dropped :: "'b buffer_api \<Rightarrow> ('b \<Rightarrow> 'b) \<Rightarrow> usize \<Rightarrow> ('b, 'r) reader_state \<Rightarrow> ('b, 'r) reader_state" where
  "next_chunk_dropped U clear width s = (if rb_done s then s else s\<lparr>rb_reads := read_start U clear width (rb_reads s)\<rparr>)"

definition reader_recycle :: "'b buffer_api \<Rightarrow> ('b \<Rightarrow> 'b) \<Rightarrow> 'b \<Rightarrow> ('b, 'r) reader_state \<Rightarrow> ('b, 'r) reader_state" where
  "reader_recycle U clear buffer s =
     (if bm_capacity U buffer \<le> rb_chunk_size s then s\<lparr>rb_reads := owned_recycle clear buffer (rb_reads s)\<rparr> else s)"

definition reader_body :: "'b buffer_api \<Rightarrow> ('b \<Rightarrow> 'b) \<Rightarrow> 'r chunk_read \<Rightarrow> (('b, 'r) reader_state, 'b, 'h, io_error) body_impl" where
  "reader_body U clear read =
     \<lparr>next_frame = (\<lambda>s. map_option (\<lambda>(res, s'). (and_then res (\<lambda>b. Ok (map_option DataFrame b)), s')) (next_chunk U clear read (rb_chunk_size s) s)),
      size_hint_of = (\<lambda>s. Some (if rb_done s then with_exact 0 else size_hint_new)),
      trailer_hint_of = (\<lambda>_. Some TH_None), is_end_stream = rb_done, recycle = reader_recycle U clear,
      frame_bytes = bm_bytes U\<rparr>"

section \<open>The file body\<close>

text \<open>
  \<open>read_at\<close> reads at an offset of the file. An error kind that the library does not tell apart is
  \<open>OtherIo\<close>.
\<close>

definition offset_overflow :: io_error where
  "offset_overflow = \<lparr>io_kind = InvalidData, io_deadline = None, io_rustls = False, io_canceled = False\<rparr>"

definition positional_read :: "(u64 \<Rightarrow> 'f chunk_read) \<Rightarrow> ('f \<times> u64) chunk_read" where
  "positional_read read_at width p =
     (case p of (file, offset) \<Rightarrow>
        (case read_at offset width file of
           (Ok n, v, file') \<Rightarrow>
             (case checked_add offset (word_of_nat n) of
                Some offset' \<Rightarrow> (Ok n, v, file', offset')
              | None \<Rightarrow> (Err offset_overflow, v, file', offset))
         | (Err e, v, file') \<Rightarrow> (Err e, v, file', offset)))"

record ('b, 'f) file_state =
  fb_reader :: "('b, 'f \<times> u64) reader_state"
  fb_snapshot_len :: u64
  fb_remaining :: u64
  fb_done :: bool

text \<open>\<open>FileBody::new\<close>, given the length that the file's metadata report.\<close>

definition file_body_new :: "'f \<Rightarrow> (u64, io_error) result \<Rightarrow> (('b, 'f) file_state, io_error) result" where
  "file_body_new file metadata =
     and_then metadata (\<lambda>snapshot_len.
       Ok \<lparr>fb_reader = reader_body_new (file, 0), fb_snapshot_len = snapshot_len, fb_remaining = snapshot_len, fb_done = False\<rparr>)"

definition file_ended_early :: io_error where
  "file_ended_early = \<lparr>io_kind = OtherIo, io_deadline = None, io_rustls = False, io_canceled = False\<rparr>"

definition file_width :: "('b, 'f) file_state \<Rightarrow> usize" where
  "file_width s = unat (min (fb_remaining s) (16 * 1024))"

text \<open>\<open>None\<close> is a panic: the subtraction from \<open>remaining\<close> overflows.\<close>

definition file_next ::
  "'b buffer_api \<Rightarrow> ('b \<Rightarrow> 'b) \<Rightarrow> (u64 \<Rightarrow> 'f chunk_read) \<Rightarrow> ('b, 'f) file_state
     \<Rightarrow> ((('b, 'h) frame option, io_error) result \<times> ('b, 'f) file_state) option" where
  "file_next U clear read_at s =
     (if fb_done s then Some (Ok None, s)
      else if fb_remaining s = 0 then Some (Ok None, s\<lparr>fb_done := True\<rparr>)
      else
        (case next_chunk U clear (positional_read read_at) (file_width s) (fb_reader s) of
           None \<Rightarrow> None
         | Some (Ok (Some buffer), reader) \<Rightarrow>
             map_option (\<lambda>remaining. (Ok (Some (DataFrame buffer)), s\<lparr>fb_reader := reader, fb_remaining := remaining\<rparr>))
               (checked_sub (fb_remaining s) (word_of_nat (length (bm_bytes U buffer))))
         | Some (Ok None, reader) \<Rightarrow> Some (Err file_ended_early, s\<lparr>fb_reader := reader, fb_done := True\<rparr>)
         | Some (Err e, reader) \<Rightarrow> Some (Err e, s\<lparr>fb_reader := reader, fb_done := True\<rparr>)))"

definition file_next_dropped :: "'b buffer_api \<Rightarrow> ('b \<Rightarrow> 'b) \<Rightarrow> ('b, 'f) file_state \<Rightarrow> ('b, 'f) file_state" where
  "file_next_dropped U clear s =
     (if fb_done s \<or> fb_remaining s = 0 then s
      else s\<lparr>fb_reader := next_chunk_dropped U clear (file_width s) (fb_reader s)\<rparr>)"

definition file_body :: "'b buffer_api \<Rightarrow> ('b \<Rightarrow> 'b) \<Rightarrow> (u64 \<Rightarrow> 'f chunk_read) \<Rightarrow> (('b, 'f) file_state, 'b, 'h, io_error) body_impl" where
  "file_body U clear read_at =
     \<lparr>next_frame = file_next U clear read_at,
      size_hint_of = (\<lambda>s. Some (with_exact (if fb_done s then 0 else fb_remaining s))),
      trailer_hint_of = (\<lambda>_. Some TH_None), is_end_stream = (\<lambda>s. fb_done s \<or> fb_remaining s = 0),
      recycle = (\<lambda>b s. s\<lparr>fb_reader := reader_recycle U clear b (fb_reader s)\<rparr>), frame_bytes = bm_bytes U\<rparr>"

record ('b, 'f) file_parts =
  fp_file :: 'f
  fp_snapshot_len :: u64
  fp_offset :: u64
  fp_buffer :: 'b
  fp_result :: "(usize, io_error) result option"

definition file_into_parts :: "'b buffer_api \<Rightarrow> (u64 \<Rightarrow> 'f chunk_read) \<Rightarrow> ('b, 'f) file_state \<Rightarrow> ('b, 'f) file_parts" where
  "file_into_parts U read_at s =
     (let parts = owned_into_parts U (positional_read read_at) (rb_reads (fb_reader s)) in
      \<lparr>fp_file = fst (rp_reader parts), fp_snapshot_len = fb_snapshot_len s, fp_offset = snd (rp_reader parts),
       fp_buffer = rp_buffer parts, fp_result = rp_result parts\<rparr>)"

section \<open>The boxed body\<close>

text \<open>\<open>BoxBody\<close> forwards each method to the body it holds.\<close>

definition box_body :: "('s, 'd, 'h, 'e) body_impl \<Rightarrow> ('s, 'd, 'h, 'e) body_impl" where
  "box_body B =
     \<lparr>next_frame = (\<lambda>s. next_frame B s), size_hint_of = (\<lambda>s. size_hint_of B s), trailer_hint_of = (\<lambda>s. trailer_hint_of B s),
      is_end_stream = (\<lambda>s. is_end_stream B s), recycle = (\<lambda>d s. recycle B d s), frame_bytes = frame_bytes B\<rparr>"

lemma box_body_transparent: "box_body B = B"
  by (simp add: box_body_def)

section \<open>Reads that are waited for and dropped\<close>

text \<open>Waits for frames, each driven to its result (\<open>True\<close>) or dropped while the read is pending.\<close>

fun body_waits ::
  "('s, 'd, 'h, 'e) body_impl \<Rightarrow> ('s \<Rightarrow> 's) \<Rightarrow> bool list \<Rightarrow> 's \<Rightarrow> ((('d, 'h) frame option, 'e) result list \<times> 's) option" where
  "body_waits B dropped [] s = Some ([], s)"
| "body_waits B dropped (w # ws) s =
     (if w
      then (case next_frame B s of
              None \<Rightarrow> None
            | Some (r, s') \<Rightarrow> map_option (\<lambda>(rs, t). (r # rs, t)) (body_waits B dropped ws s'))
      else body_waits B dropped ws (dropped s))"

definition chunk_laws :: "'b buffer_api \<Rightarrow> ('b \<Rightarrow> 'b) \<Rightarrow> bool" where
  "chunk_laws U clear \<longleftrightarrow> buffer_laws U \<and> (\<forall>b. bm_bytes U (clear b) = [])"

text \<open>A reader of the bytes \<open>input\<close> on which no read fails, in whatever pieces they come.\<close>

definition stream_read :: "'r chunk_read \<Rightarrow> ('r \<Rightarrow> bytes) \<Rightarrow> bool" where
  "stream_read read input \<longleftrightarrow>
     (\<forall>n r. 0 < n \<longrightarrow> (\<exists>v r'. read n r = (Ok (length v), v, r') \<and> length v \<le> n
        \<and> input r = v @ input r' \<and> (v = [] \<longrightarrow> input r = [])))"

definition reader_input :: "('r \<Rightarrow> bytes) \<Rightarrow> ('b, 'r) reader_state \<Rightarrow> bytes" where
  "reader_input input s = (case or_state (rb_reads s) of OS_Idle r \<Rightarrow> input r | OS_Pending r _ _ \<Rightarrow> input r)"

definition reader_ok :: "'b buffer_api \<Rightarrow> nat \<Rightarrow> ('b, 'r) reader_state \<Rightarrow> bool" where
  "reader_ok U bound s \<longleftrightarrow>
     \<not> rb_done s
   \<and> (case or_state (rb_reads s) of
        OS_Idle _ \<Rightarrow> True
      | OS_Pending _ b width \<Rightarrow> bm_bytes U b = [] \<and> 0 < width \<and> width \<le> bound)"

lemma next_chunk_dropped_keeps:
  assumes "chunk_laws U clear" "reader_ok U bound s" "0 < width" "width \<le> bound"
  shows "reader_ok U bound (next_chunk_dropped U clear width s)"
    and "reader_input input (next_chunk_dropped U clear width s) = reader_input input s"
    and "rb_chunk_size (next_chunk_dropped U clear width s) = rb_chunk_size s"
  using assms by (auto simp: next_chunk_dropped_def read_start_def reader_ok_def reader_input_def chunk_laws_def buffer_laws_def
      split: owned_state.splits)

lemma next_chunk_reads:
  assumes "chunk_laws U clear" "stream_read read input" "reader_ok U bound s" "0 < width" "width \<le> bound"
  shows "(\<exists>b s'. next_chunk U clear read width s = Some (Ok (Some b), s') \<and> (\<forall>n. reader_ok U n s') \<and> rb_chunk_size s' = rb_chunk_size s
        \<and> bm_bytes U b \<noteq> [] \<and> length (bm_bytes U b) \<le> bound \<and> reader_input input s = bm_bytes U b @ reader_input input s')
    \<or> (\<exists>s'. next_chunk U clear read width s = Some (Ok None, s') \<and> rb_done s' \<and> reader_input input s = [] \<and> reader_input input s' = [])"
proof -
  obtain r b w where started: "or_state (read_start U clear width (rb_reads s)) = OS_Pending r b w" "bm_bytes U b = []" "0 < w" "w \<le> bound"
      "reader_input input s = input r"
    using assms by (auto simp: read_start_def reader_ok_def reader_input_def chunk_laws_def buffer_laws_def split: owned_state.splits)
  obtain v r' where v: "read w r = (Ok (length v), v, r')" "length v \<le> w" "input r = v @ input r'" "v = [] \<longrightarrow> input r = []"
    using assms(2) started(3) unfolding stream_read_def by blast
  have filled: "bm_bytes U (bm_fill U b v) = v" using assms(1) started(2) by (simp add: chunk_laws_def buffer_laws_def)
  have finish: "read_finish U read (read_start U clear width (rb_reads s)) =
      Some (Ok (length v), bm_fill U b v, (read_start U clear width (rb_reads s))\<lparr>or_state := OS_Idle r'\<rparr>)"
    using started(1) v(1,2) filled by (simp add: read_finish_def validate_read_def)
  have live: "\<not> rb_done s" using assms(3) by (simp add: reader_ok_def)
  show ?thesis
  proof (cases "v = []")
    case True
    then show ?thesis using finish live started(5) v(3,4)
      by (auto simp: next_chunk_def reader_input_def owned_recycle_def split: option.splits)
  next
    case False
    then show ?thesis using finish live started(4,5) v(2,3) filled
      by (auto simp: next_chunk_def reader_input_def reader_ok_def)
  qed
qed

section \<open>The reader body streams its reader\<close>

lemma nonempty_pieces: "\<forall>v \<in> set vs. v \<noteq> [] \<Longrightarrow> length vs \<le> length (concat vs)"
  by (induction vs) (auto simp: Suc_le_eq add_strict_increasing)

definition reader_waits where
  "reader_waits U clear read = body_waits (reader_body U clear read) (\<lambda>s. next_chunk_dropped U clear (rb_chunk_size s) s)"

lemma reader_waits_done:
  "rb_done s \<Longrightarrow> \<exists>t. reader_waits U clear read ws s = Some (replicate (length (filter (\<lambda>w. w) ws)) (Ok None), t)"
  unfolding reader_waits_def by (induction ws) (auto simp: reader_body_def next_chunk_def next_chunk_dropped_def)

lemma reader_waits_stream:
  assumes "chunk_laws U clear" "stream_read read input" "reader_ok U (rb_chunk_size s) s" "0 < rb_chunk_size s"
  shows "\<exists>bs k t. reader_waits U clear read ws s = Some (map (\<lambda>b. Ok (Some (DataFrame b))) bs @ replicate k (Ok None), t)
    \<and> (\<forall>b \<in> set bs. bm_bytes U b \<noteq> [] \<and> length (bm_bytes U b) \<le> rb_chunk_size s) \<and> length (filter (\<lambda>w. w) ws) = length bs + k
    \<and> (\<exists>rest. reader_input input s = concat (map (bm_bytes U) bs) @ rest \<and> (0 < k \<longrightarrow> rest = []))" (is "\<exists>bs k t. ?waits ws s = _ \<and> _")
  using assms(3,4)
proof (induction ws arbitrary: s)
  case Nil
  show ?case unfolding reader_waits_def by (intro exI [of _ "[]"] exI [of _ 0] exI [of _ s]) auto
next
  case (Cons w ws)
  let ?width = "rb_chunk_size s"
  show ?case
  proof (cases w)
    case False
    note keeps = next_chunk_dropped_keeps [OF assms(1) Cons.prems order_refl]
    have "?waits (w # ws) s = ?waits ws (next_chunk_dropped U clear ?width s)"
      using False by (simp add: reader_waits_def)
    with Cons.IH [of "next_chunk_dropped U clear ?width s"] keeps Cons.prems(2) False show ?thesis by simp
  next
    case True
    have eq: "?waits (w # ws) s =
        (case next_chunk U clear read ?width s of
           None \<Rightarrow> None
         | Some (res, s') \<Rightarrow> map_option (\<lambda>(rs, t). (and_then res (\<lambda>b. Ok (map_option DataFrame b)) # rs, t)) (?waits ws s'))"
      using True by (auto simp: reader_waits_def reader_body_def split: option.splits)
    from next_chunk_reads [OF assms(1,2) Cons.prems order_refl] show ?thesis
    proof (elim disjE exE conjE)
      fix b s' assume c: "next_chunk U clear read ?width s = Some (Ok (Some b), s')" "\<forall>n. reader_ok U n s'" "rb_chunk_size s' = ?width"
        "bm_bytes U b \<noteq> []" "length (bm_bytes U b) \<le> ?width" "reader_input input s = bm_bytes U b @ reader_input input s'"
      obtain bs k t rest where "?waits ws s' = Some (map (\<lambda>b. Ok (Some (DataFrame b))) bs @ replicate k (Ok None), t)"
          "\<forall>b \<in> set bs. bm_bytes U b \<noteq> [] \<and> length (bm_bytes U b) \<le> ?width" "length (filter (\<lambda>w. w) ws) = length bs + k"
          "reader_input input s' = concat (map (bm_bytes U) bs) @ rest" "0 < k \<longrightarrow> rest = []"
        using Cons.IH [of s', unfolded c(3), OF spec [OF c(2)] Cons.prems(2)] by blast
      then show ?thesis using eq c True by (intro exI [of _ "b # bs"] exI [of _ k] exI [of _ t]) auto
    next
      fix s' assume c: "next_chunk U clear read ?width s = Some (Ok None, s')" "rb_done s'" "reader_input input s = []"
      obtain t where "?waits ws s' = Some (replicate (length (filter (\<lambda>w. w) ws)) (Ok None), t)"
        using reader_waits_done [OF c(2)] by blast
      then show ?thesis using eq c(1,3) True by (intro exI [of _ "[]"] exI [of _ "Suc (length (filter (\<lambda>w. w) ws))"] exI [of _ t]) auto
    qed
  qed
qed

text \<open>
  C39. A reader body streams its reader without loss. For every chunk size it accepts and whatever waits
  are dropped while their read is pending, the frames are not empty, no longer than a chunk, and carry
  the reader's input in order; the body ends only when all of it was delivered, and it has ended once
  more waits were driven to their result than the input has bytes.
\<close>

theorem reader_body_streams:
  assumes "chunk_laws U clear" "stream_read read input" "with_chunk_size r chunk = Ok s"
  shows "\<exists>bs k t. reader_waits U clear read ws s = Some (map (\<lambda>b. Ok (Some (DataFrame b))) bs @ replicate k (Ok None), t)
    \<and> (\<forall>b \<in> set bs. bm_bytes U b \<noteq> [] \<and> length (bm_bytes U b) \<le> chunk)
    \<and> (\<exists>rest. input r = concat (map (bm_bytes U) bs) @ rest \<and> (0 < k \<longrightarrow> rest = []))
    \<and> (length (input r) < length (filter (\<lambda>w. w) ws) \<longrightarrow> 0 < k)" (is "\<exists>bs k t. ?waits ws s = _ \<and> _")
proof -
  have s: "reader_ok U (rb_chunk_size s) s" "rb_chunk_size s = chunk" "0 < rb_chunk_size s" "reader_input input s = input r"
    using assms(3) by (auto simp: with_chunk_size_def reader_ok_def reader_input_def owned_new_def split: if_splits)
  obtain bs k t rest where run: "?waits ws s = Some (map (\<lambda>b. Ok (Some (DataFrame b))) bs @ replicate k (Ok None), t)"
      "\<forall>b \<in> set bs. bm_bytes U b \<noteq> [] \<and> length (bm_bytes U b) \<le> chunk" "length (filter (\<lambda>w. w) ws) = length bs + k"
      "input r = concat (map (bm_bytes U) bs) @ rest" "0 < k \<longrightarrow> rest = []"
    using reader_waits_stream [OF assms(1,2) s(1,3), unfolded s(2,4)] by blast
  have "length bs \<le> length (concat (map (bm_bytes U) bs))" using nonempty_pieces [of "map (bm_bytes U) bs"] run(2) by auto
  then have "length bs \<le> length (input r)" using run(4) by simp
  then show ?thesis using run by (intro exI [of _ bs] exI [of _ k] exI [of _ t]) auto
qed

section \<open>The file body carries the file up to its first length\<close>

lemma u64_bounded: "unat (n :: u64) < 2 ^ 64"
  using unsigned_less [of n, where ?'a = nat] by simp

text \<open>A file that holds \<open>contents\<close> and on which no read fails.\<close>

definition file_holds :: "(u64 \<Rightarrow> 'f chunk_read) \<Rightarrow> bytes \<Rightarrow> bool" where
  "file_holds read_at contents \<longleftrightarrow>
     length contents < 2 ^ 64
   \<and> (\<forall>n off f. 0 < n \<longrightarrow> (\<exists>v f'. read_at off n f = (Ok (length v), v, f') \<and> length v \<le> n
        \<and> v = take (length v) (drop (unat off) contents) \<and> (v = [] \<longrightarrow> drop (unat off) contents = [])))"

lemma positional_stream:
  assumes "file_holds read_at contents"
  shows "stream_read (positional_read read_at) (\<lambda>(f, off). drop (unat off) contents)"
  unfolding stream_read_def
proof (intro allI impI)
  fix n and p :: "'a \<times> u64" assume "0 < (n :: nat)"
  obtain f off where p: "p = (f, off)" by fastforce
  obtain v f' where v: "read_at off n f = (Ok (length v), v, f')" "length v \<le> n" "v = take (length v) (drop (unat off) contents)"
      "v = [] \<longrightarrow> drop (unat off) contents = []"
    using assms \<open>0 < n\<close> unfolding file_holds_def by blast
  have len: "length v \<le> length contents - unat off" using v(3) by (metis length_drop length_take min.cobounded2 min.commute)
  have fits: "unat off + length v < 2 ^ 64" and small: "length v < 2 ^ 64"
    using len assms u64_bounded [of off] by (auto simp: file_holds_def)
  then have add: "checked_add off (word_of_nat (length v)) = Some (off + word_of_nat (length v))"
      "unat (off + word_of_nat (length v)) = unat off + length v"
    by (simp_all add: checked_add_def unat_of_nat unat_word_ariths take_bit_nat_eq_self)
  have "drop (unat off) contents = take (length v) (drop (unat off) contents) @ drop (length v) (drop (unat off) contents)"
    by (rule append_take_drop_id [symmetric])
  also have "\<dots> = v @ drop (unat off + length v) contents" unfolding v(3) [symmetric] by (simp add: add.commute)
  finally have "drop (unat off) contents = v @ drop (unat off + length v) contents" .
  note rest = this
  have read: "positional_read read_at n p = (Ok (length v), v, f', off + word_of_nat (length v))"
    using v(1) add(1) p by (simp add: positional_read_def)
  show "\<exists>v r'. positional_read read_at n p = (Ok (length v), v, r') \<and> length v \<le> n
      \<and> (case p of (f, off) \<Rightarrow> drop (unat off) contents) = v @ (case r' of (f, off) \<Rightarrow> drop (unat off) contents)
      \<and> (v = [] \<longrightarrow> (case p of (f, off) \<Rightarrow> drop (unat off) contents) = [])"
  proof (intro exI conjI)
    show "positional_read read_at n p = (Ok (length v), v, f', off + word_of_nat (length v))" by (rule read)
    show "length v \<le> n" by (rule v(2))
    show "(case p of (f, off) \<Rightarrow> drop (unat off) contents) =
        v @ (case (f', off + word_of_nat (length v)) of (f, off) \<Rightarrow> drop (unat off) contents)"
      unfolding p prod.case add(2) by (rule rest)
    show "v = [] \<longrightarrow> (case p of (f, off) \<Rightarrow> drop (unat off) contents) = []" unfolding p prod.case by (rule v(4))
  qed
qed

definition file_waits where
  "file_waits U clear read_at = body_waits (file_body U clear read_at) (file_next_dropped U clear)"

text \<open>After the frames: the end, or once the report of the missing rest.\<close>

definition file_end :: "bool \<Rightarrow> nat \<Rightarrow> (('b, 'h) frame option, io_error) result list" where
  "file_end complete k = (case k of 0 \<Rightarrow> [] | Suc j \<Rightarrow> (if complete then Ok None else Err file_ended_early) # replicate j (Ok None))"

lemma file_body_next [simp]: "next_frame (file_body U clear read_at) = file_next U clear read_at"
  by (simp add: file_body_def)

lemma file_waits_done:
  "fb_done s \<Longrightarrow> file_waits U clear read_at ws s = Some (replicate (length (filter (\<lambda>w. w) ws)) (Ok None), s)"
  unfolding file_waits_def by (induction ws) (auto simp: file_body_def file_next_def file_next_dropped_def)

definition file_ok :: "'b buffer_api \<Rightarrow> ('b, 'f) file_state \<Rightarrow> bool" where
  "file_ok U s \<longleftrightarrow> \<not> fb_done s \<and> reader_ok U (unat (fb_remaining s)) (fb_reader s)"

lemma file_width_bounds: "fb_remaining s \<noteq> 0 \<Longrightarrow> 0 < file_width s \<and> file_width s \<le> unat (fb_remaining s)"
  by (auto simp: file_width_def min_def word_le_nat_alt unat_gt_0)

lemma file_next_reads:
  assumes "chunk_laws U clear" "stream_read (positional_read read_at) input" "file_ok U s" "fb_remaining s \<noteq> 0"
  shows "(\<exists>b s'. file_next U clear read_at s = Some (Ok (Some (DataFrame b)), s') \<and> file_ok U s'
        \<and> unat (fb_remaining s) = length (bm_bytes U b) + unat (fb_remaining s') \<and> bm_bytes U b \<noteq> []
        \<and> reader_input input (fb_reader s) = bm_bytes U b @ reader_input input (fb_reader s'))
    \<or> (\<exists>s'. file_next U clear read_at s = Some (Err file_ended_early, s') \<and> fb_done s' \<and> reader_input input (fb_reader s) = [])"
proof -
  have ok: "reader_ok U (unat (fb_remaining s)) (fb_reader s)" "\<not> fb_done s" using assms(3) by (simp_all add: file_ok_def)
  note width = file_width_bounds [OF assms(4)]
  from next_chunk_reads [OF assms(1,2) ok(1) conjunct1 [OF width] conjunct2 [OF width]] show ?thesis
  proof (elim disjE exE conjE)
    fix b r' assume c: "next_chunk U clear (positional_read read_at) (file_width s) (fb_reader s) = Some (Ok (Some b), r')"
      "\<forall>n. reader_ok U n r'" "bm_bytes U b \<noteq> []" "length (bm_bytes U b) \<le> unat (fb_remaining s)"
      "reader_input input (fb_reader s) = bm_bytes U b @ reader_input input r'"
    have small: "length (bm_bytes U b) < 2 ^ 64" using c(4) u64_bounded [of "fb_remaining s"] by simp
    then have len: "unat (word_of_nat (length (bm_bytes U b)) :: u64) = length (bm_bytes U b)"
      by (simp add: unat_of_nat take_bit_nat_eq_self)
    then have "word_of_nat (length (bm_bytes U b)) \<le> fb_remaining s" using c(4) by (simp add: word_le_nat_alt)
    then have "checked_sub (fb_remaining s) (word_of_nat (length (bm_bytes U b))) = Some (fb_remaining s - word_of_nat (length (bm_bytes U b)))"
        "unat (fb_remaining s - word_of_nat (length (bm_bytes U b))) = unat (fb_remaining s) - length (bm_bytes U b)"
      using len by (simp_all add: checked_sub_def unat_sub)
    then show ?thesis using c ok(2) assms(4) by (auto simp: file_next_def file_ok_def)
  next
    fix r' assume "next_chunk U clear (positional_read read_at) (file_width s) (fb_reader s) = Some (Ok None, r')"
      "reader_input input (fb_reader s) = []"
    then show ?thesis using ok(2) assms(4) by (auto simp: file_next_def)
  qed
qed

lemma file_next_dropped_keeps:
  assumes "chunk_laws U clear" "file_ok U s"
  shows "file_ok U (file_next_dropped U clear s)" "fb_remaining (file_next_dropped U clear s) = fb_remaining s"
    and "reader_input input (fb_reader (file_next_dropped U clear s)) = reader_input input (fb_reader s)"
proof -
  have ok: "reader_ok U (unat (fb_remaining s)) (fb_reader s)" using assms(2) by (simp add: file_ok_def)
  have keeps: "reader_ok U (unat (fb_remaining s)) (next_chunk_dropped U clear (file_width s) (fb_reader s))"
      "reader_input input (next_chunk_dropped U clear (file_width s) (fb_reader s)) = reader_input input (fb_reader s)" if "fb_remaining s \<noteq> 0"
    using next_chunk_dropped_keeps [OF assms(1) ok] file_width_bounds [OF that] by blast+
  show "file_ok U (file_next_dropped U clear s)" using assms(2) keeps(1) by (auto simp: file_next_dropped_def file_ok_def)
  show "fb_remaining (file_next_dropped U clear s) = fb_remaining s" by (simp add: file_next_dropped_def)
  show "reader_input input (fb_reader (file_next_dropped U clear s)) = reader_input input (fb_reader s)"
    using keeps(2) by (simp add: file_next_dropped_def)
qed

lemma file_waits_stream:
  fixes U :: "'b buffer_api"
  assumes "chunk_laws U clear" "stream_read (positional_read read_at) input" "file_ok U s"
  shows "\<exists>bs k t. file_waits U clear read_at ws s
        = Some (map (\<lambda>b. Ok (Some (DataFrame b))) bs @ (file_end :: bool \<Rightarrow> nat \<Rightarrow> (('b, 'h) frame option, io_error) result list)
             (unat (fb_remaining s) \<le> length (reader_input input (fb_reader s))) k, t)
    \<and> (\<forall>b \<in> set bs. bm_bytes U b \<noteq> []) \<and> length (filter (\<lambda>w. w) ws) = length bs + k
    \<and> (\<exists>rest. take (unat (fb_remaining s)) (reader_input input (fb_reader s)) = concat (map (bm_bytes U) bs) @ rest \<and> (0 < k \<longrightarrow> rest = []))"
    (is "\<exists>bs k t. ?waits ws s = _ \<and> _")
  using assms(3)
proof (induction ws arbitrary: s)
  case Nil
  show ?case unfolding file_waits_def by (intro exI [of _ "[]"] exI [of _ 0] exI [of _ s]) (auto simp: file_end_def)
next
  case (Cons w ws)
  have step: "?waits (w # ws) s =
      (if w then (case file_next U clear read_at s of None \<Rightarrow> None | Some (r, s') \<Rightarrow> map_option (\<lambda>(rs, t). (r # rs, t)) (?waits ws s'))
       else ?waits ws (file_next_dropped U clear s))"
    unfolding file_waits_def by simp
  consider "\<not> w" | "w" "fb_remaining s = 0" | "w" "fb_remaining s \<noteq> 0" by blast
  then show ?case
  proof cases
    case 1
    note keeps = file_next_dropped_keeps [OF assms(1) Cons.prems]
    from Cons.IH [OF keeps(1), unfolded keeps(2,3)] 1 show ?thesis unfolding step by simp
  next
    case 2
    have "file_next U clear read_at s = Some (Ok None :: (('b, 'h) frame option, io_error) result, s\<lparr>fb_done := True\<rparr>)" using Cons.prems 2(2) by (simp add: file_next_def file_ok_def)
    moreover have "?waits ws (s\<lparr>fb_done := True\<rparr>) = Some (replicate (length (filter (\<lambda>w. w) ws)) (Ok None), s\<lparr>fb_done := True\<rparr>)"
      by (rule file_waits_done) simp
    ultimately show ?thesis unfolding step using 2
      by (intro exI [of _ "[]"] exI [of _ "Suc (length (filter (\<lambda>w. w) ws))"] exI [of _ "s\<lparr>fb_done := True\<rparr>"]) (simp add: file_end_def)
  next
    case 3
    have "(\<exists>b s'. file_next U clear read_at s = Some (Ok (Some (DataFrame b :: ('b, 'h) frame)), s') \<and> file_ok U s'
          \<and> unat (fb_remaining s) = length (bm_bytes U b) + unat (fb_remaining s') \<and> bm_bytes U b \<noteq> []
          \<and> reader_input input (fb_reader s) = bm_bytes U b @ reader_input input (fb_reader s'))
      \<or> (\<exists>s'. file_next U clear read_at s = Some (Err file_ended_early :: (('b, 'h) frame option, io_error) result, s')
          \<and> fb_done s' \<and> reader_input input (fb_reader s) = [])"
      by (rule file_next_reads [OF assms(1,2) Cons.prems 3(2)])
    then show ?thesis
    proof (elim disjE exE conjE)
      fix b s' assume c: "file_next U clear read_at s = Some (Ok (Some (DataFrame b :: ('b, 'h) frame)), s')" "file_ok U s'"
        "unat (fb_remaining s) = length (bm_bytes U b) + unat (fb_remaining s')" "bm_bytes U b \<noteq> []"
        "reader_input input (fb_reader s) = bm_bytes U b @ reader_input input (fb_reader s')"
      from Cons.IH [OF c(2)] obtain bs k t rest where
        "?waits ws s' = Some (map (\<lambda>b. Ok (Some (DataFrame b))) bs
            @ file_end (unat (fb_remaining s') \<le> length (reader_input input (fb_reader s'))) k, t)"
        "\<forall>b \<in> set bs. bm_bytes U b \<noteq> []" "length (filter (\<lambda>w. w) ws) = length bs + k"
        "take (unat (fb_remaining s')) (reader_input input (fb_reader s')) = concat (map (bm_bytes U) bs) @ rest" "0 < k \<longrightarrow> rest = []"
        by blast
      then show ?thesis unfolding step c(3,5) using c(1,4) 3(1) by (intro exI [of _ "b # bs"] exI [of _ k] exI [of _ t]) auto
    next
      fix s' assume c: "file_next U clear read_at s = Some (Err file_ended_early :: (('b, 'h) frame option, io_error) result, s')" "fb_done s'" "reader_input input (fb_reader s) = []"
      have "?waits ws s' = Some (replicate (length (filter (\<lambda>w. w) ws)) (Ok None), s')" by (rule file_waits_done) (rule c(2))
      then show ?thesis unfolding step c(3) using c(1) 3
        by (intro exI [of _ "[]"] exI [of _ "Suc (length (filter (\<lambda>w. w) ws))"] exI [of _ s']) (auto simp: file_end_def unat_gt_0)
    qed
  qed
qed

text \<open>
  C37. A file body carries exactly the file up to the length it had when the body was made, whatever
  waits are dropped: the frames are a prefix of those bytes, and the body ends with all of them if the
  file still has them; if the file became shorter, the frames carry the whole file and then the
  missing rest is reported once, never a clean end. Growth is ignored, and the body has ended
  once more waits were driven to their result than the file has bytes.
\<close>

theorem file_body_exact:
  assumes "chunk_laws U clear" "file_holds read_at contents" "file_body_new f (Ok len) = Ok s"
  shows "\<exists>bs k t. file_waits U clear read_at ws s
        = Some (map (\<lambda>b. Ok (Some (DataFrame b))) bs @ file_end (unat len \<le> length contents) k, t)
    \<and> (\<exists>rest. take (unat len) contents = concat (map (bm_bytes U) bs) @ rest \<and> (0 < k \<longrightarrow> rest = []))
    \<and> (length contents < length (filter (\<lambda>w. w) ws) \<longrightarrow> 0 < k)" (is "\<exists>bs k t. ?waits ws s = _ \<and> _")
proof -
  let ?input = "\<lambda>(f, off :: u64). drop (unat off) contents"
  have s: "file_ok U s" "fb_remaining s = len" "reader_input ?input (fb_reader s) = contents"
    using assms(3) by (auto simp: file_body_new_def file_ok_def reader_ok_def reader_body_new_def owned_new_def reader_input_def)
  obtain bs k t rest where run: "?waits ws s = Some (map (\<lambda>b. Ok (Some (DataFrame b))) bs @ file_end (unat len \<le> length contents) k, t)"
      "\<forall>b \<in> set bs. bm_bytes U b \<noteq> []" "length (filter (\<lambda>w. w) ws) = length bs + k"
      "take (unat len) contents = concat (map (bm_bytes U) bs) @ rest" "0 < k \<longrightarrow> rest = []"
    using file_waits_stream [OF assms(1) positional_stream [OF assms(2)] s(1), unfolded s(2,3)] by blast
  have "length bs \<le> length (concat (map (bm_bytes U) bs))" using nonempty_pieces [of "map (bm_bytes U) bs"] run(2) by auto
  also have "\<dots> \<le> length (take (unat len) contents)" unfolding run(4) by simp
  finally have "length bs \<le> length contents" by simp
  then show ?thesis using run(1,3-5) by (intro exI [of _ bs] exI [of _ k] exI [of _ t]) auto
qed

section \<open>Concrete readers\<close>

definition byte_read :: "bytes chunk_read" where
  "byte_read n r = (Ok (length (take n r)), take n r, drop n r)"

definition byte_read_at :: "bytes \<Rightarrow> u64 \<Rightarrow> unit chunk_read" where
  "byte_read_at contents off n f = (let v = take n (drop (unat off) contents) in (Ok (length v), v, f))"

definition list_clear :: "bytes \<times> nat \<Rightarrow> bytes \<times> nat" where
  "list_clear b = ([], snd b)"

lemma list_chunk_laws: "chunk_laws list_buffer list_clear"
  using list_buffer_laws by (simp add: chunk_laws_def list_clear_def list_buffer_def)

lemma byte_read_stream: "stream_read byte_read (\<lambda>r. r)"
  unfolding stream_read_def byte_read_def by (intro allI impI, rule exI, rule exI) auto

lemma byte_read_at_holds: "length contents < 2 ^ 64 \<Longrightarrow> file_holds (byte_read_at contents) contents"
  unfolding file_holds_def byte_read_at_def Let_def
proof (intro conjI allI impI)
  fix n :: nat and off :: u64 and f assume "0 < n"
  then show "\<exists>v f'. (Ok (length (take n (drop (unat off) contents))), take n (drop (unat off) contents), f) = (Ok (length v), v, f')
      \<and> length v \<le> n \<and> v = take (length v) (drop (unat off) contents) \<and> (v = [] \<longrightarrow> drop (unat off) contents = [])"
    by (intro exI [of _ "take n (drop (unat off) contents)"] exI [of _ f]) (simp add: min_def)
qed assumption

theorem reader_body_streams_witness:
  "\<exists>s bs k t. with_chunk_size [1, 2, 3] 2 = Ok s
    \<and> reader_waits list_buffer list_clear byte_read [False, True, True, False, True, True] s
        = Some (map (\<lambda>b. Ok (Some (DataFrame b))) bs @ replicate k (Ok None) :: (((bytes \<times> nat), alist) frame option, io_error) result list, t)
    \<and> concat (map (bm_bytes list_buffer) bs) = [1, 2, 3] \<and> 0 < k"
proof -
  obtain s where s: "with_chunk_size [1, 2, 3 :: byte] 2 = Ok (s :: (bytes \<times> nat, bytes) reader_state)"
    by (simp add: with_chunk_size_def ISIZE_MAX_def)
  let ?ws = "[False, True, True, False, True, True]"
  have "\<exists>bs k t. reader_waits list_buffer list_clear byte_read ?ws s
        = Some (map (\<lambda>b. Ok (Some (DataFrame b))) bs @ replicate k (Ok None) :: (((bytes \<times> nat), alist) frame option, io_error) result list, t)
    \<and> (\<forall>b \<in> set bs. bm_bytes list_buffer b \<noteq> [] \<and> length (bm_bytes list_buffer b) \<le> 2)
    \<and> (\<exists>rest. [1, 2, 3] = concat (map (bm_bytes list_buffer) bs) @ rest \<and> (0 < k \<longrightarrow> rest = []))
    \<and> (length [1, 2, 3 :: byte] < length (filter (\<lambda>w. w) ?ws) \<longrightarrow> 0 < k)"
    by (rule reader_body_streams [OF list_chunk_laws byte_read_stream s])
  moreover have "length [1, 2, 3 :: byte] < length (filter (\<lambda>w. w) ?ws)" by simp
  ultimately show ?thesis using s by (metis append_Nil2)
qed

theorem file_body_exact_witness:
  "\<exists>s bs k t. file_body_new () (Ok 2) = Ok s
    \<and> file_waits list_buffer list_clear (byte_read_at [1, 2, 3]) [False, True, True, False, True, True] s
        = Some (map (\<lambda>b. Ok (Some (DataFrame b))) bs @ file_end True k :: (((bytes \<times> nat), alist) frame option, io_error) result list, t)
    \<and> concat (map (bm_bytes list_buffer) bs) = [1, 2] \<and> 0 < k"
proof -
  obtain s where s: "file_body_new () (Ok 2) = Ok (s :: (bytes \<times> nat, unit) file_state)"
    by (simp add: file_body_new_def)
  let ?ws = "[False, True, True, False, True, True]"
  have holds: "file_holds (byte_read_at [1, 2, 3]) [1, 2, 3]" by (rule byte_read_at_holds) simp
  have "\<exists>bs k t. file_waits list_buffer list_clear (byte_read_at [1, 2, 3]) ?ws s
        = Some (map (\<lambda>b. Ok (Some (DataFrame b))) bs @ file_end (unat (2 :: u64) \<le> length [1, 2, 3 :: byte]) k
            :: (((bytes \<times> nat), alist) frame option, io_error) result list, t)
    \<and> (\<exists>rest. take (unat (2 :: u64)) [1, 2, 3] = concat (map (bm_bytes list_buffer) bs) @ rest \<and> (0 < k \<longrightarrow> rest = []))
    \<and> (length [1, 2, 3 :: byte] < length (filter (\<lambda>w. w) ?ws) \<longrightarrow> 0 < k)"
    by (rule file_body_exact [OF list_chunk_laws holds s])
  moreover have len: "unat (2 :: u64) = 2" by simp
  ultimately obtain bs k t where "file_waits list_buffer list_clear (byte_read_at [1, 2, 3]) ?ws s
        = Some (map (\<lambda>b. Ok (Some (DataFrame b))) bs @ file_end True k :: (((bytes \<times> nat), alist) frame option, io_error) result list, t)"
      "concat (map (bm_bytes list_buffer) bs) = [1, 2]" "0 < k" unfolding len by auto
  then show ?thesis using s by blast
qed

end
