(* ===== verification/Collect.thy ===== *)
theory Collect
  imports Body_Adapter_Laws
begin

text \<open>
  Collecting a body into contiguous memory, from \<open>src/src/body/collect.rs\<close>.

  The vector is its bytes and its capacity. Whether the allocator grants a capacity, and how
  much it then gives, is a parameter \<open>M\<close>: \<open>M n\<close> is the capacity granted for a request of \<open>n\<close>
  bytes. The loop ends only if the body does, so it is a partial function; \<open>None\<close> stands for a
  loop that never ends or a body that panics. The cooperative yields of the loop do not touch
  its state.

  The lemmas show that collecting succeeds exactly on the bodies that end cleanly within the
  limit and their own hints, that the result is their payload and trailers, and that no
  request to the allocator exceeds the limit.
\<close>

section \<open>Definitions\<close>

record vec =
  v_data :: bytes
  v_capacity :: usize

record 'h collected =
  co_data :: bytes
  co_trailers :: "'h option"

datatype 'e collect_error =
    CE_Body 'e | CE_LimitExceeded usize | CE_LengthOverflow | CE_Allocation | CE_LengthMismatch
  | CE_UnexpectedTrailers | CE_InvalidSequence

datatype aggregate_error = AG_Overflow | AG_Limit usize

definition collect_from_aggregate :: "aggregate_error \<Rightarrow> 'e collect_error" where
  "collect_from_aggregate e = (case e of AG_Overflow \<Rightarrow> CE_LengthOverflow | AG_Limit limit \<Rightarrow> CE_LimitExceeded limit)"

definition checked_total :: "usize \<Rightarrow> usize \<Rightarrow> usize \<Rightarrow> (usize, aggregate_error) result" where
  "checked_total current additional limit =
     and_then (ok_or AG_Overflow (checked_add_usize current additional))
       (\<lambda>t. if limit < t then Err (AG_Limit limit) else Ok t)"

text \<open>\<open>Vec::try_reserve_exact\<close>: nothing happens while the capacity suffices.\<close>

definition try_reserve_exact :: "(usize \<Rightarrow> usize option) \<Rightarrow> vec \<Rightarrow> usize \<Rightarrow> vec option" where
  "try_reserve_exact M v additional =
     (if length (v_data v) + additional \<le> v_capacity v then Some v
      else map_option (\<lambda>c. v\<lparr>v_capacity := c\<rparr>) (M (length (v_data v) + additional)))"

definition saturating_mul_usize :: "usize \<Rightarrow> usize \<Rightarrow> usize" where
  "saturating_mul_usize a b = min (a * b) USIZE_MAX"

definition reserve_for_append :: "(usize \<Rightarrow> usize option) \<Rightarrow> vec \<Rightarrow> usize \<Rightarrow> usize \<Rightarrow> vec option" where
  "reserve_for_append M v new_len limit =
     (if new_len \<le> v_capacity v then Some v
      else
        (let target = min (max (saturating_mul_usize (v_capacity v) 2) new_len) limit in
         try_reserve_exact M v (target - length (v_data v))))"

definition append_frame ::
  "(usize \<Rightarrow> usize option) \<Rightarrow> vec \<Rightarrow> bytes \<Rightarrow> usize \<Rightarrow> size_hint \<Rightarrow> bool \<Rightarrow> (vec, 'e collect_error) result" where
  "append_frame M v frame limit hint after_trailers =
     (if after_trailers then Err CE_InvalidSequence
      else
        and_then (map_err collect_from_aggregate (checked_total (length (v_data v)) (length frame) limit)) (\<lambda>new_len.
        if (case sh_upper hint of None \<Rightarrow> False | Some upper \<Rightarrow> upper < word_of_nat new_len) then Err CE_LengthMismatch
        else
          and_then (ok_or CE_Allocation (reserve_for_append M v new_len limit)) (\<lambda>v.
          Ok (v\<lparr>v_data := v_data v @ frame\<rparr>))))"

partial_function (option) collect_loop ::
  "(usize \<Rightarrow> usize option) \<Rightarrow> ('s, 'd, 'h, 'e) body_impl \<Rightarrow> usize \<Rightarrow> size_hint \<Rightarrow> trailer_hint
     \<Rightarrow> vec \<Rightarrow> 'h option \<Rightarrow> 's \<Rightarrow> (('h collected, 'e collect_error) result \<times> 's) option" where
  "collect_loop M B limit hint trailer_hint v trailers s =
     (case next_frame B s of
        None \<Rightarrow> None
      | Some (Err e, s') \<Rightarrow> Some (Err (CE_Body e), s')
      | Some (Ok None, s') \<Rightarrow>
          Some (if word_of_nat (length (v_data v)) < sh_lower hint then Err CE_LengthMismatch
                else Ok \<lparr>co_data = v_data v, co_trailers = trailers\<rparr>, s')
      | Some (Ok (Some (DataFrame d)), s') \<Rightarrow>
          (let s'' = recycle B d s' in
           case append_frame M v (frame_bytes B d) limit hint (trailers \<noteq> None) of
             Err e \<Rightarrow> Some (Err e, s'')
           | Ok v \<Rightarrow> collect_loop M B limit hint trailer_hint v trailers s'')
      | Some (Ok (Some (TrailersFrame h)), s') \<Rightarrow>
          (if trailers \<noteq> None then Some (Err CE_InvalidSequence, s')
           else if trailer_hint = TH_None then Some (Err CE_UnexpectedTrailers, s')
           else collect_loop M B limit hint trailer_hint v (Some h) s'))"

definition collect_init ::
  "(usize \<Rightarrow> usize option) \<Rightarrow> size_hint \<Rightarrow> usize \<Rightarrow> (vec, 'e collect_error) result" where
  "collect_init M hint max_bytes =
     (if (case u64_try_from max_bytes of Some n \<Rightarrow> n | None \<Rightarrow> - 1) < sh_lower hint then Err (CE_LimitExceeded max_bytes)
      else
        and_then (case exact hint of None \<Rightarrow> Ok 0 | Some n \<Rightarrow> ok_or CE_LengthOverflow (usize_try_from n)) (\<lambda>capacity.
        ok_or CE_Allocation (try_reserve_exact M \<lparr>v_data = [], v_capacity = 0\<rparr> capacity)))"

definition collect ::
  "(usize \<Rightarrow> usize option) \<Rightarrow> ('s, 'd, 'h, 'e) body_impl \<Rightarrow> 's \<Rightarrow> usize
     \<Rightarrow> (('h collected, 'e collect_error) result \<times> 's) option" where
  "collect M B s max_bytes =
     (case (size_hint_of B s, trailer_hint_of B s) of
        (Some hint, Some trailer_hint) \<Rightarrow>
          (case collect_init M hint max_bytes of
             Err e \<Rightarrow> Some (Err e, s)
           | Ok v \<Rightarrow> collect_loop M B max_bytes hint trailer_hint v None s)
      | _ \<Rightarrow> None)"

section \<open>The run behind a collection\<close>

text \<open>The body as the collector drives it: every data frame is handed back at once.\<close>

definition recycling :: "('s, 'd, 'h, 'e) body_impl \<Rightarrow> ('s, 'd, 'h, 'e) body_impl" where
  "recycling B = B\<lparr>next_frame := (\<lambda>s. case next_frame B s of
       Some (Ok (Some (DataFrame d)), s') \<Rightarrow> Some (Ok (Some (DataFrame d)), recycle B d s')
     | r \<Rightarrow> r)\<rparr>"

lemma recycling_simps [simp]: "frame_bytes (recycling B) = frame_bytes B"
  by (simp add: recycling_def)

definition granting :: "(usize \<Rightarrow> usize option) \<Rightarrow> usize \<Rightarrow> bool" where
  "granting M limit \<longleftrightarrow> (\<forall>n \<le> limit. case M n of None \<Rightarrow> False | Some c \<Rightarrow> n \<le> c)"

definition fits :: "size_hint \<Rightarrow> usize \<Rightarrow> usize \<Rightarrow> bool" where
  "fits hint limit n \<longleftrightarrow> n \<le> limit \<and> (case sh_upper hint of None \<Rightarrow> True | Some u \<Rightarrow> n \<le> unat u)"

lemma fits_mono: "fits hint limit n \<Longrightarrow> m \<le> n \<Longrightarrow> fits hint limit m"
  by (auto simp: fits_def split: option.splits)

lemma reserve_granted:
  assumes "granting M limit" "new_len \<le> limit" "length (v_data v) \<le> new_len"
  shows "\<exists>v'. reserve_for_append M v new_len limit = Some v' \<and> v_data v' = v_data v"
proof -
  let ?target = "min (max (saturating_mul_usize (v_capacity v) 2) new_len) limit"
  have "length (v_data v) + (?target - length (v_data v)) \<le> limit" using assms by auto
  then obtain c where "M (length (v_data v) + (?target - length (v_data v))) = Some c"
    using assms(1) unfolding granting_def by (metis option.case_eq_if option.collapse)
  then show ?thesis by (auto simp: reserve_for_append_def try_reserve_exact_def Let_def)
qed

lemma append_frame_Ok:
  assumes "append_frame M v d limit hint after = Ok v'" "limit \<le> USIZE_MAX"
  shows "\<not> after \<and> v_data v' = v_data v @ d \<and> fits hint limit (length (v_data v'))"
proof -
  let ?n = "length (v_data v) + length d"
  have n: "?n \<le> limit" and upper: "\<not> (case sh_upper hint of None \<Rightarrow> False | Some u \<Rightarrow> u < word_of_nat ?n)"
    and data: "v_data v' = v_data v @ d" and "\<not> after"
    using assms(1)
    by (auto simp: append_frame_def checked_total_def checked_add_usize_def reserve_for_append_def
        try_reserve_exact_def Let_def simp del: of_nat_add split: if_splits option.splits)
  moreover have "unat (word_of_nat ?n :: u64) = ?n" using n assms(2) by (intro unat_of_usize) simp
  ultimately show ?thesis by (auto simp: fits_def word_less_nat_alt simp del: of_nat_add split: option.splits)
qed

lemma append_frame_fits:
  assumes "granting M limit" "limit \<le> USIZE_MAX" "fits hint limit (length (v_data v) + length d)"
  shows "\<exists>v'. append_frame M v d limit hint False = Ok v' \<and> v_data v' = v_data v @ d"
proof -
  let ?n = "length (v_data v) + length d"
  have n: "?n \<le> limit" using assms(3) by (simp add: fits_def)
  then have "unat (word_of_nat ?n :: u64) = ?n" using assms(2) by (intro unat_of_usize) simp
  then have "\<not> (case sh_upper hint of None \<Rightarrow> False | Some u \<Rightarrow> u < word_of_nat ?n)"
    using assms(3) by (auto simp: fits_def word_less_nat_alt simp del: of_nat_add split: option.splits)
  moreover obtain v' where "reserve_for_append M v ?n limit = Some v'" "v_data v' = v_data v"
    using reserve_granted [OF assms(1) n, of v] by auto
  ultimately show ?thesis using n assms(2)
    by (auto simp: append_frame_def checked_total_def checked_add_usize_def simp del: of_nat_add split: option.splits)
qed

definition collect_post ::
  "('s, 'd, 'h, 'e) body_impl \<Rightarrow> usize \<Rightarrow> size_hint \<Rightarrow> trailer_hint \<Rightarrow> vec \<Rightarrow> 'h option \<Rightarrow> 's \<Rightarrow> 'h collected \<Rightarrow> 's \<Rightarrow> nat
     \<Rightarrow> ('d, 'h) frame list \<Rightarrow> bool" where
  "collect_post B limit hint th v tr s c t n fs \<longleftrightarrow>
     run_body n (recycling B) s = (fs, Some (Ok ()), t)
   \<and> co_data c = v_data v @ payload (frame_bytes B) fs \<and> fits hint limit (length (co_data c))
   \<and> unat (sh_lower hint) \<le> length (co_data c)
   \<and> (case tr of
        None \<Rightarrow> trailers_last fs \<and> co_trailers c = frame_trailers fs \<and> (th = TH_None \<longrightarrow> \<not> has_trailers fs)
      | Some h \<Rightarrow> fs = [] \<and> co_trailers c = Some h)"

lemma collect_loop_sound:
  fixes B :: "('s, 'd, 'h, 'e) body_impl"
  assumes "collect_loop M B limit hint th v tr s = Some (Ok c, t)" "limit \<le> USIZE_MAX"
    and "fits hint limit (length (v_data v))"
  shows "\<exists>n fs. collect_post B limit hint th v tr s c t n fs"
proof -
  have "fits hint limit (length (v_data v)) \<Longrightarrow> limit \<le> USIZE_MAX \<Longrightarrow> rt = (Ok c, t) \<Longrightarrow>
      \<exists>n fs. collect_post B limit hint th v tr s c t n fs"
    if "collect_loop M B limit hint th v tr s = Some rt" for rt
    using that
  proof (induction M B limit hint th v tr s rt rule: collect_loop.raw_induct [rotated, consumes 1])
    case (1 loop M B limit hint th v tr s rt)
    note IH = 1(1) and call = 1(2) [unfolded 1(5)]
    have len: "unat (word_of_nat (length (v_data v)) :: u64) = length (v_data v)"
      using 1(3,4) by (intro unat_of_usize) (auto simp: fits_def)
    obtain q s' where nf: "next_frame B s = Some (q, s')" using call by (auto split: option.splits)
    show ?case
    proof (cases q)
      case (Err e)
      with call nf show ?thesis by simp
    next
      case (Ok f)
      show ?thesis
      proof (cases f)
        case None
        with call nf Ok 1(3) len show ?thesis
          by (auto simp: collect_post_def recycling_def word_less_nat_alt not_less
              intro!: exI [of _ "Suc 0"] exI [of _ "[]"] split: option.splits if_splits)
      next
        case (Some g)
        show ?thesis
        proof (cases g)
          case (DataFrame d)
          with call nf Ok Some obtain v' where
            v': "append_frame M v (frame_bytes B d) limit hint (tr \<noteq> None) = (Ok v' :: (vec, 'e collect_error) result)"
            and rec: "loop M B limit hint th v' tr (recycle B d s') = Some (Ok c, t)"
            by (auto simp: Let_def split: result.splits)
          note post = append_frame_Ok [OF v' 1(4)]
          obtain n fs where "collect_post B limit hint th v' tr (recycle B d s') c t n fs"
            using IH [OF rec] post 1(4) by blast
          with post nf Ok Some DataFrame
          have "collect_post B limit hint th v tr s c t (Suc n) (DataFrame d # fs)"
            by (auto simp: collect_post_def recycling_def split: option.splits)
          then show ?thesis by blast
        next
          case (TrailersFrame h)
          with call nf Ok Some have tr: "tr = None" "th \<noteq> TH_None"
            and rec: "loop M B limit hint th v (Some h) s' = Some (Ok c, t)"
            by (auto split: if_splits)
          obtain n fs where "collect_post B limit hint th v (Some h) s' c t n fs"
            using IH [OF rec] 1(3,4) by blast
          with tr nf Ok Some TrailersFrame
          have "collect_post B limit hint th v tr s c t (Suc n) (TrailersFrame h # fs)"
            by (auto simp: collect_post_def recycling_def split: option.splits)
          then show ?thesis by blast
        qed
      qed
    qed
  qed
  with assms show ?thesis by blast
qed

lemma collect_loop_complete:
  fixes B :: "('s, 'd, 'h, 'e) body_impl"
  assumes "collect_post B limit hint th v tr s c t n fs" "granting M limit" "limit \<le> USIZE_MAX"
  shows "collect_loop M B limit hint th v tr s = Some (Ok c, t)"
  using assms(1)
proof (induction n arbitrary: v tr s fs)
  case 0
  then show ?case by (simp add: collect_post_def)
next
  case (Suc n)
  note call = collect_loop.simps [of M B limit hint th v tr s]
  show ?case
  proof (cases fs)
    case Nil
    with Suc.prems have "next_frame B s = Some (Ok None, t)"
      by (auto simp: collect_post_def recycling_def split: option.splits result.splits prod.splits frame.splits)
    moreover have "unat (word_of_nat (length (v_data v)) :: u64) = length (v_data v)"
      using Suc.prems Nil assms(3) by (intro unat_of_usize) (auto simp: collect_post_def fits_def)
    ultimately show ?thesis using Suc.prems Nil
      by (auto simp: call collect_post_def word_less_nat_alt split: option.splits)
  next
    case (Cons f gs)
    show ?thesis
    proof (cases f)
      case (DataFrame d)
      with Suc.prems Cons obtain s' where s': "next_frame B s = Some (Ok (Some f), s')"
        "run_body n (recycling B) (recycle B d s') = (gs, Some (Ok ()), t)" and tr: "tr = None"
        by (auto simp: collect_post_def recycling_def split: option.splits result.splits prod.splits frame.splits)
      have "fits hint limit (length (v_data v) + length (frame_bytes B d))"
        using Suc.prems Cons DataFrame fits_mono by (fastforce simp: collect_post_def)
      then obtain v' where v': "append_frame M v (frame_bytes B d) limit hint False = (Ok v' :: (vec, 'e collect_error) result)"
        "v_data v' = v_data v @ frame_bytes B d"
        using append_frame_fits [OF assms(2,3)] by blast
      have "collect_post B limit hint th v' tr (recycle B d s') c t n gs"
        using Suc.prems Cons DataFrame s'(2) v'(2) tr by (auto simp: collect_post_def)
      from Suc.IH [OF this] show ?thesis using call s'(1) v' tr DataFrame by simp
    next
      case (TrailersFrame h)
      with Suc.prems Cons obtain s' where s': "next_frame B s = Some (Ok (Some f), s')"
        "run_body n (recycling B) s' = (gs, Some (Ok ()), t)" and tr: "tr = None" "th \<noteq> TH_None" "gs = []"
        by (auto simp: collect_post_def recycling_def split: option.splits result.splits prod.splits frame.splits)
      have "collect_post B limit hint th v (Some h) s' c t n gs"
        using Suc.prems Cons TrailersFrame s'(2) tr by (auto simp: collect_post_def)
      from Suc.IH [OF this] show ?thesis using call s'(1) tr TrailersFrame by simp
    qed
  qed
qed

section \<open>Requests to the allocator\<close>

lemma option_eqI: "(\<And>z. x = Some z \<longleftrightarrow> y = Some z) \<Longrightarrow> x = y"
  by (cases x; cases y) auto

text \<open>Two allocators that agree on requests up to the limit give the same collection.\<close>

definition agree :: "(usize \<Rightarrow> usize option) \<Rightarrow> (usize \<Rightarrow> usize option) \<Rightarrow> usize \<Rightarrow> bool" where
  "agree M M' limit \<longleftrightarrow> (\<forall>n \<le> limit. M n = M' n)"

lemma append_frame_agree:
  assumes "agree M M' limit"
  shows "append_frame M v d limit hint after = append_frame M' v d limit hint after"
proof -
  have "reserve_for_append M v n limit = reserve_for_append M' v n limit" if "n \<le> limit" "length (v_data v) \<le> n" for n
  proof -
    let ?target = "min (max (saturating_mul_usize (v_capacity v) 2) n) limit"
    have "length (v_data v) + (?target - length (v_data v)) \<le> limit" using that by auto
    with assms have "M (length (v_data v) + (?target - length (v_data v)))
        = M' (length (v_data v) + (?target - length (v_data v)))" unfolding agree_def by blast
    then show ?thesis by (simp only: reserve_for_append_def try_reserve_exact_def Let_def)
  qed
  then show ?thesis
    by (auto simp: append_frame_def checked_total_def checked_add_usize_def and_then_def Let_def
        simp del: of_nat_add split: option.splits)
qed

lemma collect_loop_agree:
  "collect_loop M B limit hint th v tr s = Some rt \<Longrightarrow> agree M M' limit \<Longrightarrow>
   collect_loop M' B limit hint th v tr s = Some rt"
proof (induction M B limit hint th v tr s rt rule: collect_loop.raw_induct [rotated, consumes 1])
  case (1 loop M B limit hint th v tr s rt)
  show ?case
    unfolding collect_loop.simps [of M' B limit hint th v tr s] append_frame_agree [OF 1(3), symmetric]
    using 1(2) 1(1) [OF _ 1(3)]
    by (cases rt) (auto simp: Let_def split: option.splits result.splits frame.splits if_splits prod.splits)
qed

section \<open>Properties\<close>

text \<open>
  C40. Collecting succeeds exactly on the bodies that end cleanly, whose payload is within the
  limit and within the size hint, and whose trailers come last and were announced; the result
  is then the whole payload and the trailers. The allocator grants requests up to the limit.
\<close>

theorem collect_exact:
  fixes B :: "('s, 'd, 'h, 'e) body_impl"
  assumes "granting M limit" "limit \<le> USIZE_MAX"
    and "size_hint_of B s = Some hint" "trailer_hint_of B s = Some th"
  shows "collect M B s limit = Some (Ok c, t) \<longleftrightarrow>
     (\<exists>n fs. run_body n (recycling B) s = (fs, Some (Ok ()), t)
        \<and> co_data c = payload (frame_bytes B) fs \<and> co_trailers c = frame_trailers fs
        \<and> length (co_data c) \<le> limit \<and> unat (sh_lower hint) \<le> length (co_data c)
        \<and> (case sh_upper hint of None \<Rightarrow> True | Some u \<Rightarrow> length (co_data c) \<le> unat u)
        \<and> trailers_last fs \<and> \<not> (th = TH_None \<and> has_trailers fs))"
    (is "?collect \<longleftrightarrow> ?run")
proof
  have fits0: "fits hint limit 0" by (auto simp: fits_def split: option.splits)
  {
    assume ?collect
    then obtain v where v: "collect_init M hint limit = (Ok v :: (vec, 'e collect_error) result)"
      and loop: "collect_loop M B limit hint th v None s = Some (Ok c, t)"
      using assms(3,4) by (auto simp: collect_def split: result.splits)
    from v have "v_data v = []" by (auto simp: collect_init_def try_reserve_exact_def split: if_splits option.splits)
    with collect_loop_sound [OF loop assms(2)] fits0 show ?run by (auto simp: collect_post_def fits_def)
  next
    assume ?run
    then obtain n fs where run: "collect_post B limit hint th \<lparr>v_data = [], v_capacity = k\<rparr> None s c t n fs" for k
      by (auto simp: collect_post_def fits_def)
    then have low: "unat (sh_lower hint) \<le> limit" by (auto simp: collect_post_def fits_def)
    obtain w where "u64_try_from limit = Some w" "unat w = limit"
      using assms(2) by (simp add: u64_try_from_def unat_of_usize)
    moreover obtain k where "M (unat (sh_lower hint)) = Some k"
      using assms(1) low unfolding granting_def by (metis option.case_eq_if option.collapse)
    ultimately have "\<exists>k. collect_init M hint limit = (Ok \<lparr>v_data = [], v_capacity = k\<rparr> :: (vec, 'e collect_error) result)"
      using low by (auto simp: collect_init_def try_reserve_exact_def word_less_nat_alt exact_def split: option.splits)
    with collect_loop_complete [OF run assms(1,2)] assms(3,4) show ?collect by (auto simp: collect_def)
  }
qed

theorem collect_exact_witness:
  "\<exists>t. collect (\<lambda>n. Some n) (full_body (\<lambda>b. b)) (FS_Ready [104, 105]) 5
     = Some (Ok \<lparr>co_data = [104, 105], co_trailers = (None :: alist option)\<rparr> :: (alist collected, nat collect_error) result, t)"
proof -
  let ?B = "full_body (\<lambda>b. b) :: (bytes full_state, bytes, alist, nat) body_impl"
  let ?fs = "[DataFrame [104, 105]] :: (bytes, alist) frame list"
  have grant: "granting (\<lambda>n. Some n) 5" by (simp add: granting_def)
  have hints: "size_hint_of ?B (FS_Ready [104, 105]) = Some (with_exact 2)"
    "trailer_hint_of ?B (FS_Ready [104, 105]) = Some TH_None" by (simp_all add: full_defs)
  have "run_body 2 (recycling ?B) (FS_Ready [104, 105]) = (?fs, Some (Ok ()), FS_Done)" by code_simp
  then show ?thesis
    using collect_exact [OF grant _ hints, of "\<lparr>co_data = [104, 105], co_trailers = None\<rparr>" FS_Done]
    by (auto simp: full_body_def with_exact_def intro!: exI [of _ ?fs] exI [of _ "2 :: nat"])
qed

text \<open>
  No request to the allocator exceeds the payload limit: an allocator that refuses
  everything above the limit gives the same result.
\<close>

theorem collect_requests_bounded:
  fixes B :: "('s, 'd, 'h, 'e) body_impl"
  shows "collect M B s limit = collect (\<lambda>n. if n \<le> limit then M n else None) B s limit"
proof -
  let ?M = "\<lambda>n. if n \<le> limit then M n else None"
  have agree: "agree M ?M limit" "agree ?M M limit" by (simp_all add: agree_def)
  have loop: "collect_loop M B limit hint th v None s = collect_loop ?M B limit hint th v None s" for hint th v
    by (rule option_eqI) (rule iffI; (erule collect_loop_agree [OF _ agree(1)] | erule collect_loop_agree [OF _ agree(2)]))
  have "collect_init M hint limit = (collect_init ?M hint limit :: (vec, 'e collect_error) result)" for hint
  proof (cases "exact hint")
    case (Some n)
    then have "n = sh_lower hint" by (simp add: exact_Some)
    moreover have "unat (sh_lower hint) \<le> limit"
      if "\<not> (case u64_try_from limit of None \<Rightarrow> - 1 | Some n \<Rightarrow> n) < sh_lower hint"
      using that u64_try_from_Some [of limit] unat_u64_bound [of "sh_lower hint"]
      by (cases "u64_try_from limit") (auto simp: word_less_nat_alt u64_try_from_def not_less split: if_splits)
    ultimately show ?thesis using Some by (auto simp: collect_init_def try_reserve_exact_def)
  qed (simp add: collect_init_def try_reserve_exact_def)
  with loop show ?thesis by (simp add: collect_def split: option.splits result.splits)
qed

end
