(* ===== verification/Admission.thy ===== *)
theory Admission
  imports Connection_Control
begin

text \<open>
  Bounded admission of requests to a client connection, from \<open>src/src/client/admission.rs\<close>.

  The shared cell, every operation of its handles and every drop are functions. \<open>None\<close> and the
  poll result \<open>Unreachable\<close> stand for the \<open>unreachable!\<close>, \<open>expect\<close> and \<open>debug_assert!\<close> of the
  source. \<open>adm_step\<close> lets any number of senders, reservations and permits, the driver and the
  control handle act in any order. The driver's poll registers with the abort watch first, as
  \<open>ConnectionControl::drive\<close> does.

  The invariant shows exclusive admission, the priority of the registered waiter, that no
  panic is reached, that requests reach the driver once and in order, and that no wake-up is
  lost.
\<close>

section \<open>The shared cell\<close>

datatype 'j admission =
    AD_Ready | AD_Reserved "waker option" | AD_Queued 'j "waker option" | AD_Active "waker option"
  | AD_ReadyForWaiter | AD_Closed

definition adm_is_closed :: "'j admission \<Rightarrow> bool" where
  "adm_is_closed a = (case a of AD_Closed \<Rightarrow> True | _ \<Rightarrow> False)"

definition adm_is_busy :: "'j admission \<Rightarrow> bool" where
  "adm_is_busy a = (case a of AD_Reserved _ \<Rightarrow> True | AD_Queued _ _ \<Rightarrow> True | AD_Active _ \<Rightarrow> True | _ \<Rightarrow> False)"

text \<open>\<open>waiter_mut\<close>, as the slot it borrows and the assignment through it.\<close>

definition waiter_slot :: "'j admission \<Rightarrow> waker option option" where
  "waiter_slot a =
     (case a of AD_Reserved w \<Rightarrow> Some w | AD_Queued _ w \<Rightarrow> Some w | AD_Active w \<Rightarrow> Some w | _ \<Rightarrow> None)"

definition set_waiter :: "waker option \<Rightarrow> 'j admission \<Rightarrow> 'j admission" where
  "set_waiter w a =
     (case a of AD_Reserved _ \<Rightarrow> AD_Reserved w | AD_Queued j _ \<Rightarrow> AD_Queued j w | AD_Active _ \<Rightarrow> AD_Active w | _ \<Rightarrow> a)"

definition take_job :: "'j admission \<Rightarrow> 'j option \<times> 'j admission" where
  "take_job a = (case a of AD_Queued j w \<Rightarrow> (Some j, AD_Active w) | _ \<Rightarrow> (None, a))"

definition adm_close :: "'j admission \<Rightarrow> waker option \<times> 'j option \<times> 'j admission" where
  "adm_close a =
     (case a of
        AD_Reserved w \<Rightarrow> (w, None, AD_Closed)
      | AD_Active w \<Rightarrow> (w, None, AD_Closed)
      | AD_Queued j w \<Rightarrow> (w, Some j, AD_Closed)
      | _ \<Rightarrow> (None, None, AD_Closed))"

record 'j adm_state =
  ad_control :: control_state
  ad_admission :: "'j admission"
  ad_senders :: usize
  ad_driver :: "waker option"

definition adm_channel :: "control_state \<Rightarrow> 'j adm_state" where
  "adm_channel control = \<lparr>ad_control = control, ad_admission = AD_Ready, ad_senders = 1, ad_driver = None\<rparr>"

definition adm_closed :: error where
  "adm_closed = error_new KClosed ''request driver closed''"

section \<open>Senders\<close>

definition sender_clone :: "'j adm_state \<Rightarrow> 'j adm_state" where
  "sender_clone s = s\<lparr>ad_senders := ad_senders s + 1\<rparr>"

definition sender_drop :: "'j adm_state \<Rightarrow> 'j adm_state \<times> waker list" where
  "sender_drop s = (s\<lparr>ad_senders := ad_senders s - 1, ad_driver := None\<rparr>, wake_one (ad_driver s))"

definition sender_is_ready :: "'j adm_state \<Rightarrow> bool" where
  "sender_is_ready s \<longleftrightarrow> \<not> stopping (ad_control s) \<and> (case ad_admission s of AD_Ready \<Rightarrow> True | _ \<Rightarrow> False)"

definition sender_is_closed :: "'j adm_state \<Rightarrow> bool" where
  "sender_is_closed s \<longleftrightarrow> stopping (ad_control s) \<or> adm_is_closed (ad_admission s)"

definition try_reserve :: "'j adm_state \<Rightarrow> (unit, error) result \<times> 'j adm_state" where
  "try_reserve s =
     (if adm_is_closed (ad_admission s) \<or> stopping (ad_control s) then (Err adm_closed, s)
      else
        (case ad_admission s of
           AD_Ready \<Rightarrow> (Ok (), s\<lparr>ad_admission := AD_Reserved None\<rparr>)
         | _ \<Rightarrow> (Err (with_detail (error_new KBusy ''request admission is not ready'') (DBusy RequestAdmission)), s)))"

text \<open>A poll of \<open>reserve\<close>; the flag is \<open>Reservation::registered\<close>.\<close>

definition reserve_poll ::
  "waker \<Rightarrow> bool \<Rightarrow> 'j adm_state \<Rightarrow> (unit, error) result poll \<times> bool \<times> 'j adm_state" where
  "reserve_poll w registered s =
     (if adm_is_closed (ad_admission s) \<or> stopping (ad_control s) then (Ready (Err adm_closed), registered, s)
      else
        (case ad_admission s of
           AD_ReadyForWaiter \<Rightarrow>
             if registered then (Ready (Ok ()), False, s\<lparr>ad_admission := AD_Reserved None\<rparr>)
             else (Ready (Err (with_detail (error_new KBusy ''request reservation already occupied'') (DBusy ReservationWaiter))), registered, s)
         | AD_Ready \<Rightarrow>
             if registered then (Unreachable, registered, s)
             else (Ready (Ok ()), registered, s\<lparr>ad_admission := AD_Reserved None\<rparr>)
         | a \<Rightarrow>
             if \<not> registered \<and> (case waiter_slot a of None \<Rightarrow> True | Some x \<Rightarrow> x \<noteq> None)
             then (Ready (Err (with_detail (error_new KBusy ''request reservation already occupied'') (DBusy ReservationWaiter))), registered, s)
             else
               (case waiter_slot a of
                  None \<Rightarrow> (Unreachable, registered, s)
                | Some _ \<Rightarrow> (Pending, True, s\<lparr>ad_control := admission_waker w (ad_control s), ad_admission := set_waiter (Some w) a\<rparr>))))"

definition reservation_drop :: "bool \<Rightarrow> 'j adm_state \<Rightarrow> 'j adm_state" where
  "reservation_drop registered s =
     (if registered then
        (case ad_admission s of
           AD_ReadyForWaiter \<Rightarrow> s\<lparr>ad_admission := AD_Ready\<rparr>
         | a \<Rightarrow> s\<lparr>ad_admission := set_waiter None a\<rparr>)
      else s)"

section \<open>Permits\<close>

text \<open>\<open>release\<close>; \<open>None\<close> is its \<open>unreachable!\<close>.\<close>

definition adm_release :: "'j adm_state \<Rightarrow> ('j adm_state \<times> waker list) option" where
  "adm_release s =
     (let done = (\<lambda>a waiter. Some (s\<lparr>ad_admission := a, ad_driver := None\<rparr>, wake_one waiter @ wake_one (ad_driver s)));
          free = (\<lambda>waiter. if waiter \<noteq> None then done AD_ReadyForWaiter waiter else done AD_Ready None) in
      case ad_admission s of
        AD_Reserved waiter \<Rightarrow> free waiter
      | AD_Active waiter \<Rightarrow> free waiter
      | AD_Closed \<Rightarrow> done AD_Closed None
      | _ \<Rightarrow> None)"

text \<open>
  \<open>RequestPermit::send\<close>. A refused request is returned and its permit, still active, is
  dropped. The result is \<open>Ok\<close> when the driver owns the job.
\<close>

definition permit_send :: "'j \<Rightarrow> 'j adm_state \<Rightarrow> ((unit, error) result \<times> 'j adm_state \<times> waker list) option" where
  "permit_send job s =
     (if adm_is_closed (ad_admission s) \<or> stopping (ad_control s)
      then map_option (\<lambda>(s', ws). (Err adm_closed, s', ws)) (adm_release s)
      else
        (case ad_admission s of
           AD_Reserved waiter \<Rightarrow> Some (Ok (), s\<lparr>ad_admission := AD_Queued job waiter, ad_driver := None\<rparr>, wake_one (ad_driver s))
         | _ \<Rightarrow> None))"

definition permit_drop :: "bool \<Rightarrow> 'j adm_state \<Rightarrow> ('j adm_state \<times> waker list) option" where
  "permit_drop active s = (if active then adm_release s else Some (s, []))"

section \<open>The driver's end\<close>

definition receiver_next_poll :: "waker \<Rightarrow> 'j adm_state \<Rightarrow> 'j option poll \<times> 'j adm_state" where
  "receiver_next_poll w s =
     (case take_job (ad_admission s) of
        (Some job, a) \<Rightarrow> (Ready (Some job), s\<lparr>ad_admission := a\<rparr>)
      | (None, a) \<Rightarrow>
          if adm_is_closed a \<or> stopping (ad_control s) \<or> (ad_senders s = 0 \<and> \<not> adm_is_busy a)
          then (Ready None, s)
          else (Pending, s\<lparr>ad_control := admission_waker w (ad_control s), ad_driver := Some w\<rparr>))"

definition receiver_release :: "'j adm_state \<Rightarrow> (bool \<times> 'j adm_state \<times> waker list) option" where
  "receiver_release s =
     (if stopping (ad_control s) \<or> ad_senders s = 0 then Some (False, s, [])
      else map_option (\<lambda>(s', ws). (True, s', ws)) (adm_release s))"

definition receiver_drop :: "'j adm_state \<Rightarrow> 'j option \<times> 'j adm_state \<times> waker list" where
  "receiver_drop s =
     (case adm_close (ad_admission s) of
        (waiter, queued, a) \<Rightarrow> (queued, s\<lparr>ad_driver := None, ad_admission := a\<rparr>, wake_one waiter))"

section \<open>Interleavings\<close>

text \<open>
  A live reservation is its flag and the waker it sleeps on, if it sleeps. The ghost lists
  record the jobs submitted, taken by the driver, and dropped with the receiver.
\<close>

record 'j adm_sys =
  sa_state :: "'j adm_state"
  sa_res :: "nat \<rightharpoonup> bool \<times> waker option"
  sa_permits :: nat
  sa_receiver :: bool
  sa_job :: bool
  sa_driver_wait :: "waker option"
  sa_sent :: "'j list"
  sa_taken :: "'j list"
  sa_dropped :: "'j list"

definition adm_sys_init :: "'j adm_sys" where
  "adm_sys_init =
     \<lparr>sa_state = adm_channel control_new, sa_res = Map.empty, sa_permits = 0, sa_receiver = True, sa_job = False,
      sa_driver_wait = None, sa_sent = [], sa_taken = [], sa_dropped = []\<rparr>"

definition wake_adm :: "waker list \<Rightarrow> 'j adm_sys \<Rightarrow> 'j adm_sys" where
  "wake_adm ws y = y\<lparr>sa_res := (\<lambda>i. map_option (\<lambda>(b, x). (b, unwait ws x)) (sa_res y i)),
                     sa_driver_wait := unwait ws (sa_driver_wait y)\<rparr>"

definition put :: "'j adm_state \<Rightarrow> waker list \<Rightarrow> 'j adm_sys \<Rightarrow> 'j adm_sys" where
  "put s ws y = (wake_adm ws y)\<lparr>sa_state := s\<rparr>"

inductive adm_step :: "'j adm_sys \<Rightarrow> 'j adm_sys \<Rightarrow> bool" where
  clone_sender: "0 < ad_senders (sa_state y) \<Longrightarrow> adm_step y (put (sender_clone (sa_state y)) [] y)"
| drop_sender: "0 < ad_senders (sa_state y) \<Longrightarrow> sender_drop (sa_state y) = (s, ws) \<Longrightarrow> adm_step y (put s ws y)"
| try_reserve: "try_reserve (sa_state y) = (r, s) \<Longrightarrow>
    adm_step y ((put s [] y)\<lparr>sa_permits := sa_permits y + (if is_ok r then 1 else 0)\<rparr>)"
| start_reserve: "sa_res y i = None \<Longrightarrow> adm_step y (y\<lparr>sa_res := (sa_res y)(i \<mapsto> (False, None))\<rparr>)"
| poll_reserve: "sa_res y i = Some (b, x) \<Longrightarrow> reserve_poll w b (sa_state y) = (r, b', s) \<Longrightarrow>
    adm_step y ((put s [] y)\<lparr>
      sa_res := (sa_res y)(i := (case r of Pending \<Rightarrow> Some (b', Some w) | _ \<Rightarrow> None)),
      sa_state := (case r of Pending \<Rightarrow> s | _ \<Rightarrow> reservation_drop b' s),
      sa_permits := sa_permits y + (case r of Ready (Ok _) \<Rightarrow> 1 | _ \<Rightarrow> 0)\<rparr>)"
| drop_reserve: "sa_res y i = Some (b, x) \<Longrightarrow>
    adm_step y ((put (reservation_drop b (sa_state y)) [] y)\<lparr>sa_res := (sa_res y)(i := None)\<rparr>)"
| send: "0 < sa_permits y \<Longrightarrow> permit_send job (sa_state y) = Some (r, s, ws) \<Longrightarrow>
    adm_step y ((put s ws y)\<lparr>sa_permits := sa_permits y - 1, sa_sent := sa_sent y @ (if is_ok r then [job] else [])\<rparr>)"
| drop_permit: "0 < sa_permits y \<Longrightarrow> permit_drop True (sa_state y) = Some (s, ws) \<Longrightarrow>
    adm_step y ((put s ws y)\<lparr>sa_permits := sa_permits y - 1\<rparr>)"
| driver_poll: "sa_receiver y \<Longrightarrow> \<not> sa_job y \<Longrightarrow>
    receiver_next_poll w (sa_state y\<lparr>ad_control := ad_control (sa_state y)\<lparr>cs_driver := Some w\<rparr>\<rparr>) = (r, s) \<Longrightarrow>
    adm_step y ((put s [] y)\<lparr>sa_job := (case r of Ready (Some _) \<Rightarrow> True | _ \<Rightarrow> False),
      sa_taken := sa_taken y @ (case r of Ready (Some j) \<Rightarrow> [j] | _ \<Rightarrow> []),
      sa_driver_wait := (case r of Pending \<Rightarrow> Some w | _ \<Rightarrow> None)\<rparr>)"
| driver_release: "sa_receiver y \<Longrightarrow> sa_job y \<Longrightarrow> receiver_release (sa_state y) = Some (reused, s, ws) \<Longrightarrow>
    adm_step y ((put s ws y)\<lparr>sa_job := \<not> reused\<rparr>)"
| driver_drop: "sa_receiver y \<Longrightarrow> receiver_drop (sa_state y) = (queued, s, ws) \<Longrightarrow>
    adm_step y ((put s ws y)\<lparr>sa_receiver := False, sa_job := False, sa_driver_wait := None,
      sa_dropped := sa_dropped y @ (case queued of Some j \<Rightarrow> [j] | None \<Rightarrow> [])\<rparr>)"
| control: "request q (ad_control (sa_state y)) = (c, ws) \<Longrightarrow>
    adm_step y (put (sa_state y\<lparr>ad_control := c\<rparr>) ws y)"

definition adm_reachable :: "'j adm_sys \<Rightarrow> bool" where
  "adm_reachable y \<longleftrightarrow> adm_step\<^sup>*\<^sup>* adm_sys_init y"

section \<open>The invariant\<close>

definition queued_jobs :: "'j admission \<Rightarrow> 'j list" where
  "queued_jobs a = (case a of AD_Queued j _ \<Rightarrow> [j] | _ \<Rightarrow> [])"

definition waiting_slot :: "'j admission \<Rightarrow> bool" where
  "waiting_slot a = (case a of AD_Reserved w \<Rightarrow> w \<noteq> None | AD_Queued _ w \<Rightarrow> w \<noteq> None | AD_Active w \<Rightarrow> w \<noteq> None
      | AD_ReadyForWaiter \<Rightarrow> True | _ \<Rightarrow> False)"

definition registered_by :: "'j adm_sys \<Rightarrow> nat \<Rightarrow> bool" where
  "registered_by y i = (case sa_res y i of Some (b, _) \<Rightarrow> b | None \<Rightarrow> False)"

text \<open>One owner: a permit, a queued job or the driver's job.\<close>

fun owned_by :: "'j admission \<Rightarrow> nat \<Rightarrow> bool \<Rightarrow> bool \<Rightarrow> bool" where
  "owned_by (AD_Reserved _) permits job receiver \<longleftrightarrow> permits = 1 \<and> \<not> job \<and> receiver"
| "owned_by (AD_Active _) permits job receiver \<longleftrightarrow> permits = 0 \<and> job \<and> receiver"
| "owned_by AD_Closed permits job receiver \<longleftrightarrow> permits \<le> 1 \<and> \<not> job \<and> \<not> receiver"
| "owned_by AD_Ready permits job receiver \<longleftrightarrow> permits = 0 \<and> \<not> job \<and> receiver"
| "owned_by AD_ReadyForWaiter permits job receiver \<longleftrightarrow> permits = 0 \<and> \<not> job \<and> receiver"
| "owned_by (AD_Queued _ _) permits job receiver \<longleftrightarrow> permits = 0 \<and> \<not> job \<and> receiver"

definition adm_owned :: "'j adm_sys \<Rightarrow> bool" where
  "adm_owned y = owned_by (ad_admission (sa_state y)) (sa_permits y) (sa_job y) (sa_receiver y)"

text \<open>One waiter, whose place in the cell is kept until it claims it or gives it up.\<close>

definition adm_waiter :: "'j adm_sys \<Rightarrow> bool" where
  "adm_waiter y \<longleftrightarrow>
     (\<forall>i j. registered_by y i \<and> registered_by y j \<longrightarrow> i = j)
   \<and> (\<not> adm_is_closed (ad_admission (sa_state y)) \<longrightarrow>
        (waiting_slot (ad_admission (sa_state y)) \<longleftrightarrow> (\<exists>i. registered_by y i)))"

definition adm_sleep :: "'j adm_sys \<Rightarrow> bool" where
  "adm_sleep y \<longleftrightarrow>
     (\<forall>i b w. sa_res y i = Some (b, Some w) \<longrightarrow> b \<and> waiter_slot (ad_admission (sa_state y)) = Some (Some w))
   \<and> (\<forall>w. sa_driver_wait y = Some w \<longrightarrow>
        ad_driver (sa_state y) = Some w \<and> cs_driver (ad_control (sa_state y)) = Some w
        \<and> sa_receiver y \<and> \<not> sa_job y \<and> \<not> stopping (ad_control (sa_state y))
        \<and> queued_jobs (ad_admission (sa_state y)) = []
        \<and> (ad_senders (sa_state y) = 0 \<longrightarrow> adm_is_busy (ad_admission (sa_state y))))"

definition adm_jobs :: "'j adm_sys \<Rightarrow> bool" where
  "adm_jobs y \<longleftrightarrow> sa_sent y = sa_taken y @ queued_jobs (ad_admission (sa_state y)) @ sa_dropped y
     \<and> (sa_receiver y \<longrightarrow> sa_dropped y = [])"

lemmas adm_ops = sender_clone_def sender_drop_def try_reserve_def reserve_poll_def reservation_drop_def adm_release_def
  permit_send_def permit_drop_def receiver_next_poll_def receiver_release_def receiver_drop_def take_job_def adm_close_def
  set_waiter_def waiter_slot_def adm_is_busy_def adm_is_closed_def admission_waker_def

lemma put_simps [simp]:
  "sa_state (put s ws y) = s" "sa_permits (put s ws y) = sa_permits y" "sa_receiver (put s ws y) = sa_receiver y"
  "sa_job (put s ws y) = sa_job y" "sa_sent (put s ws y) = sa_sent y" "sa_taken (put s ws y) = sa_taken y"
  "sa_dropped (put s ws y) = sa_dropped y" "sa_driver_wait (put s ws y) = unwait ws (sa_driver_wait y)"
  "sa_res (put s ws y) i = map_option (\<lambda>(b, x). (b, unwait ws x)) (sa_res y i)"
  by (simp_all add: put_def wake_adm_def)

lemma registered_put [simp]:
  "registered_by (put s ws y) = registered_by y" "registered_by (y\<lparr>sa_permits := p\<rparr>) = registered_by y"
  "registered_by (y\<lparr>sa_job := b\<rparr>) = registered_by y" "registered_by (y\<lparr>sa_sent := l\<rparr>) = registered_by y"
  "registered_by (y\<lparr>sa_taken := l\<rparr>) = registered_by y" "registered_by (y\<lparr>sa_dropped := l\<rparr>) = registered_by y"
  "registered_by (y\<lparr>sa_driver_wait := w\<rparr>) = registered_by y" "registered_by (y\<lparr>sa_receiver := b\<rparr>) = registered_by y"
  by (auto simp: registered_by_def fun_eq_iff split: option.splits)

text \<open>What each operation does to the cell.\<close>

lemma try_reserve_Ok:
  "try_reserve s = (Ok u, s') \<Longrightarrow>
   ad_admission s = AD_Ready \<and> \<not> stopping (ad_control s) \<and> s' = s\<lparr>ad_admission := AD_Reserved None\<rparr>"
  by (auto simp: try_reserve_def split: if_splits admission.splits)

lemma try_reserve_Err: "try_reserve s = (Err e, s') \<Longrightarrow> s' = s"
  by (auto simp: try_reserve_def split: if_splits admission.splits)

lemma try_reserve_cases:
  assumes "try_reserve s = (r, s')"
  obtains (granted) "r = Ok ()" "ad_admission s = AD_Ready" "\<not> stopping (ad_control s)" "s' = s\<lparr>ad_admission := AD_Reserved None\<rparr>"
  | (refused) e where "r = Err e" "s' = s"
proof (cases r)
  case (Ok u)
  from try_reserve_Ok [OF assms [unfolded Ok]] Ok that(1) show ?thesis by simp
next
  case (Err e)
  from try_reserve_Err [OF assms [unfolded Err]] Err that(2) show ?thesis by blast
qed

lemma reserve_poll_granted:
  "reserve_poll w b s = (Ready (Ok u), b', s') \<Longrightarrow>
   \<not> b' \<and> s' = s\<lparr>ad_admission := AD_Reserved None\<rparr> \<and> ad_admission s = (if b then AD_ReadyForWaiter else AD_Ready)"
  by (auto simp: reserve_poll_def split: if_splits admission.splits option.splits)

lemma reserve_poll_refused:
  "reserve_poll w b s = (Ready (Err e), b', s') \<Longrightarrow> b' = b \<and> s' = s \<and> (b \<longrightarrow> sender_is_closed s)"
  by (auto simp: reserve_poll_def sender_is_closed_def split: if_splits admission.splits option.splits)

lemma reserve_poll_waits:
  "reserve_poll w b s = (Pending, b', s') \<Longrightarrow>
   b' \<and> \<not> sender_is_closed s \<and> (\<exists>x. waiter_slot (ad_admission s) = Some x \<and> (b \<or> x = None))
   \<and> s' = s\<lparr>ad_control := admission_waker w (ad_control s), ad_admission := set_waiter (Some w) (ad_admission s)\<rparr>"
  by (auto simp: reserve_poll_def sender_is_closed_def waiter_slot_def split: if_splits admission.splits option.splits)

lemma reserve_poll_panics:
  "reserve_poll w b s = (Unreachable, b', s') \<Longrightarrow> b \<and> b' = b \<and> s' = s \<and> ad_admission s = AD_Ready"
  by (auto simp: reserve_poll_def waiter_slot_def adm_is_closed_def split: if_splits admission.splits option.splits)

lemma reserve_poll_cases:
  assumes "reserve_poll w b s = (r, b', s')"
  obtains (granted) "r = Ready (Ok ())" "\<not> b'" "s' = s\<lparr>ad_admission := AD_Reserved None\<rparr>"
      "ad_admission s = (if b then AD_ReadyForWaiter else AD_Ready)"
  | (refused) e where "r = Ready (Err e)" "b' = b" "s' = s" "b \<longrightarrow> sender_is_closed s"
  | (waits) x where "r = Pending" "b'" "waiter_slot (ad_admission s) = Some x" "b \<or> x = None" "\<not> sender_is_closed s"
      "s' = s\<lparr>ad_control := admission_waker w (ad_control s), ad_admission := set_waiter (Some w) (ad_admission s)\<rparr>"
  | (panics) "r = Unreachable" "b" "b'" "s' = s" "ad_admission s = AD_Ready"
proof (cases r)
  case Pending
  from reserve_poll_waits [OF assms [unfolded Pending]] Pending that(3) show ?thesis by blast
next
  case (Ready q)
  show ?thesis
  proof (cases q)
    case (Ok u)
    from reserve_poll_granted [OF assms [unfolded Ready Ok]] Ready Ok that(1) show ?thesis by simp
  next
    case (Err e)
    from reserve_poll_refused [OF assms [unfolded Ready Err]] Ready Err that(2) show ?thesis by blast
  qed
next
  case Unreachable
  from reserve_poll_panics [OF assms [unfolded Unreachable]] Unreachable that(4) show ?thesis by blast
qed

lemma adm_release_cases:
  assumes "adm_release s = Some (s', ws)"
  obtains (free) x where "ad_admission s = AD_Reserved x \<or> ad_admission s = AD_Active x"
      "s' = s\<lparr>ad_admission := (if x = None then AD_Ready else AD_ReadyForWaiter), ad_driver := None\<rparr>"
      "ws = wake_one x @ wake_one (ad_driver s)"
  | (closed) "ad_admission s = AD_Closed" "s' = s\<lparr>ad_driver := None\<rparr>" "ws = wake_one (ad_driver s)"
  using assms by (cases s; cases "ad_admission s") (auto simp: adm_release_def wake_one_def split: if_splits)

lemma permit_send_cases:
  assumes "permit_send job s = Some (r, s', ws)"
  obtains (sent) x where "r = Ok ()" "ad_admission s = AD_Reserved x"
      "s' = s\<lparr>ad_admission := AD_Queued job x, ad_driver := None\<rparr>" "ws = wake_one (ad_driver s)"
  | (refused) e where "r = Err e" "adm_release s = Some (s', ws)"
  using assms by (auto simp: permit_send_def split: if_splits admission.splits)

lemma receiver_next_job:
  "receiver_next_poll w s = (Ready (Some j), s') \<Longrightarrow>
   \<exists>x. ad_admission s = AD_Queued j x \<and> s' = s\<lparr>ad_admission := AD_Active x\<rparr>"
  by (auto simp: receiver_next_poll_def take_job_def split: if_splits admission.splits)

lemma receiver_next_ended: "receiver_next_poll w s = (Ready None, s') \<Longrightarrow> s' = s"
  by (auto simp: receiver_next_poll_def take_job_def split: if_splits admission.splits)

lemma receiver_next_waits:
  "receiver_next_poll w s = (Pending, s') \<Longrightarrow>
   queued_jobs (ad_admission s) = [] \<and> \<not> sender_is_closed s \<and> (ad_senders s = 0 \<longrightarrow> adm_is_busy (ad_admission s))
   \<and> s' = s\<lparr>ad_control := admission_waker w (ad_control s), ad_driver := Some w\<rparr>"
  by (auto simp: receiver_next_poll_def take_job_def queued_jobs_def sender_is_closed_def adm_is_busy_def
      split: if_splits admission.splits)

lemma receiver_next_returns: "fst (receiver_next_poll w s) \<noteq> Unreachable"
  by (auto simp: receiver_next_poll_def split: prod.splits option.splits)

lemma receiver_next_cases:
  assumes "receiver_next_poll w s = (r, s')"
  obtains (job) j x where "r = Ready (Some j)" "ad_admission s = AD_Queued j x" "s' = s\<lparr>ad_admission := AD_Active x\<rparr>"
  | (ended) "r = Ready None" "s' = s"
  | (waits) "r = Pending" "queued_jobs (ad_admission s) = []" "\<not> sender_is_closed s"
      "ad_senders s = 0 \<longrightarrow> adm_is_busy (ad_admission s)"
      "s' = s\<lparr>ad_control := admission_waker w (ad_control s), ad_driver := Some w\<rparr>"
proof (cases r)
  case Pending
  show ?thesis by (rule that(3)) (use receiver_next_waits [OF assms [unfolded Pending]] Pending in simp_all)
next
  case (Ready q)
  show ?thesis
  proof (cases q)
    case None
    from receiver_next_ended [OF assms [unfolded Ready None]] Ready None that(2) show ?thesis by blast
  next
    case (Some j)
    from receiver_next_job [OF assms [unfolded Ready Some]] Ready Some that(1) show ?thesis by blast
  qed
next
  case Unreachable
  with assms receiver_next_returns [of w s] show ?thesis by simp
qed

lemma receiver_release_cases:
  assumes "receiver_release s = Some (b, s', ws)"
  obtains (kept) "\<not> b" "s' = s" "ws = []"
  | (released) "b" "adm_release s = Some (s', ws)"
  using assms by (auto simp: receiver_release_def split: if_splits)

lemma reservation_drop_admission:
  "reservation_drop b s = s\<lparr>ad_admission :=
     (if b then if ad_admission s = AD_ReadyForWaiter then AD_Ready else set_waiter None (ad_admission s) else ad_admission s)\<rparr>"
  by (cases s; cases "ad_admission s") (auto simp: reservation_drop_def)

lemma receiver_drop_eq:
  "receiver_drop s =
     ((case ad_admission s of AD_Queued j _ \<Rightarrow> Some j | _ \<Rightarrow> None), s\<lparr>ad_driver := None, ad_admission := AD_Closed\<rparr>,
      wake_one (case waiter_slot (ad_admission s) of Some x \<Rightarrow> x | None \<Rightarrow> None))"
  by (cases "ad_admission s") (simp_all add: receiver_drop_def adm_close_def waiter_slot_def)

lemma adm_view_simps [simp]:
  "waiter_slot AD_Ready = None" "waiter_slot (AD_Reserved x) = Some x" "waiter_slot (AD_Queued j x) = Some x"
  "waiter_slot (AD_Active x) = Some x" "waiter_slot AD_ReadyForWaiter = None" "waiter_slot AD_Closed = None"
  "set_waiter w AD_Ready = AD_Ready" "set_waiter w (AD_Reserved x) = AD_Reserved w" "set_waiter w (AD_Queued j x) = AD_Queued j w"
  "set_waiter w (AD_Active x) = AD_Active w" "set_waiter w AD_ReadyForWaiter = AD_ReadyForWaiter" "set_waiter w AD_Closed = AD_Closed"
  "waiting_slot AD_Ready = False" "waiting_slot (AD_Reserved x) = (x \<noteq> None)" "waiting_slot (AD_Queued j x) = (x \<noteq> None)"
  "waiting_slot (AD_Active x) = (x \<noteq> None)" "waiting_slot AD_ReadyForWaiter = True" "waiting_slot AD_Closed = False"
  "queued_jobs AD_Ready = []" "queued_jobs (AD_Reserved x) = []" "queued_jobs (AD_Queued j x) = [j]"
  "queued_jobs (AD_Active x) = []" "queued_jobs AD_ReadyForWaiter = []" "queued_jobs AD_Closed = []"
  "adm_is_closed AD_Ready = False" "adm_is_closed (AD_Reserved x) = False" "adm_is_closed (AD_Queued j x) = False"
  "adm_is_closed (AD_Active x) = False" "adm_is_closed AD_ReadyForWaiter = False" "adm_is_closed AD_Closed = True"
  "adm_is_busy AD_Ready = False" "adm_is_busy (AD_Reserved x) = True" "adm_is_busy (AD_Queued j x) = True"
  "adm_is_busy (AD_Active x) = True" "adm_is_busy AD_ReadyForWaiter = False" "adm_is_busy AD_Closed = False"
  by (simp_all add: waiter_slot_def set_waiter_def waiting_slot_def queued_jobs_def adm_is_closed_def adm_is_busy_def)

lemma set_waiter_views [simp]:
  "queued_jobs (set_waiter w a) = queued_jobs a" "adm_is_closed (set_waiter w a) = adm_is_closed a"
  "adm_is_busy (set_waiter w a) = adm_is_busy a" "owned_by (set_waiter w a) p j r = owned_by a p j r"
  "waiter_slot (set_waiter w a) = map_option (\<lambda>_. w) (waiter_slot a)"
  "waiting_slot (set_waiter w a) \<longleftrightarrow> (if waiter_slot a = None then waiting_slot a else w \<noteq> None)"
  by (cases a; simp)+

lemma waiter_slot_waiting: "waiter_slot a = Some x \<Longrightarrow> (waiting_slot a \<longleftrightarrow> x \<noteq> None) \<and> \<not> adm_is_closed a"
  by (cases a) auto

text \<open>Every step, with the effect of its operation written out.\<close>

lemma adm_step_effect:
  assumes "adm_step y z"
  obtains (clone) "z = put (sa_state y\<lparr>ad_senders := ad_senders (sa_state y) + 1\<rparr>) [] y" "0 < ad_senders (sa_state y)"
  | (sender_gone) "z = put (sa_state y\<lparr>ad_senders := ad_senders (sa_state y) - 1, ad_driver := None\<rparr>) (wake_one (ad_driver (sa_state y))) y"
  | (reserve) "ad_admission (sa_state y) = AD_Ready"
      "z = (put (sa_state y\<lparr>ad_admission := AD_Reserved None\<rparr>) [] y)\<lparr>sa_permits := sa_permits y + 1\<rparr>"
  | (not_reserved) "z = (put (sa_state y) [] y)\<lparr>sa_permits := sa_permits y\<rparr>"
  | (start) i where "sa_res y i = None" "z = y\<lparr>sa_res := (sa_res y)(i \<mapsto> (False, None))\<rparr>"
  | (claim) i b x where "sa_res y i = Some (b, x)" "ad_admission (sa_state y) = (if b then AD_ReadyForWaiter else AD_Ready)"
      "z = (put (sa_state y\<lparr>ad_admission := AD_Reserved None\<rparr>) [] y)\<lparr>sa_res := (sa_res y)(i := None), sa_permits := sa_permits y + 1\<rparr>"
  | (leave) i b x where "sa_res y i = Some (b, x)"
      "z = (put (reservation_drop b (sa_state y)) [] y)\<lparr>sa_res := (sa_res y)(i := None)\<rparr>"
  | (sleeps) i b x w v s where "sa_res y i = Some (b, x)" "waiter_slot (ad_admission (sa_state y)) = Some v" "b \<or> v = None"
      "s = sa_state y\<lparr>ad_control := admission_waker w (ad_control (sa_state y)), ad_admission := set_waiter (Some w) (ad_admission (sa_state y))\<rparr>"
      "z = (put s [] y)\<lparr>sa_res := (sa_res y)(i \<mapsto> (True, Some w))\<rparr>"
  | (submit) job x where "0 < sa_permits y" "ad_admission (sa_state y) = AD_Reserved x"
      "z = (put (sa_state y\<lparr>ad_admission := AD_Queued job x, ad_driver := None\<rparr>) (wake_one (ad_driver (sa_state y))) y)
             \<lparr>sa_permits := sa_permits y - 1, sa_sent := sa_sent y @ [job]\<rparr>"
  | (give_back) s ws where "0 < sa_permits y" "adm_release (sa_state y) = Some (s, ws)"
      "z = (put s ws y)\<lparr>sa_permits := sa_permits y - 1\<rparr>"
  | (job_taken) j x w where "sa_receiver y" "\<not> sa_job y" "ad_admission (sa_state y) = AD_Queued j x"
      "z = (put (sa_state y\<lparr>ad_control := ad_control (sa_state y)\<lparr>cs_driver := Some w\<rparr>, ad_admission := AD_Active x\<rparr>) [] y)
             \<lparr>sa_job := True, sa_taken := sa_taken y @ [j], sa_driver_wait := None\<rparr>"
  | (driver_ends) w where "sa_receiver y" "\<not> sa_job y"
      "z = (put (sa_state y\<lparr>ad_control := ad_control (sa_state y)\<lparr>cs_driver := Some w\<rparr>\<rparr>) [] y)
             \<lparr>sa_job := False, sa_taken := sa_taken y, sa_driver_wait := None\<rparr>"
  | (driver_sleeps) w where "sa_receiver y" "\<not> sa_job y" "queued_jobs (ad_admission (sa_state y)) = []"
      "\<not> sender_is_closed (sa_state y)" "ad_senders (sa_state y) = 0 \<longrightarrow> adm_is_busy (ad_admission (sa_state y))"
      "z = (put (sa_state y\<lparr>ad_control := admission_waker w (ad_control (sa_state y)\<lparr>cs_driver := Some w\<rparr>), ad_driver := Some w\<rparr>) [] y)
             \<lparr>sa_job := False, sa_taken := sa_taken y, sa_driver_wait := Some w\<rparr>"
  | (job_kept) "sa_receiver y" "sa_job y" "z = (put (sa_state y) [] y)\<lparr>sa_job := True\<rparr>"
  | (job_done) s ws where "sa_receiver y" "sa_job y" "adm_release (sa_state y) = Some (s, ws)"
      "z = (put s ws y)\<lparr>sa_job := False\<rparr>"
  | (driver_gone) "sa_receiver y"
      "z = (put (sa_state y\<lparr>ad_driver := None, ad_admission := AD_Closed\<rparr>)
              (wake_one (case waiter_slot (ad_admission (sa_state y)) of Some x \<Rightarrow> x | None \<Rightarrow> None)) y)
             \<lparr>sa_receiver := False, sa_job := False, sa_driver_wait := None,
              sa_dropped := sa_dropped y @ queued_jobs (ad_admission (sa_state y))\<rparr>"
  | (asked) q c ws where "request q (ad_control (sa_state y)) = (c, ws)" "z = put (sa_state y\<lparr>ad_control := c\<rparr>) ws y"
  using assms
proof (cases rule: adm_step.cases)
  case clone_sender
  then show ?thesis by (intro clone) (simp_all add: sender_clone_def)
next
  case (drop_sender s ws)
  then show ?thesis by (intro sender_gone) (simp add: sender_drop_def)
next
  case (try_reserve r s)
  from try_reserve(2) show ?thesis
    by (cases rule: try_reserve_cases) (use try_reserve in \<open>auto intro: reserve not_reserved\<close>)
next
  case (start_reserve i)
  then show ?thesis by (intro start)
next
  case (poll_reserve i b x w r b' s)
  from poll_reserve(3) show ?thesis
  proof (cases rule: reserve_poll_cases)
    case granted
    then show ?thesis using poll_reserve
      by (intro claim [of i b x]) (simp_all add: reservation_drop_def put_def wake_adm_def)
  next
    case (refused e)
    then show ?thesis using poll_reserve by (intro leave [of i b x]) (simp_all add: put_def wake_adm_def)
  next
    case (waits v)
    then show ?thesis using poll_reserve
      by (intro sleeps [of i b x v s w]) (simp_all add: put_def wake_adm_def)
  next
    case panics
    then show ?thesis using poll_reserve by (intro leave [of i b x]) (simp_all add: put_def wake_adm_def)
  qed
next
  case (drop_reserve i b x)
  then show ?thesis by (intro leave [of i b x]) simp_all
next
  case (send job r s ws)
  from send(3) show ?thesis
  proof (cases rule: permit_send_cases)
    case (sent x)
    then show ?thesis using send by (intro submit [of x job]) simp_all
  next
    case (refused e)
    then show ?thesis using send by (intro give_back [of s ws]) simp_all
  qed
next
  case (drop_permit s ws)
  then show ?thesis by (intro give_back [of s ws]) (simp_all add: permit_drop_def)
next
  case (driver_poll w r s)
  from driver_poll(4) show ?thesis
  proof (cases rule: receiver_next_cases)
    case (job j x)
    then show ?thesis using driver_poll by (intro job_taken [of j x w]) simp_all
  next
    case ended
    then show ?thesis using driver_poll by (intro driver_ends [of w]) simp_all
  next
    case waits
    then show ?thesis using driver_poll
      by (intro driver_sleeps [of w]) (simp_all add: sender_is_closed_def stopping_def)
  qed
next
  case (driver_release b s ws)
  from driver_release(4) show ?thesis
    by (cases rule: receiver_release_cases) (use driver_release in \<open>auto intro: job_kept job_done\<close>)
next
  case (driver_drop queued s ws)
  then show ?thesis
    by (intro driver_gone) (cases "ad_admission (sa_state y)"; auto simp: receiver_drop_eq)+
next
  case (control q c ws)
  then show ?thesis by (intro asked)
qed

lemma owned_by_permits: "owned_by a p j r \<Longrightarrow> p \<le> Suc 0"
  by (cases a) auto

lemma owned_by_receiver: "owned_by a p j r \<Longrightarrow> r \<longleftrightarrow> \<not> adm_is_closed a"
  by (cases a) auto

lemma adm_step_owned: "adm_step y z \<Longrightarrow> adm_owned y \<Longrightarrow> adm_owned z"
  by (erule adm_step_effect; (erule adm_release_cases)?)
     (auto simp: adm_owned_def reservation_drop_admission dest: owned_by_permits split: if_splits)

lemma adm_step_jobs: "adm_step y z \<Longrightarrow> adm_owned y \<Longrightarrow> adm_jobs y \<Longrightarrow> adm_jobs z"
  by (erule adm_step_effect; (erule adm_release_cases)?)
     (auto simp: adm_jobs_def adm_owned_def reservation_drop_admission split: if_splits)

text \<open>The registered waiter: what a step does to the flags and to the cell.\<close>

lemma adm_waiter_kept:
  assumes "adm_waiter y" "registered_by z = registered_by y"
    and "\<not> adm_is_closed (ad_admission (sa_state z)) \<Longrightarrow> \<not> adm_is_closed (ad_admission (sa_state y))
       \<and> waiting_slot (ad_admission (sa_state z)) = waiting_slot (ad_admission (sa_state y))"
  shows "adm_waiter z"
  using assms unfolding adm_waiter_def by simp

lemma adm_waiter_left:
  assumes "adm_waiter y" "registered_by z = (registered_by y)(i := False)"
    and "\<not> adm_is_closed (ad_admission (sa_state z)) \<Longrightarrow> \<not> adm_is_closed (ad_admission (sa_state y))
       \<and> (if registered_by y i then \<not> waiting_slot (ad_admission (sa_state z))
          else waiting_slot (ad_admission (sa_state z)) = waiting_slot (ad_admission (sa_state y)))"
  shows "adm_waiter z"
  using assms unfolding adm_waiter_def by (auto split: if_splits)

lemma registered_update [simp]:
  "registered_by (y\<lparr>sa_res := f(i := r)\<rparr>) = (registered_by (y\<lparr>sa_res := f\<rparr>))(i := (case r of Some (b, _) \<Rightarrow> b | None \<Rightarrow> False))"
  by (auto simp: registered_by_def fun_eq_iff)

lemma registered_put_res [simp]: "registered_by ((put s ws y)\<lparr>sa_res := sa_res y\<rparr>) = registered_by y"
  by (auto simp: registered_by_def fun_eq_iff)

lemma adm_step_waiter:
  assumes "adm_step y z" "adm_owned y" "adm_waiter y"
  shows "adm_waiter z"
  using assms(1)
proof (cases rule: adm_step_effect)
  case (start i)
  then show ?thesis by (intro adm_waiter_left [OF assms(3), of z i]) (simp_all add: registered_by_def)
next
  case (claim i b x)
  then show ?thesis by (intro adm_waiter_left [OF assms(3), of z i]) (simp_all add: registered_by_def split: if_splits)
next
  case (leave i b x)
  have "registered_by y i = b" using leave(1) by (simp add: registered_by_def)
  with leave show ?thesis
    by (intro adm_waiter_left [OF assms(3), of z i]; cases "ad_admission (sa_state y)")
       (auto simp: reservation_drop_admission split: if_splits)
next
  case (sleeps i b x w v s)
  have "registered_by y i = b" using sleeps(1) by (simp add: registered_by_def)
  with sleeps assms(3) show ?thesis unfolding adm_waiter_def
    by (auto dest!: waiter_slot_waiting split: if_splits)
next
  case (give_back s ws)
  from give_back(2) show ?thesis
    by (cases rule: adm_release_cases) (use give_back in \<open>auto intro: adm_waiter_kept [OF assms(3)]\<close>)
next
  case (job_done s ws)
  from job_done(3) show ?thesis
    by (cases rule: adm_release_cases) (use job_done in \<open>auto intro: adm_waiter_kept [OF assms(3)]\<close>)
qed (auto intro: adm_waiter_kept [OF assms(3)])

text \<open>Sleeping: a reservation sleeps on the slot, the driver on its own waker and the abort watch.\<close>

definition driver_asleep :: "'j adm_sys \<Rightarrow> waker \<Rightarrow> bool" where
  "driver_asleep y w \<longleftrightarrow>
     ad_driver (sa_state y) = Some w \<and> cs_driver (ad_control (sa_state y)) = Some w
     \<and> sa_receiver y \<and> \<not> sa_job y \<and> \<not> stopping (ad_control (sa_state y))
     \<and> queued_jobs (ad_admission (sa_state y)) = []
     \<and> (ad_senders (sa_state y) = 0 \<longrightarrow> adm_is_busy (ad_admission (sa_state y)))"

lemma adm_sleep_iff:
  "adm_sleep y \<longleftrightarrow>
     (\<forall>i b w. sa_res y i = Some (b, Some w) \<longrightarrow> b \<and> waiter_slot (ad_admission (sa_state y)) = Some (Some w))
     \<and> (\<forall>w. sa_driver_wait y = Some w \<longrightarrow> driver_asleep y w)"
  by (simp add: adm_sleep_def driver_asleep_def)

lemma put_res_Some:
  "map_option (\<lambda>(b, x). (b, unwait ws x)) r = Some (b, Some w) \<longleftrightarrow> r = Some (b, Some w) \<and> w \<notin> set ws"
  by (cases r) auto

lemma adm_step_sleep:
  assumes "adm_step y z" "adm_owned y" "adm_waiter y" "adm_sleep y"
  shows "adm_sleep z"
proof -
  have res: "b \<and> waiter_slot (ad_admission (sa_state y)) = Some (Some w)" if "sa_res y i = Some (b, Some w)" for i b w
    using assms(4) that unfolding adm_sleep_iff by blast
  have drv: "driver_asleep y w" if "sa_driver_wait y = Some w" for w
    using assms(4) that unfolding adm_sleep_iff by blast
  have awake: "sa_job y \<Longrightarrow> sa_driver_wait y = None"
    using drv by (cases "sa_driver_wait y") (auto simp: driver_asleep_def)
  have only: "j = i" if "registered_by y i" "registered_by y j" for i j
    using assms(3) that by (auto simp: adm_waiter_def)
  from assms(1) show ?thesis
  proof (cases rule: adm_step_effect)
    case (claim i b x)
    then show ?thesis
      by (auto simp: adm_sleep_iff driver_asleep_def put_res_Some adm_owned_def dest: res drv split: if_splits)
  next
    case (leave i b x)
    have "waiter_slot (ad_admission (sa_state z)) = Some (Some w)" if "sa_res z j = Some (b', Some w)" for j b' w
    proof -
      from leave(2) that have j: "sa_res y j = Some (b', Some w)" "j \<noteq> i" by (auto simp: put_res_Some split: if_splits)
      with res have "registered_by y j" by (auto simp: registered_by_def)
      with only [of i j] j(2) leave(1) have "\<not> b" by (auto simp: registered_by_def)
      with res [OF j(1)] leave(2) show ?thesis by (simp add: reservation_drop_admission)
    qed
    moreover have "b'" if "sa_res z j = Some (b', Some w)" for j b' w
      using that leave(2) res by (auto simp: put_res_Some split: if_splits)
    moreover have "driver_asleep z w" if "sa_driver_wait z = Some w" for w
      using drv [of w] that leave(2)
      by (cases "ad_admission (sa_state y)") (auto simp: driver_asleep_def reservation_drop_admission split: if_splits)
    ultimately show ?thesis unfolding adm_sleep_iff by blast
  next
    case (sleeps i b x w v s)
    have "j = i" if "sa_res y j = Some (b', Some w')" for j b' w'
    proof -
      have "registered_by y j" "waiter_slot (ad_admission (sa_state y)) = Some (Some w')"
        using res [OF that] that by (auto simp: registered_by_def)
      with sleeps(1-3) only [of i j] show ?thesis by (auto simp: registered_by_def)
    qed
    then show ?thesis using sleeps
      by (auto simp: adm_sleep_iff driver_asleep_def put_res_Some admission_waker_def stopping_def dest: drv split: if_splits)
  next
    case (give_back s ws)
    from give_back(2) show ?thesis
      by (cases rule: adm_release_cases)
         (use give_back in \<open>auto simp: adm_sleep_iff driver_asleep_def put_res_Some dest: res drv split: if_splits\<close>)
  next
    case (job_done s ws)
    from job_done(3) show ?thesis
      by (cases rule: adm_release_cases)
         (use job_done in \<open>auto simp: adm_sleep_iff driver_asleep_def put_res_Some dest: res drv split: if_splits\<close>)
  next
    case (asked q c ws)
    have "w \<in> set ws" if "driver_asleep y w" for w
      using that asked(1) shutdown_requests_wakes [of q "ad_control (sa_state y)"] by (simp add: driver_asleep_def)
    then show ?thesis using asked(2) by (auto simp: adm_sleep_iff put_res_Some dest: res drv)
  qed (auto simp: adm_sleep_iff driver_asleep_def put_res_Some sender_is_closed_def stopping_def admission_waker_def awake dest: res drv)
qed

definition adm_inv :: "'j adm_sys \<Rightarrow> bool" where
  "adm_inv y \<longleftrightarrow> adm_owned y \<and> adm_waiter y \<and> adm_sleep y \<and> adm_jobs y"

interpretation adm: step_invariant adm_step adm_inv
  by unfold_locales
    (auto simp: adm_inv_def intro: adm_step_owned adm_step_waiter adm_step_sleep adm_step_jobs)

lemma adm_reachable_inv: "adm_reachable y \<Longrightarrow> adm_inv y"
proof -
  have "adm_inv adm_sys_init"
    by (simp add: adm_inv_def adm_owned_def adm_waiter_def adm_sleep_def adm_jobs_def adm_sys_init_def adm_channel_def registered_by_def)
  then show "adm_reachable y \<Longrightarrow> adm_inv y" unfolding adm_reachable_def by (rule adm.keeps_star [rotated])
qed

lemma adm_reachable_step: "adm_reachable y \<Longrightarrow> adm_step y z \<Longrightarrow> adm_reachable z"
  unfolding adm_reachable_def by (rule rtranclp.rtrancl_into_rtrancl)

section \<open>Properties\<close>

text \<open>
  C13. Admission has one owner at a time: at most one permit exists, it excludes a queued or
  active request, and at most one reservation is registered as waiting. No panic of the
  module is reached: a permit can always be sent or dropped, the driver can always release an
  exchange, and every poll of a reservation returns.
\<close>

theorem admission_exclusive:
  assumes "adm_reachable y"
  shows "sa_permits y \<le> 1 \<and> \<not> (0 < sa_permits y \<and> (sa_job y \<or> queued_jobs (ad_admission (sa_state y)) \<noteq> []))
    \<and> (\<forall>i j. registered_by y i \<and> registered_by y j \<longrightarrow> i = j)
    \<and> (0 < sa_permits y \<longrightarrow> permit_send job (sa_state y) \<noteq> None \<and> permit_drop True (sa_state y) \<noteq> None)
    \<and> (sa_job y \<longrightarrow> receiver_release (sa_state y) \<noteq> None)
    \<and> (\<forall>i b x. sa_res y i = Some (b, x) \<longrightarrow> fst (reserve_poll w b (sa_state y)) \<noteq> Unreachable)"
proof -
  have inv: "adm_owned y" "adm_waiter y" using adm_reachable_inv [OF assms] by (simp_all add: adm_inv_def)
  have "fst (reserve_poll w b (sa_state y)) \<noteq> Unreachable" if "sa_res y i = Some (b, x)" for i b x
  proof
    assume "fst (reserve_poll w b (sa_state y)) = Unreachable"
    then have "b" "ad_admission (sa_state y) = AD_Ready"
      using reserve_poll_panics [of w b "sa_state y"] by (cases "reserve_poll w b (sa_state y)"; auto)+
    moreover from that \<open>b\<close> have "registered_by y i" by (simp add: registered_by_def)
    ultimately show False using inv(2) unfolding adm_waiter_def by auto
  qed
  moreover have "\<forall>i j. registered_by y i \<and> registered_by y j \<longrightarrow> i = j" using inv(2) by (simp add: adm_waiter_def)
  moreover have "sa_permits y \<le> 1 \<and> \<not> (0 < sa_permits y \<and> (sa_job y \<or> queued_jobs (ad_admission (sa_state y)) \<noteq> []))
    \<and> (0 < sa_permits y \<longrightarrow> permit_send job (sa_state y) \<noteq> None \<and> permit_drop True (sa_state y) \<noteq> None)
    \<and> (sa_job y \<longrightarrow> receiver_release (sa_state y) \<noteq> None)"
    using inv(1)
    by (cases "ad_admission (sa_state y)")
       (auto simp: adm_owned_def permit_send_def permit_drop_def receiver_release_def adm_release_def Let_def)
  ultimately show ?thesis by blast
qed

text \<open>A reservation waits behind a permit.\<close>

definition adm_run_permit :: "nat adm_sys" where
  "adm_run_permit = adm_sys_init\<lparr>sa_state := adm_channel control_new\<lparr>ad_admission := AD_Reserved None\<rparr>, sa_permits := 1\<rparr>"

definition adm_run_waiting :: "nat adm_sys" where
  "adm_run_waiting = adm_run_permit
     \<lparr>sa_state := adm_channel control_new\<lparr>ad_control := admission_waker 4 control_new, ad_admission := AD_Reserved (Some 4)\<rparr>,
      sa_res := [0 \<mapsto> (True, Some 4)]\<rparr>"

lemma adm_run_permit_reachable: "adm_reachable adm_run_permit"
proof (rule adm_reachable_step)
  show "adm_reachable (adm_sys_init :: nat adm_sys)" by (simp add: adm_reachable_def)
  show "adm_step adm_sys_init adm_run_permit"
    using adm_step.try_reserve [of "adm_sys_init :: nat adm_sys"]
    by (simp add: try_reserve_def adm_run_permit_def adm_sys_init_def adm_channel_def adm_is_closed_def stopping_def control_new_def
        put_def wake_adm_def unwait_def)
qed

lemma adm_run_waiting_reachable: "adm_reachable adm_run_waiting"
proof -
  let ?y = "adm_run_permit\<lparr>sa_res := [0 \<mapsto> (False, None)]\<rparr>"
  have "adm_step adm_run_permit ?y"
    using adm_step.start_reserve [of adm_run_permit 0] by (simp add: adm_run_permit_def adm_sys_init_def)
  with adm_run_permit_reachable have "adm_reachable ?y" by (rule adm_reachable_step)
  moreover have "adm_step ?y adm_run_waiting"
    using adm_step.poll_reserve [of ?y 0 False None 4]
    by (simp add: reserve_poll_def adm_run_waiting_def adm_run_permit_def adm_sys_init_def adm_channel_def stopping_def
        control_new_def put_def wake_adm_def unwait_def)
  ultimately show ?thesis by (rule adm_reachable_step)
qed

theorem admission_exclusive_witness:
  "sa_permits adm_run_waiting = 1 \<and> permit_send 7 (sa_state adm_run_waiting) \<noteq> None"
  using admission_exclusive [OF adm_run_waiting_reachable, of 7] by (simp add: adm_run_waiting_def adm_run_permit_def)

text \<open>
  Every request accepted by a permit is handed to the driver exactly once and in order,
  or is the one still queued, or was dropped with the driver; nothing is dropped while
  the driver lives.
\<close>

theorem admission_delivers:
  assumes "adm_reachable y"
  shows "sa_sent y = sa_taken y @ queued_jobs (ad_admission (sa_state y)) @ sa_dropped y
    \<and> (sa_receiver y \<longrightarrow> sa_dropped y = [])"
  using adm_reachable_inv [OF assms] by (simp add: adm_inv_def adm_jobs_def)

theorem admission_delivers_witness:
  "sa_sent adm_run_waiting = sa_taken adm_run_waiting @ sa_dropped adm_run_waiting"
  using admission_delivers [OF adm_run_waiting_reachable]
  by (simp add: adm_run_waiting_def adm_run_permit_def adm_sys_init_def adm_channel_def)



end
