(* ===== verification/Spec2Isabelle.thy ===== *)
theory Spec2Isabelle
  imports Body_Transfer Server_Laws Reader_Body Collect Admission
begin

text \<open>
  Verification of vakya, an HTTP/1 client and server library on completion-based local I/O.

  \<^bold>\<open>The program.\<close> A connection has one driver (\<open>src/src/proto/h1/client.rs\<close> or \<open>server.rs\<close>) that owns
  the transport. The client's driver takes requests from an admission cell (\<open>client/admission.rs\<close>) one
  at a time; the server's reads them off the transport. For each exchange the driver plans and writes a
  head (\<open>proto/h1/encode.rs\<close>), sends the body's frames through an encoder (\<open>proto/h1/body_io.rs\<close>,
  \<open>io/send.rs\<close>), scans, parses and validates the peer's head (\<open>proto/h1/head/\<close>), and decodes the
  peer's body (\<open>proto/h1/decode.rs\<close>) out of a receive buffer (\<open>io/recv.rs\<close>) into a one-place rendezvous
  (\<open>body/pipe.rs\<close>) from which the application takes frames (\<open>body/incoming.rs\<close>). An exchange policy
  (\<open>proto/h1/exchange.rs\<close>) then decides whether the connection is reused, closed or handed over
  (\<open>upgrade.rs\<close>). The application controls an exchange through shared cells (\<open>client/response.rs\<close>,
  \<open>client/completion.rs\<close>, \<open>server/context.rs\<close>) and the connection through shutdown requests
  (\<open>connection.rs\<close>).

  \<^bold>\<open>How it is modelled.\<close> A struct is a record, an enum a datatype with the source's variants, and each
  operation a function at the top level of the theory of its component, with every early return
  and every error as a branch. A 64-bit length is a word with its checked operations, a length of
  memory a natural number with the bound written out where the code checks it. \<open>Result\<close> is the datatype
  \<open>result\<close>; a panic is \<open>None\<close>. An \<open>async fn\<close> is the function from what its awaits report to its result;
  a hand-written future is its \<open>poll\<close> and its \<open>drop\<close>, with the wakers it stores and wakes. Where several
  tasks share a cell, an inductive step relation lets them take their operations in any order, and
  the theorems are invariants of its reachable states. A loop that ends for a reason outside the code
  is \<open>iterate\<close> (theory \<open>Loops\<close>), a partial function whose value \<open>None\<close> stands for not returning or for a
  panic; theorems about such a loop show that it returns. The number of calls given to \<open>run_body\<close> is not
  a bound of the model: the theorems hold for every number at which the body has ended.

  \<^bold>\<open>Parameters.\<close> Code outside the repository is an argument: the \<open>http\<close> types (\<open>http_api\<close>), the
  \<open>httparse\<close> parser (\<open>httparse_api\<close>), the \<open>bytes\<close> buffers (\<open>buffer_api\<close>), the allocator, the clock, the
  text of a date, and the transport (\<open>reader_api\<close>, \<open>writer_api\<close>). What the code relies on is a named
  predicate that states documented behaviour (\<open>header_map_laws\<close>, \<open>parse_headers_law\<close>, \<open>buffer_laws\<close>,
  \<open>reader_laws\<close>, \<open>stream_transport\<close>, \<open>writer_laws\<close>, \<open>patient\<close>, \<open>reliable\<close>), and concrete instances satisfy
  it (\<open>alist_http\<close>, \<open>empty_httparse\<close>, \<open>demo_httparse\<close>, \<open>list_buffer\<close>, \<open>list_reader\<close>, \<open>list_writer\<close>); the
  witnesses evaluate the theorems there.

  \<^bold>\<open>Theories.\<close>

  \<^item> \<open>Vakya_Prelude\<close>: \<open>result\<close>, bytes and words, list lemmas, and the locales \<open>incremental_scan\<close> (resumable
    searches) and \<open>step_invariant\<close> (step relations), interpreted by the components. \<open>Loops\<close>: loops that may not end.
    \<open>Vakya_Errors\<close>: \<open>error.rs\<close> and the conversions into it. \<open>Http_Api\<close>, \<open>Transport_Api\<close>: the parameters.
  \<^item> \<open>H1_Syntax\<close>, \<open>H1_Types\<close>: \<open>proto/h1/syntax.rs\<close> and \<open>proto/h1.rs\<close>.
  \<^item> \<open>Decode\<close>, \<open>Decode_Laws\<close>, \<open>Decode_Stream\<close>: \<open>proto/h1/decode.rs\<close>, the incremental body decoder. It reads
    the same from every fragmentation of its input (locale \<open>stream_decoder\<close>), keeps its budgets and its errors.
  \<^item> \<open>Head_Scan\<close>, \<open>Head_Validate\<close>: \<open>proto/h1/head/scan.rs\<close> and \<open>validate.rs\<close>. The resumable search for the
    end of a head equals a search over the whole input; the length fields, the framing and the host are
    characterised exactly.
  \<^item> \<open>Body_Types\<close>, \<open>Encode\<close>, \<open>Encode_Laws\<close>, \<open>Roundtrip\<close>: \<open>proto/h1/encode.rs\<close> and the body metadata. Planned
    framing is what the recipient derives; encoded bodies decode to their payload.
  \<^item> \<open>Body\<close>, \<open>Body_Adapters\<close>, \<open>Body_Adapter_Laws\<close>, \<open>Collect\<close>, \<open>Reader_Body\<close>: the trait \<open>Body\<close> with its
    documented contract as the locales \<open>body_source\<close>, \<open>body_contract\<close>, \<open>sized_body\<close> and \<open>ordered_body\<close>,
    interpreted on the library's bodies; the adapters, the collector, and the bodies over readers and
    files (\<open>body/*.rs\<close>).
  \<^item> \<open>Pipe\<close>, \<open>Incoming_Data\<close>, \<open>Incoming\<close>: the rendezvous, payload views and the received body. Items are
    delivered or given back once and in order, and no wake-up is lost.
  \<^item> \<open>Exchange\<close>: the exchange policy and its verdict. \<open>Config\<close>: settings and deadlines
    (\<open>proto/h1/config.rs\<close>, \<open>io/deadline.rs\<close>).
  \<^item> \<open>Receive\<close>: \<open>io/recv.rs\<close> and the receive policies of \<open>io/transport.rs\<close>; the buffer refines a byte
    queue, and the locales \<open>receive_policy\<close> and \<open>stream_policy\<close> are interpreted on both policies. \<open>Send\<close>: the complete
    writes of \<open>io/send.rs\<close>.
  \<^item> \<open>Body_Send\<close>, \<open>Body_Receive\<close>, \<open>Body_Transfer\<close>: the body drivers of \<open>proto/h1/body_io.rs\<close>, each exact, and
    composed: what one peer sends the other receives.
  \<^item> \<open>Admission\<close>: \<open>client/admission.rs\<close>. \<open>Connection_Control\<close>: \<open>connection.rs\<close>. \<open>Upgrade\<close>: \<open>upgrade.rs\<close> and
    \<open>upgrade/boxed.rs\<close>. \<open>Response_Control\<close>: \<open>client/response.rs\<close> and \<open>client/completion.rs\<close>.
    \<open>Request_Context\<close>: \<open>server/context.rs\<close>. Each has its cell, the polls and drops of all its handles, a
    step relation and invariants.
  \<^item> \<open>Head_Receive\<close>, \<open>Message_Receive\<close>: the head loops of both drivers and the reception of a whole request
    or response, equal to reading the whole stream at once.
  \<^item> \<open>Message_Send\<close>, \<open>Client_Driver\<close>, \<open>Server_Driver\<close>, \<open>Server_Laws\<close>: sending a request or response, the
    composition of the two directions of an exchange, informational heads, replies to illegal heads,
    the connection loops, their receipts and what becomes of the transport.

  \<^bold>\<open>The theorems\<close> marked with a claim number state, for the components in this order: exactness of whole
  messages received and sent; invariance of the decoder under fragmentation; framing that leaves no
  choice to an attacker; exactly-once delivery through every shared cell and absence of lost
  wake-ups; which end of an exchange allows which use of the connection; bounds of buffers, heads and
  budgets; the behaviour of bodies and adapters. Theorems without a number complete their components.

  \<^bold>\<open>Bounds.\<close> Buffers are bounded by the limits the code is configured with, which are variables; the
  theorems ask that the retained-input bound exceeds the head limit and what the decoder may leave
  unread, as the builder's defaults do. No other fuel is used.

  \<^bold>\<open>Not modelled.\<close> Text output (\<open>Debug\<close>, \<open>Display\<close>, \<open>trace.rs\<close>); the builders, which forward to the
  modelled setters and box the driver futures; \<open>future.rs\<close> beyond its outcomes: polling two futures in
  turn and yielding to the executor choose an order that is an argument here; the service trait and its
  adapters, which forward to application code; the forwarding of boxed transport halves, whose effect is
  the wrapped half's; \<open>tls.rs\<close> and the TLS information carried to the application; and the uninitialised
  memory behind header slots and vectored reads, whose safety argument is about Rust's memory model.
\<close>

end
